(* ===== verification/Prelude.thy ===== *)
theory Prelude
  imports Main "HOL-Library.Word"
begin

text \<open>
  Shared vocabulary of the development: the machine integers and byte strings of the Go code,
  its sentinel errors, the result type of fallible functions with the sequencing operator the
  models are written in, the checked 64-bit additions and multiplications, the little-endian
  integer codec of \<^verbatim>\<open>encoding/binary\<close>, and the contract of a byte codec that the fixed-width
  record formats instantiate.
\<close>

unbundle bit_operations_syntax

section \<open>Types\<close>

type_synonym u8 = "8 word"
type_synonym u16 = "16 word"
type_synonym u32 = "32 word"
type_synonym u64 = "64 word"

text \<open>A Go \<^verbatim>\<open>[]byte\<close>; a Go \<^verbatim>\<open>string\<close> is also a sequence of bytes.\<close>

type_synonym bytes = "u8 list"

text \<open>
  Lemmas that invert a successful run of a fallible function, the length facts of the
  encoders, and the laws of the readers.
\<close>

named_theorems inr_simps \<open>a fallible step succeeded\<close>
named_theorems len_simps \<open>lengths of encodings\<close>

section \<open>Errors\<close>

text \<open>
  The sentinel errors of \<^verbatim>\<open>internal/format/header.go\<close> (prefix \<open>Fmt\<close>),
  \<^verbatim>\<open>internal/pathutil/path.go\<close> and \<^verbatim>\<open>fbx/errors.go\<close>, and the errors of the Go library the
  code returns unchanged. \<open>LibErr\<close> stands for an error value produced by the operating
  system or a third-party codec; its argument tells different ones apart.
\<close>

datatype error =
    FmtInvalidHeader | FmtInvalidDir | FmtInvalidChunk | FmtCRCMismatch | FmtBadCodec
  | FmtLimitExceeded | PathUtilInvalid
  | ErrNotFound | ErrAlreadyExists | ErrInvalidFormat | ErrCRCMismatch
  | ErrUnsupportedFeature | ErrUnsupportedCodec | ErrPathInvalid | ErrLimitExceeded
  | IoEOF | IoUnexpectedEOF | IoErrClosedPipe | IoNegativeOffset
  | AppendZeroData | ContainerClosed | TransactionActive | LibErr nat

type_synonym 'a result = "error + 'a"

text \<open>\<^verbatim>\<open>mapErr\<close> of \<^verbatim>\<open>fbx/container.go\<close>: format-level errors as errors of the public package.\<close>

fun mapErr :: "error \<Rightarrow> error" where
  "mapErr FmtInvalidHeader = ErrInvalidFormat"
| "mapErr FmtInvalidDir = ErrInvalidFormat"
| "mapErr FmtInvalidChunk = ErrInvalidFormat"
| "mapErr FmtBadCodec = ErrUnsupportedCodec"
| "mapErr FmtLimitExceeded = ErrLimitExceeded"
| "mapErr FmtCRCMismatch = ErrCRCMismatch"
| "mapErr PathUtilInvalid = ErrPathInvalid"
| "mapErr e = e"

text \<open>\<^verbatim>\<open>x, err := m; if err != nil { return err }; ...\<close>\<close>

definition rbind :: "'a result \<Rightarrow> ('a \<Rightarrow> 'b result) \<Rightarrow> 'b result" where
  "rbind m f = (case m of Inl e \<Rightarrow> Inl e | Inr x \<Rightarrow> f x)"

text \<open>The same for a step whose only failure is one given error.\<close>

definition or_err :: "error \<Rightarrow> 'a option \<Rightarrow> 'a result" where
  "or_err e m = (case m of None \<Rightarrow> Inl e | Some x \<Rightarrow> Inr x)"

definition map_err :: "(error \<Rightarrow> error) \<Rightarrow> 'a result \<Rightarrow> 'a result" where
  "map_err h m = (case m of Inl e \<Rightarrow> Inl (h e) | Inr x \<Rightarrow> Inr x)"

lemma rbind_simps [simp]:
  "rbind (Inl e) f = Inl e"
  "rbind (Inr x) f = f x"
  by (simp_all add: rbind_def)

lemma rbind_eq_Inr [inr_simps]: "rbind m f = Inr y \<longleftrightarrow> (\<exists>x. m = Inr x \<and> f x = Inr y)"
  by (cases m) auto

lemma rbind_eq_Inl: "rbind m f = Inl e \<longleftrightarrow> m = Inl e \<or> (\<exists>x. m = Inr x \<and> f x = Inl e)"
  by (cases m) auto

lemma rbind_cong [fundef_cong]:
  "m = m' \<Longrightarrow> (\<And>x. m' = Inr x \<Longrightarrow> f x = f' x) \<Longrightarrow> rbind m f = rbind m' f'"
  by (cases m') auto

lemma rbind_split:
  "P (rbind m f) \<longleftrightarrow> (\<forall>e. m = Inl e \<longrightarrow> P (Inl e)) \<and> (\<forall>x. m = Inr x \<longrightarrow> P (f x))"
  by (cases m) auto

lemma or_err_simps [simp]:
  "or_err e None = Inl e"
  "or_err e (Some x) = Inr x"
  by (simp_all add: or_err_def)

lemma or_err_eq_Inr [inr_simps]: "or_err e m = Inr y \<longleftrightarrow> m = Some y"
  by (cases m) auto

lemma map_err_simps [simp]:
  "map_err h (Inl e) = Inl (h e)"
  "map_err h (Inr x) = Inr x"
  by (simp_all add: map_err_def)

lemma map_err_eq_Inr [inr_simps]: "map_err h m = Inr y \<longleftrightarrow> m = Inr y"
  by (cases m) auto

lemma if_err_eq_Inr [inr_simps]: "(if b then Inl e else m) = Inr y \<longleftrightarrow> \<not> b \<and> m = Inr y"
  by simp

section \<open>Checked arithmetic\<close>

text \<open>
  \<^verbatim>\<open>addUint64\<close> and \<^verbatim>\<open>mulUint64\<close> of \<^verbatim>\<open>internal/format/directory.go\<close>, repeated as
  \<^verbatim>\<open>addUint64Checked\<close> and \<^verbatim>\<open>mulUint64Checked\<close> in \<^verbatim>\<open>fbx/container.go\<close>. The pair
  \<open>(value, ok)\<close> is an option: the value that goes with \<open>false\<close> is never used.
\<close>

definition addUint64 :: "u64 \<Rightarrow> u64 \<Rightarrow> u64 option" where
  "addUint64 a b = (if a > NOT 0 - b then None else Some (a + b))"

definition mulUint64 :: "u64 \<Rightarrow> u64 \<Rightarrow> u64 option" where
  "mulUint64 a b =
     (if a = 0 \<or> b = 0 then Some 0
      else if a > NOT 0 div b then None
      else Some (a * b))"

text \<open>\<^verbatim>\<open>int(^uint(0) >> 1)\<close> on the 64-bit platforms the model is for.\<close>

definition maxInt :: u64 where
  "maxInt = 0x7FFFFFFFFFFFFFFF"

lemma unat_u64_lt: "unat (a :: u64) < 2 ^ 64"
proof -
  have "unat a < 2 ^ LENGTH(64)" by (rule unsigned_less)
  then show ?thesis by simp
qed

lemma unat_u32_lt: "unat (a :: u32) < 2 ^ 32"
proof -
  have "unat a < 2 ^ LENGTH(32)" by (rule unsigned_less)
  then show ?thesis by simp
qed

lemma unat_u8_lt: "unat (a :: u8) < 256"
proof -
  have "unat a < 2 ^ LENGTH(8)" by (rule unsigned_less)
  then show ?thesis by simp
qed

lemma unat_max_u64: "unat (- 1 :: u64) = 2 ^ 64 - 1"
  by (simp add: unsigned_minus_1_eq_mask mask_eq_exp_minus_1)

lemma addUint64_alt:
  "addUint64 a b = (if unat a + unat b < 2 ^ 64 then Some (a + b) else None)"
proof -
  have "unat (- 1 - b) = 2 ^ 64 - 1 - unat b"
    using unat_max_u64 unat_u64_lt [of b] by (simp add: unat_sub word_le_nat_alt)
  then have "(a > - 1 - b) = (\<not> unat a + unat b < 2 ^ 64)"
    using unat_u64_lt [of b] by (simp add: word_less_nat_alt) linarith
  then show ?thesis by (simp add: addUint64_def)
qed

lemma mulUint64_alt:
  "mulUint64 a b = (if unat a * unat b < 2 ^ 64 then Some (a * b) else None)"
proof (cases "a = 0 \<or> b = 0")
  case True
  then show ?thesis by (auto simp: mulUint64_def)
next
  case False
  then have b: "0 < unat b" by (simp add: unat_gt_0)
  have "(a > - 1 div b) = (unat a > (2 ^ 64 - 1) div unat b)"
    by (simp add: word_less_nat_alt unat_div unat_max_u64)
  also have "\<dots> = (\<not> unat a * unat b < 2 ^ 64)"
    using b by (auto simp: div_less_iff_less_mult)
  finally show ?thesis using False by (simp add: mulUint64_def)
qed

lemma addUint64_eq_Some:
  "addUint64 a b = Some c \<longleftrightarrow> unat a + unat b < 2 ^ 64 \<and> c = a + b"
  by (auto simp: addUint64_alt)

lemma unat_add_u64:
  "unat a + unat b < 2 ^ 64 \<Longrightarrow> unat (a + b :: u64) = unat a + unat b"
  by (simp add: unat_word_ariths)

lemma addUint64_SomeD: "addUint64 a b = Some c \<Longrightarrow> unat c = unat a + unat b"
  by (auto simp: addUint64_eq_Some unat_add_u64)

lemma addUint64_ok:
  "unat a + unat b < 2 ^ 64 \<Longrightarrow> \<exists>c. addUint64 a b = Some c \<and> unat c = unat a + unat b"
  by (auto simp: addUint64_alt unat_add_u64)

lemma unat_mult_u64:
  "unat a * unat b < 2 ^ 64 \<Longrightarrow> unat (a * b :: u64) = unat a * unat b"
  by (simp add: unat_word_ariths)

lemma mulUint64_SomeD: "mulUint64 a b = Some c \<Longrightarrow> unat c = unat a * unat b"
  by (auto simp: mulUint64_alt unat_mult_u64 split: if_splits)

text \<open>
  Both checked operations as functions of natural numbers: the form in which every size and
  offset computation of the format code is reasoned about.
\<close>

lemma addUint64_of_nat:
  "addUint64 (of_nat m) (of_nat n) = (if m + n < 2 ^ 64 then Some (of_nat (m + n)) else None)"
  if "m < 2 ^ 64" "n < 2 ^ 64"
  using that by (simp add: addUint64_alt unat_of_nat)

lemma mulUint64_of_nat:
  "mulUint64 (of_nat m) (of_nat n) = (if m * n < 2 ^ 64 then Some (of_nat (m * n)) else None)"
  if "m < 2 ^ 64" "n < 2 ^ 64"
  using that by (simp add: mulUint64_alt unat_of_nat)

text \<open>Conversions between the widths.\<close>

lemma unat_ucast_u32 [simp]: "unat (ucast (x :: u32) :: u64) = unat x"
  using unat_u32_lt [of x] by (simp add: unsigned_ucast_eq take_bit_nat_eq_self)

lemma unat_of_nat_u32: "n < 2 ^ 32 \<Longrightarrow> unat (of_nat n :: u32) = n"
  by (simp add: unat_of_nat)

lemma length_eq_unat: "length xs = unat (c :: u32) \<Longrightarrow> c = of_nat (length xs) \<and> length xs < 2 ^ 32"
  using unat_u32_lt [of c] by simp

lemma of_nat_less_u64: "n < 2 ^ 64 \<Longrightarrow> (of_nat n :: u64) < w \<longleftrightarrow> n < unat w"
  by (simp add: word_less_nat_alt unat_of_nat)

lemma ucast_of_nat_u32: "n < 2 ^ 32 \<Longrightarrow> (ucast (of_nat n :: u32) :: u64) = of_nat n"
  by (simp only: word_unat_eq_iff unat_ucast_u32) (simp add: unat_of_nat)

lemma unat_ucast_down: "unat (w :: u64) < 2 ^ 32 \<Longrightarrow> unat (ucast w :: u32) = unat w"
  by (simp add: unsigned_ucast_eq take_bit_nat_eq_self)

lemma range_end:
  fixes f s :: u32
  shows "addUint64 (ucast f) (ucast s) = Some (ucast f + ucast s)"
    and "unat (ucast f + ucast s :: u64) = unat f + unat s"
  using unat_u32_lt [of f] unat_u32_lt [of s] by (simp_all add: addUint64_alt unat_add_u64)

section \<open>Byte slices\<close>

text \<open>\<^verbatim>\<open>b[lo:hi]\<close>, and the effect of \<^verbatim>\<open>copy(b[off:], x)\<close> on a buffer long enough.\<close>

definition sub_bytes :: "bytes \<Rightarrow> nat \<Rightarrow> nat \<Rightarrow> bytes" where
  "sub_bytes b lo hi = take (hi - lo) (drop lo b)"

definition put_at :: "nat \<Rightarrow> bytes \<Rightarrow> bytes \<Rightarrow> bytes" where
  "put_at off x b = take off b @ x @ drop (off + length x) b"

lemma length_sub_bytes [simp]: "length (sub_bytes b lo hi) = min (hi - lo) (length b - lo)"
  by (simp add: sub_bytes_def min.commute)

lemma sub_bytes_append1: "hi \<le> length a \<Longrightarrow> sub_bytes (a @ b) lo hi = sub_bytes a lo hi"
  by (simp add: sub_bytes_def)

lemma sub_bytes_append2:
  "length a \<le> lo \<Longrightarrow> sub_bytes (a @ b) lo hi = sub_bytes b (lo - length a) (hi - length a)"
  by (simp add: sub_bytes_def)

lemma sub_bytes_split:
  assumes "lo \<le> mid" "mid \<le> hi"
  shows "sub_bytes b lo mid @ sub_bytes b mid hi = sub_bytes b lo hi"
proof -
  have "hi - lo = (mid - lo) + (hi - mid)" and "drop (mid - lo) (drop lo b) = drop mid b"
    using assms by simp_all
  then show ?thesis by (simp only: sub_bytes_def take_add)
qed

lemma length_put_at [simp]: "off + length x \<le> length b \<Longrightarrow> length (put_at off x b) = length b"
  by (simp add: put_at_def)

lemma sub_put_at_same:
  "off + length x \<le> length b \<Longrightarrow> hi = off + length x \<Longrightarrow> sub_bytes (put_at off x b) off hi = x"
  by (simp add: put_at_def sub_bytes_def)

lemma sub_put_at_before:
  "hi \<le> off \<Longrightarrow> off \<le> length b \<Longrightarrow> sub_bytes (put_at off x b) lo hi = sub_bytes b lo hi"
  by (cases "lo \<le> hi") (simp_all add: put_at_def sub_bytes_def take_drop min_absorb1)

lemma sub_put_at_after:
  "off + length x \<le> lo \<Longrightarrow> off \<le> length b \<Longrightarrow>
   sub_bytes (put_at off x b) lo hi = sub_bytes b lo hi"
  by (simp add: put_at_def sub_bytes_def)

lemma put_at_nth_before: "i < off \<Longrightarrow> off \<le> length b \<Longrightarrow> put_at off x b ! i = b ! i"
  by (simp add: put_at_def nth_append)

section \<open>Little-endian integers\<close>

text \<open>
  \<^verbatim>\<open>binary.LittleEndian.PutUintN\<close> and \<^verbatim>\<open>UintN\<close>: the low byte first.
\<close>

fun le_put :: "nat \<Rightarrow> nat \<Rightarrow> bytes" where
  "le_put 0 x = []"
| "le_put (Suc n) x = of_nat x # le_put n (x div 256)"

fun le_get :: "bytes \<Rightarrow> nat" where
  "le_get [] = 0"
| "le_get (b # bs) = unat b + 256 * le_get bs"

lemma length_le_put [simp, len_simps]: "length (le_put n x) = n"
  by (induction n arbitrary: x) auto

lemma le_get_put: "le_get (le_put n x) = x mod 256 ^ n"
proof (induction n arbitrary: x)
  case 0
  then show ?case by simp
next
  case (Suc n)
  have "x mod 256 + 256 * (x div 256 mod 256 ^ n) = x mod (256 * 256 ^ n)"
    by (simp add: mod_mult2_eq add.commute)
  then show ?case using Suc by (simp add: unat_of_nat)
qed

lemma le_put_get: "le_put (length bs) (le_get bs) = bs"
proof (induction bs)
  case Nil
  then show ?case by simp
next
  case (Cons b bs)
  have z: "(256 :: u8) = 0" by transfer (simp add: take_bit_eq_mod)
  have "of_nat (unat b + 256 * le_get bs) = b + 256 * of_nat (le_get bs)" by simp
  also have "\<dots> = b" unfolding z by simp
  finally have "of_nat (unat b + 256 * le_get bs) = b" .
  moreover have "(unat b + 256 * le_get bs) div 256 = le_get bs"
    using unat_u8_lt [of b] by simp
  ultimately show ?case using Cons by simp
qed

lemma le_get_less: "le_get bs < 256 ^ length bs"
proof (induction bs)
  case Nil
  then show ?case by simp
next
  case (Cons b bs)
  then have "le_get bs + 1 \<le> 256 ^ length bs" by simp
  then have "256 * (le_get bs + 1) \<le> 256 * 256 ^ length bs" by (rule mult_le_mono2)
  then show ?case using unat_u8_lt [of b] by simp
qed

definition put_u16 :: "u16 \<Rightarrow> bytes" where "put_u16 w = le_put 2 (unat w)"
definition put_u32 :: "u32 \<Rightarrow> bytes" where "put_u32 w = le_put 4 (unat w)"
definition put_u64 :: "u64 \<Rightarrow> bytes" where "put_u64 w = le_put 8 (unat w)"

definition get_u16 :: "bytes \<Rightarrow> u16" where "get_u16 b = of_nat (le_get b)"
definition get_u32 :: "bytes \<Rightarrow> u32" where "get_u32 b = of_nat (le_get b)"
definition get_u64 :: "bytes \<Rightarrow> u64" where "get_u64 b = of_nat (le_get b)"

lemma length_put_uint [simp, len_simps]:
  "length (put_u16 a) = 2" "length (put_u32 b) = 4" "length (put_u64 c) = 8"
  by (simp_all add: put_u16_def put_u32_def put_u64_def)

lemma get_put_uint [simp]:
  "get_u16 (put_u16 a) = a" "get_u32 (put_u32 b) = b" "get_u64 (put_u64 c) = c"
proof -
  have "unat a < 2 ^ LENGTH(16)" by (rule unsigned_less)
  then show "get_u16 (put_u16 a) = a" by (simp add: get_u16_def put_u16_def le_get_put)
  show "get_u32 (put_u32 b) = b"
    using unat_u32_lt [of b] by (simp add: get_u32_def put_u32_def le_get_put)
  show "get_u64 (put_u64 c) = c"
    using unat_u64_lt [of c] by (simp add: get_u64_def put_u64_def le_get_put)
qed

lemma le_put_word_get:
  assumes "length b = n" and "256 ^ n = (2 :: nat) ^ LENGTH('a)"
  shows "le_put n (unat (of_nat (le_get b) :: 'a::len word)) = b"
proof -
  have "le_get b < 2 ^ LENGTH('a)" using le_get_less [of b] assms by simp
  then have "unat (of_nat (le_get b) :: 'a word) = le_get b"
    by (simp add: unat_of_nat)
  then show ?thesis using le_put_get [of b] assms(1) by simp
qed

lemma put_get_uint:
  "length b = 2 \<Longrightarrow> put_u16 (get_u16 b) = b"
  "length b = 4 \<Longrightarrow> put_u32 (get_u32 b) = b"
  "length b = 8 \<Longrightarrow> put_u64 (get_u64 b) = b"
  by (simp_all add: get_u16_def put_u16_def get_u32_def put_u32_def get_u64_def put_u64_def
      le_put_word_get)

section \<open>Sequential readers\<close>

text \<open>
  \<^verbatim>\<open>binary.Read\<close> and \<^verbatim>\<open>io.ReadFull\<close> on a \<^verbatim>\<open>bytes.Reader\<close>: the value and the bytes left, or
  failure when fewer bytes are left than the value needs.
\<close>

definition rd_bytes :: "nat \<Rightarrow> bytes \<Rightarrow> (bytes \<times> bytes) option" where
  "rd_bytes n r = (if n \<le> length r then Some (take n r, drop n r) else None)"

definition rd_u16 :: "bytes \<Rightarrow> (u16 \<times> bytes) option" where
  "rd_u16 r = map_option (\<lambda>(b, r'). (get_u16 b, r')) (rd_bytes 2 r)"
definition rd_u32 :: "bytes \<Rightarrow> (u32 \<times> bytes) option" where
  "rd_u32 r = map_option (\<lambda>(b, r'). (get_u32 b, r')) (rd_bytes 4 r)"
definition rd_u64 :: "bytes \<Rightarrow> (u64 \<times> bytes) option" where
  "rd_u64 r = map_option (\<lambda>(b, r'). (get_u64 b, r')) (rd_bytes 8 r)"

text \<open>
  The contract of a reader for values written by an encoder: it reads back what was written,
  leaves the rest, and accepts nothing else. \<open>ok\<close> says which values the encoding keeps.
\<close>

locale byte_codec =
  fixes enc :: "'a \<Rightarrow> bytes"
    and dec :: "bytes \<Rightarrow> ('a \<times> bytes) option"
    and ok :: "'a \<Rightarrow> bool"
  assumes dec_enc: "ok x \<Longrightarrow> dec (enc x @ r) = Some (x, r)"
    and enc_dec: "dec b = Some (x, r) \<Longrightarrow> b = enc x @ r \<and> ok x"
begin

lemma dec_iff: "dec b = Some (x, r) \<longleftrightarrow> b = enc x @ r \<and> ok x"
  using dec_enc enc_dec by blast

lemma enc_inject: "ok x \<Longrightarrow> ok y \<Longrightarrow> enc x @ r = enc y @ s \<Longrightarrow> x = y \<and> r = s"
  by (metis dec_enc option.inject prod.inject)

lemma dec_shorter: "dec b = Some (x, r) \<Longrightarrow> length b = length (enc x) + length r"
  by (simp add: dec_iff)

end

interpretation u16_codec: byte_codec put_u16 rd_u16 "\<lambda>_. True"
  by unfold_locales (auto simp: rd_u16_def rd_bytes_def put_get_uint split: if_splits)

interpretation u32_codec: byte_codec put_u32 rd_u32 "\<lambda>_. True"
  by unfold_locales (auto simp: rd_u32_def rd_bytes_def put_get_uint split: if_splits)

interpretation u64_codec: byte_codec put_u64 rd_u64 "\<lambda>_. True"
  by unfold_locales (auto simp: rd_u64_def rd_bytes_def put_get_uint split: if_splits)

interpretation raw_codec: byte_codec "\<lambda>b. b" "rd_bytes n" "\<lambda>b. length b = n" for n
  by unfold_locales (auto simp: rd_bytes_def split: if_splits)

lemma rd_bytes_append: "length b = n \<Longrightarrow> rd_bytes n (b @ r) = Some (b, r)"
  by (rule raw_codec.dec_enc)

lemmas rd_put [simp] = u16_codec.dec_enc [OF TrueI] u32_codec.dec_enc [OF TrueI]
  u64_codec.dec_enc [OF TrueI]

lemmas rd_iff = u16_codec.dec_iff u32_codec.dec_iff u64_codec.dec_iff raw_codec.dec_iff

section \<open>Fixed-size slots in a buffer\<close>

text \<open>
  The tables of \<^verbatim>\<open>internal/format/dir_index.go\<close> are read slot by slot at computed offsets. The
  contract of such a slot: \<open>at b off\<close> reads the value whose encoding stands at \<open>off\<close>.
\<close>

definition read_slots :: "(bytes \<Rightarrow> nat \<Rightarrow> 'a) \<Rightarrow> nat \<Rightarrow> nat \<Rightarrow> nat \<Rightarrow> bytes \<Rightarrow> 'a list" where
  "read_slots at w n off b = map (\<lambda>i. at b (off + i * w)) [0..<n]"

locale slot_codec =
  fixes enc :: "'a \<Rightarrow> bytes"
    and at :: "bytes \<Rightarrow> nat \<Rightarrow> 'a"
    and w :: nat
  assumes enc_width: "length (enc x) = w"
    and at_enc: "length p = off \<Longrightarrow> at (p @ enc x @ q) off = x"
    and enc_at: "off + w \<le> length b \<Longrightarrow> enc (at b off) = sub_bytes b off (off + w)"
begin

lemma length_encs: "length (concat (map enc xs)) = length xs * w"
  by (induction xs) (auto simp: enc_width)

lemma read_encs:
  "length p = off \<Longrightarrow> read_slots at w (length xs) off (p @ concat (map enc xs) @ q) = xs"
proof (induction xs arbitrary: p off)
  case Nil
  then show ?case by (simp add: read_slots_def)
next
  case (Cons x xs)
  have "read_slots at w (length xs) (off + w) ((p @ enc x) @ concat (map enc xs) @ q) = xs"
    using Cons.prems by (intro Cons.IH) (simp add: enc_width)
  moreover have "at (p @ enc x @ concat (map enc xs) @ q) off = x"
    using Cons.prems by (rule at_enc)
  ultimately show ?case
    by (simp add: read_slots_def upt_conv_Cons map_Suc_upt [symmetric] comp_def algebra_simps
        del: upt_Suc map_Suc_upt)
qed

lemma encs_read:
  "off + n * w \<le> length b \<Longrightarrow>
   concat (map enc (read_slots at w n off b)) = sub_bytes b off (off + n * w)"
proof (induction n)
  case 0
  then show ?case by (simp add: read_slots_def sub_bytes_def)
next
  case (Suc n)
  have "concat (map enc (read_slots at w (Suc n) off b)) =
      concat (map enc (read_slots at w n off b)) @ enc (at b (off + n * w))"
    by (simp add: read_slots_def)
  also have "\<dots> = sub_bytes b off (off + n * w) @ sub_bytes b (off + n * w) (off + n * w + w)"
    using Suc by (simp add: enc_at)
  also have "\<dots> = sub_bytes b off (off + n * w + w)"
    by (rule sub_bytes_split) simp_all
  also have "off + n * w + w = off + Suc n * w" by simp
  finally show ?case .
qed

end

end
