(* ===== verification/FileIO.thy ===== *)
theory FileIO
  imports Header
begin

text \<open>
  The part of \<^verbatim>\<open>os.File\<close> the container code uses: \<^verbatim>\<open>ReadAt\<close>, \<^verbatim>\<open>WriteAt\<close>, \<^verbatim>\<open>Sync\<close> and
  \<^verbatim>\<open>Stat().Size()\<close> of a regular file, the append helper \<^verbatim>\<open>appendAt\<close> and the range check
  \<^verbatim>\<open>regionWithinFile\<close> of \<^verbatim>\<open>fbx/container.go\<close>. Reads of a regular file do not fail for reasons of
  their own; each write and each sync takes its outcome from a plan, so a failed or torn write
  is an ordinary run of the model and so is a crash at any point of a sequence of writes.
\<close>

section \<open>Reading\<close>

text \<open>
  \<^verbatim>\<open>f.ReadAt(make([]byte, n), int64(off))\<close>. The offset is passed as the unsigned word the code
  converts to \<^verbatim>\<open>int64\<close>: from \<open>2 ^ 63\<close> on it is a negative offset. A short read returns \<^verbatim>\<open>io.EOF\<close>.
\<close>

definition readAt :: "bytes \<Rightarrow> u64 \<Rightarrow> nat \<Rightarrow> bytes result" where
  "readAt f off n =
     (if maxInt < off then Inl IoNegativeOffset
      else if n = 0 then Inr []
      else if unat off + n \<le> length f then Inr (sub_bytes f (unat off) (unat off + n))
      else Inl IoEOF)"

definition regionWithinFile :: "u64 \<Rightarrow> u64 \<Rightarrow> u64 \<Rightarrow> bool" where
  "regionWithinFile offset sz fileSize =
     (if offset > fileSize then False else sz \<le> fileSize - offset)"

text \<open>\<^verbatim>\<open>uint64(st.Size())\<close>\<close>

definition file_size :: "bytes \<Rightarrow> u64" where "file_size f = of_nat (length f)"

lemma readAt_ok:
  "unat off + n \<le> length f \<Longrightarrow> length f < 2 ^ 63 \<Longrightarrow>
   readAt f off n = Inr (sub_bytes f (unat off) (unat off + n))"
  by (auto simp: readAt_def maxInt_def word_less_nat_alt sub_bytes_def)

lemma readAt_sound:
  assumes "readAt f off n = Inr b"
  shows "b = sub_bytes f (unat off) (unat off + n)" "length b = n"
    "n \<noteq> 0 \<longrightarrow> unat off + n \<le> length f" "unat off < 2 ^ 63"
proof -
  show "b = sub_bytes f (unat off) (unat off + n)" "length b = n"
    "n \<noteq> 0 \<longrightarrow> unat off + n \<le> length f"
    using assms by (auto simp: readAt_def sub_bytes_def split: if_splits)
  have "\<not> maxInt < off" using assms by (auto simp: readAt_def)
  then show "unat off < 2 ^ 63" by (simp add: maxInt_def word_less_nat_alt)
qed

text \<open>A read inside the file sees nothing of what lies behind it.\<close>

lemma readAt_append:
  "unat off + n \<le> length f \<Longrightarrow> readAt (f @ g) off n = readAt f off n"
  by (simp add: readAt_def sub_bytes_append1)

lemma readAt_at:
  assumes "length p = unat off" "length (p @ b @ q) < 2 ^ 63"
  shows "readAt (p @ b @ q) off (length b) = Inr b"
  using assms by (subst readAt_ok) (simp_all add: sub_bytes_def flip: assms(1))

lemma regionWithinFile_iff:
  "regionWithinFile off sz fs \<longleftrightarrow> unat off + unat sz \<le> unat fs"
proof -
  have "sz \<le> fs - off \<longleftrightarrow> unat off + unat sz \<le> unat fs" if "off \<le> fs"
    using that by (auto simp: word_le_nat_alt unat_sub)
  then show ?thesis by (auto simp: regionWithinFile_def word_less_nat_alt not_less word_le_nat_alt)
qed

lemma unat_file_size: "length f < 2 ^ 64 \<Longrightarrow> unat (file_size f) = length f"
  by (simp add: file_size_def unat_of_nat)

section \<open>Writing\<close>

datatype outcome = Done | Fault error nat

record disk =
  content :: bytes
  plan :: "outcome list"

text \<open>The bytes of the file after \<open>b\<close> went to \<open>off\<close>; a gap is filled with zeros.\<close>

definition overwrite :: "bytes \<Rightarrow> nat \<Rightarrow> bytes \<Rightarrow> bytes" where
  "overwrite f off b =
     (if b = [] then f
      else take off f @ replicate (off - length f) 0 @ b @ drop (off + length b) f)"

definition next_outcome :: "disk \<Rightarrow> outcome \<times> disk" where
  "next_outcome d = (case plan d of [] \<Rightarrow> (Done, d) | x # xs \<Rightarrow> (x, d\<lparr>plan := xs\<rparr>))"

text \<open>\<^verbatim>\<open>f.WriteAt(b, int64(off))\<close>; a fault lets only the first bytes through.\<close>

definition writeAt :: "disk \<Rightarrow> u64 \<Rightarrow> bytes \<Rightarrow> unit result \<times> disk" where
  "writeAt d off b =
     (if maxInt < off then (Inl IoNegativeOffset, d)
      else case next_outcome d of
        (Done, d) \<Rightarrow> (Inr (), d\<lparr>content := overwrite (content d) (unat off) b\<rparr>)
      | (Fault e n, d) \<Rightarrow> (Inl e, d\<lparr>content := overwrite (content d) (unat off) (take n b)\<rparr>))"

definition sync :: "disk \<Rightarrow> unit result \<times> disk" where
  "sync d = (case next_outcome d of
      (Done, d) \<Rightarrow> (Inr (), d) | (Fault e n, d) \<Rightarrow> (Inl e, d))"

definition appendAt :: "disk \<Rightarrow> u64 \<Rightarrow> bytes \<Rightarrow> u64 result \<times> disk" where
  "appendAt d off data =
     (if data = [] then (Inl AppendZeroData, d)
      else case writeAt d off data of
        (Inl e, d) \<Rightarrow> (Inl e, d)
      | (Inr _, d) \<Rightarrow> (Inr (off + of_nat (length data)), d))"

lemma overwrite_end: "overwrite f (length f) b = f @ b"
  by (simp add: overwrite_def)

lemma overwrite_length: "off + length b \<le> length f \<Longrightarrow> length (overwrite f off b) = length f"
  by (auto simp: overwrite_def)

lemma overwrite_inside:
  "off + length b \<le> length f \<Longrightarrow> overwrite f off b = put_at off b f"
  by (auto simp: overwrite_def put_at_def)

lemma next_outcome_content [simp]: "next_outcome d = (x, d') \<Longrightarrow> content d' = content d"
  by (auto simp: next_outcome_def split: list.splits)

text \<open>
  An append at the end of the file extends it by a prefix of the data, by all of it if the call
  succeeds, and leaves the old bytes alone.
\<close>

lemma writeAt_end:
  assumes "writeAt d off b = (r, d')" "unat off = length (content d)"
  shows "\<exists>n. content d' = content d @ take n b"
    and "r = Inr () \<Longrightarrow> content d' = content d @ b"
  using assms
  by (auto simp: writeAt_def overwrite_end split: if_splits prod.splits outcome.splits
      intro: exI [of _ 0] exI [of _ "length b"])

lemma appendAt_end:
  assumes "appendAt d off b = (r, d')" "unat off = length (content d)" "length (content d') < 2 ^ 64"
  shows "\<exists>n. content d' = content d @ take n b"
    and "r = Inr off' \<Longrightarrow> content d' = content d @ b \<and> unat off' = length (content d')"
proof -
  obtain w dw where w: "writeAt d off b = (w, dw)" by fastforce
  show "\<exists>n. content d' = content d @ take n b"
    using assms(1,2) writeAt_end(1) [OF w assms(2)] w
    by (auto simp: appendAt_def split: if_splits sum.splits intro: exI [of _ 0])
  assume r: "r = Inr off'"
  with assms(1) w have "w = Inr ()" "d' = dw" "off' = off + of_nat (length b)"
    by (auto simp: appendAt_def split: if_splits sum.splits)
  moreover from this have c: "content d' = content d @ b"
    using writeAt_end(2) [OF w assms(2)] by simp
  ultimately show "content d' = content d @ b \<and> unat off' = length (content d')"
    using assms(2,3) by (simp add: unat_add_u64 unat_of_nat)
qed

end
