(* ===== verification/HeaderExt.thy ===== *)
theory HeaderExt
  imports Header
begin

text \<open>
  The reserved area of the header: generation, directory-index pointer, required-feature bits
  and layout marker of \<^verbatim>\<open>fbx/header_ext.go\<close>, and the compaction counters of
  \<^verbatim>\<open>fbx/compaction_stats.go\<close>. Each of them is a field of the 56 reserved bytes; the locale
  \<open>reserved_field\<close> states what reading and writing one promises, and \<open>reserved_pair\<close> that
  fields over disjoint bytes do not disturb each other. The last part is the validation of the
  canonical layout that \<^verbatim>\<open>Open\<close> requires.
\<close>

section \<open>Reading and writing the fields\<close>

definition requiredFeatureJournalSemantics :: u32 where "requiredFeatureJournalSemantics = 1"
definition requiredFeatureFixedBackup :: u32 where "requiredFeatureFixedBackup = 2"
definition requiredFeatureDirectoryIndex :: u32 where "requiredFeatureDirectoryIndex = 4"
definition requiredFeatureLazyDirectoryOpen :: u32 where "requiredFeatureLazyDirectoryOpen = 8"

definition requiredFeaturesSupported :: u32 where
  "requiredFeaturesSupported = requiredFeatureJournalSemantics OR requiredFeatureFixedBackup OR
     requiredFeatureDirectoryIndex OR requiredFeatureLazyDirectoryOpen"

definition journalRecordSize :: nat where "journalRecordSize = 4 + 8 + HeaderSize + 4 + 4"

record dirIndexPointer =
  pOffset :: u64
  pSize :: u64
  pCrc32 :: u32

definition headerHasFixedBackupSlot :: "HeaderV1 \<Rightarrow> bool" where
  "headerHasFixedBackupSlot h \<longleftrightarrow> hReserved h ! 0 = 2"

definition readHeaderGeneration :: "HeaderV1 \<Rightarrow> u64" where
  "readHeaderGeneration h = get_u64 (sub_bytes (hReserved h) 24 32)"

definition writeHeaderGeneration :: "u64 \<Rightarrow> HeaderV1 \<Rightarrow> HeaderV1" where
  "writeHeaderGeneration g h = h\<lparr>hReserved := put_at 24 (put_u64 g) (hReserved h)\<rparr>"

definition readHeaderDirIndexPointer :: "HeaderV1 \<Rightarrow> dirIndexPointer" where
  "readHeaderDirIndexPointer h =
     \<lparr>pOffset = get_u64 (sub_bytes (hReserved h) 32 40),
      pSize = get_u64 (sub_bytes (hReserved h) 40 48),
      pCrc32 = get_u32 (sub_bytes (hReserved h) 48 52)\<rparr>"

definition writeHeaderDirIndexPointer :: "dirIndexPointer \<Rightarrow> HeaderV1 \<Rightarrow> HeaderV1" where
  "writeHeaderDirIndexPointer p h =
     h\<lparr>hReserved := put_at 48 (put_u32 (pCrc32 p)) (put_at 40 (put_u64 (pSize p))
        (put_at 32 (put_u64 (pOffset p)) (hReserved h)))\<rparr>"

definition readHeaderRequiredFeaturesLow :: "HeaderV1 \<Rightarrow> u32" where
  "readHeaderRequiredFeaturesLow h = get_u32 (sub_bytes (hReserved h) 52 56)"

definition writeHeaderRequiredFeaturesLow :: "u32 \<Rightarrow> HeaderV1 \<Rightarrow> HeaderV1" where
  "writeHeaderRequiredFeaturesLow b h = h\<lparr>hReserved := put_at 52 (put_u32 b) (hReserved h)\<rparr>"

definition markHeaderV1ExtensionLayout :: "HeaderV1 \<Rightarrow> HeaderV1" where
  "markHeaderV1ExtensionLayout h = h\<lparr>hReserved := (hReserved h)[0 := 2, 1 := 0]\<rparr>"

definition readCompactionStatsFromHeader :: "HeaderV1 \<Rightarrow> u64 \<times> u64" where
  "readCompactionStatsFromHeader h =
     (get_u64 (sub_bytes (hReserved h) 8 16), get_u64 (sub_bytes (hReserved h) 16 24))"

definition writeCompactionStatsToHeader :: "u64 \<times> u64 \<Rightarrow> HeaderV1 \<Rightarrow> HeaderV1" where
  "writeCompactionStatsToHeader s h =
     h\<lparr>hReserved := put_at 16 (put_u64 (snd s)) (put_at 8 (put_u64 (fst s)) (hReserved h))\<rparr>"

definition saturatingAddUint64 :: "u64 \<Rightarrow> u64 \<Rightarrow> u64" where
  "saturatingAddUint64 a b = (if - 1 - a < b then - 1 else a + b)"

lemma saturatingAddUint64_unat:
  "unat (saturatingAddUint64 a b) = min (2 ^ 64 - 1) (unat a + unat b)"
proof -
  have "unat (- 1 - a) = 2 ^ 64 - 1 - unat a"
    using unat_max_u64 unat_u64_lt [of a] by (simp add: unat_sub word_le_nat_alt)
  then have "(- 1 - a < b) = (2 ^ 64 - 1 < unat a + unat b)"
    using unat_u64_lt [of a] by (auto simp: word_less_nat_alt)
  then show ?thesis
    by (simp add: saturatingAddUint64_def unat_max_u64 unat_add_u64)
qed

section \<open>The fields are independent\<close>

locale reserved_field =
  fixes rd :: "HeaderV1 \<Rightarrow> 'a"
    and wr :: "'a \<Rightarrow> HeaderV1 \<Rightarrow> HeaderV1"
    and lo hi :: nat
  assumes rd_wr: "header_shape h \<Longrightarrow> rd (wr v h) = v"
    and rd_local: "sub_bytes (hReserved h) lo hi = sub_bytes (hReserved k) lo hi \<Longrightarrow> rd h = rd k"
    and wr_frame: "header_shape h \<Longrightarrow> y \<le> lo \<or> hi \<le> x \<Longrightarrow>
          sub_bytes (hReserved (wr v h)) x y = sub_bytes (hReserved h) x y"
    and wr_shape: "header_shape h \<Longrightarrow> header_shape (wr v h)"
    and wr_core: "hReserved_update (\<lambda>_. r) (wr v h) = hReserved_update (\<lambda>_. r) h"
begin

lemma wr_core_eq: "wr v h = h\<lparr>hReserved := hReserved (wr v h)\<rparr>"
proof -
  have "(wr v h)\<lparr>hReserved := hReserved (wr v h)\<rparr> = h\<lparr>hReserved := hReserved (wr v h)\<rparr>"
    by (rule wr_core)
  then show ?thesis by simp
qed

lemma wr_fields:
  "hMagic (wr v h) = hMagic h" "hVersion (wr v h) = hVersion h"
  "hHeaderSize (wr v h) = hHeaderSize h" "hFlags (wr v h) = hFlags h"
  "hUUID (wr v h) = hUUID h" "hCreatedUnix (wr v h) = hCreatedUnix h"
  "hDirOffset (wr v h) = hDirOffset h" "hDirSize (wr v h) = hDirSize h"
  "hDirCRC32 (wr v h) = hDirCRC32 h" "hJournalOffset (wr v h) = hJournalOffset h"
  "hJournalSize (wr v h) = hJournalSize h"
  by (subst wr_core_eq, simp)+

end

locale reserved_pair =
  a: reserved_field rd wr lo hi + b: reserved_field rd' wr' lo' hi'
  for rd :: "HeaderV1 \<Rightarrow> 'a" and wr lo hi and rd' :: "HeaderV1 \<Rightarrow> 'b" and wr' lo' hi' +
  assumes disjoint: "hi \<le> lo' \<or> hi' \<le> lo"
begin

lemma rd_wr_other: "header_shape h \<Longrightarrow> rd (wr' v h) = rd h"
  using disjoint by (intro a.rd_local b.wr_frame) auto

lemma rd_wr_other': "header_shape h \<Longrightarrow> rd' (wr v h) = rd' h"
  using disjoint by (intro b.rd_local a.wr_frame) auto

end

lemma sub_bytes_cut:
  assumes "sub_bytes a lo hi = sub_bytes b lo hi" "lo \<le> x" "y \<le> hi"
  shows "sub_bytes a x y = sub_bytes b x y"
proof -
  have cut: "sub_bytes c x y = take (y - x) (drop (x - lo) (sub_bytes c lo hi))" for c
    using assms(2,3) by (simp add: sub_bytes_def drop_take)
  show ?thesis by (simp only: cut assms(1))
qed

lemmas put_sub = sub_put_at_same sub_put_at_before sub_put_at_after

interpretation gen: reserved_field readHeaderGeneration writeHeaderGeneration 24 32
  by unfold_locales
    (auto simp: readHeaderGeneration_def writeHeaderGeneration_def header_shape_def put_sub)

interpretation idx: reserved_field readHeaderDirIndexPointer writeHeaderDirIndexPointer 32 52
proof unfold_locales
  fix h k :: HeaderV1
  assume "sub_bytes (hReserved h) 32 52 = sub_bytes (hReserved k) 32 52"
  note cut = sub_bytes_cut [OF this]
  show "readHeaderDirIndexPointer h = readHeaderDirIndexPointer k"
    using cut [of 32 40] cut [of 40 48] cut [of 48 52]
    by (simp add: readHeaderDirIndexPointer_def)
qed (auto simp: readHeaderDirIndexPointer_def writeHeaderDirIndexPointer_def header_shape_def
    put_sub)

interpretation feat: reserved_field readHeaderRequiredFeaturesLow writeHeaderRequiredFeaturesLow
    52 56
  by unfold_locales
    (auto simp: readHeaderRequiredFeaturesLow_def writeHeaderRequiredFeaturesLow_def
      header_shape_def put_sub)

interpretation stats: reserved_field readCompactionStatsFromHeader writeCompactionStatsToHeader
    8 24
proof unfold_locales
  fix h k :: HeaderV1
  assume "sub_bytes (hReserved h) 8 24 = sub_bytes (hReserved k) 8 24"
  note cut = sub_bytes_cut [OF this]
  show "readCompactionStatsFromHeader h = readCompactionStatsFromHeader k"
    using cut [of 8 16] cut [of 16 24] by (simp add: readCompactionStatsFromHeader_def)
qed (auto simp: readCompactionStatsFromHeader_def writeCompactionStatsToHeader_def
    header_shape_def put_sub)

interpretation gen_idx: reserved_pair readHeaderGeneration writeHeaderGeneration 24 32
    readHeaderDirIndexPointer writeHeaderDirIndexPointer 32 52
  by unfold_locales simp

interpretation gen_feat: reserved_pair readHeaderGeneration writeHeaderGeneration 24 32
    readHeaderRequiredFeaturesLow writeHeaderRequiredFeaturesLow 52 56
  by unfold_locales simp

interpretation gen_stats: reserved_pair readHeaderGeneration writeHeaderGeneration 24 32
    readCompactionStatsFromHeader writeCompactionStatsToHeader 8 24
  by unfold_locales simp

interpretation idx_feat: reserved_pair readHeaderDirIndexPointer writeHeaderDirIndexPointer 32 52
    readHeaderRequiredFeaturesLow writeHeaderRequiredFeaturesLow 52 56
  by unfold_locales simp

interpretation idx_stats: reserved_pair readHeaderDirIndexPointer writeHeaderDirIndexPointer 32 52
    readCompactionStatsFromHeader writeCompactionStatsToHeader 8 24
  by unfold_locales simp

interpretation feat_stats: reserved_pair readHeaderRequiredFeaturesLow
    writeHeaderRequiredFeaturesLow 52 56
    readCompactionStatsFromHeader writeCompactionStatsToHeader 8 24
  by unfold_locales simp

lemmas reserved_rd_wr =
  gen.rd_wr idx.rd_wr feat.rd_wr stats.rd_wr
  gen_idx.rd_wr_other gen_idx.rd_wr_other' gen_feat.rd_wr_other gen_feat.rd_wr_other'
  gen_stats.rd_wr_other gen_stats.rd_wr_other' idx_feat.rd_wr_other idx_feat.rd_wr_other'
  idx_stats.rd_wr_other idx_stats.rd_wr_other' feat_stats.rd_wr_other feat_stats.rd_wr_other'

lemmas reserved_shape = gen.wr_shape idx.wr_shape feat.wr_shape stats.wr_shape

lemmas reserved_fields [simp] = gen.wr_fields idx.wr_fields feat.wr_fields stats.wr_fields

text \<open>The layout marker occupies the first two bytes and survives every field write.\<close>

lemma put_marker:
  "8 \<le> off \<Longrightarrow> off + length x \<le> length b \<Longrightarrow>
   put_at off x b ! 0 = b ! 0 \<and> put_at off x b ! 1 = b ! 1"
  by (simp add: put_at_nth_before)

lemma marker_frame:
  assumes "header_shape h"
  shows "hReserved (writeHeaderGeneration g h) ! 0 = hReserved h ! 0"
    "hReserved (writeHeaderGeneration g h) ! 1 = hReserved h ! 1"
    "hReserved (writeHeaderDirIndexPointer p h) ! 0 = hReserved h ! 0"
    "hReserved (writeHeaderDirIndexPointer p h) ! 1 = hReserved h ! 1"
    "hReserved (writeHeaderRequiredFeaturesLow b h) ! 0 = hReserved h ! 0"
    "hReserved (writeHeaderRequiredFeaturesLow b h) ! 1 = hReserved h ! 1"
    "hReserved (writeCompactionStatsToHeader s h) ! 0 = hReserved h ! 0"
    "hReserved (writeCompactionStatsToHeader s h) ! 1 = hReserved h ! 1"
  using assms
  by (simp_all add: writeHeaderGeneration_def writeHeaderDirIndexPointer_def
      writeHeaderRequiredFeaturesLow_def writeCompactionStatsToHeader_def header_shape_def
      put_at_nth_before)

lemma mark_marker [simp]:
  "header_shape h \<Longrightarrow> hReserved (markHeaderV1ExtensionLayout h) ! 0 = 2"
  "header_shape h \<Longrightarrow> hReserved (markHeaderV1ExtensionLayout h) ! 1 = 0"
  by (simp_all add: markHeaderV1ExtensionLayout_def header_shape_def)

lemma mark_shape: "header_shape h \<Longrightarrow> header_shape (markHeaderV1ExtensionLayout h)"
  by (simp add: markHeaderV1ExtensionLayout_def header_shape_def)

lemma drop_mark: "2 \<le> n \<Longrightarrow> drop n (b[0 := x, 1 := y]) = drop n b"
  by (simp add: drop_update_cancel)

lemma mark_reads:
  "readHeaderGeneration (markHeaderV1ExtensionLayout h) = readHeaderGeneration h"
  "readHeaderDirIndexPointer (markHeaderV1ExtensionLayout h) = readHeaderDirIndexPointer h"
  "readHeaderRequiredFeaturesLow (markHeaderV1ExtensionLayout h) = readHeaderRequiredFeaturesLow h"
  "readCompactionStatsFromHeader (markHeaderV1ExtensionLayout h) = readCompactionStatsFromHeader h"
  by (simp_all add: markHeaderV1ExtensionLayout_def readHeaderGeneration_def
      readHeaderDirIndexPointer_def readHeaderRequiredFeaturesLow_def
      readCompactionStatsFromHeader_def sub_bytes_def drop_mark)

lemma mark_fields [simp]:
  "hMagic (markHeaderV1ExtensionLayout h) = hMagic h"
  "hVersion (markHeaderV1ExtensionLayout h) = hVersion h"
  "hHeaderSize (markHeaderV1ExtensionLayout h) = hHeaderSize h"
  "hFlags (markHeaderV1ExtensionLayout h) = hFlags h"
  "hUUID (markHeaderV1ExtensionLayout h) = hUUID h"
  "hCreatedUnix (markHeaderV1ExtensionLayout h) = hCreatedUnix h"
  "hDirOffset (markHeaderV1ExtensionLayout h) = hDirOffset h"
  "hDirSize (markHeaderV1ExtensionLayout h) = hDirSize h"
  "hDirCRC32 (markHeaderV1ExtensionLayout h) = hDirCRC32 h"
  "hJournalOffset (markHeaderV1ExtensionLayout h) = hJournalOffset h"
  "hJournalSize (markHeaderV1ExtensionLayout h) = hJournalSize h"
  by (simp_all add: markHeaderV1ExtensionLayout_def)

section \<open>The canonical layout\<close>

definition requiredFlags :: u32 where
  "requiredFlags = HeaderFlagHasJournal OR HeaderFlagHasBackup OR HeaderFlagHasDirIndex OR
     HeaderFlagHasRequiredFeatures"

definition validateHeaderRequiredFeatures :: "HeaderV1 \<Rightarrow> unit result" where
  "validateHeaderRequiredFeatures h =
     (if hFlags h AND HeaderFlagHasRequiredFeatures = 0 then Inr () else
      let required = readHeaderRequiredFeaturesLow h in
      if required AND NOT requiredFeaturesSupported \<noteq> 0 then Inl ErrUnsupportedFeature
      else if required AND requiredFeatureJournalSemantics \<noteq> 0 \<and>
        hFlags h AND HeaderFlagHasJournal = 0 then Inl ErrInvalidFormat
      else if required AND requiredFeatureFixedBackup \<noteq> 0 \<and>
        hFlags h AND HeaderFlagHasBackup = 0 then Inl ErrInvalidFormat
      else if required AND requiredFeatureDirectoryIndex \<noteq> 0 \<and>
        hFlags h AND HeaderFlagHasDirIndex = 0 then Inl ErrInvalidFormat
      else Inr ())"

definition validateCanonicalHeaderLayout :: "HeaderV1 \<Rightarrow> unit result" where
  "validateCanonicalHeaderLayout h =
     (if hFlags h AND requiredFlags \<noteq> requiredFlags then Inl ErrInvalidFormat
      else if hReserved h ! 0 \<noteq> 2 then Inl ErrInvalidFormat
      else if hReserved h ! 1 \<noteq> 0 then Inl ErrInvalidFormat
      else if hJournalOffset h = 0 \<or> hJournalSize h \<noteq> of_nat journalRecordSize
        then Inl ErrInvalidFormat
      else let ptr = readHeaderDirIndexPointer h in
        if pOffset ptr = 0 \<or> pSize ptr = 0 \<or> pCrc32 ptr = 0 then Inl ErrInvalidFormat
        else let required = readHeaderRequiredFeaturesLow h in
          if required AND requiredFeaturesSupported \<noteq> requiredFeaturesSupported
          then Inl ErrInvalidFormat
          else validateHeaderRequiredFeatures h)"

lemma requiredFlags_val: "requiredFlags = 15"
  by (simp add: requiredFlags_def HeaderFlagHasJournal_def HeaderFlagHasBackup_def
      HeaderFlagHasDirIndex_def HeaderFlagHasRequiredFeatures_def)

lemma requiredFeaturesSupported_val: "requiredFeaturesSupported = 15"
  by (simp add: requiredFeaturesSupported_def requiredFeatureJournalSemantics_def
      requiredFeatureFixedBackup_def requiredFeatureDirectoryIndex_def
      requiredFeatureLazyDirectoryOpen_def)

lemma and_mask_sub: "x AND m = m \<Longrightarrow> k AND m = k \<Longrightarrow> x AND k = k" for x m k :: "'a::len word"
  by (metis and.assoc and.commute)

lemma or_and_mask: "(x OR m) AND m = m" for x m :: "'a::len word"
  by (auto intro!: bit_eqI simp: bit_simps)

lemma mask_exact: "x AND m = m \<Longrightarrow> x AND NOT m = 0 \<Longrightarrow> x = m" for x m :: "'a::len word"
proof (rule bit_eqI)
  fix n
  assume "x AND m = m" "x AND NOT m = 0" and n: "possible_bit TYPE('a word) n"
  then have "bit (x AND m) n = bit m n" "\<not> bit (x AND NOT m) n" by simp_all
  with n show "bit x n = bit m n" by (auto simp: bit_simps)
qed

lemma validateHeaderRequiredFeatures_flags:
  "hFlags h AND requiredFlags = requiredFlags \<Longrightarrow>
   validateHeaderRequiredFeatures h =
     (if readHeaderRequiredFeaturesLow h AND NOT requiredFeaturesSupported \<noteq> 0
      then Inl ErrUnsupportedFeature else Inr ())"
  using and_mask_sub [of "hFlags h" 15 1] and_mask_sub [of "hFlags h" 15 2]
    and_mask_sub [of "hFlags h" 15 4] and_mask_sub [of "hFlags h" 15 8]
  by (simp add: validateHeaderRequiredFeatures_def requiredFlags_val Let_def
      HeaderFlagHasJournal_def HeaderFlagHasBackup_def HeaderFlagHasDirIndex_def
      HeaderFlagHasRequiredFeatures_def)

definition canonical_layout :: "HeaderV1 \<Rightarrow> bool" where
  "canonical_layout h \<longleftrightarrow>
     hFlags h AND requiredFlags = requiredFlags \<and> hReserved h ! 0 = 2 \<and> hReserved h ! 1 = 0 \<and>
     hJournalOffset h \<noteq> 0 \<and> hJournalSize h = of_nat journalRecordSize \<and>
     pOffset (readHeaderDirIndexPointer h) \<noteq> 0 \<and> pSize (readHeaderDirIndexPointer h) \<noteq> 0 \<and>
     pCrc32 (readHeaderDirIndexPointer h) \<noteq> 0 \<and>
     readHeaderRequiredFeaturesLow h = requiredFeaturesSupported"

lemma validateCanonicalHeaderLayout_iff:
  "validateCanonicalHeaderLayout h = Inr () \<longleftrightarrow> canonical_layout h"
proof (cases "hFlags h AND requiredFlags = requiredFlags")
  case True
  then show ?thesis
    using mask_exact [of "readHeaderRequiredFeaturesLow h" requiredFeaturesSupported]
    by (auto simp: validateCanonicalHeaderLayout_def canonical_layout_def Let_def
        validateHeaderRequiredFeatures_flags)
next
  case False
  then show ?thesis by (simp add: validateCanonicalHeaderLayout_def canonical_layout_def)
qed

lemma validateCanonical_errors:
  "validateCanonicalHeaderLayout h = Inl e \<Longrightarrow> e = ErrInvalidFormat \<or> e = ErrUnsupportedFeature"
  by (auto simp: validateCanonicalHeaderLayout_def validateHeaderRequiredFeatures_def Let_def
      split: if_splits)

end
