(* ===== verification/Checksum.thy ===== *)
theory Checksum
  imports Prelude
begin

text \<open>
  The two hashes of the format: \<^verbatim>\<open>FNV1a64\<close> of \<^verbatim>\<open>internal/format/hash.go\<close>, the path hash of
  directory entries and index rows, and CRC-32 (IEEE), the integrity check of every structure
  on disk (\<^verbatim>\<open>hash/crc32.ChecksumIEEE\<close> of the Go library, written out here as its
  \<^verbatim>\<open>simpleMakeTable\<close> and \<^verbatim>\<open>simpleUpdate\<close>). The lemmas show what the format relies on the CRC
  for: two inputs that differ in a burst of at most four bytes have different checksums.
\<close>

section \<open>FNV-1a\<close>

definition fnv64Offset :: u64 where "fnv64Offset = 14695981039346656037"
definition fnv64Prime :: u64 where "fnv64Prime = 1099511628211"

definition FNV1a64 :: "bytes \<Rightarrow> u64" where
  "FNV1a64 s = foldl (\<lambda>h b. (h XOR ucast b) * fnv64Prime) fnv64Offset s"

section \<open>CRC-32\<close>

text \<open>One bit of the reflected polynomial division; \<open>crc_iter n\<close> does \<open>n\<close> bits.\<close>

definition crc_step :: "u32 \<Rightarrow> u32" where
  "crc_step c = (if c AND 1 = 1 then drop_bit 1 c XOR 0xEDB88320 else drop_bit 1 c)"

fun crc_iter :: "nat \<Rightarrow> u32 \<Rightarrow> u32" where
  "crc_iter 0 c = c"
| "crc_iter (Suc n) c = crc_iter n (crc_step c)"

text \<open>\<^verbatim>\<open>simpleMakeTable\<close>: entry \<open>b\<close> is \<open>crc_iter 8 b\<close>; \<^verbatim>\<open>simpleUpdate\<close>: one byte.\<close>

definition crc_byte :: "u32 \<Rightarrow> u8 \<Rightarrow> u32" where
  "crc_byte c b = crc_iter 8 (ucast (ucast c XOR b)) XOR drop_bit 8 c"

definition crc32 :: "bytes \<Rightarrow> u32" where
  "crc32 bs = foldl crc_byte 0xFFFFFFFF bs XOR 0xFFFFFFFF"

subsection \<open>The step is linear and injective\<close>

lemma xor_cancel_right: "a XOR c = b XOR c \<longleftrightarrow> a = b" for a b c :: "'a::len word"
proof
  assume "a XOR c = b XOR c"
  then have "(a XOR c) XOR c = (b XOR c) XOR c" by simp
  then show "a = b" by (simp add: xor.assoc)
qed simp

lemma xor_cancel_left: "c XOR a = c XOR b \<longleftrightarrow> a = b" for a b c :: "'a::len word"
  by (simp add: xor.commute [of c] xor_cancel_right)

lemma and_1_odd: "(c AND 1 = 1) = bit c 0" for c :: u32
  by (simp add: and_one_eq mod_2_eq_odd bit_0)

lemma bit_crc_step:
  "bit (crc_step c) n \<longleftrightarrow> bit c (Suc n) \<noteq> (bit c 0 \<and> bit (0xEDB88320 :: u32) n)"
  by (simp add: crc_step_def and_1_odd bit_simps)

lemma crc_step_xor: "crc_step (a XOR b) = crc_step a XOR crc_step b"
  by (rule bit_eqI) (auto simp: bit_crc_step bit_xor_iff)

lemma crc_step_0 [simp]: "crc_step 0 = 0"
  by (simp add: crc_step_def)

lemma crc_step_eq_0: "crc_step c = 0 \<Longrightarrow> c = 0"
proof -
  assume z: "crc_step c = 0"
  have "bit (0xEDB88320 :: u32) 31" by (simp add: bit_numeral_rec)
  moreover have "\<not> bit c (Suc 31)" using bit_imp_le_length [of c 32] by auto
  ultimately have c0: "\<not> bit c 0" using z bit_crc_step [of c 31] by simp
  have "\<not> bit c n" for n
  proof (cases n)
    case 0
    with c0 show ?thesis by simp
  next
    case (Suc m)
    then show ?thesis using z c0 bit_crc_step [of c m] by simp
  qed
  then show "c = 0" by (auto intro: bit_eqI)
qed

lemma crc_iter_xor: "crc_iter n (a XOR b) = crc_iter n a XOR crc_iter n b"
  by (induction n arbitrary: a b) (simp_all add: crc_step_xor)

lemma crc_iter_eq_0: "crc_iter n c = 0 \<Longrightarrow> c = 0"
  by (induction n arbitrary: c) (auto dest: crc_step_eq_0)

lemma crc_iter_inject: "crc_iter n a = crc_iter n b \<longleftrightarrow> a = b"
proof
  assume "crc_iter n a = crc_iter n b"
  then have "crc_iter n (a XOR b) = 0" by (simp add: crc_iter_xor)
  then have "a XOR b = 0" by (rule crc_iter_eq_0)
  then have "a XOR b = b XOR b" by simp
  then show "a = b" by (simp only: xor_cancel_right)
qed simp

lemma crc_iter_add: "crc_iter (m + n) c = crc_iter n (crc_iter m c)"
  by (induction m arbitrary: c) auto

lemma crc_iter_shift: "(\<forall>i < n. \<not> bit c i) \<Longrightarrow> crc_iter n c = drop_bit n c"
proof (induction n arbitrary: c)
  case 0
  then show ?case by simp
next
  case (Suc n)
  have "crc_step c = drop_bit 1 c"
    using Suc.prems by (simp add: crc_step_def and_1_odd)
  moreover have "crc_iter n (drop_bit 1 c) = drop_bit n (drop_bit 1 c)"
    using Suc.prems by (intro Suc.IH) (auto simp: bit_drop_bit_eq)
  ultimately show ?case by (simp add: drop_bit_drop_bit)
qed

text \<open>A table step is eight bit steps of the whole register.\<close>

lemma crc_byte_iter: "crc_byte c b = crc_iter 8 (c XOR ucast b)"
proof -
  define lo :: u32 where "lo = ucast (ucast c XOR b :: u8)"
  define hi where "hi = (c XOR ucast b) XOR lo"
  have hi_bit: "bit hi i = (8 \<le> i \<and> bit c i)" for i
    by (auto simp: hi_def lo_def bit_simps dest: bit_imp_le_length)
  have "crc_iter 8 (c XOR ucast b) = crc_iter 8 lo XOR crc_iter 8 hi"
    by (simp add: hi_def flip: crc_iter_xor)
      (metis xor.assoc xor.commute xor.right_neutral xor_self_eq)
  also have "crc_iter 8 hi = drop_bit 8 hi"
    by (rule crc_iter_shift) (auto simp: hi_bit)
  also have "drop_bit 8 hi = drop_bit 8 c"
    by (rule bit_eqI) (simp add: bit_drop_bit_eq hi_bit)
  finally show ?thesis by (simp add: crc_byte_def lo_def)
qed

lemma crc_byte_inject_state: "crc_byte c b = crc_byte d b \<longleftrightarrow> c = d"
  by (simp only: crc_byte_iter crc_iter_inject xor_cancel_right)

lemma crc_fold_inject_state:
  "foldl crc_byte c bs = foldl crc_byte d bs \<longleftrightarrow> c = d"
  by (induction bs arbitrary: c d) (simp_all add: crc_byte_inject_state)

subsection \<open>Bursts of at most four bytes\<close>

text \<open>Up to four message bytes, packed as the register sees them.\<close>

fun pack :: "bytes \<Rightarrow> u32" where
  "pack [] = 0"
| "pack (b # bs) = ucast b XOR push_bit 8 (pack bs)"

lemma bit_pack: "bit (pack bs) i \<Longrightarrow> i < 8 * length bs"
proof (induction bs arbitrary: i)
  case Nil
  then show ?case by simp
next
  case (Cons b bs)
  then show ?case
    by (cases "i < 8") (auto simp: bit_simps dest: bit_imp_le_length dest!: Cons.IH)
qed

lemma drop_push_pack:
  assumes "length bs < 4"
  shows "drop_bit 8 (push_bit 8 (pack bs)) = pack bs"
proof (rule bit_eqI)
  fix n
  show "bit (drop_bit 8 (push_bit 8 (pack bs))) n = bit (pack bs) n"
    using bit_pack [of bs n] assms by (auto simp: bit_simps)
qed

lemma crc_fold_pack:
  "length bs \<le> 4 \<Longrightarrow> foldl crc_byte c bs = crc_iter (8 * length bs) (c XOR pack bs)"
proof (induction bs arbitrary: c)
  case Nil
  then show ?case by simp
next
  case (Cons b bs)
  have shift: "crc_iter 8 (push_bit 8 (pack bs)) = pack bs"
    using Cons.prems by (subst crc_iter_shift) (auto simp: bit_simps drop_push_pack)
  have "foldl crc_byte c (b # bs) = crc_iter (8 * length bs) (crc_byte c b XOR pack bs)"
    using Cons by simp
  also have "crc_byte c b XOR pack bs = crc_iter 8 ((c XOR ucast b) XOR push_bit 8 (pack bs))"
    by (simp add: crc_byte_iter crc_iter_xor shift)
  also have "crc_iter (8 * length bs) \<dots> = crc_iter (8 * length (b # bs)) (c XOR pack (b # bs))"
    by (simp add: xor.assoc flip: crc_iter_add)
  finally show ?case .
qed

lemma pack_inject:
  "length xs = length ys \<Longrightarrow> length xs \<le> 4 \<Longrightarrow> pack xs = pack ys \<Longrightarrow> xs = ys"
proof (induction xs ys rule: list_induct2)
  case Nil
  then show ?case by simp
next
  case (Cons x xs y ys)
  have bits: "bit (pack (x # xs)) i = bit (pack (y # ys)) i" for i
    using Cons.prems by simp
  have "x = y"
  proof (rule bit_eqI)
    fix n
    show "bit x n = bit y n"
      using bits [of n] bit_imp_le_length [of x n] bit_imp_le_length [of y n]
      by (cases "n < 8") (auto simp: bit_simps)
  qed
  moreover from this have "push_bit 8 (pack xs) = push_bit 8 (pack ys)"
    using Cons.prems by (simp add: xor_cancel_left)
  then have "drop_bit 8 (push_bit 8 (pack xs)) = drop_bit 8 (push_bit 8 (pack ys))"
    by (rule arg_cong)
  then have "pack xs = pack ys"
    using Cons.prems Cons.hyps by (simp only: drop_push_pack length_Cons Suc_le_eq)
  ultimately show ?case using Cons by simp
qed

lemma crc_fold_inject_burst:
  assumes "length xs = length ys" "length xs \<le> 4"
  shows "foldl crc_byte c xs = foldl crc_byte c ys \<longleftrightarrow> xs = ys"
proof
  assume "foldl crc_byte c xs = foldl crc_byte c ys"
  then have "c XOR pack xs = c XOR pack ys"
    using assms by (simp add: crc_fold_pack crc_iter_inject)
  then have "pack xs = pack ys" by (simp only: xor_cancel_left)
  then show "xs = ys" using assms by (simp add: pack_inject)
qed simp

text \<open>Changing a burst of at most four bytes anywhere in a message changes its CRC.\<close>

lemma crc32_burst:
  assumes "length m = length m'" "length m \<le> 4" "m \<noteq> m'"
  shows "crc32 (p @ m @ q) \<noteq> crc32 (p @ m' @ q)"
proof
  assume "crc32 (p @ m @ q) = crc32 (p @ m' @ q)"
  then have "foldl crc_byte 0xFFFFFFFF (p @ m @ q) = foldl crc_byte 0xFFFFFFFF (p @ m' @ q)"
    by (simp only: crc32_def xor_cancel_right)
  then have "foldl crc_byte (foldl crc_byte 0xFFFFFFFF p) m
      = foldl crc_byte (foldl crc_byte 0xFFFFFFFF p) m'"
    by (simp add: crc_fold_inject_state)
  with assms show False by (simp add: crc_fold_inject_burst)
qed

text \<open>Evaluation on concrete bytes: the check value of the CRC catalogue.\<close>

lemma crc_iter_8:
  "crc_iter 8 c = crc_step (crc_step (crc_step (crc_step (crc_step (crc_step (crc_step (crc_step c)))))))"
  by (simp add: numeral_eq_Suc)

lemmas crc_eval = crc32_def crc_byte_def crc_iter_8 crc_step_def

lemma crc32_check: "crc32 [49, 50, 51, 52, 53, 54, 55, 56, 57] = 0xCBF43926"
  by (simp add: crc_eval)

subsection \<open>A message that ends with its own checksum\<close>

lemma pack_le_get: "length bs \<le> 4 \<Longrightarrow> pack bs = of_nat (le_get bs)"
proof (induction bs)
  case (Cons b bs)
  have "(ucast b :: u32) AND push_bit 8 (pack bs) = 0"
    by (rule bit_eqI) (auto simp: bit_simps dest: bit_imp_le_length)
  then have "ucast b XOR push_bit 8 (pack bs) = ucast b + push_bit 8 (pack bs)"
    by (simp add: disjunctive_add_eq_xor)
  also have "\<dots> = of_nat (le_get (b # bs))"
    using Cons by (simp add: push_bit_eq_mult)
  finally show ?case by simp
qed simp

text \<open>The register is in the same state after every such message.\<close>

lemma crc32_appended: "crc32 (m @ put_u32 (crc32 m)) = 0x2144DF1C"
proof -
  let ?c = "foldl crc_byte 0xFFFFFFFF m"
  have "pack (put_u32 (crc32 m)) = of_nat (unat (crc32 m) mod 256 ^ 4)"
    by (simp add: pack_le_get put_u32_def le_get_put)
  also have "\<dots> = crc32 m" using unat_u32_lt [of "crc32 m"] by simp
  finally have p: "pack (put_u32 (crc32 m)) = crc32 m" .
  have "crc32 (m @ put_u32 (crc32 m)) = crc_iter 32 (?c XOR crc32 m) XOR 0xFFFFFFFF"
    using crc_fold_pack [of "put_u32 (crc32 m)" ?c] p by (simp add: crc32_def [of "m @ b" for b])
  also have "?c XOR crc32 m = 0xFFFFFFFF" by (simp add: crc32_def flip: xor.assoc)
  also have "crc_iter 32 0xFFFFFFFF = crc_iter 8 (crc_iter 8 (crc_iter 8 (crc_iter 8 0xFFFFFFFF)))"
    by (simp flip: crc_iter_add)
  also have "\<dots> XOR 0xFFFFFFFF = 0x2144DF1C" by (simp add: crc_iter_8 crc_step_def)
  finally show ?thesis .
qed

end
