(* ===== verification/Directory.thy ===== *)
theory Directory
  imports Header Checksum "HOL-Library.Monad_Syntax" "HOL-Library.List_Lexorder"
begin

text \<open>
  The directory blob \<^verbatim>\<open>DIR1 ... END1\<close>: \<^verbatim>\<open>internal/format/types.go\<close>,
  \<^verbatim>\<open>internal/format/directory.go\<close> (encoder and decoder of the whole catalogue) and
  \<^verbatim>\<open>internal/format/directory_entry.go\<close> (decoder of one entry at an offset, used by the lazy
  index). The central lemmas characterise both decoders exactly: what they accept is the
  encoding of a list of well-formed entries, and nothing else.
\<close>

section \<open>Data\<close>

record ChunkRefV1 =
  ChunkOffset :: u64
  RawOffset :: u64
  RawSize :: u32
  CompSize :: u32
  CRC32Raw :: u32
  Reserved :: u32

record EntryV1 =
  PathHash64 :: u64
  MTimeUnix :: u64
  Mode :: u32
  EntryFlags :: u32
  FileSize :: u64
  ChunkCount :: u32
  MetaSize :: u32
  PathSize :: u32
  Chunks :: "ChunkRefV1 list"
  Meta :: bytes
  Path :: bytes

record DirectoryV1 =
  dEntryCount :: u32
  dFlags :: u32
  dBuildUnix :: u64
  dEntries :: "EntryV1 list"

section \<open>Encoder\<close>

definition enc_chunk_ref :: "ChunkRefV1 \<Rightarrow> bytes" where
  "enc_chunk_ref c = put_u64 (ChunkOffset c) @ put_u64 (RawOffset c) @ put_u32 (RawSize c) @
     put_u32 (CompSize c) @ put_u32 (CRC32Raw c) @ put_u32 0"

definition enc_entry :: "EntryV1 \<Rightarrow> bytes" where
  "enc_entry e = put_u64 (FNV1a64 (Path e)) @ put_u64 (MTimeUnix e) @ put_u32 (Mode e) @
     put_u32 (EntryFlags e) @ put_u64 (FileSize e) @
     put_u32 (of_nat (length (Chunks e))) @ put_u32 (of_nat (length (Meta e))) @
     put_u32 (of_nat (length (Path e))) @
     concat (map enc_chunk_ref (Chunks e)) @ Meta e @ Path e"

definition dir_body :: "u64 \<Rightarrow> EntryV1 list \<Rightarrow> bytes" where
  "dir_body buildUnix es = MagicDir @ put_u32 (of_nat (length es)) @ put_u32 0 @
     put_u64 buildUnix @ concat (map enc_entry es)"

text \<open>
  The code sorts with \<^verbatim>\<open>sort.Slice\<close>, which may swap equal keys; the stable \<open>sort_key\<close> is one of its orders, and
  the only one if the paths are distinct, as they are in every table of a transaction.
\<close>

definition encodeDirectory :: "DirectoryV1 \<Rightarrow> (bytes \<times> u32) result" where
  "encodeDirectory dir =
     (if dFlags dir \<noteq> 0 then Inl FmtInvalidDir else
      let entries = sort_key Path (dEntries dir) in
      if \<exists>e \<in> set entries. Path e = [] then Inl FmtInvalidDir else
      let buf = dir_body (dBuildUnix dir) entries;
          crc = crc32 buf;
          buf = buf @ MagicEnd @ put_u32 crc;
          blob = buf @ put_u64 (of_nat (length buf + 8))
      in if length blob < 16 then Inl FmtInvalidDir else Inr (blob, crc))"

section \<open>Decoder of the whole directory\<close>

definition rd_chunk_ref :: "bytes \<Rightarrow> (ChunkRefV1 \<times> bytes) option" where
  "rd_chunk_ref r = do {
     (chunkOffset, r) \<leftarrow> rd_u64 r;
     (rawOffset, r) \<leftarrow> rd_u64 r;
     (rawSize, r) \<leftarrow> rd_u32 r;
     (compSize, r) \<leftarrow> rd_u32 r;
     (crc, r) \<leftarrow> rd_u32 r;
     (reserved, r) \<leftarrow> rd_u32 r;
     if reserved \<noteq> 0 then None
     else Some (\<lparr>ChunkOffset = chunkOffset, RawOffset = rawOffset, RawSize = rawSize,
       CompSize = compSize, CRC32Raw = crc, Reserved = reserved\<rparr>, r)
   }"

text \<open>
  The loop over the chunk references; \<open>later\<close> is \<^verbatim>\<open>j > 0\<close>, \<open>prevEnd\<close> the variable of the
  same name.
\<close>

fun rd_chunk_refs :: "nat \<Rightarrow> bool \<Rightarrow> u64 \<Rightarrow> bytes \<Rightarrow> (ChunkRefV1 list \<times> bytes) option" where
  "rd_chunk_refs 0 later prevEnd r = Some ([], r)"
| "rd_chunk_refs (Suc n) later prevEnd r = do {
     (c, r) \<leftarrow> rd_chunk_ref r;
     if later \<and> RawOffset c < prevEnd then None
     else do {
       prevEnd \<leftarrow> addUint64 (RawOffset c) (ucast (RawSize c));
       (cs, r) \<leftarrow> rd_chunk_refs n True prevEnd r;
       Some (c # cs, r)
     }
   }"

definition rd_entry_head :: "bytes \<Rightarrow> (EntryV1 \<times> bytes) option" where
  "rd_entry_head r = do {
     (pathHash, r) \<leftarrow> rd_u64 r;
     (mtime, r) \<leftarrow> rd_u64 r;
     (mode, r) \<leftarrow> rd_u32 r;
     (flags, r) \<leftarrow> rd_u32 r;
     (fileSize, r) \<leftarrow> rd_u64 r;
     (chunkCount, r) \<leftarrow> rd_u32 r;
     (metaSize, r) \<leftarrow> rd_u32 r;
     (pathSize, r) \<leftarrow> rd_u32 r;
     Some (\<lparr>PathHash64 = pathHash, MTimeUnix = mtime, Mode = mode, EntryFlags = flags,
       FileSize = fileSize, ChunkCount = chunkCount, MetaSize = metaSize, PathSize = pathSize,
       Chunks = [], Meta = [], Path = []\<rparr>, r)
   }"

text \<open>\<^verbatim>\<open>io.ReadFull\<close>, whose error the decoder returns as it is.\<close>

definition read_full :: "nat \<Rightarrow> bytes \<Rightarrow> (bytes \<times> bytes) result" where
  "read_full n r = or_err (if r = [] then IoEOF else IoUnexpectedEOF) (rd_bytes n r)"

text \<open>\<^verbatim>\<open>end, ok := addUint64(last.RawOffset, last.RawSize); !ok || end != e.FileSize\<close>\<close>

definition last_end_differs :: "ChunkRefV1 list \<Rightarrow> u64 \<Rightarrow> bool" where
  "last_end_differs cs fileSize =
     (case addUint64 (RawOffset (last cs)) (ucast (RawSize (last cs))) of
        None \<Rightarrow> True | Some e \<Rightarrow> e \<noteq> fileSize)"

definition decode_entry :: "bytes \<Rightarrow> (EntryV1 \<times> bytes) result" where
  "decode_entry r =
     (if length r < 44 + 16 then Inl FmtInvalidDir else
      rbind (or_err FmtInvalidDir (rd_entry_head r)) (\<lambda>(e, r).
      if ChunkCount e = 0 \<and> FileSize e \<noteq> 0 then Inl FmtInvalidDir else
      if ucast (ChunkCount e) > maxInt \<or> ucast (MetaSize e) > maxInt \<or>
         ucast (PathSize e) > maxInt then Inl FmtInvalidDir else
      rbind (or_err FmtInvalidDir (mulUint64 (ucast (ChunkCount e)) 32)) (\<lambda>chunksBytes.
      rbind (or_err FmtInvalidDir (addUint64 (ucast (MetaSize e)) (ucast (PathSize e))))
        (\<lambda>metaPathBytes.
      rbind (or_err FmtInvalidDir (addUint64 chunksBytes metaPathBytes)) (\<lambda>needBytes.
      rbind (or_err FmtInvalidDir (addUint64 needBytes 16)) (\<lambda>needBytes.
      if needBytes > of_nat (length r) then Inl FmtInvalidDir else
      rbind (or_err FmtInvalidDir (rd_chunk_refs (unat (ChunkCount e)) False 0 r)) (\<lambda>(cs, r).
      if FileSize e > 0 \<and> cs \<noteq> [] \<and> last_end_differs cs (FileSize e)
      then Inl FmtInvalidDir else
      rbind (read_full (unat (MetaSize e)) r) (\<lambda>(meta, r).
      rbind (read_full (unat (PathSize e)) r) (\<lambda>(path, r).
      if path = [] then Inl FmtInvalidDir
      else if FNV1a64 path \<noteq> PathHash64 e then Inl FmtInvalidDir
      else Inr (e\<lparr>Chunks := cs, Meta := meta, Path := path\<rparr>, r))))))))))"

fun decode_entries :: "nat \<Rightarrow> bytes \<Rightarrow> (EntryV1 list \<times> bytes) result" where
  "decode_entries 0 r = Inr ([], r)"
| "decode_entries (Suc n) r =
     rbind (decode_entry r) (\<lambda>(e, r).
     rbind (decode_entries n r) (\<lambda>(es, r). Inr (e # es, r)))"

definition decodeDirectory :: "bytes \<Rightarrow> u32 \<Rightarrow> u64 \<Rightarrow> DirectoryV1 result" where
  "decodeDirectory blob expectedCRC expectedSize =
     (if length blob < 20 + 16 then Inl FmtInvalidDir
      else if of_nat (length blob) \<noteq> expectedSize then Inl FmtInvalidDir
      else if take 4 blob \<noteq> MagicDir then Inl FmtInvalidDir
      else let footer = drop (length blob - 16) blob in
      if take 4 footer \<noteq> MagicEnd then Inl FmtInvalidDir
      else let crc = get_u32 (sub_bytes footer 4 8); total = get_u64 (sub_bytes footer 8 16) in
      if total \<noteq> expectedSize \<or> crc \<noteq> expectedCRC then Inl FmtInvalidDir
      else if crc32 (take (length blob - 16) blob) \<noteq> crc then Inl FmtCRCMismatch else
      rbind (or_err FmtInvalidDir (rd_bytes 4 blob)) (\<lambda>(magic, r).
      rbind (or_err FmtInvalidDir (rd_u32 r)) (\<lambda>(entryCount, r).
      rbind (or_err FmtInvalidDir (rd_u32 r)) (\<lambda>(flags, r).
      rbind (or_err FmtInvalidDir (rd_u64 r)) (\<lambda>(buildUnix, r).
      if magic \<noteq> MagicDir then Inl FmtInvalidDir
      else if flags \<noteq> 0 then Inl FmtInvalidDir
      else if ucast entryCount > maxInt then Inl FmtInvalidDir
      else if unat entryCount > (length blob - 20 - 16) div 44 then Inl FmtInvalidDir else
      rbind (decode_entries (unat entryCount) r) (\<lambda>(es, r).
      if length r \<noteq> 16 then Inl FmtInvalidDir
      else Inr \<lparr>dEntryCount = entryCount, dFlags = flags, dBuildUnix = buildUnix,
             dEntries = es\<rparr>))))))"

section \<open>Chunk references\<close>

lemma length_enc_chunk_ref [simp, len_simps]: "length (enc_chunk_ref c) = 32"
  by (simp add: enc_chunk_ref_def)

lemma length_enc_chunk_refs [simp, len_simps]:
  "length (concat (map enc_chunk_ref cs)) = 32 * length cs"
  by (induction cs) auto

interpretation chunk_ref: byte_codec enc_chunk_ref rd_chunk_ref "\<lambda>c. Reserved c = 0"
proof unfold_locales
  fix x :: ChunkRefV1 and r
  assume "Reserved x = 0"
  then show "rd_chunk_ref (enc_chunk_ref x @ r) = Some (x, r)"
    by (simp add: rd_chunk_ref_def enc_chunk_ref_def)
next
  fix b r and x :: ChunkRefV1
  assume "rd_chunk_ref b = Some (x, r)"
  then show "b = enc_chunk_ref x @ r \<and> Reserved x = 0"
    by (auto simp: rd_chunk_ref_def enc_chunk_ref_def bind_eq_Some_conv rd_iff split: if_splits)
qed

text \<open>
  What the decoder requires of the references of one entry, read from left to right: reserved
  words zero, raw ranges that neither overflow nor start before the end of the previous one.
\<close>

fun refs_ok :: "bool \<Rightarrow> u64 \<Rightarrow> ChunkRefV1 list \<Rightarrow> bool" where
  "refs_ok later prevEnd [] = True"
| "refs_ok later prevEnd (c # cs) \<longleftrightarrow>
     Reserved c = 0 \<and> (later \<longrightarrow> prevEnd \<le> RawOffset c) \<and>
     unat (RawOffset c) + unat (RawSize c) < 2 ^ 64 \<and>
     refs_ok True (RawOffset c + ucast (RawSize c)) cs"

lemma rd_chunk_refs_Suc:
  "rd_chunk_refs (Suc n) later p b = Some (cs, r) \<longleftrightarrow>
   (\<exists>c q cs'. cs = c # cs' \<and> rd_chunk_ref b = Some (c, q) \<and> (later \<longrightarrow> p \<le> RawOffset c) \<and>
     unat (RawOffset c) + unat (RawSize c) < 2 ^ 64 \<and>
     rd_chunk_refs n True (RawOffset c + ucast (RawSize c)) q = Some (cs', r))"
  by (auto simp: bind_eq_Some_conv addUint64_eq_Some not_less split: if_splits)

lemma rd_chunk_refs_iff:
  "rd_chunk_refs n later p b = Some (cs, r) \<longleftrightarrow>
   length cs = n \<and> b = concat (map enc_chunk_ref cs) @ r \<and> refs_ok later p cs"
proof (induction n arbitrary: later p b cs r)
  case 0
  then show ?case by auto
next
  case (Suc n)
  show ?case
    by (cases cs) (auto simp: rd_chunk_refs_Suc Suc chunk_ref.dec_iff simp del: rd_chunk_refs.simps)
qed

section \<open>Entries\<close>

text \<open>The invariant of a decoded entry.\<close>

definition entry_ok :: "EntryV1 \<Rightarrow> bool" where
  "entry_ok e \<longleftrightarrow>
     PathHash64 e = FNV1a64 (Path e) \<and> Path e \<noteq> [] \<and>
     ChunkCount e = of_nat (length (Chunks e)) \<and> length (Chunks e) < 2 ^ 32 \<and>
     MetaSize e = of_nat (length (Meta e)) \<and> length (Meta e) < 2 ^ 32 \<and>
     PathSize e = of_nat (length (Path e)) \<and> length (Path e) < 2 ^ 32 \<and>
     refs_ok False 0 (Chunks e) \<and>
     (Chunks e = [] \<longrightarrow> FileSize e = 0) \<and>
     (FileSize e > 0 \<and> Chunks e \<noteq> [] \<longrightarrow> \<not> last_end_differs (Chunks e) (FileSize e))"

lemma length_enc_entry [simp, len_simps]:
  "length (enc_entry e) = 44 + 32 * length (Chunks e) + length (Meta e) + length (Path e)"
  by (simp add: enc_entry_def)

lemma rd_entry_head_iff:
  "rd_entry_head b = Some (e, r) \<longleftrightarrow>
   Chunks e = [] \<and> Meta e = [] \<and> Path e = [] \<and>
   b = put_u64 (PathHash64 e) @ put_u64 (MTimeUnix e) @ put_u32 (Mode e) @
     put_u32 (EntryFlags e) @ put_u64 (FileSize e) @ put_u32 (ChunkCount e) @
     put_u32 (MetaSize e) @ put_u32 (PathSize e) @ r" (is "?l \<longleftrightarrow> ?r")
proof
  assume ?l
  then show ?r by (auto simp: rd_entry_head_def bind_eq_Some_conv rd_iff)
next
  assume ?r
  then show ?l by (simp add: rd_entry_head_def)
qed

lemma read_full_iff: "read_full n b = Inr (x, r) \<longleftrightarrow> b = x @ r \<and> length x = n"
  by (auto simp: read_full_def inr_simps rd_iff)

text \<open>The size computations on 32-bit counts never overflow 64 bits.\<close>

lemma u32_le_maxInt [simp]: "\<not> maxInt < ucast (x :: u32)"
  using unat_u32_lt [of x] by (simp add: word_less_nat_alt maxInt_def)

lemma need_size_simps [simp]:
  fixes cc ms ps :: u32
  shows "mulUint64 (ucast cc) 32 = Some (ucast cc * 32)"
    "addUint64 (ucast ms) (ucast ps) = Some (ucast ms + ucast ps)"
    "addUint64 (ucast cc * 32) (ucast ms + ucast ps) = Some (ucast cc * 32 + (ucast ms + ucast ps))"
    "addUint64 (ucast cc * 32 + (ucast ms + ucast ps)) 16
       = Some (ucast cc * 32 + (ucast ms + ucast ps) + 16)"
    "unat (ucast cc * 32 + (ucast ms + ucast ps) + 16 :: u64)
       = 32 * unat cc + (unat ms + unat ps) + 16"
proof -
  note bounds = unat_u32_lt [of cc] unat_u32_lt [of ms] unat_u32_lt [of ps]
  have 1: "unat (ucast cc * 32 :: u64) = 32 * unat cc"
    using bounds by (simp add: unat_mult_u64)
  have 2: "unat (ucast ms + ucast ps :: u64) = unat ms + unat ps"
    using bounds by (simp add: unat_add_u64)
  have 3: "unat (ucast cc * 32 + (ucast ms + ucast ps) :: u64) = 32 * unat cc + (unat ms + unat ps)"
    using bounds by (simp add: unat_add_u64 1 2)
  show "mulUint64 (ucast cc) 32 = Some (ucast cc * 32)"
    using bounds by (simp add: mulUint64_alt)
  show "addUint64 (ucast ms) (ucast ps) = Some (ucast ms + ucast ps)"
    using bounds by (simp add: addUint64_alt)
  show "addUint64 (ucast cc * 32) (ucast ms + ucast ps) = Some (ucast cc * 32 + (ucast ms + ucast ps))"
    using bounds by (simp add: addUint64_alt 1 2)
  show "addUint64 (ucast cc * 32 + (ucast ms + ucast ps)) 16
       = Some (ucast cc * 32 + (ucast ms + ucast ps) + 16)"
    using bounds by (simp add: addUint64_alt 3)
  show "unat (ucast cc * 32 + (ucast ms + ucast ps) + 16 :: u64)
       = 32 * unat cc + (unat ms + unat ps) + 16"
    using bounds by (simp add: unat_add_u64 3)
qed

text \<open>A successful run, with the tests that cannot fail gone.\<close>

lemma decode_entry_unfold:
  assumes "length b < 2 ^ 63"
  shows "decode_entry b = Inr (e, r) \<longleftrightarrow>
    (\<exists>h q cs q1 m q2 p.
       60 \<le> length b \<and> rd_entry_head b = Some (h, q) \<and>
       (ChunkCount h = 0 \<longrightarrow> FileSize h = 0) \<and>
       32 * unat (ChunkCount h) + (unat (MetaSize h) + unat (PathSize h)) + 16 \<le> length q \<and>
       rd_chunk_refs (unat (ChunkCount h)) False 0 q = Some (cs, q1) \<and>
       \<not> (FileSize h > 0 \<and> cs \<noteq> [] \<and> last_end_differs cs (FileSize h)) \<and>
       read_full (unat (MetaSize h)) q1 = Inr (m, q2) \<and>
       read_full (unat (PathSize h)) q2 = Inr (p, r) \<and>
       p \<noteq> [] \<and> FNV1a64 p = PathHash64 h \<and> e = h\<lparr>Chunks := cs, Meta := m, Path := p\<rparr>)"
proof (cases "rd_entry_head b")
  case None
  then show ?thesis by (auto simp: decode_entry_def)
next
  case (Some hq)
  then obtain h q where hq: "rd_entry_head b = Some (h, q)" by (cases hq) auto
  then have "length q < 2 ^ 64" using assms by (auto simp: rd_entry_head_iff)
  then have cmp: "of_nat (length q) < w \<longleftrightarrow> length q < unat w" for w :: u64
    by (rule of_nat_less_u64)
  show ?thesis
    by (simp add: decode_entry_def hq cmp inr_simps not_less) (auto simp: inr_simps)
qed

lemma decode_entry_sound:
  assumes "length b < 2 ^ 63" and "decode_entry b = Inr (e, r)"
  shows "b = enc_entry e @ r" and "entry_ok e" and "16 \<le> length r"
proof -
  from assms obtain h q cs q1 m q2 p where
    h: "rd_entry_head b = Some (h, q)" and
    z: "ChunkCount h = 0 \<longrightarrow> FileSize h = 0" and
    need: "32 * unat (ChunkCount h) + (unat (MetaSize h) + unat (PathSize h)) + 16 \<le> length q" and
    cs: "rd_chunk_refs (unat (ChunkCount h)) False 0 q = Some (cs, q1)" and
    le: "\<not> (FileSize h > 0 \<and> cs \<noteq> [] \<and> last_end_differs cs (FileSize h))" and
    m: "read_full (unat (MetaSize h)) q1 = Inr (m, q2)" and
    p: "read_full (unat (PathSize h)) q2 = Inr (p, r)" and
    ne: "p \<noteq> []" and hash: "FNV1a64 p = PathHash64 h" and
    e: "e = h\<lparr>Chunks := cs, Meta := m, Path := p\<rparr>"
    by (auto simp: decode_entry_unfold)
  have lens: "length cs = unat (ChunkCount h)" "length m = unat (MetaSize h)"
      "length p = unat (PathSize h)"
    using cs m p by (auto simp: rd_chunk_refs_iff read_full_iff)
  note sizes = lens [THEN length_eq_unat]
  have q: "q = concat (map enc_chunk_ref cs) @ m @ p @ r"
    using cs m p by (auto simp: rd_chunk_refs_iff read_full_iff)
  show "b = enc_entry e @ r"
    using h q sizes hash by (simp add: e enc_entry_def rd_entry_head_iff)
  show "16 \<le> length r" using need lens by (simp add: q)
  have "refs_ok False 0 cs" using cs by (simp add: rd_chunk_refs_iff)
  then show "entry_ok e"
    using sizes z le ne hash by (auto simp: entry_ok_def e)
qed

lemma decode_entry_enc:
  assumes "length (enc_entry e @ r) < 2 ^ 63" and ok: "entry_ok e" and r: "16 \<le> length r"
  shows "decode_entry (enc_entry e @ r) = Inr (e, r)"
proof -
  define h where "h = e\<lparr>Chunks := [], Meta := [], Path := []\<rparr>"
  define q where "q = concat (map enc_chunk_ref (Chunks e)) @ Meta e @ Path e @ r"
  from ok have fields: "PathHash64 e = FNV1a64 (Path e)"
    "ChunkCount e = of_nat (length (Chunks e))" "MetaSize e = of_nat (length (Meta e))"
    "PathSize e = of_nat (length (Path e))"
    and small: "length (Chunks e) < 2 ^ 32" "length (Meta e) < 2 ^ 32" "length (Path e) < 2 ^ 32"
    by (simp_all add: entry_ok_def)
  have h: "rd_entry_head (enc_entry e @ r) = Some (h, q)"
    by (simp add: rd_entry_head_iff h_def q_def enc_entry_def fields)
  have n: "unat (ChunkCount h) = length (Chunks e)" "unat (MetaSize h) = length (Meta e)"
      "unat (PathSize h) = length (Path e)"
    using small by (simp_all add: h_def fields unat_of_nat_u32)
  have "ChunkCount h = 0 \<longrightarrow> FileSize h = 0"
    using ok n(1) by (auto simp: entry_ok_def h_def unat_eq_zero [symmetric])
  moreover have "rd_chunk_refs (unat (ChunkCount h)) False 0 q
      = Some (Chunks e, Meta e @ Path e @ r)"
    using ok by (simp add: rd_chunk_refs_iff n q_def entry_ok_def)
  moreover have "read_full (unat (MetaSize h)) (Meta e @ Path e @ r) = Inr (Meta e, Path e @ r)"
      "read_full (unat (PathSize h)) (Path e @ r) = Inr (Path e, r)"
    by (simp_all add: read_full_iff n)
  moreover have "\<not> (FileSize h > 0 \<and> Chunks e \<noteq> [] \<and> last_end_differs (Chunks e) (FileSize h))"
    "Path e \<noteq> []" "FNV1a64 (Path e) = PathHash64 h"
    using ok by (auto simp: entry_ok_def h_def)
  moreover have "60 \<le> length (enc_entry e @ r)" using r by simp
  moreover have "32 * unat (ChunkCount h) + (unat (MetaSize h) + unat (PathSize h)) + 16 \<le> length q"
    using r n by (simp add: q_def)
  moreover have "e = h\<lparr>Chunks := Chunks e, Meta := Meta e, Path := Path e\<rparr>"
    by (simp add: h_def)
  ultimately show ?thesis
    using h assms(1) by (subst decode_entry_unfold) blast+
qed

lemma decode_entries_sound:
  "length b < 2 ^ 63 \<Longrightarrow> decode_entries n b = Inr (es, r) \<Longrightarrow>
   length es = n \<and> b = concat (map enc_entry es) @ r \<and> list_all entry_ok es"
proof (induction n arbitrary: b es)
  case 0
  then show ?case by simp
next
  case (Suc n)
  from Suc.prems(2) obtain e q es' where
    e: "decode_entry b = Inr (e, q)" and es: "decode_entries n q = Inr (es', r)" "es = e # es'"
    by (auto simp: inr_simps)
  note e' = decode_entry_sound [OF Suc.prems(1) e]
  then have "length q < 2 ^ 63" using Suc.prems(1) by simp
  from Suc.IH [OF this es(1)] e' es(2) show ?case by simp
qed

lemma decode_entries_enc:
  "list_all entry_ok es \<Longrightarrow> 16 \<le> length r \<Longrightarrow> length (concat (map enc_entry es) @ r) < 2 ^ 63 \<Longrightarrow>
   decode_entries (length es) (concat (map enc_entry es) @ r) = Inr (es, r)"
proof (induction es)
  case Nil
  then show ?case by simp
next
  case (Cons e es)
  then have "decode_entry (enc_entry e @ concat (map enc_entry es) @ r)
      = Inr (e, concat (map enc_entry es) @ r)"
    by (intro decode_entry_enc) auto
  moreover have "decode_entries (length es) (concat (map enc_entry es) @ r) = Inr (es, r)"
    using Cons by (intro Cons.IH) simp_all
  ultimately show ?case by simp
qed

section \<open>The whole blob\<close>

definition dir_footer :: "bytes \<Rightarrow> bytes" where
  "dir_footer body = MagicEnd @ put_u32 (crc32 body) @ put_u64 (of_nat (length body + 16))"

definition dir_blob :: "u64 \<Rightarrow> EntryV1 list \<Rightarrow> bytes" where
  "dir_blob buildUnix es = dir_body buildUnix es @ dir_footer (dir_body buildUnix es)"

definition entries_size :: "EntryV1 list \<Rightarrow> nat" where
  "entries_size es = length (concat (map enc_entry es))"

lemma length_dir_footer [simp, len_simps]: "length (dir_footer b) = 16"
  by (simp add: dir_footer_def)

lemma length_dir_body [simp, len_simps]: "length (dir_body bu es) = 20 + entries_size es"
  by (simp add: dir_body_def entries_size_def)

lemma length_dir_blob [simp, len_simps]: "length (dir_blob bu es) = 36 + entries_size es"
  by (simp add: dir_blob_def)

lemma entries_size_simps [simp]:
  "entries_size [] = 0"
  "entries_size (e # es) = length (enc_entry e) + entries_size es"
  by (simp_all add: entries_size_def)

lemma entries_size_ge: "44 * length es \<le> entries_size es"
  by (induction es) auto

lemma encodeDirectory_blob:
  assumes "encodeDirectory d = Inr (b, crc)"
  shows "b = dir_blob (dBuildUnix d) (sort_key Path (dEntries d))"
    and "crc = crc32 (dir_body (dBuildUnix d) (sort_key Path (dEntries d)))"
    and "dFlags d = 0" and "\<forall>e \<in> set (dEntries d). Path e \<noteq> []"
  using assms
  by (auto simp: encodeDirectory_def dir_blob_def dir_footer_def Let_def add.commute
      split: if_splits)

lemma encodeDirectory_ok:
  assumes "dFlags d = 0" and "\<forall>e \<in> set (dEntries d). Path e \<noteq> []"
  shows "encodeDirectory d =
    Inr (dir_blob (dBuildUnix d) (sort_key Path (dEntries d)),
         crc32 (dir_body (dBuildUnix d) (sort_key Path (dEntries d))))"
  using assms
  by (auto simp: encodeDirectory_def dir_blob_def dir_footer_def Let_def add.commute)

text \<open>The parts of a blob, as the readers cut it.\<close>

lemma dir_blob_parts:
  "take 4 (dir_blob bu es) = MagicDir"
  "drop (length (dir_blob bu es) - 16) (dir_blob bu es) = dir_footer (dir_body bu es)"
  "take (length (dir_blob bu es) - 16) (dir_blob bu es) = dir_body bu es"
proof -
  show "take 4 (dir_blob bu es) = MagicDir" by (simp add: dir_blob_def dir_body_def)
  show "drop (length (dir_blob bu es) - 16) (dir_blob bu es) = dir_footer (dir_body bu es)"
    "take (length (dir_blob bu es) - 16) (dir_blob bu es) = dir_body bu es"
    by (simp_all only: dir_blob_def length_append length_dir_footer add_diff_cancel_right'
        append_eq_conv_conj drop_append take_append) simp_all
qed

lemma dir_footer_parts:
  "take 4 (dir_footer b) = MagicEnd"
  "get_u32 (sub_bytes (dir_footer b) 4 8) = crc32 b"
  "get_u64 (sub_bytes (dir_footer b) 8 16) = of_nat (length b + 16)"
  by (simp_all add: dir_footer_def sub_bytes_def)

definition decoded :: "u64 \<Rightarrow> EntryV1 list \<Rightarrow> DirectoryV1" where
  "decoded bu es = \<lparr>dEntryCount = of_nat (length es), dFlags = 0, dBuildUnix = bu, dEntries = es\<rparr>"

lemma decodeDirectory_enc:
  assumes ok: "list_all entry_ok es" and n: "length es < 2 ^ 32"
    and sz: "length (dir_blob bu es) < 2 ^ 63"
  shows "decodeDirectory (dir_blob bu es) (crc32 (dir_body bu es)) (of_nat (length (dir_blob bu es)))
    = Inr (decoded bu es)"
proof -
  let ?b = "dir_blob bu es"
  define foot where "foot = dir_footer (dir_body bu es)"
  have body: "?b = MagicDir @ put_u32 (of_nat (length es)) @ put_u32 0 @ put_u64 bu @
      concat (map enc_entry es) @ foot"
    by (simp add: dir_blob_def dir_body_def foot_def)
  have dec: "decode_entries (length es) (concat (map enc_entry es) @ foot) = Inr (es, foot)"
    using sz by (intro decode_entries_enc ok) (simp_all add: foot_def entries_size_def)
  have rd: "rd_bytes 4 ?b = Some (MagicDir, put_u32 (of_nat (length es)) @ put_u32 0 @ put_u64 bu @
      concat (map enc_entry es) @ foot)"
    unfolding body by (rule rd_bytes_append) simp
  have cnt: "\<not> length es > (length ?b - 20 - 16) div 44"
    using entries_size_ge [of es] by (simp add: less_eq_div_iff_mult_less_eq not_less)
  have foot16: "length foot = 16" by (simp add: foot_def)
  have un: "unat (of_nat (length es) :: u32) = length es"
    using n by (rule unat_of_nat_u32)
  show ?thesis
    unfolding decodeDirectory_def Let_def
    by (simp only: dir_blob_parts dir_footer_parts)
      (use cnt in \<open>simp add: rd dec un decoded_def foot16\<close>)
qed

lemma drop_footer_eq:
  assumes "16 \<le> length b" "take 4 (drop (length b - 16) b) = MagicEnd"
    "get_u32 (sub_bytes (drop (length b - 16) b) 4 8) = crc32 (take (length b - 16) b)"
    "get_u64 (sub_bytes (drop (length b - 16) b) 8 16) = of_nat (length b)"
  shows "drop (length b - 16) b = dir_footer (take (length b - 16) b)"
proof -
  define f where "f = drop (length b - 16) b"
  have len: "length f = 16" using assms(1) by (simp add: f_def)
  then have "f = take 4 f @ sub_bytes f 4 8 @ sub_bytes f 8 16"
    using sub_bytes_split [of 4 8 16 f] by (simp add: sub_bytes_def)
  also have "\<dots> = take 4 f @ put_u32 (get_u32 (sub_bytes f 4 8)) @ put_u64 (get_u64 (sub_bytes f 8 16))"
    using len by (simp add: put_get_uint)
  also have "\<dots> = dir_footer (take (length b - 16) b)"
    using assms by (simp add: f_def dir_footer_def)
  finally show ?thesis by (simp add: f_def)
qed

lemma decodeDirectory_sound:
  assumes len: "length b < 2 ^ 63" and dec: "decodeDirectory b crc sz = Inr d"
  shows "d = decoded (dBuildUnix d) (dEntries d)"
    and "b = dir_blob (dBuildUnix d) (dEntries d)"
    and "list_all entry_ok (dEntries d)" and "length (dEntries d) < 2 ^ 32"
    and "crc = crc32 (dir_body (dBuildUnix d) (dEntries d))" and "sz = of_nat (length b)"
proof -
  define foot where "foot = drop (length b - 16) b"
  from dec obtain cnt bu r es q where
    l36: "36 \<le> length b" and sz: "sz = of_nat (length b)" and
    foot: "take 4 foot = MagicEnd" "get_u64 (sub_bytes foot 8 16) = of_nat (length b)"
      "get_u32 (sub_bytes foot 4 8) = crc" "crc32 (take (length b - 16) b) = crc" and
    rd: "b = MagicDir @ put_u32 cnt @ put_u32 0 @ put_u64 bu @ r" and
    es: "decode_entries (unat cnt) r = Inr (es, q)" and q: "length q = 16" and
    d: "d = \<lparr>dEntryCount = cnt, dFlags = 0, dBuildUnix = bu, dEntries = es\<rparr>"
    unfolding decodeDirectory_def Let_def foot_def
    by (auto simp: inr_simps rd_iff not_less split: prod.splits)
  have "length r < 2 ^ 63" using len rd by simp
  from decode_entries_sound [OF this es]
  have n: "length es = unat cnt" and r: "r = concat (map enc_entry es) @ q"
    and ok: "list_all entry_ok es" by simp_all
  note cnt = length_eq_unat [OF n]
  have bq: "b = dir_body bu es @ q" using rd r cnt by (simp add: dir_body_def)
  then have "foot = q" "take (length b - 16) b = dir_body bu es" using q by (simp_all add: foot_def)
  moreover have "foot = dir_footer (take (length b - 16) b)"
    unfolding foot_def using foot l36 by (intro drop_footer_eq) (simp_all add: foot_def)
  ultimately have blob: "b = dir_blob bu es" using bq by (simp add: dir_blob_def)
  show "d = decoded (dBuildUnix d) (dEntries d)" using d cnt by (simp add: decoded_def)
  show "b = dir_blob (dBuildUnix d) (dEntries d)" using d blob by simp
  show "list_all entry_ok (dEntries d)" "length (dEntries d) < 2 ^ 32" using d ok cnt by simp_all
  show "crc = crc32 (dir_body (dBuildUnix d) (dEntries d))"
    using foot(4) \<open>take (length b - 16) b = dir_body bu es\<close> d by simp
  show "sz = of_nat (length b)" by (rule sz)
qed

end
