(* ===== verification/DirectoryEntry.thy ===== *)
theory DirectoryEntry
  imports Directory "HOL-Library.Multiset"
begin

text \<open>
  \<^verbatim>\<open>DecodeDirectoryEntryAt\<close> of \<^verbatim>\<open>internal/format/directory_entry.go\<close>: one entry decoded from its
  slice of the directory blob, as the index-based lookups do it. It accepts exactly the slices
  the decoder of the whole directory accepts as entries. The last part is the normal form an
  entry has after an encode/decode round trip, and the facts about sorting by path that the
  encoder needs.
\<close>

section \<open>One entry at an offset\<close>

definition decodeDirectoryEntryAt :: "bytes \<Rightarrow> u32 \<Rightarrow> u32 \<Rightarrow> EntryV1 result" where
  "decodeDirectoryEntryAt blob entryOff entrySize =
     (if length blob < 20 + 16 then Inl FmtInvalidDir else
      let start = ucast entryOff :: u64; size = ucast entrySize :: u64 in
      if size < 44 then Inl FmtInvalidDir
      else if start < 20 then Inl FmtInvalidDir else
      rbind (or_err FmtInvalidDir (addUint64 start size)) (\<lambda>stop.
      if stop > of_nat (length blob - 16) then Inl FmtInvalidDir
      else if stop > maxInt then Inl FmtInvalidDir else
      let r = sub_bytes blob (unat start) (unat stop) in
      rbind (or_err FmtInvalidDir (rd_entry_head r)) (\<lambda>(e, r).
      if ChunkCount e = 0 \<and> FileSize e \<noteq> 0 then Inl FmtInvalidDir else
      if ucast (ChunkCount e) > maxInt \<or> ucast (MetaSize e) > maxInt \<or>
         ucast (PathSize e) > maxInt then Inl FmtInvalidDir else
      rbind (or_err FmtInvalidDir (mulUint64 (ucast (ChunkCount e)) 32)) (\<lambda>chunksBytes.
      rbind (or_err FmtInvalidDir (addUint64 (ucast (MetaSize e)) (ucast (PathSize e))))
        (\<lambda>metaPathBytes.
      rbind (or_err FmtInvalidDir (addUint64 44 chunksBytes)) (\<lambda>need.
      rbind (or_err FmtInvalidDir (addUint64 need metaPathBytes)) (\<lambda>need.
      if need \<noteq> size then Inl FmtInvalidDir else
      rbind (or_err FmtInvalidDir (rd_chunk_refs (unat (ChunkCount e)) False 0 r)) (\<lambda>(cs, r).
      if FileSize e > 0 \<and> cs \<noteq> [] \<and> last_end_differs cs (FileSize e)
      then Inl FmtInvalidDir else
      rbind (or_err FmtInvalidDir (rd_bytes (unat (MetaSize e)) r)) (\<lambda>(meta, r).
      rbind (or_err FmtInvalidDir (rd_bytes (unat (PathSize e)) r)) (\<lambda>(path, r).
      if r \<noteq> [] then Inl FmtInvalidDir
      else if path = [] then Inl FmtInvalidDir
      else if FNV1a64 path \<noteq> PathHash64 e then Inl FmtInvalidDir
      else Inr (e\<lparr>Chunks := cs, Meta := meta, Path := path\<rparr>)))))))))))"

lemma need_at_simps [simp]:
  fixes cc ms ps :: u32
  shows "addUint64 44 (ucast cc * 32) = Some (44 + ucast cc * 32)"
    "addUint64 (44 + ucast cc * 32) (ucast ms + ucast ps)
       = Some (44 + ucast cc * 32 + (ucast ms + ucast ps))"
    "unat (44 + ucast cc * 32 + (ucast ms + ucast ps) :: u64)
       = 44 + 32 * unat cc + (unat ms + unat ps)"
proof -
  note bounds = unat_u32_lt [of cc] unat_u32_lt [of ms] unat_u32_lt [of ps]
  have 1: "unat (ucast cc * 32 :: u64) = 32 * unat cc"
    using bounds by (simp add: unat_mult_u64)
  have 2: "unat (ucast ms + ucast ps :: u64) = unat ms + unat ps"
    using bounds by (simp add: unat_add_u64)
  have 3: "unat (44 + ucast cc * 32 :: u64) = 44 + 32 * unat cc"
    using bounds by (simp add: unat_add_u64 1)
  show "addUint64 44 (ucast cc * 32) = Some (44 + ucast cc * 32)"
    using bounds by (simp add: addUint64_alt 1)
  show "addUint64 (44 + ucast cc * 32) (ucast ms + ucast ps)
       = Some (44 + ucast cc * 32 + (ucast ms + ucast ps))"
    using bounds by (simp add: addUint64_alt 2 3)
  show "unat (44 + ucast cc * 32 + (ucast ms + ucast ps) :: u64)
       = 44 + 32 * unat cc + (unat ms + unat ps)"
    using bounds by (simp add: unat_add_u64 2 3)
qed

lemma need_at_eq [simp]:
  fixes cc ms ps sz :: u32
  shows "(44 + ucast cc * 32 + (ucast ms + ucast ps) :: u64) = ucast sz \<longleftrightarrow>
    44 + 32 * unat cc + (unat ms + unat ps) = unat sz"
  by (simp only: word_unat_eq_iff need_at_simps unat_ucast_u32)

text \<open>The guards before the slice is read, in natural numbers.\<close>

definition slice_ok :: "bytes \<Rightarrow> u32 \<Rightarrow> u32 \<Rightarrow> bool" where
  "slice_ok b off sz \<longleftrightarrow>
     36 \<le> length b \<and> 44 \<le> unat sz \<and> 20 \<le> unat off \<and> unat off + unat sz \<le> length b - 16"

definition entry_slice :: "bytes \<Rightarrow> u32 \<Rightarrow> u32 \<Rightarrow> bytes" where
  "entry_slice b off sz = sub_bytes b (unat off) (unat off + unat sz)"

lemma decodeAt_unfold:
  assumes "length b < 2 ^ 63"
  shows "decodeDirectoryEntryAt b off sz = Inr e \<longleftrightarrow> slice_ok b off sz \<and>
    (\<exists>h q cs q1 m q2 p.
       rd_entry_head (entry_slice b off sz) = Some (h, q) \<and>
       (ChunkCount h = 0 \<longrightarrow> FileSize h = 0) \<and>
       44 + 32 * unat (ChunkCount h) + (unat (MetaSize h) + unat (PathSize h)) = unat sz \<and>
       rd_chunk_refs (unat (ChunkCount h)) False 0 q = Some (cs, q1) \<and>
       \<not> (FileSize h > 0 \<and> cs \<noteq> [] \<and> last_end_differs cs (FileSize h)) \<and>
       rd_bytes (unat (MetaSize h)) q1 = Some (m, q2) \<and>
       rd_bytes (unat (PathSize h)) q2 = Some (p, []) \<and>
       p \<noteq> [] \<and> FNV1a64 p = PathHash64 h \<and> e = h\<lparr>Chunks := cs, Meta := m, Path := p\<rparr>)"
proof -
  note bounds = unat_u32_lt [of off] unat_u32_lt [of sz]
  have sum: "unat (ucast off + ucast sz :: u64) = unat off + unat sz"
    and add: "addUint64 (ucast off) (ucast sz) = Some (ucast off + ucast sz)"
    using bounds by (simp_all add: unat_add_u64 addUint64_alt)
  have small: "(ucast sz < (44 :: u64)) = (unat sz < 44)"
      "(ucast off < (20 :: u64)) = (unat off < 20)"
      "\<not> maxInt < ucast off + ucast sz"
      "(of_nat (length b - 16) < (ucast off + ucast sz :: u64)) = (length b - 16 < unat off + unat sz)"
    using bounds assms by (simp_all add: word_less_nat_alt sum maxInt_def unat_of_nat)
  show ?thesis
  proof (cases "slice_ok b off sz")
    case False
    then show ?thesis
      by (auto simp: decodeDirectoryEntryAt_def Let_def slice_ok_def small add not_less
          simp del: of_nat_diff)
  next
    case True
    then have guards: "\<not> length b < 36" "\<not> unat sz < 44" "\<not> unat off < 20"
        "\<not> length b - 16 < unat off + unat sz"
      by (simp_all add: slice_ok_def)
    show ?thesis
    proof (cases "rd_entry_head (entry_slice b off sz)")
      case None
      then show ?thesis using guards
        by (simp add: decodeDirectoryEntryAt_def Let_def small add sum entry_slice_def
            del: of_nat_diff)
    next
      case (Some hq)
      then obtain h q where "rd_entry_head (entry_slice b off sz) = Some (h, q)"
        by (cases hq) auto
      then show ?thesis using True guards
        by (simp add: decodeDirectoryEntryAt_def Let_def small add sum entry_slice_def
            inr_simps eq_commute [of e] del: of_nat_diff)
    qed
  qed
qed

lemma decodeAt_iff:
  assumes "length b < 2 ^ 63"
  shows "decodeDirectoryEntryAt b off sz = Inr e \<longleftrightarrow>
    slice_ok b off sz \<and> entry_slice b off sz = enc_entry e \<and> entry_ok e"
    (is "?l \<longleftrightarrow> ?r")
proof
  assume ?l
  then obtain h q cs q1 m q2 p where
    sl: "slice_ok b off sz" and
    h: "rd_entry_head (entry_slice b off sz) = Some (h, q)" and
    z: "ChunkCount h = 0 \<longrightarrow> FileSize h = 0" and
    cs: "rd_chunk_refs (unat (ChunkCount h)) False 0 q = Some (cs, q1)" and
    le: "\<not> (FileSize h > 0 \<and> cs \<noteq> [] \<and> last_end_differs cs (FileSize h))" and
    m: "rd_bytes (unat (MetaSize h)) q1 = Some (m, q2)" and
    p: "rd_bytes (unat (PathSize h)) q2 = Some (p, [])" and
    ne: "p \<noteq> []" and hash: "FNV1a64 p = PathHash64 h" and
    e: "e = h\<lparr>Chunks := cs, Meta := m, Path := p\<rparr>"
    by (auto simp: decodeAt_unfold [OF assms])
  have lens: "length cs = unat (ChunkCount h)" "length m = unat (MetaSize h)"
      "length p = unat (PathSize h)"
    using cs m p by (auto simp: rd_chunk_refs_iff rd_iff)
  note sizes = lens [THEN length_eq_unat]
  have q: "q = concat (map enc_chunk_ref cs) @ m @ p"
    using cs m p by (auto simp: rd_chunk_refs_iff rd_iff)
  have "entry_slice b off sz = enc_entry e"
    using h q sizes hash by (simp add: e enc_entry_def rd_entry_head_iff)
  moreover have "refs_ok False 0 cs" using cs by (simp add: rd_chunk_refs_iff)
  then have "entry_ok e" using sizes z le ne hash by (auto simp: entry_ok_def e)
  ultimately show ?r using sl by simp
next
  assume ?r
  then have sl: "slice_ok b off sz" and s: "entry_slice b off sz = enc_entry e" and ok: "entry_ok e"
    by simp_all
  define h where "h = e\<lparr>Chunks := [], Meta := [], Path := []\<rparr>"
  define q where "q = concat (map enc_chunk_ref (Chunks e)) @ Meta e @ Path e"
  from ok have fields: "PathHash64 e = FNV1a64 (Path e)"
    "ChunkCount e = of_nat (length (Chunks e))" "MetaSize e = of_nat (length (Meta e))"
    "PathSize e = of_nat (length (Path e))"
    and small: "length (Chunks e) < 2 ^ 32" "length (Meta e) < 2 ^ 32" "length (Path e) < 2 ^ 32"
    by (simp_all add: entry_ok_def)
  have "rd_entry_head (entry_slice b off sz) = Some (h, q)"
    by (simp add: rd_entry_head_iff h_def q_def s enc_entry_def fields)
  moreover have n: "unat (ChunkCount h) = length (Chunks e)"
      "unat (MetaSize h) = length (Meta e)" "unat (PathSize h) = length (Path e)"
    using small by (simp_all add: h_def fields unat_of_nat_u32)
  moreover have "ChunkCount h = 0 \<longrightarrow> FileSize h = 0"
    using ok n(1) by (auto simp: entry_ok_def h_def unat_eq_zero [symmetric])
  moreover have "rd_chunk_refs (length (Chunks e)) False 0 q = Some (Chunks e, Meta e @ Path e)"
    using ok by (simp add: rd_chunk_refs_iff q_def entry_ok_def)
  moreover have "length (entry_slice b off sz) = unat sz"
    using sl by (auto simp: entry_slice_def slice_ok_def)
  then have "44 + 32 * length (Chunks e) + (length (Meta e) + length (Path e)) = unat sz"
    by (simp add: s)
  moreover have "rd_bytes (length (Path e)) (Path e) = Some (Path e, [])"
    by (simp add: rd_iff)
  moreover have "\<not> (FileSize h > 0 \<and> Chunks e \<noteq> [] \<and> last_end_differs (Chunks e) (FileSize h))"
    "Path e \<noteq> []" "FNV1a64 (Path e) = PathHash64 h"
    using ok by (auto simp: entry_ok_def h_def)
  moreover have "e = h\<lparr>Chunks := Chunks e, Meta := Meta e, Path := Path e\<rparr>"
    by (simp add: h_def)
  ultimately show ?l
    using sl by (subst decodeAt_unfold [OF assms]) (auto simp: rd_bytes_append)
qed

section \<open>The normal form of an entry\<close>

text \<open>
  The encoder ignores the stored hash and counts of an entry and writes zero reserved words, so
  an entry comes back in this form.
\<close>

definition norm_entry :: "EntryV1 \<Rightarrow> EntryV1" where
  "norm_entry e = e\<lparr>PathHash64 := FNV1a64 (Path e),
     ChunkCount := of_nat (length (Chunks e)), MetaSize := of_nat (length (Meta e)),
     PathSize := of_nat (length (Path e)), Chunks := map (Reserved_update (\<lambda>_. 0)) (Chunks e)\<rparr>"

lemma norm_entry_simps [simp]:
  "Path (norm_entry e) = Path e" "Meta (norm_entry e) = Meta e" "FileSize (norm_entry e) = FileSize e"
  "MTimeUnix (norm_entry e) = MTimeUnix e" "Mode (norm_entry e) = Mode e"
  "EntryFlags (norm_entry e) = EntryFlags e"
  "Chunks (norm_entry e) = map (Reserved_update (\<lambda>_. 0)) (Chunks e)"
  by (simp_all add: norm_entry_def)

lemma enc_chunk_ref_reserved [simp]: "enc_chunk_ref (c\<lparr>Reserved := x\<rparr>) = enc_chunk_ref c"
  by (simp add: enc_chunk_ref_def)

lemma enc_entry_norm [simp]: "enc_entry (norm_entry e) = enc_entry e"
  by (simp add: enc_entry_def norm_entry_def comp_def)

lemma enc_entries_norm: "concat (map enc_entry (map norm_entry es)) = concat (map enc_entry es)"
  by (simp add: comp_def)

lemma dir_body_norm [simp]: "dir_body bu (map norm_entry es) = dir_body bu es"
  by (simp add: dir_body_def comp_def)

lemma dir_blob_norm [simp]: "dir_blob bu (map norm_entry es) = dir_blob bu es"
  by (simp add: dir_blob_def)

lemma norm_entry_ok: "entry_ok e \<Longrightarrow> norm_entry e = e"
proof -
  assume ok: "entry_ok e"
  have "map (Reserved_update (\<lambda>_. 0)) cs = cs" if "refs_ok l p cs" for l p cs
    using that by (induction l p cs rule: refs_ok.induct) simp_all
  then have "map (Reserved_update (\<lambda>_. 0)) (Chunks e) = Chunks e"
    using ok by (auto simp: entry_ok_def)
  with ok show ?thesis
    by (intro EntryV1.equality) (simp_all add: norm_entry_def entry_ok_def)
qed

section \<open>Sorting by path\<close>

lemma insort_norm:
  "insort_key Path (norm_entry e) (map norm_entry es) = map norm_entry (insort_key Path e es)"
  by (induction es) auto

lemma sort_norm: "sort_key Path (map norm_entry es) = map norm_entry (sort_key Path es)"
  by (induction es) (simp_all add: insort_norm)

text \<open>
  With distinct paths there is one sorted arrangement: the unstable sort of the Go library and
  any iteration order of the entry map lead to the same list.
\<close>

lemma sort_key_unique:
  assumes "mset xs = mset ys" "distinct (map f xs)"
  shows "sort_key f xs = sort_key f ys"
  using assms by (intro sort_key_inj_key_eq) (simp_all add: distinct_map)

lemma map_sort_key: "map f (sort_key f xs) = sort (map f xs)"
proof (induction xs)
  case (Cons x xs)
  have "map f (insort_key f x ys) = insort (f x) (map f ys)" for ys
    by (induction ys) auto
  with Cons show ?case by simp
qed simp

theorem decode_encode_directory:
  assumes enc: "encodeDirectory d = Inr (b, crc)"
    and ok: "\<forall>e \<in> set (dEntries d). entry_ok (norm_entry e)"
    and n: "length (dEntries d) < 2 ^ 32" and len: "length b < 2 ^ 63"
  shows "decodeDirectory b crc (of_nat (length b))
    = Inr (decoded (dBuildUnix d) (map norm_entry (sort_key Path (dEntries d))))"
proof -
  define es where "es = map norm_entry (sort_key Path (dEntries d))"
  have b: "b = dir_blob (dBuildUnix d) es" "crc = crc32 (dir_body (dBuildUnix d) es)"
    using encodeDirectory_blob [OF enc] by (simp_all add: es_def)
  have "list_all entry_ok es" using ok by (simp add: es_def list_all_iff)
  moreover have "length es < 2 ^ 32" using n by (simp add: es_def)
  ultimately show ?thesis
    using len unfolding b es_def [symmetric] by (intro decodeDirectory_enc) simp_all
qed

end
