(* ===== verification/DirIndex.thy ===== *)
theory DirIndex
  imports DirectoryEntry
begin

text \<open>
  The binary form of the directory index \<^verbatim>\<open>IDX1\<close>: \<^verbatim>\<open>internal/format/dir_index.go\<close>. The tables of
  fixed-size rows are slots in the sense of \<open>slot_codec\<close>; the lemmas show that a marshalled
  index is read back unchanged when its tables satisfy the validation, and spell out what an
  accepted index guarantees.
\<close>

section \<open>Data\<close>

definition MagicDirIndex :: bytes where "MagicDirIndex = [0x49, 0x44, 0x58, 0x31]"

record DirIndexEntryV1 =
  xDirEntryOffset :: u32
  xDirEntrySize :: u32
  xPathHash64 :: u64
  xPathOffset :: u32
  xPathSize :: u32

record DirIndexHashRangeV1 =
  gPathHash64 :: u64
  gFirstEntryIndex :: u32
  gEntrySpan :: u32

record DirIndexV1 =
  iFlags :: u32
  iGeneration :: u64
  iDirOffset :: u64
  iDirSize :: u64
  iDirCRC32 :: u32
  iEntries :: "DirIndexEntryV1 list"
  iHashRanges :: "DirIndexHashRangeV1 list"

section \<open>Encoder\<close>

definition enc_index_row :: "DirIndexEntryV1 \<Rightarrow> bytes" where
  "enc_index_row x = put_u32 (xDirEntryOffset x) @ put_u32 (xDirEntrySize x) @
     put_u64 (xPathHash64 x) @ put_u32 (xPathOffset x) @ put_u32 (xPathSize x)"

definition enc_hash_range :: "DirIndexHashRangeV1 \<Rightarrow> bytes" where
  "enc_hash_range g = put_u64 (gPathHash64 g) @ put_u32 (gFirstEntryIndex g) @
     put_u32 (gEntrySpan g)"

text \<open>Bytes 0 to 60 of the blob; bytes 20 to 24 stay zero.\<close>

definition index_head :: "DirIndexV1 \<Rightarrow> bytes" where
  "index_head idx = MagicDirIndex @ put_u16 1 @ put_u16 64 @ put_u32 (iFlags idx) @
     put_u32 24 @ put_u32 16 @ replicate 4 0 @ put_u64 (iGeneration idx) @
     put_u64 (iDirOffset idx) @ put_u64 (iDirSize idx) @ put_u32 (iDirCRC32 idx) @
     put_u32 (of_nat (length (iEntries idx))) @ put_u32 (of_nat (length (iHashRanges idx)))"

definition index_blob :: "DirIndexV1 \<Rightarrow> bytes" where
  "index_blob idx = index_head idx @ put_u32 (crc32 (index_head idx)) @
     concat (map enc_index_row (iEntries idx)) @ concat (map enc_hash_range (iHashRanges idx))"

definition marshalDirIndex :: "DirIndexV1 \<Rightarrow> bytes result" where
  "marshalDirIndex idx =
     (let entryCount = length (iEntries idx); hashCount = length (iHashRanges idx) in
      if entryCount > 2 ^ 32 - 1 \<or> hashCount > 2 ^ 32 - 1 then Inl FmtInvalidDir else
      rbind (or_err FmtInvalidDir (mulUint64 (of_nat entryCount) 24)) (\<lambda>entryBytes.
      rbind (or_err FmtInvalidDir (mulUint64 (of_nat hashCount) 16)) (\<lambda>hashBytes.
      rbind (or_err FmtInvalidDir (addUint64 64 entryBytes)) (\<lambda>total.
      rbind (or_err FmtInvalidDir (addUint64 total hashBytes)) (\<lambda>total.
      if total > maxInt then Inl FmtLimitExceeded else Inr (index_blob idx))))))"

section \<open>Decoder\<close>

definition index_row_at :: "bytes \<Rightarrow> nat \<Rightarrow> DirIndexEntryV1" where
  "index_row_at b off =
     \<lparr>xDirEntryOffset = get_u32 (sub_bytes b off (off + 4)),
      xDirEntrySize = get_u32 (sub_bytes b (off + 4) (off + 8)),
      xPathHash64 = get_u64 (sub_bytes b (off + 8) (off + 16)),
      xPathOffset = get_u32 (sub_bytes b (off + 16) (off + 20)),
      xPathSize = get_u32 (sub_bytes b (off + 20) (off + 24))\<rparr>"

definition hash_range_at :: "bytes \<Rightarrow> nat \<Rightarrow> DirIndexHashRangeV1" where
  "hash_range_at b off =
     \<lparr>gPathHash64 = get_u64 (sub_bytes b off (off + 8)),
      gFirstEntryIndex = get_u32 (sub_bytes b (off + 8) (off + 12)),
      gEntrySpan = get_u32 (sub_bytes b (off + 12) (off + 16))\<rparr>"

text \<open>The first loop of \<^verbatim>\<open>validateDirIndexV1\<close>.\<close>

fun rows_valid :: "bool \<Rightarrow> u32 \<Rightarrow> DirIndexEntryV1 list \<Rightarrow> bool" where
  "rows_valid later prevEntryOff [] = True"
| "rows_valid later prevEntryOff (row # rows) =
     (if xDirEntrySize row = 0 \<or> xPathSize row = 0 then False
      else if later \<and> xDirEntryOffset row < prevEntryOff then False
      else rows_valid True (xDirEntryOffset row) rows)"

text \<open>
  The second loop: the ranges are in order of their hashes and inside the entry table, every
  row of a range has the hash of the range. The result is the list \<^verbatim>\<open>used\<close> of index intervals.
\<close>

fun ranges_valid ::
  "DirIndexEntryV1 list \<Rightarrow> bool \<Rightarrow> u64 \<Rightarrow> DirIndexHashRangeV1 list \<Rightarrow> (u32 \<times> u32) list option" where
  "ranges_valid es later prevHash [] = Some []"
| "ranges_valid es later prevHash (row # rows) =
     (if gEntrySpan row = 0 then None else do {
        stop \<leftarrow> addUint64 (ucast (gFirstEntryIndex row)) (ucast (gEntrySpan row));
        if stop > of_nat (length es) then None
        else if later \<and> gPathHash64 row < prevHash then None
        else if \<exists>j \<in> set [unat (gFirstEntryIndex row) ..< unat (ucast stop :: u32)].
                  xPathHash64 (es ! j) \<noteq> gPathHash64 row then None
        else do {
          used \<leftarrow> ranges_valid es True (gPathHash64 row) rows;
          Some ((gFirstEntryIndex row, ucast (stop - 1)) # used)
        }
      })"

text \<open>The last loop, over the sorted intervals.\<close>

fun disjoint_intervals :: "(u32 \<times> u32) list \<Rightarrow> bool" where
  "disjoint_intervals (a # b # xs) = (snd a < fst b \<and> disjoint_intervals (b # xs))"
| "disjoint_intervals xs = True"

definition validateDirIndex :: "DirIndexV1 \<Rightarrow> unit result" where
  "validateDirIndex idx =
     (if \<not> rows_valid False 0 (iEntries idx) then Inl FmtInvalidDir else
      rbind (or_err FmtInvalidDir (ranges_valid (iEntries idx) False 0 (iHashRanges idx))) (\<lambda>used.
      if disjoint_intervals (sort_key fst used) then Inr () else Inl FmtInvalidDir))"

definition unmarshalDirIndex :: "bytes \<Rightarrow> DirIndexV1 result" where
  "unmarshalDirIndex blob =
     (if length blob < 64 then Inl FmtInvalidDir
      else if sub_bytes blob 0 4 \<noteq> MagicDirIndex then Inl FmtInvalidDir
      else if get_u16 (sub_bytes blob 4 6) \<noteq> 1 then Inl FmtInvalidDir
      else if get_u16 (sub_bytes blob 6 8) \<noteq> 64 then Inl FmtInvalidDir
      else if get_u32 (sub_bytes blob 12 16) \<noteq> 24 then Inl FmtInvalidDir
      else if get_u32 (sub_bytes blob 16 20) \<noteq> 16 then Inl FmtInvalidDir
      else if crc32 (sub_bytes blob 0 60) \<noteq> get_u32 (sub_bytes blob 60 64)
        then Inl FmtCRCMismatch else
      let entryCount = get_u32 (sub_bytes blob 52 56); hashCount = get_u32 (sub_bytes blob 56 60)
      in
      rbind (or_err FmtInvalidDir (mulUint64 (ucast entryCount) 24)) (\<lambda>entryBytes.
      rbind (or_err FmtInvalidDir (mulUint64 (ucast hashCount) 16)) (\<lambda>hashBytes.
      rbind (or_err FmtInvalidDir (addUint64 64 entryBytes)) (\<lambda>expectedLen.
      rbind (or_err FmtInvalidDir (addUint64 expectedLen hashBytes)) (\<lambda>expectedLen.
      if expectedLen \<noteq> of_nat (length blob) then Inl FmtInvalidDir else
      let n = unat entryCount;
          idx = \<lparr>iFlags = get_u32 (sub_bytes blob 8 12),
            iGeneration = get_u64 (sub_bytes blob 24 32),
            iDirOffset = get_u64 (sub_bytes blob 32 40),
            iDirSize = get_u64 (sub_bytes blob 40 48),
            iDirCRC32 = get_u32 (sub_bytes blob 48 52),
            iEntries = read_slots index_row_at 24 n 64 blob,
            iHashRanges = read_slots hash_range_at 16 (unat hashCount) (64 + n * 24) blob\<rparr>
      in rbind (validateDirIndex idx) (\<lambda>_. Inr idx))))))"

definition decodeDirIndex :: "bytes \<Rightarrow> u32 \<Rightarrow> DirIndexV1 result" where
  "decodeDirIndex blob expectedCRC =
     (if crc32 blob \<noteq> expectedCRC then Inl FmtCRCMismatch else unmarshalDirIndex blob)"

section \<open>Reading back what was written\<close>

lemma length_rows [simp, len_simps]:
  "length (enc_index_row x) = 24" "length (enc_hash_range g) = 16"
  by (simp_all add: enc_index_row_def enc_hash_range_def)

lemma length_index_head [simp, len_simps]: "length (index_head idx) = 60"
  by (simp add: index_head_def MagicDirIndex_def)

lemma sub_bytes_shift:
  "length p = off \<Longrightarrow> sub_bytes (p @ b) (off + i) (off + j) = sub_bytes b i j"
  "length p = off \<Longrightarrow> sub_bytes (p @ b) off (off + j) = sub_bytes b 0 j"
  by (simp_all add: sub_bytes_def)

lemma sub_bytes_prefix: "length a = n \<Longrightarrow> sub_bytes (a @ b) 0 n = a"
  by (simp add: sub_bytes_def)

lemma sub_bytes_at:
  "length p = i \<Longrightarrow> length a = j - i \<Longrightarrow> sub_bytes (p @ a @ q) i j = a"
  by (simp add: sub_bytes_def)

interpretation index_row: slot_codec enc_index_row index_row_at 24
proof unfold_locales
  fix p q :: bytes and off and x :: DirIndexEntryV1
  assume p: "length p = off"
  show "index_row_at (p @ enc_index_row x @ q) off = x"
    by (simp add: index_row_at_def sub_bytes_shift [OF p])
      (simp add: enc_index_row_def sub_bytes_def)
next
  fix off and b :: bytes
  assume "off + 24 \<le> length b"
  then have "enc_index_row (index_row_at b off) =
      sub_bytes b off (off + 4) @ sub_bytes b (off + 4) (off + 8) @ sub_bytes b (off + 8) (off + 16) @
      sub_bytes b (off + 16) (off + 20) @ sub_bytes b (off + 20) (off + 24)"
    by (simp add: enc_index_row_def index_row_at_def put_get_uint)
  also have "\<dots> = sub_bytes b off (off + 24)"
    by (simp add: sub_bytes_split)
  finally show "enc_index_row (index_row_at b off) = sub_bytes b off (off + 24)" .
qed simp

interpretation hash_range: slot_codec enc_hash_range hash_range_at 16
proof unfold_locales
  fix p q :: bytes and off and x :: DirIndexHashRangeV1
  assume p: "length p = off"
  show "hash_range_at (p @ enc_hash_range x @ q) off = x"
    by (simp add: hash_range_at_def sub_bytes_shift [OF p])
      (simp add: enc_hash_range_def sub_bytes_def)
next
  fix off and b :: bytes
  assume "off + 16 \<le> length b"
  then have "enc_hash_range (hash_range_at b off) =
      sub_bytes b off (off + 8) @ sub_bytes b (off + 8) (off + 12) @ sub_bytes b (off + 12) (off + 16)"
    by (simp add: enc_hash_range_def hash_range_at_def put_get_uint)
  also have "\<dots> = sub_bytes b off (off + 16)"
    by (simp add: sub_bytes_split)
  finally show "enc_hash_range (hash_range_at b off) = sub_bytes b off (off + 16)" .
qed simp

text \<open>The table sizes never overflow: both counts fit 32 bits.\<close>

lemma index_size_simps:
  assumes "n < 2 ^ 32" "m < 2 ^ 32"
  shows "mulUint64 (of_nat n) 24 = Some (of_nat (24 * n))"
    "mulUint64 (of_nat m) 16 = Some (of_nat (16 * m))"
    "addUint64 64 (of_nat (24 * n)) = Some (of_nat (64 + 24 * n))"
    "addUint64 (of_nat (64 + 24 * n)) (of_nat (16 * m)) = Some (of_nat (64 + 24 * n + 16 * m))"
    "\<not> maxInt < of_nat (64 + 24 * n + 16 * m)"
proof -
  show "mulUint64 (of_nat n) 24 = Some (of_nat (24 * n))"
    using mulUint64_of_nat [of n 24] assms by (simp add: mult.commute)
  show "mulUint64 (of_nat m) 16 = Some (of_nat (16 * m))"
    using mulUint64_of_nat [of m 16] assms by (simp add: mult.commute)
  show "addUint64 64 (of_nat (24 * n)) = Some (of_nat (64 + 24 * n))"
    using addUint64_of_nat [of 64 "24 * n"] assms by simp
  show "addUint64 (of_nat (64 + 24 * n)) (of_nat (16 * m)) = Some (of_nat (64 + 24 * n + 16 * m))"
    using addUint64_of_nat [of "64 + 24 * n" "16 * m"] assms by simp
  have "unat (of_nat (64 + 24 * n + 16 * m) :: u64) = 64 + 24 * n + 16 * m"
    using assms by (subst unat_of_nat) simp
  then show "\<not> maxInt < of_nat (64 + 24 * n + 16 * m)"
    using assms by (simp only: word_less_nat_alt) (simp add: maxInt_def)
qed

lemma marshalDirIndex_ok:
  assumes "length (iEntries idx) < 2 ^ 32" "length (iHashRanges idx) < 2 ^ 32"
  shows "marshalDirIndex idx = Inr (index_blob idx)"
  using assms index_size_simps [OF assms]
  by (simp add: marshalDirIndex_def Let_def del: of_nat_add of_nat_mult)

lemma marshalDirIndex_sound:
  assumes "marshalDirIndex idx = Inr b"
  shows "b = index_blob idx" "length (iEntries idx) < 2 ^ 32" "length (iHashRanges idx) < 2 ^ 32"
  using assms by (auto simp: marshalDirIndex_def Let_def inr_simps)

lemma length_index_blob [simp, len_simps]:
  "length (index_blob idx) = 64 + 24 * length (iEntries idx) + 16 * length (iHashRanges idx)"
  by (simp add: index_blob_def index_row.length_encs hash_range.length_encs)

lemma index_blob_fields:
  "sub_bytes (index_blob idx) 0 4 = MagicDirIndex"
  "sub_bytes (index_blob idx) 4 6 = put_u16 1"
  "sub_bytes (index_blob idx) 6 8 = put_u16 64"
  "sub_bytes (index_blob idx) 8 12 = put_u32 (iFlags idx)"
  "sub_bytes (index_blob idx) 12 16 = put_u32 24"
  "sub_bytes (index_blob idx) 16 20 = put_u32 16"
  "sub_bytes (index_blob idx) 24 32 = put_u64 (iGeneration idx)"
  "sub_bytes (index_blob idx) 32 40 = put_u64 (iDirOffset idx)"
  "sub_bytes (index_blob idx) 40 48 = put_u64 (iDirSize idx)"
  "sub_bytes (index_blob idx) 48 52 = put_u32 (iDirCRC32 idx)"
  "sub_bytes (index_blob idx) 52 56 = put_u32 (of_nat (length (iEntries idx)))"
  "sub_bytes (index_blob idx) 56 60 = put_u32 (of_nat (length (iHashRanges idx)))"
  "sub_bytes (index_blob idx) 0 60 = index_head idx"
  "sub_bytes (index_blob idx) 60 64 = put_u32 (crc32 (index_head idx))"
proof -
  show "sub_bytes (index_blob idx) 0 60 = index_head idx"
    "sub_bytes (index_blob idx) 60 64 = put_u32 (crc32 (index_head idx))"
    by (simp_all add: index_blob_def sub_bytes_def)
  have len: "length MagicDirIndex = 4" by (simp add: MagicDirIndex_def)
  have head: "sub_bytes (index_blob idx) i j = sub_bytes (index_head idx) i j" if "j \<le> 60" for i j
    using that by (simp add: index_blob_def sub_bytes_append1)
  show "sub_bytes (index_blob idx) 0 4 = MagicDirIndex"
    "sub_bytes (index_blob idx) 4 6 = put_u16 1"
    "sub_bytes (index_blob idx) 6 8 = put_u16 64"
    "sub_bytes (index_blob idx) 8 12 = put_u32 (iFlags idx)"
    "sub_bytes (index_blob idx) 12 16 = put_u32 24"
    "sub_bytes (index_blob idx) 16 20 = put_u32 16"
    "sub_bytes (index_blob idx) 24 32 = put_u64 (iGeneration idx)"
    "sub_bytes (index_blob idx) 32 40 = put_u64 (iDirOffset idx)"
    "sub_bytes (index_blob idx) 40 48 = put_u64 (iDirSize idx)"
    "sub_bytes (index_blob idx) 48 52 = put_u32 (iDirCRC32 idx)"
    "sub_bytes (index_blob idx) 52 56 = put_u32 (of_nat (length (iEntries idx)))"
    "sub_bytes (index_blob idx) 56 60 = put_u32 (of_nat (length (iHashRanges idx)))"
    by (simp_all add: head) (simp_all add: index_head_def sub_bytes_def len)
qed

lemma index_blob_tables:
  "read_slots index_row_at 24 (length (iEntries idx)) 64 (index_blob idx) = iEntries idx"
  "read_slots hash_range_at 16 (length (iHashRanges idx)) (64 + length (iEntries idx) * 24)
     (index_blob idx) = iHashRanges idx"
proof -
  define p where "p = index_head idx @ put_u32 (crc32 (index_head idx))"
  have p: "length p = 64" by (simp add: p_def)
  have b: "index_blob idx = p @ concat (map enc_index_row (iEntries idx)) @
      concat (map enc_hash_range (iHashRanges idx))"
    by (simp add: index_blob_def p_def)
  show "read_slots index_row_at 24 (length (iEntries idx)) 64 (index_blob idx) = iEntries idx"
    unfolding b by (rule index_row.read_encs) (rule p)
  have "index_blob idx = (p @ concat (map enc_index_row (iEntries idx))) @
      concat (map enc_hash_range (iHashRanges idx)) @ []"
    by (simp add: b)
  then show "read_slots hash_range_at 16 (length (iHashRanges idx))
      (64 + length (iEntries idx) * 24) (index_blob idx) = iHashRanges idx"
    using hash_range.read_encs [of "p @ concat (map enc_index_row (iEntries idx))"
        "64 + length (iEntries idx) * 24" "iHashRanges idx" "[]"]
    by (simp add: p index_row.length_encs)
qed

theorem unmarshal_index_blob:
  assumes "length (iEntries idx) < 2 ^ 32" "length (iHashRanges idx) < 2 ^ 32"
  shows "unmarshalDirIndex (index_blob idx) = rbind (validateDirIndex idx) (\<lambda>_. Inr idx)"
proof -
  note n = assms [THEN unat_of_nat_u32]
  have eta: "\<lparr>iFlags = iFlags idx, iGeneration = iGeneration idx, iDirOffset = iDirOffset idx,
      iDirSize = iDirSize idx, iDirCRC32 = iDirCRC32 idx, iEntries = iEntries idx,
      iHashRanges = iHashRanges idx\<rparr> = idx" by simp
  have len: "length (index_blob idx) = 64 + 24 * length (iEntries idx) + 16 * length (iHashRanges idx)"
    by simp
  show ?thesis
    unfolding unmarshalDirIndex_def index_blob_fields Let_def get_put_uint
      ucast_of_nat_u32 [OF assms(1)] ucast_of_nat_u32 [OF assms(2)] n index_blob_tables
    by (simp only: index_size_simps [OF assms] or_err_simps rbind_simps len) (simp add: eta)
qed

section \<open>What the validation means\<close>

definition row_ok :: "DirIndexEntryV1 \<Rightarrow> bool" where
  "row_ok x \<longleftrightarrow> xDirEntrySize x \<noteq> 0 \<and> xPathSize x \<noteq> 0"

definition range_ok :: "DirIndexEntryV1 list \<Rightarrow> DirIndexHashRangeV1 \<Rightarrow> bool" where
  "range_ok es g \<longleftrightarrow> gEntrySpan g \<noteq> 0 \<and>
     unat (gFirstEntryIndex g) + unat (gEntrySpan g) \<le> length es \<and>
     (\<forall>j \<in> set [unat (gFirstEntryIndex g) ..< unat (gFirstEntryIndex g) + unat (gEntrySpan g)].
        xPathHash64 (es ! j) = gPathHash64 g)"

text \<open>Two ranges share no entry.\<close>

definition apart :: "DirIndexHashRangeV1 \<Rightarrow> DirIndexHashRangeV1 \<Rightarrow> bool" where
  "apart g h \<longleftrightarrow>
     unat (gFirstEntryIndex g) + unat (gEntrySpan g) \<le> unat (gFirstEntryIndex h) \<or>
     unat (gFirstEntryIndex h) + unat (gEntrySpan h) \<le> unat (gFirstEntryIndex g)"

definition index_ok :: "DirIndexV1 \<Rightarrow> bool" where
  "index_ok idx \<longleftrightarrow>
     list_all row_ok (iEntries idx) \<and> sorted (map xDirEntryOffset (iEntries idx)) \<and>
     list_all (range_ok (iEntries idx)) (iHashRanges idx) \<and>
     sorted (map gPathHash64 (iHashRanges idx)) \<and> sorted_wrt apart (iHashRanges idx)"

lemma rows_valid_iff:
  "rows_valid later p rows \<longleftrightarrow>
   list_all row_ok rows \<and> sorted (map xDirEntryOffset rows) \<and>
   (later \<longrightarrow> rows \<noteq> [] \<longrightarrow> p \<le> xDirEntryOffset (hd rows))"
proof (induction later p rows rule: rows_valid.induct)
  case (2 later p row rows)
  then show ?case
    by (cases rows) (auto simp: row_ok_def not_less)
qed simp

definition interval :: "DirIndexHashRangeV1 \<Rightarrow> u32 \<times> u32" where
  "interval g = (gFirstEntryIndex g, ucast (ucast (gFirstEntryIndex g) + ucast (gEntrySpan g) - 1 :: u64))"

lemma ranges_valid_iff:
  assumes n: "length es < 2 ^ 32"
  shows "ranges_valid es later p gs = Some used \<longleftrightarrow>
    list_all (range_ok es) gs \<and> sorted (map gPathHash64 gs) \<and>
    (later \<longrightarrow> gs \<noteq> [] \<longrightarrow> p \<le> gPathHash64 (hd gs)) \<and> used = map interval gs"
proof (induction gs arbitrary: later p used)
  case Nil
  then show ?case by auto
next
  case (Cons g gs)
  let ?stop = "ucast (gFirstEntryIndex g) + ucast (gEntrySpan g) :: u64"
  have big: "(of_nat (length es) < ?stop) = (length es < unat (gFirstEntryIndex g) + unat (gEntrySpan g))"
    using n by (simp add: word_less_nat_alt range_end unat_of_nat)
  have down: "unat (ucast ?stop :: u32) = unat (gFirstEntryIndex g) + unat (gEntrySpan g)"
    if "\<not> length es < unat (gFirstEntryIndex g) + unat (gEntrySpan g)"
    using that n by (subst unat_ucast_down) (simp_all add: range_end)
  have hd_sorted: "sorted (map gPathHash64 (g # gs)) \<longleftrightarrow>
      sorted (map gPathHash64 gs) \<and> (gs \<noteq> [] \<longrightarrow> gPathHash64 g \<le> gPathHash64 (hd gs))"
    by (cases gs) auto
  show ?case
  proof (cases "length es < unat (gFirstEntryIndex g) + unat (gEntrySpan g)")
    case True
    then show ?thesis by (simp add: range_end(1) big range_ok_def)
  next
    case False
    then have le: "unat (gFirstEntryIndex g) + unat (gEntrySpan g) \<le> length es" by simp
    show ?thesis
      unfolding hd_sorted
      by (simp add: range_end(1) big down False range_ok_def bind_eq_Some_conv Cons.IH
          interval_def not_less) (auto simp: le)
  qed
qed

text \<open>
  The check on the sorted intervals is independent of how the sort orders equal keys: it holds
  exactly when the ranges are pairwise apart.
\<close>

definition apart_iv :: "u32 \<times> u32 \<Rightarrow> u32 \<times> u32 \<Rightarrow> bool" where
  "apart_iv a b \<longleftrightarrow> snd a < fst b \<or> snd b < fst a"

lemma sorted_wrt_insort:
  "sorted_wrt apart_iv (insort_key f x xs) \<longleftrightarrow> (\<forall>y \<in> set xs. apart_iv x y) \<and> sorted_wrt apart_iv xs"
  by (induction xs) (auto simp: apart_iv_def set_insort_key)

lemma sorted_wrt_sort: "sorted_wrt apart_iv (sort_key f xs) \<longleftrightarrow> sorted_wrt apart_iv xs"
  by (induction xs) (auto simp: sorted_wrt_insort)

lemma disjoint_intervals_sorted:
  "sorted (map fst xs) \<Longrightarrow> \<forall>x \<in> set xs. fst x \<le> snd x \<Longrightarrow>
   disjoint_intervals xs \<longleftrightarrow> sorted_wrt apart_iv xs"
proof (induction xs rule: disjoint_intervals.induct)
  case (1 a b xs)
  show ?case
  proof
    assume d: "disjoint_intervals (a # b # xs)"
    have "apart_iv a y" if "y \<in> set (b # xs)" for y
    proof -
      have "fst b \<le> fst y" using that 1 by auto
      with d show ?thesis by (auto simp: apart_iv_def)
    qed
    moreover have "sorted_wrt apart_iv (b # xs)" using 1 d by simp
    ultimately show "sorted_wrt apart_iv (a # b # xs)" by simp
  next
    assume "sorted_wrt apart_iv (a # b # xs)"
    moreover from this have "snd a < fst b"
      using "1.prems" by (auto simp: apart_iv_def dest: le_less_trans)
    ultimately show "disjoint_intervals (a # b # xs)" using 1 by simp
  qed
qed simp_all

lemma disjoint_intervals_sort:
  assumes "\<forall>x \<in> set xs. fst x \<le> snd x"
  shows "disjoint_intervals (sort_key fst xs) \<longleftrightarrow> sorted_wrt apart_iv xs"
  using assms by (subst disjoint_intervals_sorted) (auto simp: sorted_wrt_sort)

lemma interval_bounds:
  assumes "range_ok es g" "length es < 2 ^ 32"
  shows "unat (fst (interval g)) = unat (gFirstEntryIndex g)"
    and "unat (snd (interval g)) + 1 = unat (gFirstEntryIndex g) + unat (gEntrySpan g)"
proof -
  from assms have le: "unat (gFirstEntryIndex g) + unat (gEntrySpan g) < 2 ^ 32"
    and pos: "0 < unat (gEntrySpan g)"
    by (auto simp: range_ok_def unat_gt_0)
  then have "unat (ucast (gFirstEntryIndex g) + ucast (gEntrySpan g) - 1 :: u64) =
      unat (gFirstEntryIndex g) + unat (gEntrySpan g) - 1"
    by (subst unat_sub) (simp_all add: range_end word_le_nat_alt)
  then show "unat (snd (interval g)) + 1 = unat (gFirstEntryIndex g) + unat (gEntrySpan g)"
    using le pos by (simp add: interval_def unat_ucast_down)
  show "unat (fst (interval g)) = unat (gFirstEntryIndex g)" by (simp add: interval_def)
qed

lemma interval_le:
  assumes "range_ok es g" "length es < 2 ^ 32"
  shows "fst (interval g) \<le> snd (interval g)"
proof -
  have "0 < unat (gEntrySpan g)" using assms(1) by (simp add: range_ok_def unat_gt_0)
  then show ?thesis
    using interval_bounds [OF assms] unfolding word_le_nat_alt by linarith
qed

lemma apart_interval:
  assumes "range_ok es g" "range_ok es h" "length es < 2 ^ 32"
  shows "apart_iv (interval g) (interval h) \<longleftrightarrow> apart g h"
  using interval_bounds [OF assms(1,3)] interval_bounds [OF assms(2,3)]
  unfolding apart_iv_def apart_def word_less_nat_alt by linarith

theorem validateDirIndex_iff:
  assumes n: "length (iEntries idx) < 2 ^ 32"
  shows "validateDirIndex idx = Inr () \<longleftrightarrow> index_ok idx"
proof (cases "list_all (range_ok (iEntries idx)) (iHashRanges idx)")
  case True
  let ?iv = "map interval (iHashRanges idx)"
  have "\<forall>x \<in> set ?iv. fst x \<le> snd x"
    using True interval_le [OF _ n] by (auto simp: list_all_iff)
  then have "disjoint_intervals (sort_key fst ?iv) \<longleftrightarrow> sorted_wrt apart_iv ?iv"
    by (rule disjoint_intervals_sort)
  also have "\<dots> \<longleftrightarrow> sorted_wrt apart (iHashRanges idx)"
    unfolding sorted_wrt_map using True
    by (intro iffI; elim sorted_wrt_mono_rel [rotated]) (auto simp: list_all_iff apart_interval [OF _ _ n])
  finally show ?thesis
    by (auto simp: validateDirIndex_def index_ok_def rows_valid_iff inr_simps
        ranges_valid_iff [OF n] True)
next
  case False
  then show ?thesis
    by (auto simp: validateDirIndex_def index_ok_def inr_simps ranges_valid_iff [OF n])
qed

end
