(* ===== verification/IndexBuild.thy ===== *)
theory IndexBuild
  imports DirIndex "HOL-Library.Product_Lexorder"
begin

text \<open>
  Building the index of a directory blob and reading entries through it: \<^verbatim>\<open>fbx/dir_index.go\<close>
  (\<^verbatim>\<open>buildDirIndexBlob\<close>, \<^verbatim>\<open>scanDirectoryEntriesForIndex\<close>, \<^verbatim>\<open>buildDirIndexHashRanges\<close>,
  \<^verbatim>\<open>validateDirectoryBlobEnvelope\<close>, \<^verbatim>\<open>readEntriesByDirIndex\<close>) and the path lookup
  \<^verbatim>\<open>findEntryByPathFromDirIndex\<close> of \<^verbatim>\<open>fbx/container.go\<close>. The lemmas show that the index built
  for an encoded directory passes the validation, that its hash ranges partition the entries,
  and that looking a path up through it finds the same entry as decoding the directory.
\<close>

section \<open>Scanning a directory blob\<close>

definition validateDirectoryBlobEnvelope :: "bytes \<Rightarrow> u32 \<Rightarrow> u64 \<Rightarrow> u32 result" where
  "validateDirectoryBlobEnvelope dirBlob expectedCRC expectedSize =
     (if length dirBlob < 20 + 16 then Inl ErrInvalidFormat
      else if of_nat (length dirBlob) \<noteq> expectedSize then Inl ErrInvalidFormat
      else if take 4 dirBlob \<noteq> MagicDir then Inl ErrInvalidFormat
      else let footer = drop (length dirBlob - 16) dirBlob in
      if take 4 footer \<noteq> MagicEnd then Inl ErrInvalidFormat
      else let crc = get_u32 (sub_bytes footer 4 8); total = get_u64 (sub_bytes footer 8 16) in
      if crc \<noteq> expectedCRC \<or> total \<noteq> expectedSize then Inl ErrInvalidFormat
      else if crc32 (take (length dirBlob - 16) dirBlob) \<noteq> crc then Inl ErrCRCMismatch
      else if get_u32 (sub_bytes dirBlob 8 12) \<noteq> 0 then Inl ErrInvalidFormat
      else Inr (get_u32 (sub_bytes dirBlob 4 8)))"

definition maxUint32 :: u64 where "maxUint32 = 0xFFFFFFFF"

fun scan_rows :: "nat \<Rightarrow> u64 \<Rightarrow> bytes \<Rightarrow> (DirIndexEntryV1 list \<times> u64) result" where
  "scan_rows 0 cursor dirBlob = Inr ([], cursor)"
| "scan_rows (Suc n) cursor dirBlob =
     rbind (or_err ErrInvalidFormat (addUint64 cursor 44)) (\<lambda>entryHeadEnd.
     if entryHeadEnd > of_nat (length dirBlob - 16) then Inl ErrInvalidFormat else
     let head = sub_bytes dirBlob (unat cursor) (unat entryHeadEnd);
         pathHash = get_u64 (sub_bytes head 0 8);
         chunkCount = get_u32 (sub_bytes head 32 36);
         metaSize = get_u32 (sub_bytes head 36 40);
         pathSize = get_u32 (sub_bytes head 40 44) in
     rbind (or_err ErrInvalidFormat (mulUint64 (ucast chunkCount) 32)) (\<lambda>chunksBytes.
     rbind (or_err ErrInvalidFormat (addUint64 44 chunksBytes)) (\<lambda>entrySize.
     rbind (or_err ErrInvalidFormat (addUint64 entrySize (ucast metaSize))) (\<lambda>entrySize.
     rbind (or_err ErrInvalidFormat (addUint64 entrySize (ucast pathSize))) (\<lambda>entrySize.
     rbind (or_err ErrInvalidFormat (addUint64 cursor entrySize)) (\<lambda>entryEnd.
     if entryEnd > of_nat (length dirBlob - 16) then Inl ErrInvalidFormat else
     rbind (or_err ErrInvalidFormat (addUint64 cursor 44)) (\<lambda>pathOff.
     rbind (or_err ErrInvalidFormat (addUint64 pathOff chunksBytes)) (\<lambda>pathOff.
     rbind (or_err ErrInvalidFormat (addUint64 pathOff (ucast metaSize))) (\<lambda>pathOff.
     if cursor > maxUint32 \<or> entrySize > maxUint32 \<or> pathOff > maxUint32
     then Inl ErrLimitExceeded else
     rbind (scan_rows n entryEnd dirBlob) (\<lambda>(rows, cursor').
     Inr (\<lparr>xDirEntryOffset = ucast cursor, xDirEntrySize = ucast entrySize,
            xPathHash64 = pathHash, xPathOffset = ucast pathOff, xPathSize = pathSize\<rparr> # rows,
          cursor')))))))))))"

definition scanDirectoryEntriesForIndex :: "bytes \<Rightarrow> (DirIndexEntryV1 list \<times> u32) result" where
  "scanDirectoryEntriesForIndex dirBlob =
     rbind (validateDirectoryBlobEnvelope dirBlob (crc32 (take (length dirBlob - 16) dirBlob))
       (of_nat (length dirBlob))) (\<lambda>entryCount.
     rbind (scan_rows (unat entryCount) 20 dirBlob) (\<lambda>(rows, cursor).
     rbind (or_err ErrInvalidFormat (addUint64 cursor 16)) (\<lambda>totalWithFooter.
     if totalWithFooter \<noteq> of_nat (length dirBlob) then Inl ErrInvalidFormat
     else Inr (rows, entryCount))))"

section \<open>Hash ranges\<close>

text \<open>
  The inner loop of \<^verbatim>\<open>buildDirIndexHashRanges\<close>: extend the range while the next index in hash
  order has the same hash and is the next entry. It returns the span and the order that is left.
\<close>

fun extend_span ::
  "DirIndexEntryV1 list \<Rightarrow> u64 \<Rightarrow> u32 \<Rightarrow> u32 \<Rightarrow> nat list \<Rightarrow> u32 \<times> nat list" where
  "extend_span rows hash first span [] = (span, [])"
| "extend_span rows hash first span (next # order) =
     (if xPathHash64 (rows ! next) \<noteq> hash then (span, next # order)
      else if of_nat next \<noteq> first + span then (span, next # order)
      else extend_span rows hash first (span + 1) order)"

lemma extend_span_length: "length (snd (extend_span rows h f s order)) \<le> length order"
  by (induction rows h f s order rule: extend_span.induct) auto

function ranges_from :: "DirIndexEntryV1 list \<Rightarrow> nat list \<Rightarrow> DirIndexHashRangeV1 list" where
  "ranges_from rows [] = []"
| "ranges_from rows (i # order) =
     (let hash = xPathHash64 (rows ! i); first = of_nat i;
          r = extend_span rows hash first 1 order
      in \<lparr>gPathHash64 = hash, gFirstEntryIndex = first, gEntrySpan = fst r\<rparr>
         # ranges_from rows (snd r))"
  by pat_completeness auto
termination
  by (relation "measure (\<lambda>(rows, order). length order)")
    (auto intro: le_imp_less_Suc extend_span_length)

definition buildDirIndexHashRanges :: "DirIndexEntryV1 list \<Rightarrow> DirIndexHashRangeV1 list" where
  "buildDirIndexHashRanges rows =
     (if rows = [] then []
      else ranges_from rows (sort_key (\<lambda>i. (xPathHash64 (rows ! i), i)) [0..<length rows]))"

definition buildDirIndexBlob :: "bytes \<Rightarrow> u64 \<Rightarrow> u32 \<Rightarrow> u64 \<Rightarrow> bytes result" where
  "buildDirIndexBlob dirBlob dirOffset dirCRC generation =
     rbind (scanDirectoryEntriesForIndex dirBlob) (\<lambda>(rows, entryCount).
     let ranges = buildDirIndexHashRanges rows in
     if length rows \<noteq> unat entryCount then Inl ErrInvalidFormat else
     map_err mapErr (marshalDirIndex
       \<lparr>iFlags = 0, iGeneration = generation, iDirOffset = dirOffset,
        iDirSize = of_nat (length dirBlob), iDirCRC32 = dirCRC, iEntries = rows,
        iHashRanges = ranges\<rparr>))"

section \<open>Reading through an index\<close>

text \<open>
  The Go map from paths to entries is an association list with one binding per path.
\<close>

type_synonym entry_map = "(bytes \<times> EntryV1) list"

fun read_rows :: "bytes \<Rightarrow> DirIndexEntryV1 list \<Rightarrow> entry_map \<Rightarrow> entry_map result" where
  "read_rows dirBlob [] entries = Inr entries"
| "read_rows dirBlob (row # rows) entries =
     rbind (map_err mapErr (decodeDirectoryEntryAt dirBlob (xDirEntryOffset row) (xDirEntrySize row)))
       (\<lambda>e.
     if PathHash64 e \<noteq> xPathHash64 row \<or> PathSize e \<noteq> xPathSize row then Inl ErrInvalidFormat else
     rbind (or_err ErrInvalidFormat (addUint64 (ucast (xPathOffset row)) (ucast (xPathSize row))))
       (\<lambda>pathEnd.
     if pathEnd > of_nat (length dirBlob - 16) then Inl ErrInvalidFormat
     else if pathEnd > maxInt then Inl ErrLimitExceeded
     else if sub_bytes dirBlob (unat (xPathOffset row)) (unat pathEnd) \<noteq> Path e
       then Inl ErrInvalidFormat
     else if map_of entries (Path e) \<noteq> None then Inl ErrInvalidFormat
     else read_rows dirBlob rows (entries @ [(Path e, e)])))"

definition readEntriesByDirIndex :: "bytes \<Rightarrow> HeaderV1 \<Rightarrow> DirIndexV1 \<Rightarrow> entry_map result" where
  "readEntriesByDirIndex dirBlob h idx =
     rbind (validateDirectoryBlobEnvelope dirBlob (hDirCRC32 h) (hDirSize h)) (\<lambda>entryCount.
     if unat entryCount \<noteq> length (iEntries idx) then Inl ErrInvalidFormat
     else read_rows dirBlob (iEntries idx) [])"

text \<open>\<^verbatim>\<open>sort.Search\<close> of the Go library.\<close>

function sort_search :: "(nat \<Rightarrow> bool) \<Rightarrow> nat \<Rightarrow> nat \<Rightarrow> nat" where
  "sort_search p i j =
     (if i < j then let h = (i + j) div 2 in
        if \<not> p h then sort_search p (h + 1) j else sort_search p i h
      else i)"
  by pat_completeness auto
termination
  by (relation "measure (\<lambda>(p, i, j). j - i)") auto

fun find_in_rows :: "bytes \<Rightarrow> DirIndexEntryV1 list \<Rightarrow> bytes \<Rightarrow> nat list \<Rightarrow> EntryV1 option result" where
  "find_in_rows dirBlob rows path [] = Inr None"
| "find_in_rows dirBlob rows path (j # js) =
     rbind (map_err mapErr (decodeDirectoryEntryAt dirBlob (xDirEntryOffset (rows ! j))
       (xDirEntrySize (rows ! j)))) (\<lambda>e.
     if Path e = path then Inr (Some e) else find_in_rows dirBlob rows path js)"

fun find_in_ranges ::
  "bytes \<Rightarrow> DirIndexEntryV1 list \<Rightarrow> bytes \<Rightarrow> u64 \<Rightarrow> DirIndexHashRangeV1 list \<Rightarrow> EntryV1 option result"
where
  "find_in_ranges dirBlob rows path hash [] = Inr None"
| "find_in_ranges dirBlob rows path hash (g # gs) =
     (if gPathHash64 g \<noteq> hash then Inr None else
      rbind (or_err ErrInvalidFormat (addUint64 (ucast (gFirstEntryIndex g)) (ucast (gEntrySpan g))))
        (\<lambda>stop.
      if stop > of_nat (length rows) then Inl ErrInvalidFormat else
      rbind (find_in_rows dirBlob rows path
        [unat (gFirstEntryIndex g) ..< unat (ucast stop :: u32)]) (\<lambda>found.
      case found of Some e \<Rightarrow> Inr (Some e)
      | None \<Rightarrow> find_in_ranges dirBlob rows path hash gs)))"

definition findEntryByPathFromDirIndex ::
  "bytes \<Rightarrow> DirIndexV1 option \<Rightarrow> bytes \<Rightarrow> EntryV1 option result" where
  "findEntryByPathFromDirIndex dirBlob idx path =
     (case idx of None \<Rightarrow> Inr None
      | Some idx \<Rightarrow>
          let hash = FNV1a64 path; ranges = iHashRanges idx;
              pos = sort_search (\<lambda>i. gPathHash64 (ranges ! i) \<ge> hash) 0 (length ranges)
          in find_in_ranges dirBlob (iEntries idx) path hash (drop pos ranges))"

declare sort_search.simps [simp del]


section \<open>What the scan finds\<close>

text \<open>The rows of a list of entries whose encodings start at \<open>off\<close>.\<close>

fun rows_of :: "nat \<Rightarrow> EntryV1 list \<Rightarrow> DirIndexEntryV1 list" where
  "rows_of off [] = []"
| "rows_of off (e # es) =
     \<lparr>xDirEntryOffset = of_nat off, xDirEntrySize = of_nat (length (enc_entry e)),
      xPathHash64 = FNV1a64 (Path e),
      xPathOffset = of_nat (off + length (enc_entry e) - length (Path e)),
      xPathSize = of_nat (length (Path e))\<rparr> # rows_of (off + length (enc_entry e)) es"

lemma length_rows_of [simp]: "length (rows_of off es) = length es"
  by (induction off es rule: rows_of.induct) simp_all

definition enc_entry_head :: "EntryV1 \<Rightarrow> bytes" where
  "enc_entry_head e = put_u64 (FNV1a64 (Path e)) @ put_u64 (MTimeUnix e) @ put_u32 (Mode e) @
     put_u32 (EntryFlags e) @ put_u64 (FileSize e) @
     put_u32 (of_nat (length (Chunks e))) @ put_u32 (of_nat (length (Meta e))) @
     put_u32 (of_nat (length (Path e)))"

lemma enc_entry_split:
  "enc_entry e = enc_entry_head e @ concat (map enc_chunk_ref (Chunks e)) @ Meta e @ Path e"
  by (simp add: enc_entry_def enc_entry_head_def)

lemma enc_entry_head_fields:
  "length (enc_entry_head e) = 44"
  "get_u64 (sub_bytes (enc_entry_head e) 0 8) = FNV1a64 (Path e)"
  "get_u32 (sub_bytes (enc_entry_head e) 32 36) = of_nat (length (Chunks e))"
  "get_u32 (sub_bytes (enc_entry_head e) 36 40) = of_nat (length (Meta e))"
  "get_u32 (sub_bytes (enc_entry_head e) 40 44) = of_nat (length (Path e))"
  by (simp_all add: enc_entry_head_def sub_bytes_def)

lemma of_nat_le_u64:
  "n < 2 ^ 64 \<Longrightarrow> m < 2 ^ 64 \<Longrightarrow> (of_nat n < (of_nat m :: u64)) \<longleftrightarrow> n < m"
  by (simp add: of_nat_less_u64 unat_of_nat)

lemma ucast_down_of_nat: "n < 2 ^ 32 \<Longrightarrow> (ucast (of_nat n :: u64) :: u32) = of_nat n"
  by (simp add: word_unat_eq_iff unat_ucast_down unat_of_nat)

lemma scan_rows_enc:
  assumes "b = pre @ concat (map enc_entry es) @ foot" "length pre = off" "length foot = 16"
    "length b < 2 ^ 32"
  shows "scan_rows (length es) (of_nat off) b = Inr (rows_of off es, of_nat (off + entries_size es))"
  using assms
proof (induction es arbitrary: pre off)
  case Nil
  then show ?case by simp
next
  case (Cons e es)
  define c where "c = length (Chunks e)"
  define m where "m = length (Meta e)"
  define p where "p = length (Path e)"
  have sz: "length (enc_entry e) = 44 + 32 * c + m + p" by (simp add: c_def m_def p_def)
  have lb: "length b = off + (44 + 32 * c + m + p) + entries_size es + 16"
    using Cons.prems sz by (simp add: entries_size_def)
  then have bnd: "off + (44 + 32 * c + m + p) + entries_size es + 16 < 2 ^ 32"
    using Cons.prems(4) by simp
  have IH: "scan_rows (length es) (of_nat (off + (44 + 32 * c + m + p))) b
      = Inr (rows_of (off + (44 + 32 * c + m + p)) es,
             of_nat (off + (44 + 32 * c + m + p) + entries_size es))"
    using Cons.prems sz by (intro Cons.IH [of "pre @ enc_entry e"]) simp_all
  have head: "sub_bytes b off (off + 44) = enc_entry_head e"
    using Cons.prems by (simp add: enc_entry_split sub_bytes_at enc_entry_head_fields)
  have adds:
    "addUint64 (of_nat off) 44 = Some (of_nat (off + 44))"
    "mulUint64 (ucast (of_nat c :: u32)) 32 = Some (of_nat (32 * c))"
    "addUint64 44 (of_nat (32 * c)) = Some (of_nat (44 + 32 * c))"
    "addUint64 (of_nat (44 + 32 * c)) (ucast (of_nat m :: u32)) = Some (of_nat (44 + 32 * c + m))"
    "addUint64 (of_nat (44 + 32 * c + m)) (ucast (of_nat p :: u32)) = Some (of_nat (44 + 32 * c + m + p))"
    "addUint64 (of_nat off) (of_nat (44 + 32 * c + m + p)) = Some (of_nat (off + (44 + 32 * c + m + p)))"
    "addUint64 (of_nat (off + 44)) (of_nat (32 * c)) = Some (of_nat (off + 44 + 32 * c))"
    "addUint64 (of_nat (off + 44 + 32 * c)) (ucast (of_nat m :: u32)) = Some (of_nat (off + 44 + 32 * c + m))"
    using bnd addUint64_of_nat [of off 44] mulUint64_of_nat [of c 32] addUint64_of_nat [of 44 "32 * c"]
      addUint64_of_nat [of "44 + 32 * c" m] addUint64_of_nat [of "44 + 32 * c + m" p]
      addUint64_of_nat [of off "44 + 32 * c + m + p"] addUint64_of_nat [of "off + 44" "32 * c"]
      addUint64_of_nat [of "off + 44 + 32 * c" m]
      ucast_of_nat_u32 [of c] ucast_of_nat_u32 [of m] ucast_of_nat_u32 [of p]
    by (simp_all del: of_nat_add of_nat_mult add: mult.commute [of c])
  have tests:
    "\<not> of_nat (length b - 16) < (of_nat (off + 44) :: u64)"
    "\<not> of_nat (length b - 16) < (of_nat (off + (44 + 32 * c + m + p)) :: u64)"
    "\<not> maxUint32 < of_nat off" "\<not> maxUint32 < of_nat (44 + 32 * c + m + p)"
    "\<not> maxUint32 < of_nat (off + 44 + 32 * c + m)"
    using bnd lb by (simp_all only: of_nat_le_u64 maxUint32_def word_less_nat_alt unat_of_nat) simp_all
  have offs: "unat (of_nat off :: u64) = off" "unat (of_nat (off + 44) :: u64) = off + 44"
    using bnd by (simp_all only: unat_of_nat) simp_all
  have downs: "ucast (of_nat off :: u64) = (of_nat off :: u32)"
    "ucast (of_nat (44 + 32 * c + m + p) :: u64) = (of_nat (44 + 32 * c + m + p) :: u32)"
    "ucast (of_nat (off + 44 + 32 * c + m) :: u64) = (of_nat (off + 44 + 32 * c + m) :: u32)"
    using bnd by (simp_all only: ucast_down_of_nat)
  have path: "off + length (enc_entry e) - length (Path e) = off + 44 + 32 * c + m"
    by (simp add: c_def m_def)
  have shift: "off + entries_size (e # es) = off + (44 + 32 * c + m + p) + entries_size es"
    by (simp add: c_def m_def p_def)
  show ?case
    unfolding list.size(4) add_Suc_right add_0_right scan_rows.simps rows_of.simps path shift
    by (simp only: adds or_err_simps rbind_simps tests offs head enc_entry_head_fields Let_def
        c_def [symmetric] m_def [symmetric] p_def [symmetric] if_False simp_thms IH prod.case downs sz)
qed

lemma envelope_dir_blob:
  assumes "length (dir_blob bu es) < 2 ^ 63"
  shows "validateDirectoryBlobEnvelope (dir_blob bu es) (crc32 (dir_body bu es))
    (of_nat (length (dir_blob bu es))) = Inr (of_nat (length es))"
proof -
  have parts: "sub_bytes (dir_blob bu es) 8 12 = put_u32 0"
    "sub_bytes (dir_blob bu es) 4 8 = put_u32 (of_nat (length es))"
    by (simp_all add: dir_blob_def dir_body_def sub_bytes_def)
  show ?thesis
    unfolding validateDirectoryBlobEnvelope_def Let_def
    by (simp only: dir_blob_parts dir_footer_parts parts get_put_uint) simp
qed

lemma scan_dir_blob:
  assumes "length (dir_blob bu es) < 2 ^ 32"
  shows "scanDirectoryEntriesForIndex (dir_blob bu es) = Inr (rows_of 20 es, of_nat (length es))"
proof -
  define b where "b = dir_blob bu es"
  have lb: "length b = 36 + entries_size es" by (simp add: b_def)
  have small: "36 + entries_size es < 2 ^ 32" using assms by simp
  have n: "unat (of_nat (length es) :: u32) = length es"
    using small entries_size_ge [of es] by (intro unat_of_nat_u32) simp
  have scan: "scan_rows (length es) 20 b = Inr (rows_of 20 es, of_nat (20 + entries_size es))"
    using scan_rows_enc [of b "MagicDir @ put_u32 (of_nat (length es)) @ put_u32 0 @ put_u64 bu" es
        "dir_footer (dir_body bu es)" 20] assms
    by (simp add: b_def dir_blob_def dir_body_def)
  have crc: "crc32 (take (length b - 16) b) = crc32 (dir_body bu es)"
    unfolding b_def by (simp only: dir_blob_parts)
  have env: "validateDirectoryBlobEnvelope b (crc32 (take (length b - 16) b)) (of_nat (length b))
      = Inr (of_nat (length es))"
    unfolding crc using envelope_dir_blob [of bu es] assms by (simp add: b_def)
  have add: "addUint64 (of_nat (20 + entries_size es)) 16 = Some (of_nat (length b))"
    using addUint64_of_nat [of "20 + entries_size es" 16] small
    by (simp add: lb del: of_nat_add)
  show ?thesis
    unfolding b_def [symmetric] scanDirectoryEntriesForIndex_def
    by (simp only: env rbind_simps n scan prod.case add or_err_simps simp_thms if_False)
qed

section \<open>The hash ranges of a table\<close>

definition range_idxs :: "DirIndexHashRangeV1 \<Rightarrow> nat list" where
  "range_idxs g = [unat (gFirstEntryIndex g) ..< unat (gFirstEntryIndex g) + unat (gEntrySpan g)]"

lemma extend_span_spec:
  assumes "n < 2 ^ 32" "\<forall>i \<in> set order. i < n" "unat f + unat s \<le> n"
    "extend_span rows h f s order = (s', rest)"
  shows "\<exists>k. order = [unat f + unat s ..< unat f + unat s + k] @ rest \<and>
    unat s' = unat s + k \<and> unat f + unat s' \<le> n \<and>
    (\<forall>j \<in> set [unat f + unat s ..< unat f + unat s + k]. xPathHash64 (rows ! j) = h)"
  using assms(2-)
proof (induction order arbitrary: s)
  case Nil
  then show ?case by (intro exI [of _ 0]) simp
next
  case (Cons i order)
  show ?case
  proof (cases "xPathHash64 (rows ! i) = h \<and> of_nat i = f + s")
    case False
    with Cons.prems have "s' = s" "rest = i # order" by (auto split: if_splits)
    with Cons.prems show ?thesis by (intro exI [of _ 0]) simp
  next
    case True
    have fs: "unat (f + s) = unat f + unat s"
      using Cons.prems(2) assms(1) by (simp add: unat_word_ariths)
    have "i < 2 ^ 32" using Cons.prems(1) assms(1) by simp
    then have i: "i = unat f + unat s"
      using True fs by (metis unat_of_nat_u32)
    have s1: "unat (s + 1) = unat s + 1"
      using Cons.prems(1) i assms(1) by (simp add: unat_word_ariths)
    obtain k where k: "order = [unat f + unat (s + 1) ..< unat f + unat (s + 1) + k] @ rest"
      "unat s' = unat (s + 1) + k" "unat f + unat s' \<le> n"
      "\<forall>j \<in> set [unat f + unat (s + 1) ..< unat f + unat (s + 1) + k]. xPathHash64 (rows ! j) = h"
      using Cons.IH [of "s + 1"] Cons.prems True i s1 by auto
    have up: "[unat f + unat s ..< unat f + unat s + Suc k]
        = i # [unat f + unat (s + 1) ..< unat f + unat (s + 1) + k]"
      by (simp add: i s1 upt_conv_Cons)
    show ?thesis
      using k True by (intro exI [of _ "Suc k"]) (simp only: up, simp add: s1)
  qed
qed

lemma ranges_from_spec:
  assumes "length rows < 2 ^ 32" "\<forall>i \<in> set order. i < length rows"
  shows "concat (map range_idxs (ranges_from rows order)) = order \<and>
    list_all (range_ok rows) (ranges_from rows order) \<and>
    (\<forall>g \<in> set (ranges_from rows order). gPathHash64 g \<in> (\<lambda>i. xPathHash64 (rows ! i)) ` set order) \<and>
    (sorted (map (\<lambda>i. xPathHash64 (rows ! i)) order) \<longrightarrow>
       sorted (map gPathHash64 (ranges_from rows order)))"
  using assms
proof (induction rows order rule: ranges_from.induct)
  case (2 rows i order)
  let ?h = "xPathHash64 (rows ! i)"
  have i: "i < length rows" using "2.prems" by simp
  have un: "unat (of_nat i :: u32) = i" using i "2.prems" by (intro unat_of_nat_u32) simp
  obtain s' rest where ext: "extend_span rows ?h (of_nat i) 1 order = (s', rest)"
    by fastforce
  obtain k where k: "order = [i + 1 ..< i + 1 + k] @ rest" "unat s' = 1 + k" "i + unat s' \<le> length rows"
    "\<forall>j \<in> set [i + 1 ..< i + 1 + k]. xPathHash64 (rows ! j) = ?h"
    using extend_span_spec [OF "2.prems"(1) _ _ ext] "2.prems" i by (auto simp: un)
  define g where "g = \<lparr>gPathHash64 = ?h, gFirstEntryIndex = of_nat i, gEntrySpan = s'\<rparr>"
  have ranges: "ranges_from rows (i # order) = g # ranges_from rows rest"
    by (simp add: ext g_def Let_def)
  have idxs: "range_idxs g = i # [i + 1 ..< i + 1 + k]"
    by (simp add: range_idxs_def g_def un k(2) upt_conv_Cons)
  have ok: "range_ok rows g"
    unfolding range_ok_def range_idxs_def [symmetric] idxs
    using k(2-4) unat_gt_0 [of s'] by (auto simp: g_def un)
  note IH = "2.IH" [of ?h "of_nat i" "(s', rest)"]
  have sub: "set rest \<subseteq> set order" using k(1) by auto
  then have IH: "concat (map range_idxs (ranges_from rows rest)) = rest"
    "list_all (range_ok rows) (ranges_from rows rest)"
    "\<forall>g \<in> set (ranges_from rows rest). gPathHash64 g \<in> (\<lambda>i. xPathHash64 (rows ! i)) ` set rest"
    "sorted (map (\<lambda>i. xPathHash64 (rows ! i)) rest) \<longrightarrow>
       sorted (map gPathHash64 (ranges_from rows rest))"
    using IH "2.prems" ext by auto
  show ?case
  proof (intro conjI impI)
    show "concat (map range_idxs (ranges_from rows (i # order))) = i # order"
      by (simp only: ranges list.map concat.simps idxs IH(1)) (simp add: k(1))
    show "list_all (range_ok rows) (ranges_from rows (i # order))"
      by (simp only: ranges list.pred_inject ok IH(2) simp_thms)
    show "\<forall>g \<in> set (ranges_from rows (i # order)).
        gPathHash64 g \<in> (\<lambda>i. xPathHash64 (rows ! i)) ` set (i # order)"
      using IH(3) sub unfolding ranges by (auto simp: g_def)
    assume "sorted (map (\<lambda>i. xPathHash64 (rows ! i)) (i # order))"
    then have "sorted (map (\<lambda>i. xPathHash64 (rows ! i)) rest)"
      "\<forall>j \<in> set rest. ?h \<le> xPathHash64 (rows ! j)"
      using sub by (auto simp: k(1) sorted_append)
    with IH(3,4) show "sorted (map gPathHash64 (ranges_from rows (i # order)))"
      unfolding ranges by (auto simp: g_def)
  qed
qed simp

definition hash_order :: "DirIndexEntryV1 list \<Rightarrow> nat list" where
  "hash_order rows = sort_key (\<lambda>i. (xPathHash64 (rows ! i), i)) [0..<length rows]"

lemma hash_order_facts:
  "set (hash_order rows) = {..<length rows}" "distinct (hash_order rows)"
  "sorted (map (\<lambda>i. xPathHash64 (rows ! i)) (hash_order rows))"
proof -
  show "set (hash_order rows) = {..<length rows}" "distinct (hash_order rows)"
    by (auto simp: hash_order_def)
  have "sorted (map (\<lambda>i. (xPathHash64 (rows ! i), i)) (hash_order rows))"
    by (simp add: hash_order_def)
  then show "sorted (map (\<lambda>i. xPathHash64 (rows ! i)) (hash_order rows))"
    unfolding sorted_map by (rule sorted_wrt_mono_rel [rotated]) auto
qed

lemma build_ranges_eq: "buildDirIndexHashRanges rows = ranges_from rows (hash_order rows)"
  by (simp add: buildDirIndexHashRanges_def hash_order_def)

lemma built_ranges:
  assumes "length rows < 2 ^ 32"
  shows "concat (map range_idxs (buildDirIndexHashRanges rows)) = hash_order rows"
    and "list_all (range_ok rows) (buildDirIndexHashRanges rows)"
    and "sorted (map gPathHash64 (buildDirIndexHashRanges rows))"
  using ranges_from_spec [of rows "hash_order rows"] assms
  by (simp_all add: build_ranges_eq hash_order_facts)

lemma apart_if_disjoint:
  assumes "distinct (range_idxs g @ range_idxs h)" "gEntrySpan g \<noteq> 0" "gEntrySpan h \<noteq> 0"
  shows "apart g h"
proof (rule ccontr)
  assume "\<not> apart g h"
  then have "max (unat (gFirstEntryIndex g)) (unat (gFirstEntryIndex h))
      \<in> set (range_idxs g) \<inter> set (range_idxs h)"
    using assms(2,3) by (auto simp: apart_def range_idxs_def unat_gt_0 [symmetric])
  with assms(1) show False by auto
qed

lemma apart_if_distinct:
  "distinct (concat (map range_idxs gs)) \<Longrightarrow> list_all (range_ok rows) gs \<Longrightarrow> sorted_wrt apart gs"
proof (induction gs)
  case (Cons g gs)
  have "apart g h" if "h \<in> set gs" for h
  proof (rule apart_if_disjoint)
    have "distinct (range_idxs h)" using that by (simp add: range_idxs_def)
    then show "distinct (range_idxs g @ range_idxs h)" using Cons.prems(1) that by auto
    show "gEntrySpan g \<noteq> 0" "gEntrySpan h \<noteq> 0"
      using Cons.prems(2) that by (auto simp: list_all_iff range_ok_def)
  qed
  with Cons show ?case by simp
qed simp

lemma length_ranges_from: "length (ranges_from rows order) \<le> length order"
proof (induction rows order rule: ranges_from.induct)
  case (2 rows i order)
  from "2.IH" [OF refl refl refl] show ?case
    using extend_span_length [of rows "xPathHash64 (rows ! i)" "of_nat i" 1 order]
    by (simp add: Let_def)
qed simp

section \<open>The index of an encoded directory is valid\<close>

lemma rows_of_ok:
  assumes "list_all entry_ok es" "off + entries_size es < 2 ^ 32"
  shows "list_all row_ok (rows_of off es) \<and> sorted (map xDirEntryOffset (rows_of off es)) \<and>
    (\<forall>x \<in> set (rows_of off es). of_nat off \<le> xDirEntryOffset x)"
  using assms
proof (induction es arbitrary: off)
  case (Cons e es)
  let ?n = "length (enc_entry e)"
  have bnd: "off + ?n < 2 ^ 32" "off < 2 ^ 32" "?n < 2 ^ 32" "length (Path e) < 2 ^ 32"
    and pos: "length (Path e) \<noteq> 0"
    using Cons.prems by (auto simp: entry_ok_def)
  have IH: "list_all row_ok (rows_of (off + ?n) es)"
    "sorted (map xDirEntryOffset (rows_of (off + ?n) es))"
    "\<forall>x \<in> set (rows_of (off + ?n) es). of_nat (off + ?n) \<le> xDirEntryOffset x"
    using Cons.IH [of "off + ?n"] Cons.prems by (simp_all del: length_enc_entry of_nat_add)
  have le: "(of_nat off :: u32) \<le> of_nat (off + ?n)"
    unfolding word_le_nat_alt using bnd by (simp only: unat_of_nat_u32)
  have nz: "(of_nat ?n :: u32) \<noteq> 0" "(of_nat (length (Path e)) :: u32) \<noteq> 0"
    unfolding word_unat_eq_iff unsigned_0 using bnd pos by (simp_all only: unat_of_nat_u32) simp_all
  have "of_nat off \<le> xDirEntryOffset x" if "x \<in> set (rows_of (off + ?n) es)" for x
    using IH(3) that le by (blast intro: order_trans)
  moreover have "row_ok (hd (rows_of off (e # es)))"
    using nz by (simp add: row_ok_def del: length_enc_entry)
  ultimately show ?case
    using IH by (simp del: length_enc_entry of_nat_add)
qed simp

definition built_index :: "u64 \<Rightarrow> EntryV1 list \<Rightarrow> u64 \<Rightarrow> u64 \<Rightarrow> DirIndexV1" where
  "built_index bu es dirOffset generation =
     \<lparr>iFlags = 0, iGeneration = generation, iDirOffset = dirOffset,
      iDirSize = of_nat (length (dir_blob bu es)), iDirCRC32 = crc32 (dir_body bu es),
      iEntries = rows_of 20 es, iHashRanges = buildDirIndexHashRanges (rows_of 20 es)\<rparr>"

lemma built_index_sizes:
  assumes "length (dir_blob bu es) < 2 ^ 32"
  shows "length es < 2 ^ 32" "length (iEntries (built_index bu es off gen)) < 2 ^ 32"
    "length (iHashRanges (built_index bu es off gen)) < 2 ^ 32"
proof -
  show n: "length es < 2 ^ 32" using assms entries_size_ge [of es] by simp
  then show "length (iEntries (built_index bu es off gen)) < 2 ^ 32" by (simp add: built_index_def)
  have "length (buildDirIndexHashRanges (rows_of 20 es)) \<le> length es"
    using length_ranges_from [of "rows_of 20 es" "hash_order (rows_of 20 es)"]
    by (simp add: build_ranges_eq hash_order_def)
  with n show "length (iHashRanges (built_index bu es off gen)) < 2 ^ 32"
    by (simp add: built_index_def)
qed

theorem buildDirIndexBlob_dir:
  assumes "length (dir_blob bu es) < 2 ^ 32"
  shows "buildDirIndexBlob (dir_blob bu es) off (crc32 (dir_body bu es)) gen
    = Inr (index_blob (built_index bu es off gen))"
proof -
  have "marshalDirIndex (built_index bu es off gen) = Inr (index_blob (built_index bu es off gen))"
    using built_index_sizes [OF assms] by (intro marshalDirIndex_ok)
  then show ?thesis
    using built_index_sizes(1) [OF assms]
    by (simp add: buildDirIndexBlob_def scan_dir_blob [OF assms] unat_of_nat_u32 built_index_def
        del: length_dir_blob)
qed

theorem built_index_ok:
  assumes "list_all entry_ok es" "length (dir_blob bu es) < 2 ^ 32"
  shows "index_ok (built_index bu es off gen)"
proof -
  let ?rows = "rows_of 20 es"
  have n: "length ?rows < 2 ^ 32" using built_index_sizes(1) [OF assms(2)] by simp
  note r = built_ranges [OF n]
  have "sorted_wrt apart (buildDirIndexHashRanges ?rows)"
    using r(2) by (rule apart_if_distinct [rotated]) (simp add: r(1) hash_order_facts)
  then show ?thesis
    using r rows_of_ok [OF assms(1), of 20] assms(2)
    by (simp add: index_ok_def built_index_def)
qed

section \<open>Lookup through the index\<close>

lemma sort_search_spec:
  assumes "i \<le> j" "\<forall>k < i. \<not> p k" "\<forall>k. j \<le> k \<longrightarrow> k < n \<longrightarrow> p k"
    "\<forall>k l. k \<le> l \<longrightarrow> l < n \<longrightarrow> p k \<longrightarrow> p l" "j \<le> n"
  shows "sort_search p i j \<le> n \<and> (\<forall>k < sort_search p i j. \<not> p k) \<and>
    (\<forall>k. sort_search p i j \<le> k \<longrightarrow> k < n \<longrightarrow> p k)"
  using assms
proof (induction p i j rule: sort_search.induct)
  case (1 p i j)
  show ?case
  proof (cases "i < j")
    case False
    with "1.prems" show ?thesis by (subst (1 2 3) sort_search.simps) auto
  next
    case True
    define h where "h = (i + j) div 2"
    have h: "i \<le> h" "h < j" using True by (auto simp: h_def)
    show ?thesis
    proof (cases "p h")
      case True
      have "sort_search p i j = sort_search p i h"
        using True \<open>i < j\<close> by (subst sort_search.simps) (simp add: h_def Let_def)
      moreover have up: "\<forall>k. h \<le> k \<longrightarrow> k < n \<longrightarrow> p k" using "1.prems"(4) True by blast
      have "h \<le> n" using h "1.prems"(5) by simp
      then have "sort_search p i h \<le> n \<and> (\<forall>k < sort_search p i h. \<not> p k) \<and>
          (\<forall>k. sort_search p i h \<le> k \<longrightarrow> k < n \<longrightarrow> p k)"
        by (intro "1.IH"(2) [OF \<open>i < j\<close> h_def _ h(1) "1.prems"(2) up "1.prems"(4)])
          (simp add: True)
      ultimately show ?thesis by simp
    next
      case False
      have "sort_search p i j = sort_search p (h + 1) j"
        using False \<open>i < j\<close> by (subst sort_search.simps) (simp add: h_def Let_def)
      moreover have low: "\<forall>k < h + 1. \<not> p k"
      proof (intro allI impI)
        fix k assume "k < h + 1"
        then have "k \<le> h" "h < n" using h "1.prems"(5) by simp_all
        with False "1.prems"(4) show "\<not> p k" by blast
      qed
      have "h + 1 \<le> j" using h by simp
      then have "sort_search p (h + 1) j \<le> n \<and> (\<forall>k < sort_search p (h + 1) j. \<not> p k) \<and>
          (\<forall>k. sort_search p (h + 1) j \<le> k \<longrightarrow> k < n \<longrightarrow> p k)"
        by (intro "1.IH"(1) [OF \<open>i < j\<close> h_def False _ low "1.prems"(3-5)])
      ultimately show ?thesis by simp
    qed
  qed
qed

lemma take_drop_sorted:
  fixes key :: "'a \<Rightarrow> 'b::linorder"
  assumes "sorted (map key gs)"
    and pos: "pos = sort_search (\<lambda>i. h \<le> key (gs ! i)) 0 (length gs)"
  shows "takeWhile (\<lambda>g. key g = h) (drop pos gs) = filter (\<lambda>g. key g = h) gs"
proof -
  have mono: "key (gs ! i) \<le> key (gs ! j)" if "i \<le> j" "j < length gs" for i j
    using assms(1) that by (simp add: sorted_iff_nth_mono)
  have s: "pos \<le> length gs \<and> (\<forall>k < pos. \<not> h \<le> key (gs ! k)) \<and>
      (\<forall>k. pos \<le> k \<longrightarrow> k < length gs \<longrightarrow> h \<le> key (gs ! k))"
    unfolding pos by (rule sort_search_spec) (auto intro: order_trans [OF _ mono])
  have low: "filter (\<lambda>g. key g = h) (take pos gs) = []"
  proof -
    have "key x \<noteq> h" if "x \<in> set (take pos gs)" for x
    proof -
      from that obtain i where "i < pos" "x = gs ! i" by (auto simp: in_set_conv_nth)
      with s have "\<not> h \<le> key x" by blast
      then show ?thesis by auto
    qed
    then show ?thesis by (simp add: filter_empty_conv)
  qed
  have *: "takeWhile (\<lambda>g. key g = h) xs = filter (\<lambda>g. key g = h) xs"
    if "sorted (map key xs)" "\<forall>x \<in> set xs. h \<le> key x" for xs
    using that
  proof (induction xs)
    case (Cons x xs)
    show ?case
    proof (cases "key x = h")
      case False
      with Cons.prems have "h < key x" by (auto simp: less_le)
      then have "\<forall>y \<in> set (x # xs). key y \<noteq> h"
        using Cons.prems(1) by (auto dest: order_less_le_trans)
      then have "filter (\<lambda>g. key g = h) (x # xs) = []" by (simp only: filter_empty_conv)
      with False show ?thesis by simp
    qed (use Cons in simp)
  qed simp
  have "filter (\<lambda>g. key g = h) gs
      = filter (\<lambda>g. key g = h) (take pos gs @ drop pos gs)" by simp
  also have "\<dots> = filter (\<lambda>g. key g = h) (drop pos gs)" by (simp only: filter_append low append_Nil)
  also have "\<dots> = takeWhile (\<lambda>g. key g = h) (drop pos gs)"
  proof (rule * [symmetric])
    show "sorted (map key (drop pos gs))"
      using sorted_wrt_drop [OF assms(1), of pos] by (simp add: drop_map)
    show "\<forall>x \<in> set (drop pos gs). h \<le> key x"
    proof
      fix x assume "x \<in> set (drop pos gs)"
      then obtain i where "i < length gs - pos" "x = gs ! (pos + i)"
        by (auto simp: in_set_conv_nth)
      with s show "h \<le> key x" by simp
    qed
  qed
  finally show ?thesis by simp
qed

lemma rows_of_nth:
  assumes "j < length es"
  shows "rows_of off es ! j =
    \<lparr>xDirEntryOffset = of_nat (off + entries_size (take j es)),
     xDirEntrySize = of_nat (length (enc_entry (es ! j))), xPathHash64 = FNV1a64 (Path (es ! j)),
     xPathOffset = of_nat (off + entries_size (take j es) + length (enc_entry (es ! j))
       - length (Path (es ! j))),
     xPathSize = of_nat (length (Path (es ! j)))\<rparr>"
  using assms
proof (induction es arbitrary: off j)
  case (Cons e es)
  then show ?case
    by (cases j) (simp_all add: ac_simps del: of_nat_add length_enc_entry)
qed simp

lemma entries_size_append: "entries_size (xs @ ys) = entries_size xs + entries_size ys"
  by (simp add: entries_size_def)

text \<open>Where the encoding of entry \<open>j\<close> lies in the blob.\<close>

lemma dir_blob_at:
  assumes "j < length es"
  obtains pre post where "dir_blob bu es = pre @ enc_entry (es ! j) @ post"
    "length pre = 20 + entries_size (take j es)"
    "entries_size es = entries_size (take j es) + length (enc_entry (es ! j))
       + entries_size (drop (Suc j) es)"
proof
  define hd where "hd = MagicDir @ put_u32 (of_nat (length es)) @ put_u32 0 @ put_u64 bu"
  have es: "es = take j es @ es ! j # drop (Suc j) es" using assms(1) by (rule id_take_nth_drop)
  have "entries_size es = entries_size (take j es @ es ! j # drop (Suc j) es)"
    by (simp only: es [symmetric])
  then show "entries_size es = entries_size (take j es) + length (enc_entry (es ! j))
      + entries_size (drop (Suc j) es)"
    by (simp only: entries_size_append entries_size_simps add.assoc)
  have "concat (map enc_entry es) = concat (map enc_entry (take j es)) @ enc_entry (es ! j) @
      concat (map enc_entry (drop (Suc j) es))"
    using arg_cong [OF es, of "\<lambda>x. concat (map enc_entry x)"] by simp
  then show "dir_blob bu es = (hd @ concat (map enc_entry (take j es))) @ enc_entry (es ! j) @
      concat (map enc_entry (drop (Suc j) es)) @ dir_footer (dir_body bu es)"
    by (simp add: hd_def dir_blob_def dir_body_def)
  show "length (hd @ concat (map enc_entry (take j es))) = 20 + entries_size (take j es)"
    by (simp add: hd_def entries_size_def)
qed

lemma decode_row:
  assumes "j < length es" "list_all entry_ok es" "length (dir_blob bu es) < 2 ^ 32"
  shows "decodeDirectoryEntryAt (dir_blob bu es) (xDirEntryOffset (rows_of 20 es ! j))
    (xDirEntrySize (rows_of 20 es ! j)) = Inr (es ! j)"
proof -
  define b where "b = dir_blob bu es"
  define o1 where "o1 = 20 + entries_size (take j es)"
  define n where "n = length (enc_entry (es ! j))"
  obtain pre post where b: "b = pre @ enc_entry (es ! j) @ post" and lens: "length pre = o1"
    and size: "entries_size es = entries_size (take j es) + n + entries_size (drop (Suc j) es)"
    unfolding b_def o1_def n_def using dir_blob_at [OF assms(1)] by blast
  have bnd: "length b < 2 ^ 32" and lb: "length b = 36 + entries_size es"
    using assms(3) by (simp_all add: b_def)
  have un: "unat (of_nat o1 :: u32) = o1" "unat (of_nat n :: u32) = n"
    using bnd lb size by (simp_all only: unat_of_nat_u32 o1_def)
  have sl: "entry_slice b (of_nat o1) (of_nat n) = enc_entry (es ! j)"
    unfolding entry_slice_def un by (subst b, rule sub_bytes_at) (simp_all add: lens n_def)
  have ok: "slice_ok b (of_nat o1) (of_nat n)"
    unfolding slice_ok_def un using lb size by (simp add: o1_def) (simp add: n_def)
  have "entry_ok (es ! j)" using assms(1,2) by (simp add: list_all_length)
  moreover have "length b < 2 ^ 63" using bnd by simp
  ultimately have "decodeDirectoryEntryAt b (of_nat o1) (of_nat n) = Inr (es ! j)"
    using sl ok by (simp add: decodeAt_iff)
  then show ?thesis
    unfolding rows_of_nth [OF assms(1)] by (simp only: b_def o1_def n_def DirIndexEntryV1.simps)
qed

definition path_lookup :: "bytes \<Rightarrow> EntryV1 list \<Rightarrow> EntryV1 option" where
  "path_lookup path es = find (\<lambda>e. Path e = path) es"

lemma find_in_rows_dir:
  assumes "list_all entry_ok es" "length (dir_blob bu es) < 2 ^ 32" "\<forall>j \<in> set js. j < length es"
  shows "find_in_rows (dir_blob bu es) (rows_of 20 es) path js
    = Inr (path_lookup path (map ((!) es) js))"
  using assms(3)
proof (induction js)
  case (Cons j js)
  then have "decodeDirectoryEntryAt (dir_blob bu es) (xDirEntryOffset (rows_of 20 es ! j))
    (xDirEntrySize (rows_of 20 es ! j)) = Inr (es ! j)"
    using assms(1,2) by (intro decode_row) simp_all
  with Cons show ?case by (simp add: path_lookup_def)
qed (simp add: path_lookup_def)

lemma path_lookup_append:
  "path_lookup p (xs @ ys) = (case path_lookup p xs of Some e \<Rightarrow> Some e | None \<Rightarrow> path_lookup p ys)"
  by (induction xs) (simp_all add: path_lookup_def)

lemma find_in_ranges_dir:
  assumes "list_all entry_ok es" "length (dir_blob bu es) < 2 ^ 32"
    and "list_all (range_ok (rows_of 20 es)) gs"
  shows "find_in_ranges (dir_blob bu es) (rows_of 20 es) path h gs
    = Inr (path_lookup path (map ((!) es)
        (concat (map range_idxs (takeWhile (\<lambda>g. gPathHash64 g = h) gs)))))"
  using assms(3)
proof (induction gs)
  case Nil
  then show ?case by (simp add: path_lookup_def)
next
  case (Cons g gs)
  show ?case
  proof (cases "gPathHash64 g = h")
    case False
    then show ?thesis by (simp add: path_lookup_def)
  next
    case True
    let ?stop = "ucast (gFirstEntryIndex g) + ucast (gEntrySpan g) :: u64"
    have n: "length es < 2 ^ 32" using built_index_sizes(1) [OF assms(2)] .
    have le: "unat (gFirstEntryIndex g) + unat (gEntrySpan g) \<le> length es"
      using Cons.prems by (simp add: range_ok_def)
    then have "unat ?stop \<le> length es" by (simp add: range_end)
    then have small: "\<not> of_nat (length (rows_of 20 es)) < ?stop"
      and down: "unat (ucast ?stop :: u32) = unat (gFirstEntryIndex g) + unat (gEntrySpan g)"
      using n by (simp_all add: of_nat_less_u64 unat_ucast_down range_end)
    have "\<forall>j \<in> set (range_idxs g). j < length es" using le by (auto simp: range_idxs_def)
    note row = find_in_rows_dir [OF assms(1,2) this, of path]
    show ?thesis
      using True Cons small row
      by (simp add: range_end(1) down range_idxs_def [symmetric] path_lookup_append
          split: option.split del: length_rows_of)
  qed
qed

lemma path_lookup_unique:
  assumes "distinct (map Path es)" "e \<in> set es" "set xs \<subseteq> set es" "e \<in> set xs"
  shows "path_lookup (Path e) xs = Some e"
  using assms(3,4)
proof (induction xs)
  case (Cons x xs)
  show ?case
  proof (cases "Path x = Path e")
    case True
    then have "x = e" using assms(1,2) Cons.prems by (auto simp: distinct_map dest: inj_onD)
    then show ?thesis by (simp add: path_lookup_def)
  next
    case False
    then show ?thesis using Cons by (auto simp: path_lookup_def)
  qed
qed simp

lemma path_lookup_None: "path_lookup p es = None \<longleftrightarrow> (\<forall>e \<in> set es. Path e \<noteq> p)"
  by (auto simp: path_lookup_def find_None_iff)

theorem find_entry_dir:
  assumes ok: "list_all entry_ok es" and sz: "length (dir_blob bu es) < 2 ^ 32"
    and dist: "distinct (map Path es)"
  shows "findEntryByPathFromDirIndex (dir_blob bu es) (Some (built_index bu es off gen)) path
    = Inr (path_lookup path es)"
proof -
  let ?rows = "rows_of 20 es" and ?h = "FNV1a64 path"
  let ?gs = "buildDirIndexHashRanges ?rows"
  define js where "js = concat (map range_idxs (filter (\<lambda>g. gPathHash64 g = ?h) ?gs))"
  have n: "length ?rows < 2 ^ 32" using built_index_sizes(1) [OF sz] by simp
  note r = built_ranges [OF n]
  define pos where "pos = sort_search (\<lambda>i. ?h \<le> gPathHash64 (?gs ! i)) 0 (length ?gs)"
  have run: "findEntryByPathFromDirIndex (dir_blob bu es) (Some (built_index bu es off gen)) path
      = Inr (path_lookup path (map ((!) es) js))"
  proof -
    have "list_all (range_ok ?rows) (drop pos ?gs)"
      using r(2) by (auto simp: list_all_iff dest: in_set_dropD)
    from find_in_ranges_dir [OF ok sz this] show ?thesis
      by (simp only: findEntryByPathFromDirIndex_def built_index_def option.case Let_def
          DirIndexV1.simps pos_def [symmetric] take_drop_sorted [OF r(3) pos_def] js_def)
  qed
  have js: "j \<in> set js" if "j < length es" "Path (es ! j) = path" for j
  proof -
    have "j \<in> set (concat (map range_idxs ?gs))"
      unfolding r(1) using that by (simp add: hash_order_facts)
    then obtain g where g: "g \<in> set ?gs" "j \<in> set (range_idxs g)" by auto
    then have "gPathHash64 g = xPathHash64 (?rows ! j)"
      using r(2) by (auto simp: list_all_iff range_ok_def range_idxs_def)
    also have "\<dots> = ?h" using that by (simp add: rows_of_nth)
    finally show ?thesis using g by (auto simp: js_def)
  qed
  have bound: "j < length es" if "j \<in> set js" for j
  proof -
    have "j \<in> set (concat (map range_idxs ?gs))" using that by (auto simp: js_def)
    then show ?thesis unfolding r(1) by (simp add: hash_order_facts)
  qed
  then have sub: "set (map ((!) es) js) \<subseteq> set es" by auto
  have "path_lookup path (map ((!) es) js) = path_lookup path es"
  proof (cases "path_lookup path es")
    case None
    then have "path_lookup path (map ((!) es) js) = None"
      using sub unfolding path_lookup_None by blast
    with None show ?thesis by simp
  next
    case (Some e)
    then have e: "e \<in> set es" "Path e = path" by (auto simp: path_lookup_def find_Some_iff)
    then obtain j where "j < length es" "e = es ! j" by (auto simp: in_set_conv_nth)
    with e js have "e \<in> set (map ((!) es) js)" by auto
    then show ?thesis
      using path_lookup_unique [OF dist e(1) sub] e Some by simp
  qed
  with run show ?thesis by simp
qed

text \<open>
  Whatever index a lookup runs on, an entry it returns has the path that was asked for and was
  decoded from the directory blob.
\<close>

lemma find_in_rows_sound:
  "find_in_rows b rows path js = Inr (Some e) \<Longrightarrow>
   Path e = path \<and> (\<exists>off sz. decodeDirectoryEntryAt b off sz = Inr e)"
  by (induction js) (auto simp: inr_simps split: if_splits)

lemma find_in_ranges_sound:
  "find_in_ranges b rows path h gs = Inr (Some e) \<Longrightarrow>
   Path e = path \<and> (\<exists>off sz. decodeDirectoryEntryAt b off sz = Inr e)"
  by (induction gs) (auto simp: inr_simps split: if_splits option.splits dest: find_in_rows_sound)

theorem find_entry_sound:
  assumes "length b < 2 ^ 63" "findEntryByPathFromDirIndex b idx path = Inr (Some e)"
  shows "Path e = path" and "entry_ok e"
    and "\<exists>off sz. slice_ok b off sz \<and> entry_slice b off sz = enc_entry e"
proof -
  from assms(2) have "Path e = path \<and> (\<exists>off sz. decodeDirectoryEntryAt b off sz = Inr e)"
    by (auto simp: findEntryByPathFromDirIndex_def Let_def split: option.splits
        dest: find_in_ranges_sound)
  then show "Path e = path" "entry_ok e"
    "\<exists>off sz. slice_ok b off sz \<and> entry_slice b off sz = enc_entry e"
    using decodeAt_iff [OF assms(1)] by auto
qed

section \<open>Reading all entries through the index\<close>

definition entry_map_of :: "EntryV1 list \<Rightarrow> entry_map" where
  "entry_map_of es = map (\<lambda>e. (Path e, e)) es"

lemma row_path_slice:
  assumes "j < length es" "length (dir_blob bu es) < 2 ^ 32"
  defines "x \<equiv> rows_of 20 es ! j"
  shows "unat (xPathOffset x) + unat (xPathSize x) \<le> length (dir_blob bu es) - 16"
    "sub_bytes (dir_blob bu es) (unat (xPathOffset x)) (unat (xPathOffset x) + unat (xPathSize x))
       = Path (es ! j)"
    "xPathSize x = of_nat (length (Path (es ! j)))" "xPathHash64 x = FNV1a64 (Path (es ! j))"
proof -
  define b where "b = dir_blob bu es"
  define p where "p = length (Path (es ! j))"
  define k where "k = 20 + entries_size (take j es) + (44 + 32 * length (Chunks (es ! j))
    + length (Meta (es ! j)))"
  obtain pre post where b: "b = pre @ enc_entry (es ! j) @ post"
    and pre: "length pre = 20 + entries_size (take j es)"
    and size: "entries_size es = entries_size (take j es) + length (enc_entry (es ! j))
       + entries_size (drop (Suc j) es)"
    unfolding b_def using dir_blob_at [OF assms(1)] by blast
  have lb: "length b = 36 + entries_size es" "length b < 2 ^ 32"
    using assms(2) by (simp_all add: b_def)
  have off: "20 + entries_size (take j es) + length (enc_entry (es ! j)) - length (Path (es ! j)) = k"
    by (simp add: k_def)
  have bnd: "k + p \<le> length b - 16" using lb(1) size by (simp add: k_def p_def)
  then have un: "unat (of_nat k :: u32) = k" "unat (of_nat p :: u32) = p"
    using lb(2) by (simp_all only: unat_of_nat_u32)
  note x = x_def [unfolded rows_of_nth [OF assms(1)] off, folded p_def]
  show "unat (xPathOffset x) + unat (xPathSize x) \<le> length (dir_blob bu es) - 16"
    using bnd by (simp add: x un b_def)
  have "sub_bytes b k (k + p) = Path (es ! j)"
  proof -
    have "b = (pre @ enc_entry_head (es ! j) @ concat (map enc_chunk_ref (Chunks (es ! j))) @
        Meta (es ! j)) @ Path (es ! j) @ post"
      by (simp add: b enc_entry_split)
    then show ?thesis
      by (simp only:) (rule sub_bytes_at, simp_all add: pre k_def p_def enc_entry_head_fields)
  qed
  then show "sub_bytes (dir_blob bu es) (unat (xPathOffset x)) (unat (xPathOffset x) + unat (xPathSize x))
       = Path (es ! j)"
    by (simp add: x un b_def)
  show "xPathSize x = of_nat (length (Path (es ! j)))" "xPathHash64 x = FNV1a64 (Path (es ! j))"
    by (simp_all add: x p_def)
qed

lemma read_rows_dir:
  assumes "list_all entry_ok es" "length (dir_blob bu es) < 2 ^ 32"
    and "\<forall>j \<in> set js. j < length es"
    and "distinct (map fst acc @ map (\<lambda>j. Path (es ! j)) js)"
  shows "read_rows (dir_blob bu es) (map ((!) (rows_of 20 es)) js) acc
    = Inr (acc @ entry_map_of (map ((!) es) js))"
  using assms(3,4)
proof (induction js arbitrary: acc)
  case (Cons j js)
  let ?x = "rows_of 20 es ! j" and ?e = "es ! j" and ?b = "dir_blob bu es"
  from Cons.prems have j: "j < length es" by simp
  note dec = decode_row [OF j assms(1,2)]
  note path = row_path_slice [OF j assms(2)]
  have ok: "PathSize ?e = xPathSize ?x" "PathHash64 ?e = xPathHash64 ?x"
    using assms(1) j path(3,4) by (simp_all add: list_all_length entry_ok_def)
  have fresh: "map_of acc (Path ?e) = None"
    using Cons.prems(2) by (simp add: map_of_eq_None_iff)
  define q where "q = (ucast (xPathOffset ?x) + ucast (xPathSize ?x) :: u64)"
  have q: "addUint64 (ucast (xPathOffset ?x)) (ucast (xPathSize ?x)) = Some q"
    "unat q = unat (xPathOffset ?x) + unat (xPathSize ?x)"
    by (simp_all add: q_def range_end)
  have small: "\<not> of_nat (length ?b - 16) < q" "\<not> maxInt < q"
    using path(1) assms(2) q(2)
    by (simp_all add: word_less_nat_alt unat_of_nat maxInt_def del: of_nat_diff length_dir_blob)
  have IH: "read_rows ?b (map ((!) (rows_of 20 es)) js) (acc @ [(Path ?e, ?e)])
      = Inr ((acc @ [(Path ?e, ?e)]) @ entry_map_of (map ((!) es) js))"
    using Cons.prems by (intro Cons.IH) auto
  show ?case
    by (simp only: list.map read_rows.simps dec map_err_simps rbind_simps ok q or_err_simps small
        path(2) fresh if_False simp_thms IH) (simp add: entry_map_of_def)
qed (simp add: entry_map_of_def)

theorem read_entries_dir:
  assumes "list_all entry_ok es" "length (dir_blob bu es) < 2 ^ 32" "distinct (map Path es)"
    and "hDirCRC32 h = crc32 (dir_body bu es)" "hDirSize h = of_nat (length (dir_blob bu es))"
  shows "readEntriesByDirIndex (dir_blob bu es) h (built_index bu es off gen)
    = Inr (entry_map_of es)"
proof -
  have rows: "map ((!) (rows_of 20 es)) [0..<length es] = rows_of 20 es"
    using map_nth [of "rows_of 20 es"] by simp
  have "map (\<lambda>j. Path (es ! j)) [0..<length es] = map Path es"
    by (rule nth_equalityI) simp_all
  then have "read_rows (dir_blob bu es) (rows_of 20 es) [] = Inr (entry_map_of es)"
    using read_rows_dir [OF assms(1,2), of "[0..<length es]" "[]"] assms(3)
    by (simp add: rows map_nth)
  moreover have "validateDirectoryBlobEnvelope (dir_blob bu es) (hDirCRC32 h) (hDirSize h)
      = Inr (of_nat (length es))"
    unfolding assms(4,5) using assms(2) by (intro envelope_dir_blob) simp
  ultimately show ?thesis
    using built_index_sizes(1) [OF assms(2)]
    by (simp add: readEntriesByDirIndex_def built_index_def unat_of_nat_u32)
qed

end
