(* ===== verification/Snapshot.thy ===== *)
theory Snapshot
  imports FileIO HeaderExt IndexBuild
begin

text \<open>
  Loading the catalogue of a container from its file, \<^verbatim>\<open>fbx/container.go\<close>
  (\<^verbatim>\<open>readDirectoryBlobByHeader\<close>, \<^verbatim>\<open>validateHeaderDirectory\<close>, \<^verbatim>\<open>loadSnapshotByHeader\<close>,
  \<^verbatim>\<open>loadSnapshotFromDirectoryRecovery\<close>, \<^verbatim>\<open>validateEntriesChunkOffsets\<close>) and
  \<^verbatim>\<open>maybeReadDirIndexByHeader\<close> of \<^verbatim>\<open>fbx/dir_index.go\<close>. The predicate \<open>stored\<close> says that a file holds
  a catalogue under a header; the lemmas show that such a catalogue is loaded, lazily and
  eagerly, that it survives anything appended to the file and anything written below it, and
  what an accepted snapshot guarantees.
\<close>

section \<open>The loaders\<close>

definition maxDirectoryBlobSize :: u64 where "maxDirectoryBlobSize = 0x40000000"

definition readDirectoryBlobByHeader :: "bytes \<Rightarrow> HeaderV1 \<Rightarrow> bytes result" where
  "readDirectoryBlobByHeader f h =
     (if hDirOffset h = 0 \<or> hDirSize h = 0 then Inl ErrInvalidFormat
      else if \<not> regionWithinFile (hDirOffset h) (hDirSize h) (file_size f) then Inl ErrInvalidFormat
      else if hDirSize h > maxDirectoryBlobSize then Inl ErrLimitExceeded
      else if hDirSize h > maxInt then Inl ErrLimitExceeded
      else readAt f (hDirOffset h) (unat (hDirSize h)))"

definition validateHeaderDirectory :: "bytes \<Rightarrow> HeaderV1 \<Rightarrow> unit result" where
  "validateHeaderDirectory f h =
     rbind (readDirectoryBlobByHeader f h) (\<lambda>dirBlob.
     rbind (decodeDirectory dirBlob (hDirCRC32 h) (hDirSize h)) (\<lambda>_. Inr ()))"

text \<open>The pair \<open>(index, ok)\<close> is an option: an error goes with \<open>ok\<close> true.\<close>

definition maybeReadDirIndexByHeader :: "bytes \<Rightarrow> HeaderV1 \<Rightarrow> u64 \<Rightarrow> DirIndexV1 option result" where
  "maybeReadDirIndexByHeader f h fileSize =
     (if hFlags h AND HeaderFlagHasDirIndex = 0 then Inr None else
      let ptr = readHeaderDirIndexPointer h in
      if pOffset ptr = 0 \<or> pSize ptr = 0 \<or> pCrc32 ptr = 0 then Inl ErrInvalidFormat
      else if \<not> regionWithinFile (pOffset ptr) (pSize ptr) fileSize then Inl ErrInvalidFormat
      else if pSize ptr > maxDirectoryBlobSize then Inl ErrLimitExceeded
      else if pSize ptr > maxInt then Inl ErrLimitExceeded else
      rbind (readAt f (pOffset ptr) (unat (pSize ptr))) (\<lambda>blob.
      rbind (map_err mapErr (decodeDirIndex blob (pCrc32 ptr))) (\<lambda>idx.
      if iDirOffset idx \<noteq> hDirOffset h \<or> iDirSize idx \<noteq> hDirSize h \<or> iDirCRC32 idx \<noteq> hDirCRC32 h
      then Inl ErrInvalidFormat else
      let gen = readHeaderGeneration h in
      if gen > 0 \<and> iGeneration idx \<noteq> gen then Inl ErrInvalidFormat
      else Inr (Some idx))))"

text \<open>The loop that fills the map from a decoded directory; a second entry with a path fails.\<close>

fun insert_new :: "EntryV1 list \<Rightarrow> entry_map \<Rightarrow> entry_map result" where
  "insert_new [] entries = Inr entries"
| "insert_new (e # es) entries =
     (if map_of entries (Path e) \<noteq> None then Inl ErrInvalidFormat
      else insert_new es (entries @ [(Path e, e)]))"

definition chunk_in_file :: "u64 \<Rightarrow> ChunkRefV1 \<Rightarrow> bool" where
  "chunk_in_file fileSize ref =
     (case addUint64 (ChunkOffset ref) 16 of None \<Rightarrow> False
      | Some chunkEnd \<Rightarrow>
        (case addUint64 chunkEnd (ucast (CompSize ref)) of None \<Rightarrow> False
         | Some chunkEnd \<Rightarrow> \<not> chunkEnd > fileSize))"

text \<open>
  One error is possible, so the order in which the map is gone through does not matter. The
  same loop over the entries of a directory is \<^verbatim>\<open>validateDirectoryChunkOffsets\<close> of
  \<^verbatim>\<open>fbx/recovery_scan.go\<close>.
\<close>

definition validateChunkOffsets :: "EntryV1 list \<Rightarrow> u64 \<Rightarrow> unit result" where
  "validateChunkOffsets es fileSize =
     (if \<exists>e \<in> set es. \<exists>ref \<in> set (Chunks e). \<not> chunk_in_file fileSize ref
      then Inl ErrInvalidFormat else Inr ())"

definition validateEntriesChunkOffsets :: "entry_map \<Rightarrow> u64 \<Rightarrow> unit result" where
  "validateEntriesChunkOffsets entries fileSize = validateChunkOffsets (map snd entries) fileSize"

record containerSnapshot =
  sEntries :: "entry_map option"
  sDirBlob :: bytes
  sDirIndex :: "DirIndexV1 option"

definition loadSnapshotByHeader :: "bytes \<Rightarrow> HeaderV1 \<Rightarrow> bool \<Rightarrow> containerSnapshot result" where
  "loadSnapshotByHeader f h preferLazy =
     rbind (validateCanonicalHeaderLayout h) (\<lambda>_.
     rbind (readDirectoryBlobByHeader f h) (\<lambda>dirBlob.
     let fileSize = file_size f;
         finish = (\<lambda>entries. rbind (validateEntriesChunkOffsets entries fileSize) (\<lambda>_.
           Inr \<lparr>sEntries = Some entries, sDirBlob = [], sDirIndex = None\<rparr>)) in
     rbind (maybeReadDirIndexByHeader f h fileSize) (\<lambda>ok.
     case ok of
       Some idx \<Rightarrow>
         if preferLazy then
           rbind (validateDirectoryBlobEnvelope dirBlob (hDirCRC32 h) (hDirSize h)) (\<lambda>entryCount.
           if unat entryCount \<noteq> length (iEntries idx) then Inl ErrInvalidFormat
           else Inr \<lparr>sEntries = None, sDirBlob = dirBlob, sDirIndex = Some idx\<rparr>)
         else rbind (readEntriesByDirIndex dirBlob h idx) finish
     | None \<Rightarrow>
         rbind (map_err mapErr (decodeDirectory dirBlob (hDirCRC32 h) (hDirSize h))) (\<lambda>dir.
         rbind (insert_new (dEntries dir) []) finish))))"

definition readEntriesByHeader :: "bytes \<Rightarrow> HeaderV1 \<Rightarrow> entry_map result" where
  "readEntriesByHeader f h =
     rbind (loadSnapshotByHeader f h False) (\<lambda>snap. Inr (the (sEntries snap)))"

definition loadSnapshotFromDirectoryRecovery :: "bytes \<Rightarrow> HeaderV1 \<Rightarrow> containerSnapshot result" where
  "loadSnapshotFromDirectoryRecovery f h =
     rbind (readDirectoryBlobByHeader f h) (\<lambda>dirBlob.
     rbind (map_err mapErr (decodeDirectory dirBlob (hDirCRC32 h) (hDirSize h))) (\<lambda>dir.
     rbind (insert_new (dEntries dir) []) (\<lambda>entries.
     rbind (validateEntriesChunkOffsets entries (file_size f)) (\<lambda>_.
     Inr \<lparr>sEntries = Some entries, sDirBlob = [], sDirIndex = None\<rparr>))))"

section \<open>Bytes at a place of a file\<close>

definition at :: "bytes \<Rightarrow> nat \<Rightarrow> bytes \<Rightarrow> bool" where
  "at f off b \<longleftrightarrow> off + length b \<le> length f \<and> sub_bytes f off (off + length b) = b"

lemma at_append: "at f off b \<Longrightarrow> at (f @ g) off b"
  by (auto simp: at_def sub_bytes_append1)

lemma at_end: "length f = off \<Longrightarrow> at (f @ b @ g) off b"
  by (auto simp: at_def sub_bytes_def)

lemma at_overwrite:
  "at f off b \<Longrightarrow> lo + length x \<le> off \<Longrightarrow> at (overwrite f lo x) off b"
  by (auto simp: at_def overwrite_inside sub_put_at_after)

lemma readAt_at_iff: "at f (unat off) b \<Longrightarrow> length f < 2 ^ 63 \<Longrightarrow> readAt f off (length b) = Inr b"
  by (auto simp: at_def readAt_ok)

text \<open>A region that is read as a whole by its recorded size.\<close>

lemma readAt_region:
  assumes "at f (unat off) b" "sz = of_nat (length b)" "length f < 2 ^ 63"
  shows "regionWithinFile off sz (file_size f)" "readAt f off (unat sz) = Inr b"
    "unat sz = length b"
proof -
  from assms have "length b < 2 ^ 64" by (auto simp: at_def)
  then show n: "unat sz = length b" by (simp add: assms(2) unat_of_nat)
  show "regionWithinFile off sz (file_size f)"
    using assms(1,3) by (simp add: regionWithinFile_iff n unat_file_size at_def)
  show "readAt f off (unat sz) = Inr b"
    using readAt_at_iff [OF assms(1,3)] by (simp add: n)
qed

section \<open>A stored catalogue\<close>

definition chunks_inside :: "nat \<Rightarrow> EntryV1 list \<Rightarrow> bool" where
  "chunks_inside n es \<longleftrightarrow>
     (\<forall>e \<in> set es. \<forall>c \<in> set (Chunks e). unat (ChunkOffset c) + 16 + unat (CompSize c) \<le> n)"

lemma chunk_in_file_iff:
  "chunk_in_file fs c \<longleftrightarrow> unat (ChunkOffset c) + 16 + unat (CompSize c) \<le> unat fs"
proof (cases "addUint64 (ChunkOffset c) 16")
  case None
  then have "2 ^ 64 \<le> unat (ChunkOffset c) + 16"
    by (simp add: addUint64_alt split: if_splits)
  then show ?thesis using None unat_u64_lt [of fs] by (simp add: chunk_in_file_def)
next
  case (Some x)
  then have x: "unat x = unat (ChunkOffset c) + 16" by (auto dest: addUint64_SomeD)
  show ?thesis
    using Some x unat_u64_lt [of fs]
    by (auto simp: chunk_in_file_def addUint64_alt word_less_nat_alt unat_add_u64)
qed

lemma validateChunkOffsets_iff:
  "validateChunkOffsets es fs = Inr () \<longleftrightarrow> chunks_inside (unat fs) es"
  by (auto simp: validateChunkOffsets_def chunks_inside_def chunk_in_file_iff)

definition dir_stored :: "bytes \<Rightarrow> HeaderV1 \<Rightarrow> u64 \<Rightarrow> EntryV1 list \<Rightarrow> bool" where
  "dir_stored f h bu es \<longleftrightarrow>
     at f (unat (hDirOffset h)) (dir_blob bu es) \<and> hDirOffset h \<noteq> 0 \<and>
     hDirSize h = of_nat (length (dir_blob bu es)) \<and> hDirCRC32 h = crc32 (dir_body bu es) \<and>
     length (dir_blob bu es) \<le> 2 ^ 30 \<and>
     list_all entry_ok es \<and> distinct (map Path es) \<and> chunks_inside (length f) es"

definition idx_stored :: "bytes \<Rightarrow> HeaderV1 \<Rightarrow> DirIndexV1 \<Rightarrow> bool" where
  "idx_stored f h idx \<longleftrightarrow>
     (let ptr = readHeaderDirIndexPointer h; blob = index_blob idx in
      at f (unat (pOffset ptr)) blob \<and> pSize ptr = of_nat (length blob) \<and>
      pCrc32 ptr = crc32 blob \<and> length blob \<le> 2 ^ 30)"

text \<open>
  The file holds the catalogue \<open>es\<close> under the header: the directory blob, the index the code
  builds for it and chunk references inside the file.
\<close>

definition stored :: "bytes \<Rightarrow> HeaderV1 \<Rightarrow> u64 \<Rightarrow> EntryV1 list \<Rightarrow> bool" where
  "stored f h bu es \<longleftrightarrow> canonical_layout h \<and> dir_stored f h bu es \<and>
     idx_stored f h (built_index bu es (hDirOffset h) (readHeaderGeneration h))"

lemma chunks_inside_mono: "chunks_inside n es \<Longrightarrow> n \<le> m \<Longrightarrow> chunks_inside m es"
  by (fastforce simp: chunks_inside_def)

lemma stored_append: "stored f h bu es \<Longrightarrow> stored (f @ g) h bu es"
  by (auto simp: stored_def dir_stored_def idx_stored_def Let_def at_append
      elim: chunks_inside_mono)

lemma stored_overwrite:
  assumes "stored f h bu es" "lo + length b \<le> unat (hDirOffset h)"
    "lo + length b \<le> unat (pOffset (readHeaderDirIndexPointer h))"
  shows "stored (overwrite f lo b) h bu es"
proof -
  have "unat (hDirOffset h) \<le> length f"
    using assms(1) by (auto simp: stored_def dir_stored_def at_def)
  then have "length (overwrite f lo b) = length f"
    using assms(2) by (intro overwrite_length) simp
  with assms show ?thesis
    by (auto simp: stored_def dir_stored_def idx_stored_def Let_def intro: at_overwrite)
qed

section \<open>A stored catalogue is loaded\<close>

lemma blob_limits:
  assumes "sz = of_nat n" "n \<le> 2 ^ 30" "n \<noteq> 0"
  shows "\<not> sz > maxDirectoryBlobSize" "\<not> sz > maxInt" "sz \<noteq> 0"
proof -
  have "unat sz = n" using assms(1,2) by (simp add: unat_of_nat)
  then show "\<not> sz > maxDirectoryBlobSize" "\<not> sz > maxInt" "sz \<noteq> 0"
    using assms(2,3)
    by (auto simp: word_less_nat_alt maxDirectoryBlobSize_def maxInt_def)
qed

lemma read_dir_stored:
  assumes st: "dir_stored f h bu es" and len: "length f < 2 ^ 63"
  shows "readDirectoryBlobByHeader f h = Inr (dir_blob bu es)"
proof -
  from st have a: "at f (unat (hDirOffset h)) (dir_blob bu es)"
    and sz: "hDirSize h = of_nat (length (dir_blob bu es))"
    and le: "length (dir_blob bu es) \<le> 2 ^ 30" and off: "hDirOffset h \<noteq> 0"
    by (simp_all add: dir_stored_def)
  show ?thesis
    using readAt_region [OF a sz len] blob_limits [OF sz le] off
    by (simp add: readDirectoryBlobByHeader_def)
qed

lemma decode_dir_stored:
  assumes "dir_stored f h bu es"
  shows "decodeDirectory (dir_blob bu es) (hDirCRC32 h) (hDirSize h) = Inr (decoded bu es)"
proof -
  have "length es < 2 ^ 32"
    using assms by (intro built_index_sizes(1)) (auto simp: dir_stored_def)
  then show ?thesis
    using assms decodeDirectory_enc [of es bu] by (simp add: dir_stored_def)
qed

lemma validate_dir_stored:
  assumes "dir_stored f h bu es" "length f < 2 ^ 63"
  shows "validateHeaderDirectory f h = Inr ()"
  using assms by (simp add: validateHeaderDirectory_def read_dir_stored decode_dir_stored)

lemma decodeDirIndex_blob:
  assumes "index_ok idx" "length (iEntries idx) < 2 ^ 32" "length (iHashRanges idx) < 2 ^ 32"
  shows "decodeDirIndex (index_blob idx) (crc32 (index_blob idx)) = Inr idx"
  using assms unmarshal_index_blob [OF assms(2,3)] validateDirIndex_iff [OF assms(2)]
  by (simp add: decodeDirIndex_def)

lemma requiredFlags_index:
  "hFlags h AND requiredFlags = requiredFlags \<Longrightarrow> hFlags h AND HeaderFlagHasDirIndex \<noteq> 0"
  using and_mask_sub [of "hFlags h" requiredFlags HeaderFlagHasDirIndex]
  by (simp add: requiredFlags_val HeaderFlagHasDirIndex_def)

lemma read_idx_stored:
  assumes st: "idx_stored f h idx" and canon: "canonical_layout h" and len: "length f < 2 ^ 63"
    and ok: "index_ok idx" "length (iEntries idx) < 2 ^ 32" "length (iHashRanges idx) < 2 ^ 32"
    and flds: "iDirOffset idx = hDirOffset h" "iDirSize idx = hDirSize h"
      "iDirCRC32 idx = hDirCRC32 h" "iGeneration idx = readHeaderGeneration h"
  shows "maybeReadDirIndexByHeader f h (file_size f) = Inr (Some idx)"
proof -
  let ?ptr = "readHeaderDirIndexPointer h"
  from st have a: "at f (unat (pOffset ?ptr)) (index_blob idx)"
    and sz: "pSize ?ptr = of_nat (length (index_blob idx))"
    and le: "length (index_blob idx) \<le> 2 ^ 30" and crc: "pCrc32 ?ptr = crc32 (index_blob idx)"
    by (simp_all add: idx_stored_def Let_def)
  from canon have "hFlags h AND requiredFlags = requiredFlags" and off: "pOffset ?ptr \<noteq> 0"
    and nz: "pCrc32 ?ptr \<noteq> 0"
    by (simp_all add: canonical_layout_def)
  then have "hFlags h AND HeaderFlagHasDirIndex \<noteq> 0" by (intro requiredFlags_index)
  moreover have "decodeDirIndex (index_blob idx) (pCrc32 ?ptr) = Inr idx"
    unfolding crc by (rule decodeDirIndex_blob [OF ok])
  ultimately show ?thesis
    using readAt_region [OF a sz len] blob_limits [OF sz le] off nz
    by (simp add: maybeReadDirIndexByHeader_def Let_def flds)
qed

lemma built_index_fields:
  "iDirOffset (built_index bu es off gen) = off" "iGeneration (built_index bu es off gen) = gen"
  "iDirSize (built_index bu es off gen) = of_nat (length (dir_blob bu es))"
  "iDirCRC32 (built_index bu es off gen) = crc32 (dir_body bu es)"
  "iEntries (built_index bu es off gen) = rows_of 20 es"
  by (simp_all add: built_index_def)

lemma stored_parts:
  assumes "stored f h bu es" "length f < 2 ^ 63"
  defines "idx \<equiv> built_index bu es (hDirOffset h) (readHeaderGeneration h)"
  shows "validateCanonicalHeaderLayout h = Inr ()"
    "readDirectoryBlobByHeader f h = Inr (dir_blob bu es)"
    "maybeReadDirIndexByHeader f h (file_size f) = Inr (Some idx)"
    "validateDirectoryBlobEnvelope (dir_blob bu es) (hDirCRC32 h) (hDirSize h)
       = Inr (of_nat (length es))"
    "length es < 2 ^ 32" "length (dir_blob bu es) < 2 ^ 32"
proof -
  from assms(1) have d: "dir_stored f h bu es" by (simp add: stored_def)
  then show sz: "length (dir_blob bu es) < 2 ^ 32" by (auto simp: dir_stored_def)
  show "length es < 2 ^ 32" by (rule built_index_sizes(1) [OF sz])
  show "validateCanonicalHeaderLayout h = Inr ()"
    using assms(1) by (simp add: validateCanonicalHeaderLayout_iff stored_def)
  show "readDirectoryBlobByHeader f h = Inr (dir_blob bu es)"
    using d assms(2) by (rule read_dir_stored)
  show "validateDirectoryBlobEnvelope (dir_blob bu es) (hDirCRC32 h) (hDirSize h)
      = Inr (of_nat (length es))"
    using envelope_dir_blob [of bu es] sz d by (simp add: dir_stored_def)
  have "index_ok idx"
    unfolding idx_def using d sz by (intro built_index_ok) (simp_all add: dir_stored_def)
  moreover have "idx_stored f h idx" "canonical_layout h"
    using assms(1) by (simp_all add: stored_def idx_def)
  ultimately show "maybeReadDirIndexByHeader f h (file_size f) = Inr (Some idx)"
    using assms(2) built_index_sizes(2,3) [OF sz] d
    by (intro read_idx_stored) (simp_all add: idx_def built_index_fields dir_stored_def)
qed

theorem load_stored_lazy:
  assumes "stored f h bu es" "length f < 2 ^ 63"
  shows "loadSnapshotByHeader f h True = Inr \<lparr>sEntries = None, sDirBlob = dir_blob bu es,
    sDirIndex = Some (built_index bu es (hDirOffset h) (readHeaderGeneration h))\<rparr>"
  using stored_parts [OF assms]
  by (simp add: loadSnapshotByHeader_def built_index_fields unat_of_nat_u32 Let_def)

lemma map_snd_entry_map [simp]: "map snd (entry_map_of es) = es"
  by (simp add: entry_map_of_def comp_def)

lemma map_fst_entry_map [simp]: "map fst (entry_map_of es) = map Path es"
  by (simp add: entry_map_of_def comp_def)

lemma validate_entries_stored:
  assumes "dir_stored f h bu es" "length f < 2 ^ 63"
  shows "validateEntriesChunkOffsets (entry_map_of es) (file_size f) = Inr ()"
  using assms
  by (simp add: validateEntriesChunkOffsets_def validateChunkOffsets_iff unat_file_size dir_stored_def)

lemma read_entries_stored:
  assumes "stored f h bu es"
  shows "readEntriesByDirIndex (dir_blob bu es) h
    (built_index bu es (hDirOffset h) (readHeaderGeneration h)) = Inr (entry_map_of es)"
  using assms by (intro read_entries_dir) (auto simp: stored_def dir_stored_def)

theorem load_stored_eager:
  assumes "stored f h bu es" "length f < 2 ^ 63"
  shows "loadSnapshotByHeader f h False =
    Inr \<lparr>sEntries = Some (entry_map_of es), sDirBlob = [], sDirIndex = None\<rparr>"
proof -
  have "dir_stored f h bu es" using assms(1) by (simp add: stored_def)
  then show ?thesis
    using stored_parts [OF assms] read_entries_stored [OF assms(1)] validate_entries_stored assms(2)
    by (simp add: loadSnapshotByHeader_def Let_def)
qed

section \<open>What an accepted snapshot guarantees\<close>

text \<open>The entries of a loaded map: well-formed, one binding per path, chunks inside the file.\<close>

definition entries_ok :: "nat \<Rightarrow> entry_map \<Rightarrow> bool" where
  "entries_ok n m \<longleftrightarrow> (\<exists>es. m = entry_map_of es \<and> list_all entry_ok es \<and> distinct (map Path es) \<and>
     chunks_inside n es)"

lemma insert_new_spec:
  "insert_new es acc = Inr m \<longleftrightarrow>
   m = acc @ entry_map_of es \<and> distinct (map Path es) \<and> set (map fst acc) \<inter> set (map Path es) = {}"
proof (induction es arbitrary: acc)
  case (Cons e es)
  have "map_of acc (Path e) = None \<longleftrightarrow> Path e \<notin> set (map fst acc)"
    by (simp add: map_of_eq_None_iff)
  then show ?case by (simp add: Cons.IH) (auto simp: entry_map_of_def)
qed (auto simp: entry_map_of_def)

lemma read_rows_sound:
  assumes "length b < 2 ^ 63" "read_rows b rows acc = Inr m"
  shows "\<exists>es. m = acc @ entry_map_of es \<and> list_all entry_ok es \<and> distinct (map Path es) \<and>
    set (map fst acc) \<inter> set (map Path es) = {}"
  using assms(2)
proof (induction rows arbitrary: acc)
  case Nil
  then show ?case by (intro exI [of _ "[]"]) (simp add: entry_map_of_def)
next
  case (Cons row rows)
  then obtain e where e: "decodeDirectoryEntryAt b (xDirEntryOffset row) (xDirEntrySize row) = Inr e"
    and fresh: "map_of acc (Path e) = None"
    and rest: "read_rows b rows (acc @ [(Path e, e)]) = Inr m"
    by (auto simp: inr_simps split: if_splits)
  from Cons.IH [OF rest] obtain es where es: "m = (acc @ [(Path e, e)]) @ entry_map_of es"
    "list_all entry_ok es" "distinct (map Path es)"
    "set (map fst (acc @ [(Path e, e)])) \<inter> set (map Path es) = {}" by blast
  moreover have "entry_ok e" using e decodeAt_iff [OF assms(1)] by blast
  moreover have "Path e \<notin> set (map fst acc)" using fresh by (simp add: map_of_eq_None_iff)
  ultimately show ?case
    by (intro exI [of _ "e # es"]) (auto simp: entry_map_of_def)
qed

lemma entries_ok_checked:
  assumes "length f < 2 ^ 63" "m = entry_map_of es" "list_all entry_ok es" "distinct (map Path es)"
    "validateEntriesChunkOffsets m (file_size f) = Inr ()"
  shows "entries_ok (length f) m"
proof -
  have "unat (file_size f) = length f" using assms(1) by (simp add: unat_file_size)
  then have "chunks_inside (length f) es"
    using assms(2,5) by (simp add: validateEntriesChunkOffsets_def validateChunkOffsets_iff)
  with assms(2-4) show ?thesis unfolding entries_ok_def by blast
qed

lemma read_dir_length:
  "readDirectoryBlobByHeader f h = Inr b \<Longrightarrow> length b < 2 ^ 63"
  by (auto simp: readDirectoryBlobByHeader_def maxInt_def word_less_nat_alt
      dest: readAt_sound(2) split: if_splits)

theorem load_recovery_sound:
  assumes "length f < 2 ^ 63" "loadSnapshotFromDirectoryRecovery f h = Inr snap"
  shows "\<exists>m. sEntries snap = Some m \<and> entries_ok (length f) m"
proof -
  from assms(2) obtain b d m where b: "readDirectoryBlobByHeader f h = Inr b"
    and d: "decodeDirectory b (hDirCRC32 h) (hDirSize h) = Inr d"
    and m: "insert_new (dEntries d) [] = Inr m"
    and v: "validateEntriesChunkOffsets m (file_size f) = Inr ()" and snap: "sEntries snap = Some m"
    by (auto simp: loadSnapshotFromDirectoryRecovery_def inr_simps)
  have "m = entry_map_of (dEntries d)" "distinct (map Path (dEntries d))"
    using m by (simp_all add: insert_new_spec)
  moreover have "list_all entry_ok (dEntries d)"
    using decodeDirectory_sound(3) [OF read_dir_length [OF b] d] .
  ultimately have "entries_ok (length f) m" using entries_ok_checked [OF assms(1)] v by blast
  with snap show ?thesis by blast
qed

theorem load_eager_sound:
  assumes "length f < 2 ^ 63" "loadSnapshotByHeader f h False = Inr snap"
  shows "canonical_layout h" and "\<exists>m. sEntries snap = Some m \<and> entries_ok (length f) m"
proof -
  show canon: "canonical_layout h"
    using assms(2) by (auto simp: loadSnapshotByHeader_def inr_simps validateCanonicalHeaderLayout_iff)
  then have "hFlags h AND requiredFlags = requiredFlags" by (simp add: canonical_layout_def)
  then have "maybeReadDirIndexByHeader f h (file_size f) \<noteq> Inr None"
    using requiredFlags_index by (auto simp: maybeReadDirIndexByHeader_def Let_def inr_simps)
  with assms(2) obtain b idx m where b: "readDirectoryBlobByHeader f h = Inr b"
    and m: "readEntriesByDirIndex b h idx = Inr m"
    and v: "validateEntriesChunkOffsets m (file_size f) = Inr ()" and snap: "sEntries snap = Some m"
    by (auto simp: loadSnapshotByHeader_def inr_simps Let_def split: option.splits)
  from m have "read_rows b (iEntries idx) [] = Inr m"
    by (auto simp: readEntriesByDirIndex_def inr_simps)
  from read_rows_sound [OF read_dir_length [OF b] this]
  obtain es where "m = entry_map_of es" "list_all entry_ok es" "distinct (map Path es)" by auto
  then have "entries_ok (length f) m" using entries_ok_checked [OF assms(1)] v by blast
  with snap show "\<exists>m. sEntries snap = Some m \<and> entries_ok (length f) m" by blast
qed

end
