(* ===== verification/Journal.thy ===== *)
theory Journal
  imports Snapshot
begin

text \<open>
  The header copies at the end of the file and in the fixed backup slot, \<^verbatim>\<open>fbx/journal.go\<close>:
  \<^verbatim>\<open>JNL1\<close> and \<^verbatim>\<open>BKP1\<close> records, their parser, the backward search for the last valid one and the
  choice between the two kinds. The lemmas show that records are canonical, that the search
  finds the last record of a file and that whatever is recovered is a valid header with a valid
  directory.
\<close>

section \<open>Records\<close>

definition journalMagic :: bytes where "journalMagic = [0x4A, 0x4E, 0x4C, 0x31]"
definition backupMagic :: bytes where "backupMagic = [0x42, 0x4B, 0x50, 0x31]"
definition journalSearchBytes :: nat where "journalSearchBytes = 8388608"
definition fixedBackupOffset :: u64 where "fixedBackupOffset = 128"

definition buildHeaderRecord :: "bytes \<Rightarrow> bytes \<Rightarrow> u64 \<Rightarrow> bytes result" where
  "buildHeaderRecord magic headerBytes ts =
     (if length headerBytes \<noteq> HeaderSize then Inl ErrInvalidFormat else
      let headerCRC = crc32 headerBytes;
          b = magic @ put_u64 ts @ headerBytes @ put_u32 headerCRC @ put_u32 0
      in if length b \<noteq> journalRecordSize then Inl ErrInvalidFormat
         else let recordCRC = crc32 (take (length b - 4) b)
              in Inr (put_at (length b - 4) (put_u32 recordCRC) b))"

definition buildJournalRecord :: "bytes \<Rightarrow> u64 \<Rightarrow> bytes result" where
  "buildJournalRecord headerBytes ts = buildHeaderRecord journalMagic headerBytes ts"

definition buildBackupRecord :: "bytes \<Rightarrow> u64 \<Rightarrow> bytes result" where
  "buildBackupRecord headerBytes ts = buildHeaderRecord backupMagic headerBytes ts"

definition parseHeaderRecord :: "bytes \<Rightarrow> bytes \<Rightarrow> (bytes \<times> u64) result" where
  "parseHeaderRecord magic b =
     (if length b \<noteq> journalRecordSize then Inl ErrInvalidFormat
      else if take 4 b \<noteq> magic then Inl ErrInvalidFormat
      else let recordCRC = get_u32 (drop (length b - 4) b) in
      if crc32 (take (length b - 4) b) \<noteq> recordCRC then Inl ErrInvalidFormat
      else let ts = get_u64 (sub_bytes b 4 12);
               headerBytes = sub_bytes b 12 (12 + HeaderSize);
               headerCRC = get_u32 (sub_bytes b (12 + HeaderSize) (12 + HeaderSize + 4))
           in if crc32 headerBytes \<noteq> headerCRC then Inl ErrInvalidFormat
              else Inr (headerBytes, ts))"

section \<open>Recovery\<close>

definition recoverHeaderFromFixedBackup :: "bytes \<Rightarrow> HeaderV1 result" where
  "recoverHeaderFromFixedBackup f =
     rbind (readAt f fixedBackupOffset HeaderSize) (\<lambda>buf.
     rbind (unmarshalHeader buf) (\<lambda>h.
     rbind (validateHeaderDirectory f h) (\<lambda>_. Inr h)))"

text \<open>The body of the search loop at position \<open>i\<close>: \<open>None\<close> is \<^verbatim>\<open>continue\<close>.\<close>

definition record_at :: "bytes \<Rightarrow> bytes \<Rightarrow> bytes \<Rightarrow> nat \<Rightarrow> (HeaderV1 \<times> u64) option" where
  "record_at f magic buf i =
     (if sub_bytes buf i (i + 4) \<noteq> magic then None else
      case parseHeaderRecord magic (sub_bytes buf i (i + journalRecordSize)) of
        Inl _ \<Rightarrow> None
      | Inr (headerBytes, ts) \<Rightarrow>
          (case unmarshalHeader headerBytes of
             Inl _ \<Rightarrow> None
           | Inr h \<Rightarrow>
               (case validateHeaderDirectory f h of
                  Inl _ \<Rightarrow> None
                | Inr _ \<Rightarrow> Some (h, ts))))"

fun search_back :: "bytes \<Rightarrow> bytes \<Rightarrow> bytes \<Rightarrow> nat \<Rightarrow> (HeaderV1 \<times> u64) result" where
  "search_back f magic buf i =
     (case record_at f magic buf i of
        Some r \<Rightarrow> Inr r
      | None \<Rightarrow> (case i of 0 \<Rightarrow> Inl ErrInvalidFormat | Suc j \<Rightarrow> search_back f magic buf j))"

definition recoverHeaderByMagic :: "bytes \<Rightarrow> bytes \<Rightarrow> (HeaderV1 \<times> u64) result" where
  "recoverHeaderByMagic f magic =
     (if length f < journalRecordSize then Inl ErrInvalidFormat else
      let window = min (length f) journalSearchBytes; start = length f - window in
      rbind (readAt f (of_nat start) window) (\<lambda>buf.
      search_back f magic buf (length buf - journalRecordSize)))"

definition recoverBestHeader :: "bytes \<Rightarrow> HeaderV1 result" where
  "recoverBestHeader f =
     (case (recoverHeaderByMagic f journalMagic, recoverHeaderByMagic f backupMagic) of
        (Inl _, Inl _) \<Rightarrow> Inl ErrInvalidFormat
      | (Inr (hj, tsj), Inl _) \<Rightarrow> Inr hj
      | (Inl _, Inr (hb, tsb)) \<Rightarrow> Inr hb
      | (Inr (hj, tsj), Inr (hb, tsb)) \<Rightarrow> if tsb \<ge> tsj then Inr hb else Inr hj)"

section \<open>Records are canonical\<close>

declare search_back.simps [simp del]

lemma record_size: "journalRecordSize = 148" "HeaderSize = 128"
  by (simp_all add: journalRecordSize_def HeaderSize_def)

definition header_record :: "bytes \<Rightarrow> bytes \<Rightarrow> u64 \<Rightarrow> bytes" where
  "header_record magic hb ts =
     (let body = magic @ put_u64 ts @ hb @ put_u32 (crc32 hb) in body @ put_u32 (crc32 body))"

lemma length_header_record [len_simps]:
  "length magic = 4 \<Longrightarrow> length hb = 128 \<Longrightarrow> length (header_record magic hb ts) = 148"
  by (simp add: header_record_def Let_def)

lemma buildHeaderRecord_eq:
  assumes "length magic = 4" "length hb = 128"
  shows "buildHeaderRecord magic hb ts = Inr (header_record magic hb ts)"
  using assms
  by (simp add: buildHeaderRecord_def header_record_def record_size Let_def put_at_def)

theorem parse_header_record_iff:
  assumes "length magic = 4"
  shows "parseHeaderRecord magic b = Inr (hb, ts) \<longleftrightarrow>
    length hb = 128 \<and> b = header_record magic hb ts"
proof
  assume p: "parseHeaderRecord magic b = Inr (hb, ts)"
  then have len: "length b = 148" and m: "take 4 b = magic" and ts: "ts = get_u64 (sub_bytes b 4 12)"
    and hb: "hb = sub_bytes b 12 140" and c1: "crc32 hb = get_u32 (sub_bytes b 140 144)"
    and c2: "crc32 (take 144 b) = get_u32 (drop 144 b)"
    by (auto simp: parseHeaderRecord_def record_size Let_def split: if_splits)
  have cut: "take 4 b = sub_bytes b 0 4" "drop 144 b = sub_bytes b 144 148"
    "take 144 b = sub_bytes b 0 144"
    using len by (simp_all add: sub_bytes_def)
  have body: "take 144 b = magic @ put_u64 ts @ hb @ put_u32 (crc32 hb)"
    unfolding m [symmetric] ts hb c1 [unfolded hb] cut
    using len by (simp add: put_get_uint sub_bytes_split)
  have "b = take 144 b @ drop 144 b" by simp
  also have "drop 144 b = put_u32 (crc32 (take 144 b))"
    using c2 len by (simp add: cut put_get_uint)
  finally have "b = header_record magic hb ts"
    unfolding header_record_def Let_def body [symmetric] .
  then show "length hb = 128 \<and> b = header_record magic hb ts" using len by (simp add: hb)
next
  assume r: "length hb = 128 \<and> b = header_record magic hb ts"
  define body where "body = magic @ put_u64 ts @ hb @ put_u32 (crc32 hb)"
  have len: "length body = 144" using r assms by (simp add: body_def)
  have b: "b = body @ put_u32 (crc32 body)" using r by (simp add: header_record_def body_def Let_def)
  have "take 144 b = body" "drop 144 b = put_u32 (crc32 body)" "length b = 148"
    using len by (simp_all add: b)
  moreover have "take 4 b = magic" "sub_bytes b 4 12 = put_u64 ts" "sub_bytes b 12 140 = hb"
    "sub_bytes b 140 144 = put_u32 (crc32 hb)"
    using r [THEN conjunct1] assms unfolding b body_def by (simp_all add: sub_bytes_def)
  ultimately show "parseHeaderRecord magic b = Inr (hb, ts)"
    by (simp add: parseHeaderRecord_def record_size Let_def)
qed

section \<open>The search\<close>

lemma record_at_sound:
  assumes "record_at f magic buf i = Some (h, ts)" "length magic = 4"
  shows "header_valid h" "validateHeaderDirectory f h = Inr ()"
    "sub_bytes buf i (i + 148) = header_record magic (header_bytes h) ts"
proof -
  from assms(1) obtain hb where p: "parseHeaderRecord magic (sub_bytes buf i (i + 148)) = Inr (hb, ts)"
    and h: "unmarshalHeader hb = Inr h" and v: "validateHeaderDirectory f h = Inr ()"
    by (auto simp: record_at_def record_size split: if_splits sum.splits)
  show "header_valid h" by (rule unmarshalHeader_sound(1) [OF h])
  show "validateHeaderDirectory f h = Inr ()" by (rule v)
  have "hb = header_bytes h" using unmarshalHeader_sound(2) [OF h] by simp
  with p show "sub_bytes buf i (i + 148) = header_record magic (header_bytes h) ts"
    by (simp add: parse_header_record_iff [OF assms(2)])
qed

lemma search_back_iff:
  "search_back f magic buf n = Inr r \<longleftrightarrow>
   (\<exists>i \<le> n. record_at f magic buf i = Some r \<and> (\<forall>j \<le> n. i < j \<longrightarrow> record_at f magic buf j = None))"
proof (induction n)
  case 0
  show ?case by (subst search_back.simps) (auto split: option.splits)
next
  case (Suc n)
  show ?case
  proof (cases "record_at f magic buf (Suc n)")
    case None
    then have "search_back f magic buf (Suc n) = search_back f magic buf n"
      by (subst search_back.simps) simp
    with Suc None show ?thesis by (auto simp: le_Suc_eq)
  next
    case (Some s)
    then have "search_back f magic buf (Suc n) = Inr s" by (subst search_back.simps) simp
    with Some show ?thesis by (auto intro!: exI [of _ "Suc n"] simp: le_Suc_eq dest: spec [of _ "Suc n"])
  qed
qed

lemma search_window:
  assumes "148 \<le> length f" "length f < 2 ^ 63"
  defines "start \<equiv> length f - min (length f) journalSearchBytes"
  shows "recoverHeaderByMagic f magic = search_back f magic (drop start f) (length f - start - 148)"
proof -
  have "start < 2 ^ 64" using assms(2) by (simp add: start_def)
  then have "unat (of_nat start :: u64) = start" by (simp add: unat_of_nat)
  then have "readAt f (of_nat start) (min (length f) journalSearchBytes) = Inr (drop start f)"
    using assms by (subst readAt_ok) (auto simp: start_def sub_bytes_def)
  with assms(1) show ?thesis
    by (simp add: recoverHeaderByMagic_def record_size Let_def start_def [symmetric])
qed

theorem recoverByMagic_sound:
  assumes "recoverHeaderByMagic f magic = Inr (h, ts)" "length magic = 4" "length f < 2 ^ 63"
  shows "header_valid h" "validateHeaderDirectory f h = Inr ()"
    "\<exists>i. at f i (header_record magic (header_bytes h) ts)"
proof -
  define start where "start = length f - min (length f) journalSearchBytes"
  have len: "148 \<le> length f"
    using assms(1) by (auto simp: recoverHeaderByMagic_def record_size split: if_splits)
  from assms(1) obtain i where i: "record_at f magic (drop start f) i = Some (h, ts)"
    unfolding search_window [OF len assms(3)] start_def search_back_iff by blast
  show v: "header_valid h" "validateHeaderDirectory f h = Inr ()"
    using record_at_sound [OF i assms(2)] by simp_all
  have r: "sub_bytes (drop start f) i (i + 148) = header_record magic (header_bytes h) ts"
    using record_at_sound [OF i assms(2)] by simp
  have l: "length (header_record magic (header_bytes h) ts) = 148"
    using v assms(2) by (simp add: length_header_record length_header_bytes header_valid_def record_size)
  have "length (sub_bytes (drop start f) i (i + 148)) = 148" using r l by simp
  then have "start + i + 148 \<le> length f" by (simp add: min_def split: if_splits)
  moreover have "sub_bytes f (start + i) (start + i + 148) = header_record magic (header_bytes h) ts"
    using r by (simp add: sub_bytes_def add.commute add.left_commute)
  ultimately have "at f (start + i) (header_record magic (header_bytes h) ts)"
    by (simp add: at_def l)
  then show "\<exists>i. at f i (header_record magic (header_bytes h) ts)" by blast
qed

text \<open>A record that ends the file is the one the search returns.\<close>

theorem recoverByMagic_last:
  assumes "f = g @ header_record magic (header_bytes h) ts" "length magic = 4" "header_valid h"
    "validateHeaderDirectory f h = Inr ()" "length f < 2 ^ 63"
  shows "recoverHeaderByMagic f magic = Inr (h, ts)"
proof -
  define start where "start = length f - min (length f) journalSearchBytes"
  define r where "r = header_record magic (header_bytes h) ts"
  have hb: "length (header_bytes h) = 128"
    using assms(3) by (simp add: length_header_bytes header_valid_def record_size)
  then have lr: "length r = 148" using assms(2) by (simp add: r_def length_header_record)
  have f: "f = g @ r" using assms(1) by (simp add: r_def)
  have len: "148 \<le> length f" by (simp add: f lr)
  have start: "start \<le> length g" by (simp add: start_def f lr journalSearchBytes_def)
  have cut: "sub_bytes (drop start f) (length g - start) (length g - start + 148) = r"
    using start lr by (simp add: f sub_bytes_def)
  have m: "take 4 r = magic" using assms(2) by (simp add: r_def header_record_def Let_def)
  have "sub_bytes (drop start f) (length g - start) (length g - start + 4) = magic"
    using start lr m by (simp add: f sub_bytes_def)
  moreover have "parseHeaderRecord magic r = Inr (header_bytes h, ts)"
    using assms(2) hb by (simp add: parse_header_record_iff r_def)
  ultimately have "record_at f magic (drop start f) (length g - start) = Some (h, ts)"
    using assms(4) unmarshal_header_bytes [OF assms(3)] cut
    by (simp add: record_at_def record_size)
  moreover have "length f - start - 148 = length g - start" by (simp add: f lr)
  ultimately show ?thesis
    unfolding search_window [OF len assms(5)] start_def [symmetric] search_back_iff by auto
qed

lemma length_record_magics [simp]: "length journalMagic = 4" "length backupMagic = 4"
  by (simp_all add: journalMagic_def backupMagic_def)

theorem recoverBest_sound:
  assumes "recoverBestHeader f = Inr h" "length f < 2 ^ 63"
  shows "header_valid h \<and> validateHeaderDirectory f h = Inr ()"
  using assms recoverByMagic_sound [of f journalMagic] recoverByMagic_sound [of f backupMagic]
  by (auto simp: recoverBestHeader_def split: sum.splits prod.splits if_splits)

theorem recoverFixed_sound:
  assumes "recoverHeaderFromFixedBackup f = Inr h"
  shows "header_valid h \<and> validateHeaderDirectory f h = Inr () \<and> at f 128 (header_bytes h)"
proof -
  from assms obtain buf where "readAt f 128 128 = Inr buf" and h: "unmarshalHeader buf = Inr h"
    and v: "validateHeaderDirectory f h = Inr ()"
    by (auto simp: recoverHeaderFromFixedBackup_def inr_simps fixedBackupOffset_def record_size)
  then have "at f 128 buf"
    using readAt_sound [of f 128 128 buf] by (simp add: at_def)
  then show ?thesis using unmarshalHeader_sound [OF h] v by simp
qed

end
