(* ===== verification/Chunk.thy ===== *)
theory Chunk
  imports FileIO Checksum "HOL-Library.Monad_Syntax"
begin

text \<open>
  Chunk records: \<^verbatim>\<open>internal/format/codec.go\<close>, \<^verbatim>\<open>codec_zstd.go\<close>, \<^verbatim>\<open>codec_lz4.go\<close> and
  \<^verbatim>\<open>chunk.go\<close>. The two compression libraries are parameters of the model (the record
  \<open>codec_lib\<close>); what their documentation promises is the predicate \<open>codec_laws\<close>, used by the
  round trip and by nothing else. The lemmas show the memory limit handed to the zstd decoder to
  be enough for every chunk and bounded, encoding and reading to be inverse, and an accepted
  record to be what its header says.
\<close>

section \<open>The compression libraries\<close>

datatype lz4_level = Fast | Level1 | Level2 | Level3 | Level4 | Level5 | Level6 | Level7 | Level8
  | Level9

text \<open>
  \<open>zEncode\<close> is \<^verbatim>\<open>EncodeAll\<close> of an encoder made by \<^verbatim>\<open>zstd.NewWriter\<close> for
  \<^verbatim>\<open>EncoderLevelFromZstd(level)\<close>, \<open>zDecode\<close> is \<^verbatim>\<open>DecodeAll\<close> of a decoder made by
  \<^verbatim>\<open>zstd.NewReader\<close> with the given memory and window limit; an error of either call is the error
  of the function. The caches of encoders and decoders only reuse such objects. \<open>lBound\<close>,
  \<open>lFast\<close>, \<open>lHC\<close> and \<open>lDecode\<close> are \<^verbatim>\<open>CompressBlockBound\<close>, \<^verbatim>\<open>CompressBlock\<close>, \<^verbatim>\<open>CompressBlockHC\<close>
  and \<^verbatim>\<open>UncompressBlock\<close>: they return the bytes they put in a buffer of the given size.
\<close>

record codec_lib =
  zEncode :: "int \<Rightarrow> bytes \<Rightarrow> bytes result"
  zDecode :: "u64 \<Rightarrow> bytes \<Rightarrow> bytes result"
  lBound :: "nat \<Rightarrow> int"
  lFast :: "bytes \<Rightarrow> int \<Rightarrow> bytes result"
  lHC :: "lz4_level \<Rightarrow> bytes \<Rightarrow> int \<Rightarrow> bytes result"
  lDecode :: "bytes \<Rightarrow> int \<Rightarrow> bytes result"

text \<open>The error \<^verbatim>\<open>fmt.Errorf("fbx: lz4 compress failed")\<close>.\<close>

definition lz4CompressFailed :: error where "lz4CompressFailed = LibErr 0"

section \<open>zstd\<close>

definition zstdMinDecodeLimit :: u64 where "zstdMinDecodeLimit = push_bit 20 8"
definition zstdMaxDecodeLimit :: u64 where "zstdMaxDecodeLimit = push_bit 30 8"
definition zstdDecodeHeadroom :: u64 where "zstdDecodeHeadroom = 4"

definition zstdDecodeMemoryLimit :: "int \<Rightarrow> u64" where
  "zstdDecodeMemoryLimit expected =
     (let limit = of_int expected * zstdDecodeHeadroom
      in if limit < zstdMinDecodeLimit then zstdMinDecodeLimit
         else if limit > zstdMaxDecodeLimit then zstdMaxDecodeLimit
         else limit)"

partial_function (option) bucket_loop :: "u64 \<Rightarrow> u64 \<Rightarrow> u64 option" where
  "bucket_loop limit b =
     (if b < limit \<and> b < zstdMaxDecodeLimit then bucket_loop limit (push_bit 1 b) else Some b)"

definition zstdDecoderLimitBucket :: "u64 \<Rightarrow> u64 option" where
  "zstdDecoderLimitBucket limit =
     (if limit \<le> zstdMinDecodeLimit then Some zstdMinDecodeLimit
      else if limit \<ge> zstdMaxDecodeLimit then Some zstdMaxDecodeLimit
      else do {
        b \<leftarrow> bucket_loop limit zstdMinDecodeLimit;
        Some (if b > zstdMaxDecodeLimit then zstdMaxDecodeLimit else b)
      })"

definition zstdCompress :: "codec_lib \<Rightarrow> bytes \<Rightarrow> int \<Rightarrow> bytes result" where
  "zstdCompress L src level = (if src = [] then Inl FmtInvalidChunk else zEncode L level src)"

text \<open>
  The loop of the bucket function ends (\<open>bucket_defined\<close> below), so the error branch for the
  value \<open>None\<close> is never taken.
\<close>

definition zstdDecompress :: "codec_lib \<Rightarrow> bytes \<Rightarrow> int \<Rightarrow> bytes result" where
  "zstdDecompress L src expected =
     (if src = [] \<or> expected \<le> 0 then Inl FmtInvalidChunk else
      rbind (or_err FmtLimitExceeded (zstdDecoderLimitBucket (zstdDecodeMemoryLimit expected)))
        (\<lambda>bucket.
      rbind (zDecode L bucket src) (\<lambda>out.
      if int (length out) \<noteq> expected then Inl FmtInvalidChunk else Inr out)))"

section \<open>LZ4\<close>

definition mapLZ4Level :: "int \<Rightarrow> lz4_level" where
  "mapLZ4Level level =
     (if level \<le> 0 then Fast else if level = 1 then Level1 else if level = 2 then Level2
      else if level = 3 then Level3 else if level = 4 then Level4 else if level = 5 then Level5
      else if level = 6 then Level6 else if level = 7 then Level7 else if level = 8 then Level8
      else Level9)"

definition lz4CompressWithLevel :: "codec_lib \<Rightarrow> bytes \<Rightarrow> int \<Rightarrow> int \<Rightarrow> bytes result" where
  "lz4CompressWithLevel L src dst level =
     (if level \<le> 0 then lFast L src dst else lHC L (mapLZ4Level level) src dst)"

definition lz4Compress :: "codec_lib \<Rightarrow> bytes \<Rightarrow> int \<Rightarrow> bytes result" where
  "lz4Compress L src level =
     (if src = [] then Inl FmtInvalidChunk
      else if lBound L (length src) \<le> 0 then Inl FmtBadCodec
      else rbind (lz4CompressWithLevel L src (lBound L (length src)) level) (\<lambda>out.
        if out = [] then Inl lz4CompressFailed else Inr out))"

definition lz4Decompress :: "codec_lib \<Rightarrow> bytes \<Rightarrow> int \<Rightarrow> bytes result" where
  "lz4Decompress L src expected =
     (if src = [] \<or> expected \<le> 0 then Inl FmtInvalidChunk else
      rbind (lDecode L src expected) (\<lambda>out.
      if int (length out) \<noteq> expected then Inl FmtInvalidChunk else Inr out))"

section \<open>Payloads and records\<close>

definition CodecStore :: u8 where "CodecStore = 0"
definition CodecZstd :: u8 where "CodecZstd = 1"
definition CodecLZ4 :: u8 where "CodecLZ4 = 2"

definition compressPayload :: "codec_lib \<Rightarrow> bytes \<Rightarrow> u8 \<Rightarrow> u8 \<Rightarrow> bytes result" where
  "compressPayload L raw codec level =
     (if codec = CodecStore then Inr raw
      else if codec = CodecZstd then zstdCompress L raw (uint level)
      else if codec = CodecLZ4 then lz4Compress L raw (uint level)
      else Inl FmtBadCodec)"

definition decompressPayload :: "codec_lib \<Rightarrow> bytes \<Rightarrow> u8 \<Rightarrow> u32 \<Rightarrow> bytes result" where
  "decompressPayload L packed codec expectedRawSize =
     (if ucast expectedRawSize > maxInt then Inl FmtLimitExceeded
      else if codec = CodecStore then Inr packed
      else if codec = CodecZstd then zstdDecompress L packed (uint expectedRawSize)
      else if codec = CodecLZ4 then lz4Decompress L packed (uint expectedRawSize)
      else Inl FmtBadCodec)"

record ChunkHeaderV1 =
  kCodec :: u8
  kLevel :: u8
  kRawSize :: u32
  kCompSize :: u32
  kCRC32Raw :: u32

record ChunkRecordV1 = ChunkHeaderV1 +
  kPayload :: bytes

definition encodeChunkRecord :: "codec_lib \<Rightarrow> bytes \<Rightarrow> u8 \<Rightarrow> u8 \<Rightarrow> (bytes \<times> u32) result" where
  "encodeChunkRecord L raw codec level =
     (if raw = [] then Inl FmtInvalidChunk else
      rbind (compressPayload L raw codec level) (\<lambda>packed.
      let crc = crc32 raw in
      Inr (MagicChunk @ [codec, level] @ put_u32 (of_nat (length raw)) @
           put_u32 (of_nat (length packed)) @ put_u32 crc @ packed, crc)))"

definition readChunkHeaderAt :: "bytes \<Rightarrow> u64 \<Rightarrow> ChunkHeaderV1 result" where
  "readChunkHeaderAt f off =
     rbind (readAt f off 16) (\<lambda>head.
     if head ! 0 \<noteq> MagicChunk ! 0 \<or> head ! 1 \<noteq> MagicChunk ! 1 then Inl FmtInvalidChunk
     else Inr \<lparr>kCodec = head ! 2, kLevel = head ! 3,
       kRawSize = get_u32 (sub_bytes head 4 8), kCompSize = get_u32 (sub_bytes head 8 12),
       kCRC32Raw = get_u32 (sub_bytes head 12 16)\<rparr>)"

definition readChunkRecordLimited ::
  "codec_lib \<Rightarrow> bytes \<Rightarrow> u64 \<Rightarrow> bool \<Rightarrow> u32 \<Rightarrow> u32 \<Rightarrow> ChunkRecordV1 result" where
  "readChunkRecordLimited L f off verifyCRC maxRawSize maxCompSize =
     rbind (readChunkHeaderAt f off) (\<lambda>head.
     if kRawSize head = 0 \<or> kCompSize head = 0 then Inl FmtInvalidChunk
     else if maxRawSize > 0 \<and> kRawSize head > maxRawSize then Inl FmtLimitExceeded
     else if maxCompSize > 0 \<and> kCompSize head > maxCompSize then Inl FmtLimitExceeded
     else if ucast (kCompSize head) > maxInt then Inl FmtLimitExceeded else
     rbind (readAt f (off + 16) (unat (kCompSize head))) (\<lambda>payload.
     if of_nat (length payload) \<noteq> kCompSize head then Inl FmtInvalidChunk else
     rbind (decompressPayload L payload (kCodec head) (kRawSize head)) (\<lambda>raw.
     if of_nat (length raw) \<noteq> kRawSize head then Inl FmtInvalidChunk
     else if verifyCRC \<and> crc32 raw \<noteq> kCRC32Raw head then Inl FmtCRCMismatch
     else Inr \<lparr>kCodec = kCodec head, kLevel = kLevel head, kRawSize = kRawSize head,
       kCompSize = kCompSize head, kCRC32Raw = kCRC32Raw head, kPayload = raw\<rparr>)))"

text \<open>\<^verbatim>\<open>ReadChunkRecordAtOpt\<close> and \<^verbatim>\<open>ReadChunkRecordAt\<close>.\<close>

definition readChunkRecordAtOpt :: "codec_lib \<Rightarrow> bytes \<Rightarrow> u64 \<Rightarrow> bool \<Rightarrow> ChunkRecordV1 result" where
  "readChunkRecordAtOpt L f off verifyCRC = readChunkRecordLimited L f off verifyCRC 0 0"

definition readChunkRecordAt :: "codec_lib \<Rightarrow> bytes \<Rightarrow> u64 \<Rightarrow> ChunkRecordV1 result" where
  "readChunkRecordAt L f off = readChunkRecordAtOpt L f off True"

section \<open>The decoder's memory limit\<close>

lemma zstd_limits: "zstdMinDecodeLimit = 2 ^ 23" "zstdMaxDecodeLimit = 2 ^ 33"
  by (simp_all add: zstdMinDecodeLimit_def zstdMaxDecodeLimit_def)

lemma unat_zstd_limits: "unat zstdMinDecodeLimit = 2 ^ 23" "unat zstdMaxDecodeLimit = 2 ^ 33"
  by (simp_all add: zstd_limits)

text \<open>The loop doubles from a power of two until it reaches the limit.\<close>

lemma bucket_loop_reaches:
  assumes "unat b = 2 ^ k" "k \<le> 33" "k \<ge> 23" "k > 23 \<longrightarrow> 2 ^ k < 2 * unat limit"
    "unat limit \<le> 2 ^ 33"
  shows "\<exists>b' k'. bucket_loop limit b = Some b' \<and> unat b' = 2 ^ k' \<and> k' \<le> 33 \<and> k \<le> k' \<and>
    unat limit \<le> unat b' \<and> (k' > 23 \<longrightarrow> unat b' < 2 * unat limit)"
  using assms
proof (induction "33 - k" arbitrary: b k rule: less_induct)
  case less
  show ?case
  proof (cases "b < limit \<and> b < zstdMaxDecodeLimit")
    case False
    then have "bucket_loop limit b = Some b" by (subst bucket_loop.simps) auto
    moreover have "unat limit \<le> unat b"
      using False less.prems(1,5) by (auto simp: word_less_nat_alt unat_zstd_limits not_less)
    ultimately show ?thesis
      using less.prems by (intro exI [of _ b] exI [of _ k]) auto
  next
    case True
    then have "(2 :: nat) ^ k < 2 ^ 33"
      using less.prems(1) by (simp only: word_less_nat_alt unat_zstd_limits)
    then have k: "k < 33" by (rule power_less_imp_less_exp [rotated]) simp
    have "unat (push_bit 1 b) = 2 * unat b"
    proof -
      have "2 * unat b < 2 ^ 64"
        using less.prems(1) power_increasing [of "Suc k" 34 "2 :: nat"] k by simp
      then show ?thesis by (simp add: unat_word_ariths mult.commute)
    qed
    then have d: "unat (push_bit 1 b) = 2 ^ Suc k" using less.prems(1) by simp
    have lt: "2 ^ Suc k < 2 * unat limit"
      using True less.prems(1) by (simp add: word_less_nat_alt)
    have "33 - Suc k < 33 - k" using k by simp
    from less.hyps [OF this d] k less.prems(3,5) lt
    obtain b' k' where "bucket_loop limit (push_bit 1 b) = Some b'" "unat b' = 2 ^ k'" "k' \<le> 33"
      "Suc k \<le> k'" "unat limit \<le> unat b'" "k' > 23 \<longrightarrow> unat b' < 2 * unat limit" by auto
    with True show ?thesis
      by (subst bucket_loop.simps) (auto intro!: exI [of _ b'] exI [of _ k'])
  qed
qed

theorem bucket_defined:
  "\<exists>b k. zstdDecoderLimitBucket limit = Some b \<and> unat b = 2 ^ k \<and> 23 \<le> k \<and> k \<le> 33 \<and>
     (limit \<le> zstdMaxDecodeLimit \<longrightarrow> limit \<le> b) \<and>
     (zstdMinDecodeLimit < limit \<longrightarrow> unat b < 2 * unat limit)"
proof -
  consider "limit \<le> zstdMinDecodeLimit" | "zstdMinDecodeLimit < limit" "zstdMaxDecodeLimit \<le> limit"
    | "zstdMinDecodeLimit < limit" "limit < zstdMaxDecodeLimit" by fastforce
  then show ?thesis
  proof cases
    case 1
    then show ?thesis
      by (intro exI [of _ zstdMinDecodeLimit] exI [of _ 23])
        (auto simp: zstdDecoderLimitBucket_def unat_zstd_limits)
  next
    case 2
    then show ?thesis
      by (intro exI [of _ zstdMaxDecodeLimit] exI [of _ 33])
        (auto simp: zstdDecoderLimitBucket_def unat_zstd_limits word_le_nat_alt word_less_nat_alt)
  next
    case 3
    then have "unat limit \<le> 2 ^ 33" by (simp add: word_less_nat_alt unat_zstd_limits)
    then have "\<exists>b k. bucket_loop limit zstdMinDecodeLimit = Some b \<and> unat b = 2 ^ k \<and> k \<le> 33 \<and>
        23 \<le> k \<and> unat limit \<le> unat b \<and> (k > 23 \<longrightarrow> unat b < 2 * unat limit)"
      by (intro bucket_loop_reaches) (simp_all add: unat_zstd_limits)
    then obtain b k where b: "bucket_loop limit zstdMinDecodeLimit = Some b" "unat b = 2 ^ k" "k \<le> 33"
      "23 \<le> k" "unat limit \<le> unat b" "k > 23 \<longrightarrow> unat b < 2 * unat limit"
      by blast
    have "\<not> zstdMaxDecodeLimit < b"
      using b(2,3) power_increasing [of k 33 "2 :: nat"]
      by (simp add: word_less_nat_alt unat_zstd_limits)
    moreover have "unat b < 2 * unat limit"
      using b(4,6) 3(1) by (cases "k = 23") (simp_all add: word_less_nat_alt unat_zstd_limits b(2))
    moreover have "limit \<le> b" using b(5) by (simp add: word_le_nat_alt)
    moreover have "\<not> limit \<le> zstdMinDecodeLimit" "\<not> zstdMaxDecodeLimit \<le> limit" using 3 by auto
    ultimately show ?thesis
      using b by (intro exI [of _ b] exI [of _ k]) (simp add: zstdDecoderLimitBucket_def)
  qed
qed

text \<open>For the size of any chunk the limit is at least that size.\<close>

lemma memory_limit_enough:
  fixes n :: u32
  assumes "n > 0"
  shows "\<exists>b. zstdDecoderLimitBucket (zstdDecodeMemoryLimit (uint n)) = Some b \<and>
    ucast n \<le> b \<and> zstdMinDecodeLimit \<le> b \<and> b \<le> zstdMaxDecodeLimit"
proof -
  let ?l = "zstdDecodeMemoryLimit (uint n)"
  have cast: "(of_int (uint n) :: u64) = ucast n" by (rule of_int_uint)
  have "unat (ucast n * 4 :: u64) = unat n * 4"
    using unat_u32_lt [of n] by (simp add: unat_mult_u64)
  then have l: "unat n \<le> unat ?l" "unat ?l \<le> 2 ^ 33"
    using unat_u32_lt [of n]
    by (auto simp: zstdDecodeMemoryLimit_def Let_def zstdDecodeHeadroom_def cast
        word_less_nat_alt unat_zstd_limits)
  obtain b k where b: "zstdDecoderLimitBucket ?l = Some b" "unat b = 2 ^ k" "23 \<le> k" "k \<le> 33"
    "?l \<le> zstdMaxDecodeLimit \<longrightarrow> ?l \<le> b"
    using bucket_defined by blast
  have "?l \<le> b" using b(5) l(2) by (simp add: word_le_nat_alt unat_zstd_limits)
  moreover have "(2 :: nat) ^ 23 \<le> 2 ^ k" "(2 :: nat) ^ k \<le> 2 ^ 33"
    using power_increasing [OF b(3), of "2 :: nat"] power_increasing [OF b(4), of "2 :: nat"]
    by simp_all
  ultimately show ?thesis
    using b(1,2) l(1) by (simp add: word_le_nat_alt unat_zstd_limits)
qed

section \<open>Round trip of chunk records\<close>

text \<open>
  What the code relies on from the libraries: a block they produced is not empty and is turned
  back into the source, by the zstd decoder when its limit admits the size of the source (the
  floor of 8 MiB covers the window of every encoder level) and by the LZ4 decoder when the
  buffer has exactly that size.
\<close>

definition zstd_law :: "codec_lib \<Rightarrow> bool" where
  "zstd_law L \<longleftrightarrow> (\<forall>lv src out limit. src \<noteq> [] \<longrightarrow> zEncode L lv src = Inr out \<longrightarrow>
     zstdMinDecodeLimit \<le> limit \<longrightarrow> length src \<le> unat limit \<longrightarrow>
     out \<noteq> [] \<and> zDecode L limit out = Inr src)"

definition lz4_law :: "codec_lib \<Rightarrow> (bytes \<Rightarrow> int \<Rightarrow> bytes result) \<Rightarrow> bool" where
  "lz4_law L compress \<longleftrightarrow> (\<forall>src out. src \<noteq> [] \<longrightarrow> out \<noteq> [] \<longrightarrow>
     compress src (lBound L (length src)) = Inr out \<longrightarrow> lDecode L out (int (length src)) = Inr src)"

definition codec_laws :: "codec_lib \<Rightarrow> bool" where
  "codec_laws L \<longleftrightarrow> zstd_law L \<and> lz4_law L (lFast L) \<and> (\<forall>lv. lz4_law L (lHC L lv))"

lemma zstd_lawD:
  "zstd_law L \<Longrightarrow> src \<noteq> [] \<Longrightarrow> zEncode L lv src = Inr out \<Longrightarrow> zstdMinDecodeLimit \<le> limit \<Longrightarrow>
   length src \<le> unat limit \<Longrightarrow> out \<noteq> [] \<and> zDecode L limit out = Inr src"
  unfolding zstd_law_def by iprover

lemma lz4_lawD:
  "lz4_law L compress \<Longrightarrow> src \<noteq> [] \<Longrightarrow> out \<noteq> [] \<Longrightarrow>
   compress src (lBound L (length src)) = Inr out \<Longrightarrow> lDecode L out (int (length src)) = Inr src"
  unfolding lz4_law_def by iprover

lemma uint_of_nat_u32: "n < 2 ^ 32 \<Longrightarrow> uint (of_nat n :: u32) = int n"
  by (simp add: uint_nat unat_of_nat_u32)

lemma decompress_compress:
  assumes laws: "codec_laws L" and ne: "raw \<noteq> []" and n: "length raw < 2 ^ 32"
    and c: "compressPayload L raw codec level = Inr packed"
  shows "packed \<noteq> [] \<and> decompressPayload L packed codec (of_nat (length raw)) = Inr raw"
proof -
  note u = uint_of_nat_u32 [OF n]
  have max: "\<not> maxInt < ucast (of_nat (length raw) :: u32)"
    using unat_u32_lt [of "of_nat (length raw)"] by (simp add: maxInt_def word_less_nat_alt)
  from c consider
      "codec = CodecStore" "packed = raw"
    | "codec \<noteq> CodecStore" "codec = CodecZstd" "zstdCompress L raw (uint level) = Inr packed"
    | "codec \<noteq> CodecStore" "codec \<noteq> CodecZstd" "codec = CodecLZ4"
      "lz4Compress L raw (uint level) = Inr packed"
    by (auto simp: compressPayload_def split: if_splits)
  then show ?thesis
  proof cases
    case 1
    then show ?thesis using ne max by (simp add: decompressPayload_def)
  next
    case 2
    have pos: "(of_nat (length raw) :: u32) > 0"
      unfolding word_less_nat_alt using n ne by (simp only: unat_of_nat_u32) simp
    obtain b where b: "zstdDecoderLimitBucket (zstdDecodeMemoryLimit (int (length raw))) = Some b"
      "ucast (of_nat (length raw) :: u32) \<le> b" "zstdMinDecodeLimit \<le> b"
      using memory_limit_enough [OF pos] unfolding u by blast
    have "length raw \<le> unat b"
      using b(2) unfolding word_le_nat_alt unat_ucast_u32 unat_of_nat_u32 [OF n] .
    moreover have "zEncode L (uint level) raw = Inr packed"
      using 2(3) ne by (simp add: zstdCompress_def)
    ultimately have "packed \<noteq> []" "zDecode L b packed = Inr raw"
      using zstd_lawD [OF _ ne _ b(3)] laws unfolding codec_laws_def by blast+
    then show ?thesis
      using 2 max b(1) ne by (simp add: decompressPayload_def zstdDecompress_def u)
  next
    case 3
    then have "packed \<noteq> []"
      "lz4CompressWithLevel L raw (lBound L (length raw)) (uint level) = Inr packed"
      by (auto simp: lz4Compress_def inr_simps split: if_splits)
    moreover from this have "lDecode L packed (int (length raw)) = Inr raw"
      using lz4_lawD [of L "lFast L" raw packed] lz4_lawD [of L "lHC L (mapLZ4Level (uint level))" raw packed]
        laws ne unfolding lz4CompressWithLevel_def codec_laws_def
      by (cases "uint level \<le> 0") (simp_all only: if_True if_False simp_thms)
    ultimately show ?thesis
      using 3 max ne by (simp add: decompressPayload_def lz4Decompress_def u)
  qed
qed

definition chunk_bytes :: "u8 \<Rightarrow> u8 \<Rightarrow> u32 \<Rightarrow> u32 \<Rightarrow> bytes \<Rightarrow> bytes" where
  "chunk_bytes codec level rawSize crc packed =
     MagicChunk @ [codec, level] @ put_u32 rawSize @ put_u32 (of_nat (length packed)) @
     put_u32 crc @ packed"

lemma length_chunk_bytes [simp, len_simps]: "length (chunk_bytes c l r x p) = 16 + length p"
  by (simp add: chunk_bytes_def)

lemma encodeChunkRecord_eq:
  assumes "encodeChunkRecord L raw codec level = Inr (rec, crc)"
  shows "raw \<noteq> []" "crc = crc32 raw"
    "\<exists>packed. compressPayload L raw codec level = Inr packed \<and>
       rec = chunk_bytes codec level (of_nat (length raw)) crc packed"
  using assms by (auto simp: encodeChunkRecord_def inr_simps Let_def chunk_bytes_def)

lemma read_header_at:
  assumes "length pre = unat off" "length (pre @ chunk_bytes c l r x p @ post) < 2 ^ 63"
  shows "readChunkHeaderAt (pre @ chunk_bytes c l r x p @ post) off =
    Inr \<lparr>kCodec = c, kLevel = l, kRawSize = r, kCompSize = of_nat (length p), kCRC32Raw = x\<rparr>"
proof -
  define hd where "hd = MagicChunk @ [c, l] @ put_u32 r @ put_u32 (of_nat (length p)) @ put_u32 x"
  have len: "length hd = 16" by (simp add: hd_def)
  have "readAt (pre @ hd @ p @ post) off (length hd) = Inr hd"
    using assms by (intro readAt_at) (simp_all add: len)
  then have "readAt (pre @ chunk_bytes c l r x p @ post) off 16 = Inr hd"
    by (simp add: chunk_bytes_def hd_def)
  then show ?thesis
    by (simp add: readChunkHeaderAt_def hd_def MagicChunk_def sub_bytes_def nth_append)
qed

theorem read_encoded_chunk:
  assumes laws: "codec_laws L" and enc: "encodeChunkRecord L raw codec level = Inr (rec, crc)"
    and n: "length raw < 2 ^ 32" "length rec < 2 ^ 32"
    and f: "length pre = unat off" "length (pre @ rec @ post) < 2 ^ 63"
    and lim: "mr = 0 \<or> length raw \<le> unat mr" "mc = 0 \<or> length rec \<le> unat mc + 16"
  shows "readChunkRecordLimited L (pre @ rec @ post) off verify mr mc =
    Inr \<lparr>kCodec = codec, kLevel = level, kRawSize = of_nat (length raw),
      kCompSize = of_nat (length rec - 16), kCRC32Raw = crc32 raw, kPayload = raw\<rparr>"
proof -
  from encodeChunkRecord_eq [OF enc] obtain packed where
    ne: "raw \<noteq> []" and crc: "crc = crc32 raw" and c: "compressPayload L raw codec level = Inr packed"
    and rec: "rec = chunk_bytes codec level (of_nat (length raw)) crc packed" by blast
  from decompress_compress [OF laws ne n(1) c]
  have p: "packed \<noteq> []" "decompressPayload L packed codec (of_nat (length raw)) = Inr raw"
    by simp_all
  have m: "length packed < 2 ^ 32" using n(2) by (simp add: rec)
  note un = unat_of_nat_u32 [OF n(1)] unat_of_nat_u32 [OF m]
  have nz: "(of_nat (length raw) :: u32) \<noteq> 0" "(of_nat (length packed) :: u32) \<noteq> 0"
    using ne p(1) unfolding word_unat_eq_iff un by simp_all
  have lims: "\<not> (mr > 0 \<and> of_nat (length raw) > mr)" "\<not> (mc > 0 \<and> of_nat (length packed) > mc)"
    "\<not> maxInt < ucast (of_nat (length packed) :: u32)"
    using lim unat_u32_lt [of "of_nat (length packed)"]
    by (auto simp: word_less_nat_alt un rec maxInt_def)
  define hd where "hd = MagicChunk @ [codec, level] @ put_u32 (of_nat (length raw)) @
      put_u32 (of_nat (length packed)) @ put_u32 crc"
  have "unat (off + 16) = length (pre @ hd)"
    using f by (simp add: unat_add_u64 hd_def rec)
  then have "readAt ((pre @ hd) @ packed @ post) (off + 16) (length packed) = Inr packed"
    using f by (intro readAt_at) (simp_all add: hd_def rec)
  then have rd: "readAt (pre @ rec @ post) (off + 16) (length packed) = Inr packed"
    by (simp add: rec chunk_bytes_def hd_def)
  have hdr: "readChunkHeaderAt (pre @ rec @ post) off = Inr \<lparr>kCodec = codec, kLevel = level,
      kRawSize = of_nat (length raw), kCompSize = of_nat (length packed), kCRC32Raw = crc\<rparr>"
    using f unfolding rec by (intro read_header_at) simp_all
  show ?thesis
    using nz lims p(2)
    by (simp add: readChunkRecordLimited_def hdr rd un crc) (simp add: rec)
qed

section \<open>What an accepted record guarantees\<close>

lemma readChunk_parts:
  assumes "readChunkRecordLimited L f off verify mr mc = Inr r"
  obtains hd payload where "readChunkHeaderAt f off = Inr hd"
    "kRawSize hd \<noteq> 0" "kCompSize hd \<noteq> 0" "mr > 0 \<longrightarrow> kRawSize hd \<le> mr"
    "mc > 0 \<longrightarrow> kCompSize hd \<le> mc"
    "readAt f (off + 16) (unat (kCompSize hd)) = Inr payload"
    "decompressPayload L payload (kCodec hd) (kRawSize hd) = Inr (kPayload r)"
    "of_nat (length (kPayload r)) = kRawSize hd"
    "verify \<longrightarrow> crc32 (kPayload r) = kCRC32Raw hd"
    "kCodec r = kCodec hd" "kRawSize r = kRawSize hd" "kCompSize r = kCompSize hd"
    "kCRC32Raw r = kCRC32Raw hd"
proof -
  from assms obtain hd where hd: "readChunkHeaderAt f off = Inr hd"
    unfolding readChunkRecordLimited_def by (cases "readChunkHeaderAt f off") auto
  from assms hd obtain payload where pl: "readAt f (off + 16) (unat (kCompSize hd)) = Inr payload"
    unfolding readChunkRecordLimited_def
    by (cases "readAt f (off + 16) (unat (kCompSize hd))") (auto split: if_splits)
  from assms hd pl obtain raw where raw: "decompressPayload L payload (kCodec hd) (kRawSize hd) = Inr raw"
    unfolding readChunkRecordLimited_def
    by (cases "decompressPayload L payload (kCodec hd) (kRawSize hd)") (auto split: if_splits)
  show thesis
    using assms hd pl raw
    by (intro that [of hd payload]) (auto simp: readChunkRecordLimited_def not_less split: if_splits)
qed

theorem readChunk_sound:
  assumes "readChunkRecordLimited L f off True mr mc = Inr r"
  shows "crc32 (kPayload r) = kCRC32Raw r" "of_nat (length (kPayload r)) = kRawSize r"
    "kRawSize r \<noteq> 0" "kCompSize r \<noteq> 0" "mr > 0 \<longrightarrow> kRawSize r \<le> mr"
    "mc > 0 \<longrightarrow> kCompSize r \<le> mc" "kCodec r \<in> {CodecStore, CodecZstd, CodecLZ4}"
  using assms by (elim readChunk_parts; simp add: decompressPayload_def split: if_splits)+

text \<open>With and without the verification of the checksum.\<close>

lemma readChunk_payload:
  assumes "readChunkRecordLimited L f off verify mr mc = Inr r"
  shows "decompressPayload L (sub_bytes f (unat off + 16) (unat off + 16 + unat (kCompSize r))) (kCodec r) (kRawSize r) =
    Inr (kPayload r)"
proof -
  obtain hd payload where p: "readChunkHeaderAt f off = Inr hd" "kCompSize hd \<noteq> 0"
    "readAt f (off + 16) (unat (kCompSize hd)) = Inr payload"
    "decompressPayload L payload (kCodec hd) (kRawSize hd) = Inr (kPayload r)"
    "kCodec r = kCodec hd" "kRawSize r = kRawSize hd" "kCompSize r = kCompSize hd"
    by (rule readChunk_parts [OF assms])
  have "\<not> maxInt < off"
    using p(1) by (auto simp: readChunkHeaderAt_def readAt_def split: if_splits)
  then have "unat (off + 16) = unat off + 16"
    by (simp add: unat_add_u64 maxInt_def word_less_nat_alt)
  then have "payload = sub_bytes f (unat off + 16) (unat off + 16 + unat (kCompSize r))"
    using p(2,3,7) by (auto simp: readAt_def unat_eq_0 split: if_splits)
  then show ?thesis using p(4-6) by simp
qed

theorem readChunk_checked:
  assumes "readChunkRecordLimited L f off verify mr mc = Inr r"
  shows "of_nat (length (kPayload r)) = kRawSize r \<and>
    kRawSize r \<noteq> 0 \<and> kCompSize r \<noteq> 0 \<and> (mr = 0 \<or> kRawSize r \<le> mr) \<and>
    (mc = 0 \<or> kCompSize r \<le> mc) \<and> kCodec r \<in> {CodecStore, CodecZstd, CodecLZ4} \<and>
    decompressPayload L (sub_bytes f (unat off + 16) (unat off + 16 + unat (kCompSize r))) (kCodec r) (kRawSize r) =
      Inr (kPayload r) \<and>
    (verify \<longrightarrow> crc32 (kPayload r) = kCRC32Raw r) \<and>
    readChunkRecordLimited L f off True mr mc =
      (if crc32 (kPayload r) = kCRC32Raw r then Inr r else Inl FmtCRCMismatch)"
proof -
  have any: "of_nat (length (kPayload r)) = kRawSize r \<and> kRawSize r \<noteq> 0 \<and> kCompSize r \<noteq> 0 \<and>
    (mr = 0 \<or> kRawSize r \<le> mr) \<and> (mc = 0 \<or> kCompSize r \<le> mc) \<and>
    kCodec r \<in> {CodecStore, CodecZstd, CodecLZ4} \<and> (verify \<longrightarrow> crc32 (kPayload r) = kCRC32Raw r)"
    using assms by (elim readChunk_parts) (auto simp: decompressPayload_def word_gt_0 split: if_splits)
  have "readChunkRecordLimited L f off True mr mc =
      (if crc32 (kPayload r) = kCRC32Raw r then Inr r else Inl FmtCRCMismatch)"
    using assms by (auto simp: readChunkRecordLimited_def inr_simps split: if_splits)
  then show ?thesis using any readChunk_payload [OF assms] by blast
qed

end
