(* ===== verification/RecoveryScan.thy ===== *)
theory RecoveryScan
  imports Snapshot Chunk
begin

text \<open>
  The last resort of opening a damaged container, \<^verbatim>\<open>fbx/recovery_scan.go\<close>: find every \<^verbatim>\<open>DIR1\<close> in
  the file, validate what follows as a directory, count the entries whose chunks can be read and
  keep the best candidate. The lemmas show that the block-wise search sees every occurrence once,
  that the score is a strict total order on candidates and that the result is the best of them.
\<close>

section \<open>One candidate\<close>

text \<open>The loop over the entry heads: the end of the last entry, relative to the directory.\<close>

fun candidate_end :: "nat \<Rightarrow> u64 \<Rightarrow> bytes \<Rightarrow> u64 \<Rightarrow> u64 \<Rightarrow> u64 result" where
  "candidate_end 0 cursor f dirOffset fileSize = Inr cursor"
| "candidate_end (Suc n) cursor f dirOffset fileSize =
     rbind (or_err ErrInvalidFormat (addUint64 cursor 44)) (\<lambda>entryHeadEnd.
     if \<not> regionWithinFile dirOffset entryHeadEnd fileSize then Inl ErrInvalidFormat else
     rbind (or_err ErrInvalidFormat (addUint64 dirOffset cursor)) (\<lambda>entryOff.
     rbind (readAt f entryOff 44) (\<lambda>entryHead.
     let chunkCount = get_u32 (sub_bytes entryHead 32 36);
         metaSize = get_u32 (sub_bytes entryHead 36 40);
         pathSize = get_u32 (sub_bytes entryHead 40 44) in
     rbind (or_err ErrInvalidFormat (mulUint64 (ucast chunkCount) 32)) (\<lambda>chunksBytes.
     rbind (or_err ErrInvalidFormat (addUint64 entryHeadEnd chunksBytes)) (\<lambda>cursor.
     rbind (or_err ErrInvalidFormat (addUint64 (ucast metaSize) (ucast pathSize))) (\<lambda>metaPathBytes.
     rbind (or_err ErrInvalidFormat (addUint64 cursor metaPathBytes)) (\<lambda>cursor.
     rbind (or_err ErrInvalidFormat (addUint64 cursor 16)) (\<lambda>withFooter.
     if \<not> regionWithinFile dirOffset withFooter fileSize then Inl ErrInvalidFormat
     else candidate_end n cursor f dirOffset fileSize))))))))"

definition readDirectoryCandidateAt ::
  "bytes \<Rightarrow> u64 \<Rightarrow> u64 \<Rightarrow> (DirectoryV1 \<times> u64 \<times> u32) result" where
  "readDirectoryCandidateAt f dirOffset fileSize =
     rbind (or_err ErrInvalidFormat (addUint64 20 16)) (\<lambda>minSize.
     if \<not> regionWithinFile dirOffset minSize fileSize then Inl ErrInvalidFormat else
     rbind (readAt f dirOffset 20) (\<lambda>head.
     if sub_bytes head 0 4 \<noteq> MagicDir then Inl ErrInvalidFormat else
     let entryCount = get_u32 (sub_bytes head 4 8); flags = get_u32 (sub_bytes head 8 12) in
     if flags \<noteq> 0 then Inl ErrInvalidFormat
     else if ucast entryCount > (fileSize - dirOffset - 20 - 16) div 44 then Inl ErrInvalidFormat
     else
     rbind (candidate_end (unat entryCount) 20 f dirOffset fileSize) (\<lambda>cursor.
     rbind (or_err ErrInvalidFormat (addUint64 cursor 16)) (\<lambda>dirSize.
     if \<not> regionWithinFile dirOffset dirSize fileSize then Inl ErrInvalidFormat
     else if dirSize > maxDirectoryBlobSize then Inl ErrLimitExceeded
     else if dirSize > maxInt then Inl ErrLimitExceeded else
     rbind (readAt f dirOffset (unat dirSize)) (\<lambda>blob.
     let footer = drop (length blob - 16) blob in
     if sub_bytes footer 0 4 \<noteq> MagicEnd then Inl ErrInvalidFormat else
     let dirCRC = get_u32 (sub_bytes footer 4 8); total = get_u64 (sub_bytes footer 8 16) in
     if total \<noteq> dirSize then Inl ErrInvalidFormat else
     rbind (decodeDirectory blob dirCRC dirSize) (\<lambda>dir. Inr (dir, dirSize, dirCRC)))))))"

text \<open>The loop of \<^verbatim>\<open>entryReadableAt\<close>; \<open>later\<close> is \<^verbatim>\<open>i > 0\<close>, the result is the final \<^verbatim>\<open>endRaw\<close>.\<close>

fun refs_readable :: "codec_lib \<Rightarrow> bytes \<Rightarrow> bool \<Rightarrow> u64 \<Rightarrow> ChunkRefV1 list \<Rightarrow> u64 option" where
  "refs_readable L f later endRaw [] = Some endRaw"
| "refs_readable L f later endRaw (ref # refs) =
     (case readChunkRecordLimited L f (ChunkOffset ref) True (RawSize ref) (CompSize ref) of
        Inl _ \<Rightarrow> None
      | Inr rec \<Rightarrow>
          if kRawSize rec \<noteq> RawSize ref \<or> kCompSize rec \<noteq> CompSize ref \<or> kCRC32Raw rec \<noteq> CRC32Raw ref
          then None
          else if later \<and> RawOffset ref < endRaw then None
          else (case addUint64 (RawOffset ref) (ucast (RawSize ref)) of
                  None \<Rightarrow> None
                | Some nextEnd \<Rightarrow> refs_readable L f True nextEnd refs))"

definition entryReadableAt :: "codec_lib \<Rightarrow> bytes \<Rightarrow> EntryV1 \<Rightarrow> bool" where
  "entryReadableAt L f e =
     (case refs_readable L f False 0 (Chunks e) of
        None \<Rightarrow> False
      | Some endRaw \<Rightarrow> if Chunks e = [] then FileSize e = 0 else endRaw = FileSize e)"

fun assess_readable :: "codec_lib \<Rightarrow> bytes \<Rightarrow> EntryV1 list \<Rightarrow> u32 \<Rightarrow> u32" where
  "assess_readable L f [] readable = readable"
| "assess_readable L f (e # es) readable =
     assess_readable L f es (if entryReadableAt L f e then readable + 1 else readable)"

definition assessReadableEntriesAt :: "codec_lib \<Rightarrow> bytes \<Rightarrow> DirectoryV1 \<Rightarrow> u32" where
  "assessReadableEntriesAt L f dir = assess_readable L f (dEntries dir) 0"

record recoveryDirectoryScore =
  rBuildUnix :: u64
  rDirOffset :: u64
  rEntriesTotal :: u32
  rEntriesReadable :: u32

definition betterRecoveryDirectoryScore ::
  "recoveryDirectoryScore \<Rightarrow> recoveryDirectoryScore \<Rightarrow> bool" where
  "betterRecoveryDirectoryScore a b =
     (if rEntriesReadable a \<noteq> rEntriesReadable b then rEntriesReadable a > rEntriesReadable b else
      let aUnreadable = rEntriesTotal a - rEntriesReadable a;
          bUnreadable = rEntriesTotal b - rEntriesReadable b in
      if aUnreadable \<noteq> bUnreadable then aUnreadable < bUnreadable
      else if rBuildUnix a \<noteq> rBuildUnix b then rBuildUnix a > rBuildUnix b
      else rDirOffset a > rDirOffset b)"

definition buildHeaderFromDirectoryAt ::
  "codec_lib \<Rightarrow> bytes \<Rightarrow> u64 \<Rightarrow> u64 \<Rightarrow> (HeaderV1 \<times> recoveryDirectoryScore) result" where
  "buildHeaderFromDirectoryAt L f dirOffset fileSize =
     rbind (readDirectoryCandidateAt f dirOffset fileSize) (\<lambda>(dir, dirSize, dirCRC).
     rbind (validateChunkOffsets (dEntries dir) fileSize) (\<lambda>_.
     let entriesReadable = assessReadableEntriesAt L f dir;
         h = zeroHeader\<lparr>hMagic := MagicHeader, hVersion := VersionV1,
           hHeaderSize := of_nat HeaderSize, hCreatedUnix := dBuildUnix dir,
           hDirOffset := dirOffset, hDirSize := dirSize, hDirCRC32 := dirCRC\<rparr> in
     rbind (validateHeaderDirectory f h) (\<lambda>_.
     Inr (h, \<lparr>rBuildUnix = dBuildUnix dir, rDirOffset = dirOffset,
       rEntriesTotal = of_nat (length (dEntries dir)), rEntriesReadable = entriesReadable\<rparr>))))"

section \<open>The scan\<close>

type_synonym best = "(HeaderV1 \<times> recoveryDirectoryScore) option"

text \<open>What the inner loop does with one occurrence.\<close>

definition consider_at :: "codec_lib \<Rightarrow> bytes \<Rightarrow> best \<Rightarrow> nat \<Rightarrow> best" where
  "consider_at L f best dirOffset =
     (case buildHeaderFromDirectoryAt L f (of_nat dirOffset) (file_size f) of
        Inl _ \<Rightarrow> best
      | Inr (h, score) \<Rightarrow>
          (case best of
             None \<Rightarrow> Some (h, score)
           | Some (bh, bestScore) \<Rightarrow>
               if betterRecoveryDirectoryScore score bestScore then Some (h, score) else best))"

text \<open>\<^verbatim>\<open>bytes.Index\<close> for the directory magic.\<close>

fun index_magic :: "bytes \<Rightarrow> nat option" where
  "index_magic [] = None"
| "index_magic (c # s) =
     (if take 4 (c # s) = MagicDir then Some 0 else map_option Suc (index_magic s))"

lemma index_magic_less: "index_magic s = Some i \<Longrightarrow> i < length s"
  by (induction s arbitrary: i) (auto split: if_splits)

function scan_window :: "codec_lib \<Rightarrow> bytes \<Rightarrow> nat \<Rightarrow> bytes \<Rightarrow> nat \<Rightarrow> best \<Rightarrow> best" where
  "scan_window L f baseOffset window searchFrom best =
     (case index_magic (drop searchFrom window) of
        None \<Rightarrow> best
      | Some idx \<Rightarrow>
          let pos = searchFrom + idx
          in scan_window L f baseOffset window (pos + 1) (consider_at L f best (baseOffset + pos)))"
  by pat_completeness auto
termination
  by (relation "measure (\<lambda>(L, f, b, w, s, best). length w - s)") (auto dest: index_magic_less)

definition recoveryScanBlockSize :: nat where "recoveryScanBlockSize = 1048576"

function scan_blocks :: "codec_lib \<Rightarrow> bytes \<Rightarrow> nat \<Rightarrow> bytes \<Rightarrow> best \<Rightarrow> best" where
  "scan_blocks L f off tail best =
     (if off < length f then
        let readSize = min recoveryScanBlockSize (length f - off);
            block = sub_bytes f off (off + readSize);
            window = tail @ block;
            best = scan_window L f (off - length tail) window 0 best;
            tail = (if length window \<le> 3 then window else drop (length window - 3) window)
        in scan_blocks L f (off + length block) tail best
      else best)"
  by pat_completeness auto
termination
  by (relation "measure (\<lambda>(L, f, off, t, b). length f - off)")
    (auto simp: recoveryScanBlockSize_def)

definition recoverHeaderFromDirectoryScan :: "codec_lib \<Rightarrow> bytes \<Rightarrow> HeaderV1 result" where
  "recoverHeaderFromDirectoryScan L f =
     (if file_size f < 20 + 16 then Inl ErrInvalidFormat else
      case scan_blocks L f 0 [] None of
        None \<Rightarrow> Inl ErrInvalidFormat
      | Some (h, score) \<Rightarrow> Inr h)"

declare scan_window.simps [simp del] scan_blocks.simps [simp del]

section \<open>Every occurrence is seen once\<close>

definition magic_at :: "bytes \<Rightarrow> nat \<Rightarrow> bool" where
  "magic_at s i \<longleftrightarrow> take 4 (drop i s) = MagicDir"

definition magic_positions :: "bytes \<Rightarrow> nat list" where
  "magic_positions s = filter (magic_at s) [0..<length s]"

lemma magic_at_bound: "magic_at s i \<Longrightarrow> i + 4 \<le> length s"
  using length_magics(2) by (auto simp: magic_at_def dest: arg_cong [of _ _ length])

lemma magic_at_Cons [simp]: "magic_at (c # s) (Suc i) = magic_at s i"
  by (simp add: magic_at_def)

lemma magic_at_drop: "magic_at (drop k s) i = magic_at s (k + i)"
  by (simp add: magic_at_def add.commute)

lemma index_magic_spec:
  "case index_magic s of None \<Rightarrow> \<forall>i < length s. \<not> magic_at s i
   | Some i \<Rightarrow> i < length s \<and> magic_at s i \<and> (\<forall>j < i. \<not> magic_at s j)"
proof (induction s)
  case (Cons c s)
  show ?case
  proof (cases "take 4 (c # s) = MagicDir")
    case True
    then show ?thesis by (simp add: magic_at_def)
  next
    case False
    then have 0: "\<not> magic_at (c # s) 0" by (simp add: magic_at_def)
    show ?thesis
    proof (cases "index_magic s")
      case None
      then have "\<forall>i < length s. \<not> magic_at s i" using Cons by simp
      then have "\<not> magic_at (c # s) i" if "i < length (c # s)" for i
        using 0 that by (cases i) simp_all
      with None False show ?thesis by simp
    next
      case (Some k)
      then have k: "k < length s" "magic_at s k" "\<forall>j < k. \<not> magic_at s j" using Cons by simp_all
      then have "\<not> magic_at (c # s) j" if "j < Suc k" for j
        using 0 that by (cases j) simp_all
      with Some False k show ?thesis by simp
    qed
  qed
qed simp

lemma filter_from:
  assumes "s \<le> k" "k < n" "P k" "\<forall>j. s \<le> j \<longrightarrow> j < k \<longrightarrow> \<not> P j"
  shows "filter P [s..<n] = k # filter P [Suc k..<n]"
proof -
  have "[s..<n] = [s..<k] @ k # [Suc k..<n]"
    using assms(1,2) by (metis upt_add_eq_append upt_conv_Cons le_add_diff_inverse less_imp_le)
  moreover have "filter P [s..<k] = []" using assms(4) by (simp add: filter_empty_conv)
  ultimately show ?thesis using assms(3) by simp
qed

lemma scan_window_fold:
  "s \<le> length w \<Longrightarrow> scan_window L f base w s best =
     foldl (\<lambda>b p. consider_at L f b (base + p)) best (filter (magic_at w) [s..<length w])"
proof (induction L f base w s best rule: scan_window.induct)
  case (1 L f base w s best)
  show ?case
  proof (cases "index_magic (drop s w)")
    case None
    have "\<not> magic_at w j" if "s \<le> j" "j < length w" for j
      using index_magic_spec [of "drop s w"] None that
      by (auto simp: magic_at_drop dest: spec [of _ "j - s"])
    then have "filter (magic_at w) [s..<length w] = []" by (simp add: filter_empty_conv)
    then show ?thesis using None by (subst scan_window.simps) simp
  next
    case (Some i)
    have i: "i < length w - s" "magic_at w (s + i)" "\<forall>j < i. \<not> magic_at w (s + j)"
      using index_magic_spec [of "drop s w"] Some by (simp_all add: magic_at_drop)
    have "filter (magic_at w) [s..<length w] = (s + i) # filter (magic_at w) [Suc (s + i)..<length w]"
    proof (rule filter_from)
      show "\<forall>j. s \<le> j \<longrightarrow> j < s + i \<longrightarrow> \<not> magic_at w j"
        using i(3) by (metis le_add_diff_inverse nat_add_left_cancel_less)
    qed (use i in auto)
    then show ?thesis
      using Some i(1) "1.IH" [OF Some refl] by (subst scan_window.simps) (simp add: Let_def)
  qed
qed

text \<open>The positions whose magic ends within the first \<open>m\<close> bytes.\<close>

definition positions_upto :: "bytes \<Rightarrow> nat \<Rightarrow> nat list" where
  "positions_upto f m = filter (\<lambda>q. q + 4 \<le> m \<and> magic_at f q) [0..<m]"

lemma positions_all: "positions_upto f (length f) = magic_positions f"
  unfolding positions_upto_def magic_positions_def
  by (rule filter_cong) (auto dest: magic_at_bound)

lemma magic_at_window:
  assumes "base \<le> m" "m \<le> length f"
  shows "magic_at (sub_bytes f base m) p \<longleftrightarrow> base + p + 4 \<le> m \<and> magic_at f (base + p)"
proof (cases "base + p + 4 \<le> m")
  case True
  then have "take 4 (drop p (sub_bytes f base m)) = take 4 (drop (base + p) f)"
    by (simp add: sub_bytes_def drop_take min_def add.commute)
  then show ?thesis using True by (simp add: magic_at_def)
next
  case False
  then show ?thesis using magic_at_bound [of "sub_bytes f base m" p] assms by auto
qed

lemma filter_upt_shift: "map ((+) k) (filter (\<lambda>p. P (k + p)) [0..<n]) = filter P [k..<k + n]"
proof -
  have "[k..<k + n] = map ((+) k) [0..<n]" by (rule nth_equalityI) simp_all
  then show ?thesis by (simp add: filter_map comp_def)
qed

lemma positions_step:
  assumes "base = off - min 3 off" "off \<le> m" "m \<le> length f"
  shows "positions_upto f m = positions_upto f off @
    map ((+) base) (filter (magic_at (sub_bytes f base m)) [0..<m - base])"
proof -
  let ?P = "\<lambda>q. q + 4 \<le> m \<and> magic_at f q"
  have le: "base \<le> m" using assms by simp
  have "map ((+) base) (filter (magic_at (sub_bytes f base m)) [0..<m - base])
      = filter ?P [base..<m]"
  proof -
    have "filter (magic_at (sub_bytes f base m)) xs = filter (\<lambda>p. ?P (base + p)) xs" for xs
      by (rule filter_cong) (simp_all add: magic_at_window [OF le assms(3)])
    then show ?thesis using filter_upt_shift [of base ?P "m - base"] le by simp
  qed
  moreover have "positions_upto f off = filter ?P [0..<base]"
  proof -
    have up: "[0..<off] = [0..<base] @ [base..<off]"
      using assms(1) upt_add_eq_append [of 0 base "off - base"] by simp
    have "filter (\<lambda>q. q + 4 \<le> off \<and> magic_at f q) [base..<off] = []"
      using assms(1) by (auto simp: filter_empty_conv)
    moreover have "filter (\<lambda>q. q + 4 \<le> off \<and> magic_at f q) [0..<base] = filter ?P [0..<base]"
      using assms(1,2) by (intro filter_cong) auto
    ultimately show ?thesis unfolding positions_upto_def up by simp
  qed
  moreover have "[0..<m] = [0..<base] @ [base..<m]"
    using le upt_add_eq_append [of 0 base "m - base"] by simp
  ultimately show ?thesis unfolding positions_upto_def by simp
qed

theorem scan_blocks_fold:
  assumes "off \<le> length f" "tail = sub_bytes f (off - min 3 off) off"
    "best = foldl (consider_at L f) init (positions_upto f off)"
  shows "scan_blocks L f off tail best = foldl (consider_at L f) init (magic_positions f)"
  using assms
proof (induction L f off tail best rule: scan_blocks.induct)
  case (1 L f off tail best)
  show ?case
  proof (cases "off < length f")
    case False
    with "1.prems" show ?thesis
      by (subst scan_blocks.simps) (simp add: positions_all)
  next
    case True
    define n where "n = min recoveryScanBlockSize (length f - off)"
    define m where "m = off + n"
    define base where "base = off - min 3 off"
    have n: "0 < n" "m \<le> length f" "off \<le> m"
      using True by (auto simp: n_def m_def recoveryScanBlockSize_def)
    have tl: "length tail = min 3 off" using "1.prems" by simp
    have win: "tail @ sub_bytes f off m = sub_bytes f base m"
      using "1.prems"(2) n by (simp add: base_def sub_bytes_split)
    have len: "length (sub_bytes f off m) = n" using n by (simp add: m_def)
    have lw: "length (sub_bytes f base m) = m - base" using n by (simp add: base_def)
    define best' where "best' = scan_window L f base (sub_bytes f base m) 0 best"
    define tail' where "tail' = (if m - base \<le> 3 then sub_bytes f base m
      else drop (m - base - 3) (sub_bytes f base m))"
    have best': "best' = foldl (consider_at L f) init (positions_upto f m)"
      unfolding best'_def positions_step [OF base_def n(3,2)] foldl_append "1.prems"(3) [symmetric]
      by (simp add: scan_window_fold lw foldl_map del: length_sub_bytes)
    have tail': "tail' = sub_bytes f (m - min 3 m) m"
    proof (cases "m - base \<le> 3")
      case True
      then have "m - min 3 m = base" using n by (auto simp: base_def m_def min_def split: if_splits)
      with True show ?thesis by (simp add: tail'_def)
    next
      case False
      then have "base + (m - base - 3) = m - min 3 m" using n by (auto simp: base_def)
      with False n show ?thesis
        by (simp add: tail'_def sub_bytes_def drop_take add.commute)
    qed
    have "scan_blocks L f off tail best = scan_blocks L f m tail' best'"
      using True by (subst scan_blocks.simps)
        (simp add: Let_def n_def [symmetric] m_def [symmetric] tl base_def [symmetric] win lw
          best'_def tail'_def len del: length_sub_bytes length_append)
    also have "\<dots> = foldl (consider_at L f) init (magic_positions f)"
      using best' tail' n True
      by (intro "1.IH" [OF True, of n "sub_bytes f off m" "sub_bytes f base m" best' tail',
            unfolded len, folded m_def])
        (simp_all only: n_def [symmetric] m_def [symmetric] tl base_def [symmetric] win best'_def
          tail'_def lw le_refl)
    finally show ?thesis .
  qed
qed

section \<open>The best candidate\<close>

text \<open>The comparison of scores is the lexicographic order of this key.\<close>

definition score_key :: "recoveryDirectoryScore \<Rightarrow> int \<times> int \<times> int \<times> int" where
  "score_key a = (uint (rEntriesReadable a), - uint (rEntriesTotal a - rEntriesReadable a),
     uint (rBuildUnix a), uint (rDirOffset a))"

lemma better_key: "betterRecoveryDirectoryScore a b \<longleftrightarrow> score_key b < score_key a"
  by (auto simp: betterRecoveryDirectoryScore_def score_key_def Let_def less_prod_def'
      word_less_def word_uint_eq_iff)

definition candidate :: "codec_lib \<Rightarrow> bytes \<Rightarrow> nat \<Rightarrow> HeaderV1 \<Rightarrow> recoveryDirectoryScore \<Rightarrow> bool" where
  "candidate L f off h score \<longleftrightarrow> magic_at f off \<and>
     buildHeaderFromDirectoryAt L f (of_nat off) (file_size f) = Inr (h, score)"

lemma consider_fold:
  "case foldl (consider_at L f) None xs of
     None \<Rightarrow> \<forall>off \<in> set xs. \<forall>h s. buildHeaderFromDirectoryAt L f (of_nat off) (file_size f) \<noteq> Inr (h, s)
   | Some (h, s) \<Rightarrow>
       (\<exists>off \<in> set xs. buildHeaderFromDirectoryAt L f (of_nat off) (file_size f) = Inr (h, s)) \<and>
       (\<forall>off \<in> set xs. \<forall>h' s'. buildHeaderFromDirectoryAt L f (of_nat off) (file_size f) = Inr (h', s') \<longrightarrow>
          score_key s' \<le> score_key s)"
proof (induction xs rule: rev_induct)
  case (snoc x xs)
  define acc where "acc = foldl (consider_at L f) None xs"
  have step: "foldl (consider_at L f) None (xs @ [x]) = consider_at L f acc x"
    by (simp add: acc_def)
  note IH = snoc [folded acc_def]
  show ?case
  proof (cases "buildHeaderFromDirectoryAt L f (of_nat x) (file_size f)")
    case (Inl e)
    then have "consider_at L f acc x = acc" by (simp add: consider_at_def)
    with IH Inl show ?thesis unfolding step by (auto split: option.splits)
  next
    case (Inr hs)
    obtain h s where hs: "hs = (h, s)" by fastforce
    show ?thesis
    proof (cases "\<exists>bh b. acc = Some (bh, b) \<and> \<not> score_key b < score_key s")
      case True
      then have "consider_at L f acc x = acc" using Inr hs by (auto simp: consider_at_def better_key)
      with IH Inr hs True show ?thesis unfolding step by auto
    next
      case False
      then have new: "consider_at L f acc x = Some (h, s)"
        using Inr hs by (auto simp: consider_at_def better_key split: option.splits)
      have "score_key s' \<le> score_key s"
        if "off \<in> set xs" "buildHeaderFromDirectoryAt L f (of_nat off) (file_size f) = Inr (h', s')"
        for off h' s'
      proof (cases acc)
        case None
        with IH that show ?thesis by auto
      next
        case (Some bs)
        obtain bh b where bs: "bs = (bh, b)" by fastforce
        have "score_key s' \<le> score_key b" using IH that Some bs by auto
        moreover have "score_key b < score_key s" using False Some bs by auto
        ultimately show ?thesis by order
      qed
      then show ?thesis using Inr hs unfolding step new by auto
    qed
  qed
qed simp

lemma magic_positions_iff: "q \<in> set (magic_positions f) \<longleftrightarrow> magic_at f q"
  by (auto simp: magic_positions_def dest: magic_at_bound)

lemma scan_all: "scan_blocks L f 0 [] None = foldl (consider_at L f) None (magic_positions f)"
  by (rule scan_blocks_fold) (simp_all add: positions_upto_def sub_bytes_def)

theorem scan_best:
  assumes "recoverHeaderFromDirectoryScan L f = Inr h"
  shows "\<exists>off score. candidate L f off h score \<and>
    (\<forall>off' h' score'. candidate L f off' h' score' \<longrightarrow>
       off' = off \<or> \<not> betterRecoveryDirectoryScore score' score)"
proof -
  from assms obtain s where "foldl (consider_at L f) None (magic_positions f) = Some (h, s)"
    by (auto simp: recoverHeaderFromDirectoryScan_def scan_all split: if_splits option.splits)
  with consider_fold [where L = L and f = f and xs = "magic_positions f"] show ?thesis
    by (fastforce simp: candidate_def better_key magic_positions_iff not_less)
qed

theorem scan_complete:
  assumes "candidate L f off h score" "36 \<le> length f" "length f < 2 ^ 63"
  shows "\<exists>h'. recoverHeaderFromDirectoryScan L f = Inr h'"
proof -
  have "\<not> file_size f < 20 + 16"
    using assms(2,3) by (simp add: word_less_nat_alt unat_file_size)
  then show ?thesis
    using consider_fold [where L = L and f = f and xs = "magic_positions f"] assms(1)
    by (auto simp: recoverHeaderFromDirectoryScan_def scan_all candidate_def magic_positions_iff
        split: option.splits)
qed

lemma candidate_sound:
  "candidate L f off h score \<Longrightarrow> hDirOffset h = of_nat off \<and> validateHeaderDirectory f h = Inr ()"
  by (auto simp: candidate_def buildHeaderFromDirectoryAt_def inr_simps Let_def)

text \<open>The ranking is total on candidates, so the best one is the only answer.\<close>

lemma candidate_key:
  assumes "candidate L f off h s" "candidate L f off' h' s'" "score_key s = score_key s'"
    "length f < 2 ^ 63"
  shows "h = h'"
proof -
  have b: "off < length f" "off' < length f"
    using assms(1,2) magic_at_bound [of f off] magic_at_bound [of f off'] by (auto simp: candidate_def)
  have "rDirOffset s = of_nat off" "rDirOffset s' = of_nat off'"
    using assms(1,2) by (auto simp: candidate_def buildHeaderFromDirectoryAt_def inr_simps Let_def)
  then have "(of_nat off :: u64) = of_nat off'"
    using assms(3) by (simp add: score_key_def word_uint_eq_iff)
  then have "unat (of_nat off :: u64) = unat (of_nat off' :: u64)" by simp
  then have "off = off'" using b assms(4) by (simp add: unat_of_nat)
  then show ?thesis using assms(1,2) by (simp add: candidate_def)
qed

definition best_candidate :: "codec_lib \<Rightarrow> bytes \<Rightarrow> HeaderV1 \<Rightarrow> bool" where
  "best_candidate L f h \<longleftrightarrow> (\<exists>off score. candidate L f off h score \<and>
     (\<forall>off' h' score'. candidate L f off' h' score' \<longrightarrow>
        \<not> betterRecoveryDirectoryScore score' score))"

theorem scan_iff:
  assumes "36 \<le> length f" "length f < 2 ^ 63"
  shows "recoverHeaderFromDirectoryScan L f = Inr h \<longleftrightarrow> best_candidate L f h"
proof
  assume "recoverHeaderFromDirectoryScan L f = Inr h"
  from scan_best [OF this] obtain off s where c: "candidate L f off h s"
    "\<And>off' h' s'. candidate L f off' h' s' \<Longrightarrow> off' = off \<or> \<not> betterRecoveryDirectoryScore s' s"
    by blast
  have "\<not> betterRecoveryDirectoryScore s' s" if "candidate L f off' h' s'" for off' h' s'
    using c(2) [OF that] c(1) that by (auto simp: candidate_def better_key)
  then show "best_candidate L f h" using c(1) unfolding best_candidate_def by blast
next
  assume "best_candidate L f h"
  then obtain off s where c: "candidate L f off h s"
    "\<And>off' h' s'. candidate L f off' h' s' \<Longrightarrow> \<not> betterRecoveryDirectoryScore s' s"
    unfolding best_candidate_def by blast
  obtain h' where r: "recoverHeaderFromDirectoryScan L f = Inr h'"
    using scan_complete [OF c(1) assms] by blast
  from scan_best [OF r] obtain off' s' where c': "candidate L f off' h' s'"
    "\<And>off h s. candidate L f off h s \<Longrightarrow> off = off' \<or> \<not> betterRecoveryDirectoryScore s s'"
    by blast
  have "h = h'"
  proof (cases "off = off'")
    case True
    then show ?thesis using c(1) c'(1) by (simp add: candidate_def)
  next
    case False
    then have "\<not> score_key s' < score_key s" "\<not> score_key s < score_key s'"
      using c'(2) [OF c(1)] c(2) [OF c'(1)] by (simp_all add: better_key)
    then have "score_key s = score_key s'" by order
    then show ?thesis using candidate_key [OF c(1) c'(1)] assms(2) by blast
  qed
  then show "recoverHeaderFromDirectoryScan L f = Inr h" using r by simp
qed

end
