(* ===== verification/EntryReader.thy ===== *)
theory EntryReader
  imports Snapshot Chunk
begin

text \<open>
  Reading the contents of an entry: \<^verbatim>\<open>entryReader\<close> of \<^verbatim>\<open>fbx/container.go\<close>. The lemmas show that
  the reader delivers the payloads of the chunks one after the other, whatever the sizes of the
  buffers it is called with, and that a failed check is reported exactly when the bytes before
  it have been delivered.
\<close>

section \<open>The reader\<close>

record entryReader =
  erChunks :: "ChunkRefV1 list"
  erIdx :: nat
  erCur :: bytes
  erCurRead :: nat
  erVerifyCRC :: bool
  erMaxEntry :: u64
  erMaxChunk :: u32
  erReadTotal :: u64

text \<open>The checks on the next chunk and its payload; \<^verbatim>\<open>r.idx\<close> is left alone.\<close>

definition chunk_payload :: "codec_lib \<Rightarrow> bytes \<Rightarrow> bool \<Rightarrow> u32 \<Rightarrow> ChunkRefV1 \<Rightarrow> bytes result" where
  "chunk_payload L f verifyCRC maxChunk ref =
     (if maxChunk > 0 \<and> (RawSize ref > maxChunk \<or> CompSize ref > maxChunk)
      then Inl ErrLimitExceeded else
      rbind (map_err mapErr
        (readChunkRecordLimited L f (ChunkOffset ref) verifyCRC (RawSize ref) (CompSize ref))) (\<lambda>rec.
      if kRawSize rec \<noteq> RawSize ref \<or> kCompSize rec \<noteq> CompSize ref \<or> kCRC32Raw rec \<noteq> CRC32Raw ref
      then Inl ErrInvalidFormat else Inr (kPayload rec)))"

definition load_chunk :: "codec_lib \<Rightarrow> bytes \<Rightarrow> entryReader \<Rightarrow> entryReader result" where
  "load_chunk L f r =
     rbind (chunk_payload L f (erVerifyCRC r) (erMaxChunk r) (erChunks r ! erIdx r)) (\<lambda>payload.
     if erMaxEntry r > 0 \<and> erReadTotal r + of_nat (length payload) > erMaxEntry r
     then Inl ErrLimitExceeded
     else Inr (r\<lparr>erIdx := erIdx r + 1, erCur := payload, erCurRead := 0\<rparr>))"

text \<open>\<^verbatim>\<open>copied := copy(p[n:], r.cur[r.curRead:])\<close> for \<open>want\<close> bytes of room.\<close>

definition copy_out :: "entryReader \<Rightarrow> nat \<Rightarrow> bytes \<times> entryReader" where
  "copy_out r want =
     (let b = take want (drop (erCurRead r) (erCur r))
      in (b, r\<lparr>erCurRead := erCurRead r + length b,
               erReadTotal := erReadTotal r + of_nat (length b)\<rparr>))"

lemma load_chunk_idx: "load_chunk L f r = Inr r' \<Longrightarrow> erIdx r' = erIdx r + 1 \<and> erChunks r' = erChunks r"
  by (auto simp: load_chunk_def inr_simps)

text \<open>
  The loop of \<^verbatim>\<open>Read\<close> with \<open>want\<close> bytes of the buffer free and the bytes \<open>acc\<close> delivered. An
  error with \<open>acc\<close> not empty is put off to the next call, which finds the reader as it is.
\<close>

function read_loop ::
  "codec_lib \<Rightarrow> bytes \<Rightarrow> entryReader \<Rightarrow> nat \<Rightarrow> bytes \<Rightarrow> (bytes \<times> error option) \<times> entryReader" where
  "read_loop L f r want acc =
     (if want = 0 then ((acc, None), r)
      else if length (erCur r) \<le> erCurRead r then
        (if length (erChunks r) \<le> erIdx r then ((acc, if acc = [] then Some IoEOF else None), r)
         else case load_chunk L f r of
           Inl e \<Rightarrow> ((acc, if acc = [] then Some e else None), r)
         | Inr r \<Rightarrow>
             let (b, r) = copy_out r want in read_loop L f r (want - length b) (acc @ b))
      else let (b, r) = copy_out r want in read_loop L f r (want - length b) (acc @ b))"
  by pat_completeness auto
termination
  by (relation "inv_image (less_than <*lex*> less_than)
      (\<lambda>(L, f, r, want, acc). (length (erChunks r) - erIdx r, want))")
    (auto simp: copy_out_def Let_def dest!: load_chunk_idx)

definition entryReader_Read ::
  "codec_lib \<Rightarrow> bytes \<Rightarrow> entryReader \<Rightarrow> nat \<Rightarrow> (bytes \<times> error option) \<times> entryReader" where
  "entryReader_Read L f r len =
     (if len = 0 then (([], None), r) else read_loop L f r len [])"

definition entryReader_Close :: "entryReader \<Rightarrow> entryReader" where
  "entryReader_Close r = r\<lparr>erCur := []\<rparr>"

declare read_loop.simps [simp del]

section \<open>The stream of a reader\<close>

text \<open>
  What is left to read: the rest of the current payload and the payloads of the chunks to come,
  up to the first one that fails, with the error it fails with (\<^verbatim>\<open>io.EOF\<close> at the end). \<open>sofar\<close>
  is the number of bytes read when the next chunk is loaded.
\<close>

fun stream_from :: "codec_lib \<Rightarrow> bytes \<Rightarrow> bool \<Rightarrow> u64 \<Rightarrow> u32 \<Rightarrow> u64 \<Rightarrow> ChunkRefV1 list \<Rightarrow> bytes \<times> error" where
  "stream_from L f v me mc sofar [] = ([], IoEOF)"
| "stream_from L f v me mc sofar (c # cs) =
     (case chunk_payload L f v mc c of
        Inl e \<Rightarrow> ([], e)
      | Inr p \<Rightarrow>
          if me > 0 \<and> sofar + of_nat (length p) > me then ([], ErrLimitExceeded)
          else (let (b, e) = stream_from L f v me mc (sofar + of_nat (length p)) cs in (p @ b, e)))"

definition rest :: "entryReader \<Rightarrow> bytes" where
  "rest r = drop (erCurRead r) (erCur r)"

definition stream :: "codec_lib \<Rightarrow> bytes \<Rightarrow> entryReader \<Rightarrow> bytes \<times> error" where
  "stream L f r =
     (let (b, e) = stream_from L f (erVerifyCRC r) (erMaxEntry r) (erMaxChunk r)
        (erReadTotal r + of_nat (length (rest r))) (drop (erIdx r) (erChunks r))
      in (rest r @ b, e))"

lemma copy_out_stream:
  assumes "copy_out r want = (b, r')"
  shows "b = take want (rest r)" "rest r = b @ rest r'"
    "stream L f r = (b @ fst (stream L f r'), snd (stream L f r'))"
proof -
  have b: "b = take want (rest r)"
    using assms by (auto simp: copy_out_def Let_def rest_def)
  have r': "r' = r\<lparr>erCurRead := erCurRead r + length b,
      erReadTotal := erReadTotal r + of_nat (length b)\<rparr>"
    using assms b unfolding copy_out_def Let_def rest_def by blast
  show "b = take want (rest r)" by (rule b)
  have d: "rest r' = drop (length b) (rest r)"
    by (simp add: r' rest_def add.commute)
  have "length b \<le> length (rest r)" by (simp add: b)
  moreover have "take (length b) (rest r) = b" by (simp add: b min_def)
  ultimately show split: "rest r = b @ rest r'" unfolding d by (metis append_take_drop_id)
  have "erReadTotal r + of_nat (length (rest r)) = erReadTotal r' + of_nat (length (rest r'))"
    unfolding split by (simp add: r')
  then show "stream L f r = (b @ fst (stream L f r'), snd (stream L f r'))"
    using split by (simp add: stream_def r' case_prod_beta Let_def add.assoc)
qed

lemma payload_nonempty: "chunk_payload L f v mc c = Inr p \<Longrightarrow> p \<noteq> []"
  by (auto simp: chunk_payload_def inr_simps elim!: readChunk_parts)

lemma load_chunk_stream:
  assumes "rest r = []" "erIdx r < length (erChunks r)"
  shows "load_chunk L f r = Inl e \<Longrightarrow> stream L f r = ([], e)"
    and "load_chunk L f r = Inr r' \<Longrightarrow> stream L f r' = stream L f r \<and> rest r' \<noteq> []"
proof -
  have d: "drop (erIdx r) (erChunks r) = erChunks r ! erIdx r # drop (Suc (erIdx r)) (erChunks r)"
    using assms(2) by (rule Cons_nth_drop_Suc [symmetric])
  have st: "stream L f r = stream_from L f (erVerifyCRC r) (erMaxEntry r) (erMaxChunk r)
      (erReadTotal r) (erChunks r ! erIdx r # drop (Suc (erIdx r)) (erChunks r))"
    by (simp add: stream_def assms(1) d)
  show "load_chunk L f r = Inl e \<Longrightarrow> stream L f r = ([], e)"
    unfolding st by (auto simp: load_chunk_def rbind_eq_Inl split: if_splits)
  assume l: "load_chunk L f r = Inr r'"
  then obtain p where p: "chunk_payload L f (erVerifyCRC r) (erMaxChunk r) (erChunks r ! erIdx r) = Inr p"
    and lim: "\<not> (erMaxEntry r > 0 \<and> erReadTotal r + of_nat (length p) > erMaxEntry r)"
    and r': "r' = r\<lparr>erIdx := erIdx r + 1, erCur := p, erCurRead := 0\<rparr>"
    by (auto simp: load_chunk_def inr_simps)
  have q: "rest r' = p" by (simp add: r' rest_def)
  have "stream L f r' = stream L f r"
    unfolding st unfolding stream_def q using lim by (auto simp: p r' split: prod.split)
  then show "stream L f r' = stream L f r \<and> rest r' \<noteq> []"
    using payload_nonempty [OF p] q by simp
qed

definition read_result :: "nat \<Rightarrow> bytes \<Rightarrow> bytes \<Rightarrow> error \<Rightarrow> bytes \<times> error option" where
  "read_result want acc s e =
     (acc @ take want s, if acc @ take want s = [] \<and> want \<noteq> 0 then Some e else None)"

text \<open>One round of the loop, once there is something to copy.\<close>

lemma copy_round:
  assumes s: "stream L f q = (s, e)" and ne: "rest q \<noteq> []" and want: "want \<noteq> 0"
    and copy: "copy_out q want = (b, q')"
    and IH: "\<And>t. stream L f q' = (t, e) \<Longrightarrow>
      \<exists>r'. read_loop L f q' (want - length b) (acc @ b) =
          (read_result (want - length b) (acc @ b) t e, r') \<and>
        stream L f r' = (drop (want - length b) t, e)"
  shows "\<exists>r'. read_loop L f q' (want - length b) (acc @ b) = (read_result want acc s e, r') \<and>
    stream L f r' = (drop want s, e)"
proof -
  note c = copy_out_stream(1,2) [OF copy] copy_out_stream(3) [OF copy, of L f]
  have t: "stream L f q' = (fst (stream L f q'), e)" and st: "s = b @ fst (stream L f q')"
    using c(3) s by (cases "stream L f q'"; simp)+
  have b: "b \<noteq> []" "length b \<le> want" using c(1) ne want by auto
  from IH [OF t] show ?thesis using b by (simp add: st read_result_def)
qed

theorem read_loop_stream:
  assumes "stream L f r = (s, e)"
  shows "\<exists>r'. read_loop L f r want acc = (read_result want acc s e, r') \<and>
    stream L f r' = (drop want s, e)"
  using assms
proof (induction L f r want acc arbitrary: s rule: read_loop.induct)
  case (1 L f r want acc)
  show ?case
  proof (cases "want = 0")
    case True
    then show ?thesis using "1.prems" by (subst read_loop.simps) (simp add: read_result_def)
  next
    case want: False
    show ?thesis
    proof (cases "length (erCur r) \<le> erCurRead r")
      case False
      obtain b q' where c: "copy_out r want = (b, q')" by fastforce
      have "rest r \<noteq> []" using False by (simp add: rest_def)
      from copy_round [OF "1.prems" this want c "1.IH"(2) [OF want False c [symmetric] refl]]
      show ?thesis using want False c by (subst read_loop.simps) simp
    next
      case spent: True
      then have r: "rest r = []" by (simp add: rest_def)
      show ?thesis
      proof (cases "length (erChunks r) \<le> erIdx r")
        case True
        then have "stream L f r = ([], IoEOF)" by (simp add: stream_def r)
        with True spent want "1.prems" show ?thesis
          by (subst read_loop.simps) (simp add: read_result_def)
      next
        case more: False
        then have i: "erIdx r < length (erChunks r)" by simp
        show ?thesis
        proof (cases "load_chunk L f r")
          case (Inl x)
          with load_chunk_stream(1) [OF r i Inl] more spent want "1.prems" show ?thesis
            by (subst read_loop.simps) (simp add: read_result_def)
        next
          case (Inr q)
          obtain b q' where c: "copy_out q want = (b, q')" by fastforce
          have q: "stream L f q = (s, e)" "rest q \<noteq> []"
            using load_chunk_stream(2) [OF r i Inr] "1.prems" by simp_all
          from copy_round [OF q want c "1.IH"(1) [OF want spent more Inr c [symmetric] refl]]
          show ?thesis using want spent more Inr c by (subst read_loop.simps) simp
        qed
      qed
    qed
  qed
qed

text \<open>One call of \<^verbatim>\<open>Read\<close>: it fills the buffer as far as the stream goes.\<close>

theorem read_stream:
  assumes "stream L f r = (s, e)"
  shows "\<exists>r'. entryReader_Read L f r n =
      ((take n s, if n \<noteq> 0 \<and> s = [] then Some e else None), r') \<and>
    stream L f r' = (drop n s, e)"
proof (cases "n = 0")
  case True
  then show ?thesis using assms by (simp add: entryReader_Read_def)
next
  case False
  then show ?thesis
    using read_loop_stream [OF assms, of n "[]"]
    by (auto simp: entryReader_Read_def read_result_def)
qed

text \<open>Calls with buffers of given sizes, up to the first error.\<close>

fun read_all :: "codec_lib \<Rightarrow> bytes \<Rightarrow> entryReader \<Rightarrow> nat list \<Rightarrow> bytes \<times> error option" where
  "read_all L f r [] = ([], None)"
| "read_all L f r (n # ns) =
     (case entryReader_Read L f r n of
        ((b, Some e), r') \<Rightarrow> (b, Some e)
      | ((b, None), r') \<Rightarrow> (let (c, x) = read_all L f r' ns in (b @ c, x)))"

theorem read_all_stream:
  assumes "stream L f r = (s, e)" "\<forall>n \<in> set ns. 0 < n"
  shows "read_all L f r ns =
    (take (sum_list ns) s, if \<exists>k < length ns. length s \<le> sum_list (take k ns) then Some e else None)"
  using assms
proof (induction ns arbitrary: r s)
  case (Cons n ns)
  obtain r' where rd: "entryReader_Read L f r n =
      ((take n s, if n \<noteq> 0 \<and> s = [] then Some e else None), r')"
    and st: "stream L f r' = (drop n s, e)"
    using read_stream [OF Cons.prems(1)] by blast
  have n: "0 < n" using Cons.prems(2) by simp
  show ?case
  proof (cases "s = []")
    case True
    with rd n show ?thesis by (auto intro: exI [of _ 0])
  next
    case False
    have "(\<exists>k < length ns. length (drop n s) \<le> sum_list (take k ns)) \<longleftrightarrow>
        (\<exists>k < length (n # ns). length s \<le> sum_list (take k (n # ns)))" (is "?l \<longleftrightarrow> ?r")
    proof
      assume ?l
      then obtain k where "k < length ns" "length (drop n s) \<le> sum_list (take k ns)" by blast
      then show ?r by (intro exI [of _ "Suc k"]) auto
    next
      assume ?r
      then obtain k where k: "k < length (n # ns)" "length s \<le> sum_list (take k (n # ns))" by blast
      with False obtain j where "k = Suc j" by (cases k) simp_all
      with k show ?l by (intro exI [of _ j]) auto
    qed
    with Cons.IH [OF st] Cons.prems(2) rd False show ?thesis by (simp add: take_add)
  qed
qed simp

section \<open>The stream of a good entry\<close>

text \<open>
  When every chunk passes its checks and no entry limit is set, the stream is the concatenation
  of the payloads and ends with \<^verbatim>\<open>io.EOF\<close>.
\<close>

lemma stream_from_good:
  assumes "list_all2 (\<lambda>c p. chunk_payload L f v mc c = Inr p) cs ps" "me = 0"
  shows "stream_from L f v me mc sofar cs = (concat ps, IoEOF)"
  using assms by (induction cs ps arbitrary: sofar rule: list_all2_induct) auto

end
