(* ===== verification/PathNorm.thy ===== *)
theory PathNorm
  imports Prelude
begin

text \<open>
  Entry paths: \<^verbatim>\<open>internal/pathutil/path.go\<close> and \<^verbatim>\<open>normalizePrefix\<close> of \<^verbatim>\<open>fbx/tx.go\<close>, with the
  functions of the Go library they call: \<^verbatim>\<open>utf8.ValidString\<close>, \<^verbatim>\<open>strings.Split\<close> and
  \<^verbatim>\<open>path.Clean\<close>, the latter in its documented form, on the list of path elements. The lemmas
  show that a normalized path stays inside the container and that normalizing is idempotent.
\<close>

section \<open>Library functions\<close>

fun cont :: "u8 \<Rightarrow> bool" where "cont b \<longleftrightarrow> 0x80 \<le> b \<and> b \<le> 0xBF"

text \<open>\<^verbatim>\<open>utf8.ValidString\<close>\<close>

fun utf8_valid :: "bytes \<Rightarrow> bool" where
  "utf8_valid [] = True"
| "utf8_valid (a # s) =
     (if a < 0x80 then utf8_valid s
      else if 0xC2 \<le> a \<and> a \<le> 0xDF then
        (case s of b # s \<Rightarrow> cont b \<and> utf8_valid s | _ \<Rightarrow> False)
      else if 0xE0 \<le> a \<and> a \<le> 0xEF then
        (case s of b # c # s \<Rightarrow>
           (if a = 0xE0 then 0xA0 \<le> b \<and> b \<le> 0xBF
            else if a = 0xED then 0x80 \<le> b \<and> b \<le> 0x9F else cont b) \<and> cont c \<and> utf8_valid s
         | _ \<Rightarrow> False)
      else if 0xF0 \<le> a \<and> a \<le> 0xF4 then
        (case s of b # c # d # s \<Rightarrow>
           (if a = 0xF0 then 0x90 \<le> b \<and> b \<le> 0xBF
            else if a = 0xF4 then 0x80 \<le> b \<and> b \<le> 0x8F else cont b) \<and> cont c \<and> cont d \<and>
           utf8_valid s
         | _ \<Rightarrow> False)
      else False)"

text \<open>\<^verbatim>\<open>strings.Split(s, "/")\<close>; 47 is the slash.\<close>

fun split_slash :: "bytes \<Rightarrow> bytes list" where
  "split_slash [] = [[]]"
| "split_slash (c # s) =
     (if c = 47 then [] # split_slash s
      else (case split_slash s of x # xs \<Rightarrow> (c # x) # xs | [] \<Rightarrow> [[c]]))"

fun join_slash :: "bytes list \<Rightarrow> bytes" where
  "join_slash [] = []"
| "join_slash [x] = x"
| "join_slash (x # y # xs) = x @ [47] @ join_slash (y # xs)"

abbreviation dot :: bytes where "dot \<equiv> [46]"
abbreviation dotdot :: bytes where "dotdot \<equiv> [46, 46]"

text \<open>
  \<^verbatim>\<open>path.Clean\<close>: empty elements and \<^verbatim>\<open>.\<close> go, \<^verbatim>\<open>..\<close> removes the element before it, is dropped at
  the root and kept at the start of a relative path. The second argument is the stack of
  elements kept so far.
\<close>

fun clean_elems :: "bool \<Rightarrow> bytes list \<Rightarrow> bytes list \<Rightarrow> bytes list" where
  "clean_elems rooted st [] = rev st"
| "clean_elems rooted st (e # es) =
     (if e = [] \<or> e = dot then clean_elems rooted st es
      else if e = dotdot then
        (case st of
           [] \<Rightarrow> clean_elems rooted (if rooted then [] else [dotdot]) es
         | x # xs \<Rightarrow> clean_elems rooted (if x = dotdot then dotdot # st else xs) es)
      else clean_elems rooted (e # st) es)"

definition path_clean :: "bytes \<Rightarrow> bytes" where
  "path_clean p =
     (if p = [] then dot else
      let rooted = (hd p = 47);
          out = (if rooted then [47] else []) @ join_slash (clean_elems rooted [] (split_slash p))
      in if out = [] then dot else out)"

text \<open>\<^verbatim>\<open>strings.ReplaceAll(p, "\\", "/")\<close>\<close>

definition to_slash :: "bytes \<Rightarrow> bytes" where
  "to_slash p = map (\<lambda>c. if c = 92 then 47 else c) p"

section \<open>Normalization\<close>

definition bad_part :: "bytes \<Rightarrow> bool" where
  "bad_part x \<longleftrightarrow> x = [] \<or> x = dot \<or> x = dotdot"

definition normalize :: "bytes \<Rightarrow> bytes result" where
  "normalize p =
     (if p = [] then Inl PathUtilInvalid
      else if \<not> utf8_valid p then Inl PathUtilInvalid
      else if 0 \<in> set p then Inl PathUtilInvalid
      else let p = path_clean (to_slash p) in
      if p = dot \<or> p = [] \<or> take 1 p = [47] then Inl PathUtilInvalid
      else if \<exists>part \<in> set (split_slash p). bad_part part then Inl PathUtilInvalid
      else Inr p)"

text \<open>\<^verbatim>\<open>strings.Contains(s, "..")\<close>\<close>

fun has_dotdot :: "bytes \<Rightarrow> bool" where
  "has_dotdot (a # b # s) = (a = 46 \<and> b = 46 \<or> has_dotdot (b # s))"
| "has_dotdot s = False"

definition normalizePrefix :: "bytes \<Rightarrow> bytes result" where
  "normalizePrefix prefix =
     (let prefix = dropWhile (\<lambda>c. c = 47) (to_slash prefix);
          prefix = (if prefix \<noteq> [] \<and> last prefix = 47 then butlast prefix else prefix)
      in if prefix = [] then Inl PathUtilInvalid else
      let clean = path_clean prefix in
      if clean = dot \<or> clean = [] \<or> take 1 clean = [47] \<or> has_dotdot clean
      then Inl PathUtilInvalid else Inr clean)"

section \<open>Splitting and joining\<close>

lemma split_nonempty [simp]: "split_slash p \<noteq> []"
  by (induction p) (auto split: list.splits)

lemma split_no_slash: "x \<in> set (split_slash p) \<Longrightarrow> 47 \<notin> set x"
proof (induction p arbitrary: x)
  case (Cons c p)
  then show ?case by (cases "split_slash p") (auto split: if_splits)
qed simp

lemma join_split: "join_slash (split_slash p) = p"
proof (induction p)
  case (Cons c p)
  obtain x xs where s: "split_slash p = x # xs" by (cases "split_slash p") simp_all
  show ?case
  proof (cases "c = 47")
    case True
    then show ?thesis using Cons s by simp
  next
    case False
    then show ?thesis using Cons s by (cases xs) simp_all
  qed
qed simp

lemma split_noslash: "47 \<notin> set x \<Longrightarrow> split_slash x = [x]"
  by (induction x) auto

lemma split_append: "47 \<notin> set x \<Longrightarrow> split_slash (x @ 47 # y) = x # split_slash y"
  by (induction x) auto

lemma split_join: "xs \<noteq> [] \<Longrightarrow> \<forall>x \<in> set xs. 47 \<notin> set x \<Longrightarrow> split_slash (join_slash xs) = xs"
  by (induction xs rule: join_slash.induct) (simp_all add: split_noslash split_append)

lemma clean_elems_subset:
  "set (clean_elems r st es) \<subseteq> set st \<union> set es \<union> {dotdot}"
proof (induction es arbitrary: st)
  case (Cons e es)
  have IH: "set (clean_elems r st' es) \<subseteq> set st' \<union> set es \<union> {dotdot}" for st' by (rule Cons)
  show ?case
    using IH [of st] IH [of "[]"] IH [of "[dotdot]"] IH [of "tl st"] IH [of "dotdot # st"]
      IH [of "e # st"]
    by (cases st) auto
qed auto

lemma clean_good: "\<forall>e \<in> set es. \<not> bad_part e \<Longrightarrow> clean_elems r st es = rev st @ es"
  by (induction es arbitrary: st) (auto simp: bad_part_def)

lemma set_join: "set (join_slash xs) \<subseteq> insert 47 (\<Union>x \<in> set xs. set x)"
  by (induction xs rule: join_slash.induct) auto

lemma in_split_set: "x \<in> set (split_slash p) \<Longrightarrow> set x \<subseteq> set p"
proof (induction p arbitrary: x)
  case (Cons c p)
  then show ?case by (cases "split_slash p") (auto split: if_splits, (blast intro: subsetD)+)
qed simp

lemma set_path_clean: "set (path_clean p) \<subseteq> set p \<union> {46, 47}"
proof -
  have "set (join_slash (clean_elems r [] (split_slash p))) \<subseteq> set p \<union> {46, 47}" for r
  proof -
    have "set x \<subseteq> set p \<union> {46, 47}" if "x \<in> set (clean_elems r [] (split_slash p))" for x
      using that clean_elems_subset [of r "[]" "split_slash p"] in_split_set by fastforce
    then show ?thesis using set_join [of "clean_elems r [] (split_slash p)"] by blast
  qed
  then show ?thesis by (auto simp: path_clean_def Let_def)
qed

text \<open>A path whose parts are all good is clean already.\<close>

lemma good_parts_first:
  assumes "\<forall>x \<in> set (split_slash q). \<not> bad_part x"
  shows "q \<noteq> []" "hd q \<noteq> 47" "q \<noteq> dot"
proof -
  show ne: "q \<noteq> []" using assms by (auto simp: bad_part_def)
  show "hd q \<noteq> 47"
  proof
    assume "hd q = 47"
    with ne have "[] \<in> set (split_slash q)" by (cases q) auto
    with assms show False by (auto simp: bad_part_def)
  qed
  show "q \<noteq> dot"
  proof
    assume "q = dot"
    then have "dot \<in> set (split_slash q)" by simp
    with assms show False by (auto simp: bad_part_def)
  qed
qed

lemma path_clean_good:
  assumes "\<forall>x \<in> set (split_slash q). \<not> bad_part x"
  shows "path_clean q = q"
  using good_parts_first [OF assms] assms by (simp add: path_clean_def clean_good join_split)

section \<open>UTF-8\<close>

lemma utf8_append_ascii:
  assumes "c < 0x80"
  shows "utf8_valid (a @ c # b) \<longleftrightarrow> utf8_valid a \<and> utf8_valid b"
proof -
  have no: "\<not> 0x80 \<le> c" "\<not> 0x90 \<le> c" "\<not> 0xA0 \<le> c"
    using assms by (simp_all add: word_le_nat_alt word_less_nat_alt)
  show ?thesis
  proof (induction a rule: utf8_valid.induct)
    case 1
    then show ?case using assms by simp
  next
    case (2 x s)
    note step = utf8_valid.simps(2)
    consider "x < 0x80" | "\<not> x < 0x80" "0xC2 \<le> x \<and> x \<le> 0xDF"
      | "\<not> x < 0x80" "\<not> (0xC2 \<le> x \<and> x \<le> 0xDF)" "0xE0 \<le> x \<and> x \<le> 0xEF"
      | "\<not> x < 0x80" "\<not> (0xC2 \<le> x \<and> x \<le> 0xDF)" "\<not> (0xE0 \<le> x \<and> x \<le> 0xEF)"
        "0xF0 \<le> x \<and> x \<le> 0xF4"
      | "\<not> x < 0x80" "\<not> (0xC2 \<le> x \<and> x \<le> 0xDF)" "\<not> (0xE0 \<le> x \<and> x \<le> 0xEF)"
        "\<not> (0xF0 \<le> x \<and> x \<le> 0xF4)" by blast
    then show ?case
    proof cases
      case 1
      then show ?thesis using 2 by simp
    next
      case c2: 2
      show ?thesis
      proof (cases s)
        case Nil
        then show ?thesis using c2 no by simp
      next
        case (Cons b1 s1)
        then show ?thesis using c2 "2.IH"(2) by simp
      qed
    next
      case c3: 3
      show ?thesis
      proof (cases s)
        case Nil
        then show ?thesis using c3 no by (cases b) auto
      next
        case s: (Cons b1 s1)
        show ?thesis
        proof (cases s1)
          case Nil
          then show ?thesis using c3 no s by auto
        next
          case (Cons b2 s2)
          then show ?thesis using c3 s "2.IH"(3) by auto
        qed
      qed
    next
      case c4: 4
      show ?thesis
      proof (cases s)
        case Nil
        then show ?thesis using c4 no by (auto split: list.splits)
      next
        case s: (Cons b1 s1)
        show ?thesis
        proof (cases s1)
          case Nil
          then show ?thesis using c4 no s by (cases b) auto
        next
          case s1: (Cons b2 s2)
          show ?thesis
          proof (cases s2)
            case Nil
            have "\<not> cont c" using no by simp
            then show ?thesis
              unfolding s s1 Nil
              by (simp only: step append_Cons append_Nil list.case c4 if_False if_True simp_thms)
          next
            case (Cons b3 s3)
            note IH = "2.IH"(4) [OF c4 s s1 Cons]
            show ?thesis
              unfolding s s1 Cons
              by (simp only: step append_Cons list.case c4 if_False if_True IH simp_thms
                  conj_assoc)
          qed
        qed
      qed
    next
      case 5
      then show ?thesis by (simp only: append_Cons step if_False simp_thms)
    qed
  qed
qed

declare utf8_valid.simps(2) [simp del]

text \<open>So the elements of a valid path are valid, and valid elements make a valid path.\<close>

lemma utf8_split: "utf8_valid p \<longleftrightarrow> (\<forall>x \<in> set (split_slash p). utf8_valid x)"
proof -
  have "utf8_valid (join_slash xs) \<longleftrightarrow> (\<forall>x \<in> set xs. utf8_valid x)" for xs
    by (induction xs rule: join_slash.induct) (simp_all add: utf8_append_ascii)
  from this [of "split_slash p"] show ?thesis by (simp add: join_split)
qed

lemma to_slash_id: "92 \<notin> set p \<Longrightarrow> to_slash p = p"
  by (auto simp: to_slash_def intro: map_idI)

lemma utf8_to_slash: "utf8_valid p \<Longrightarrow> utf8_valid (to_slash p)"
proof (induction p rule: length_induct)
  case (1 p)
  show ?case
  proof (cases "92 \<in> set p")
    case False
    then show ?thesis using "1.prems" by (simp add: to_slash_id)
  next
    case True
    then obtain a b where p: "p = a @ 92 # b" "92 \<notin> set a" by (auto dest: split_list_first)
    have "utf8_valid a \<and> utf8_valid b"
      using "1.prems" unfolding p(1) by (subst (asm) utf8_append_ascii) simp_all
    moreover from this have "utf8_valid (to_slash b)" using "1.IH" p(1) by simp
    moreover have "to_slash p = a @ 47 # to_slash b"
      using to_slash_id [OF p(2)] by (simp add: p(1) to_slash_def)
    ultimately show ?thesis
      by (simp only:) (subst utf8_append_ascii, simp_all)
  qed
qed

lemma utf8_path_clean:
  assumes "utf8_valid p"
  shows "utf8_valid (path_clean p)"
proof -
  have join: "utf8_valid (join_slash xs) \<longleftrightarrow> (\<forall>x \<in> set xs. utf8_valid x)" for xs
    by (induction xs rule: join_slash.induct) (simp_all add: utf8_append_ascii)
  have "utf8_valid x" if "x \<in> set (clean_elems r [] (split_slash p))" for x r
  proof -
    have "utf8_valid dotdot" by (simp add: utf8_valid.simps(2))
    moreover have "x \<in> set (split_slash p) \<or> x = dotdot"
      using that clean_elems_subset [of r "[]" "split_slash p"] by auto
    ultimately show ?thesis using assms utf8_split [of p] by blast
  qed
  then have "utf8_valid (join_slash (clean_elems r [] (split_slash p)))" for r by (simp add: join)
  moreover have "utf8_valid (47 # q) \<longleftrightarrow> utf8_valid q" for q
    using utf8_append_ascii [of 47 "[]" q] by simp
  moreover have "utf8_valid dot" by (simp add: utf8_valid.simps(2))
  ultimately show ?thesis
    by (simp add: path_clean_def Let_def)
qed

section \<open>What a normalized path is\<close>

definition path_safe :: "bytes \<Rightarrow> bool" where
  "path_safe q \<longleftrightarrow> (\<forall>x \<in> set (split_slash q). \<not> bad_part x) \<and> 0 \<notin> set q \<and> 92 \<notin> set q \<and>
     utf8_valid q"

lemma path_safe_first:
  assumes "path_safe q"
  shows "q \<noteq> []" "q \<noteq> dot" "take 1 q \<noteq> [47]"
proof -
  from assms have g: "\<forall>x \<in> set (split_slash q). \<not> bad_part x" by (simp add: path_safe_def)
  show "q \<noteq> []" "q \<noteq> dot" using good_parts_first [OF g] by simp_all
  show "take 1 q \<noteq> [47]" using good_parts_first(1,2) [OF g] by (cases q) simp_all
qed

theorem normalize_safe:
  assumes "normalize p = Inr q"
  shows "path_safe q"
proof -
  from assms have q: "q = path_clean (to_slash p)" and u: "utf8_valid p" and z: "0 \<notin> set p"
    and g: "\<forall>x \<in> set (split_slash q). \<not> bad_part x"
    by (auto simp: normalize_def Let_def split: if_splits)
  have s: "set q \<subseteq> set (to_slash p) \<union> {46, 47}" unfolding q by (rule set_path_clean)
  have "0 \<notin> set (to_slash p)" "92 \<notin> set (to_slash p)"
    using z by (auto simp: to_slash_def split: if_splits)
  then have "0 \<notin> set q" "92 \<notin> set q" using s by auto
  moreover have "utf8_valid q" unfolding q by (intro utf8_path_clean utf8_to_slash u)
  ultimately show ?thesis using g by (simp add: path_safe_def)
qed

theorem normalize_fixed:
  assumes "path_safe q"
  shows "normalize q = Inr q"
  using assms path_safe_first [OF assms]
  by (simp add: normalize_def Let_def path_safe_def to_slash_id path_clean_good)

end
