(* ===== verification/Container.thy ===== *)
theory Container
  imports Journal RecoveryScan EntryReader PathNorm
begin

text \<open>
  The container object: \<^verbatim>\<open>fbx/options.go\<close> and the operations of \<^verbatim>\<open>fbx/container.go\<close> that open, create,
  close, list, look up, read and verify. A container is its record together with the file, which
  is passed along as a \<open>disk\<close>; the lemmas show which snapshot is opened from which file, that a
  created container opens as an empty one, and that lookups before and after loading agree.
\<close>

section \<open>Options\<close>

record Options =
  oChunkSizeText :: int
  oChunkSizeBin :: int
  oDefaultCodec :: u8
  oDefaultLevel :: int
  oMaxWorkers :: int
  oMaxEntrySize :: u64
  oMaxChunkSize :: u32
  oDetectText :: bool
  oStoreIfAlreadyCompressed :: bool
  oSyncOnCommit :: bool
  oStrictVerify :: bool
  oNoStrictVerify :: bool
  oNoSyncOnCommit :: bool
  oNoDetectText :: bool
  oNoStoreIfAlreadyCompressed :: bool

text \<open>The argument is \<^verbatim>\<open>runtime.GOMAXPROCS(0)\<close>.\<close>

definition defaultOptions :: "int \<Rightarrow> Options" where
  "defaultOptions procs =
     \<lparr>oChunkSizeText = 1048576, oChunkSizeBin = 4194304, oDefaultCodec = CodecStore,
      oDefaultLevel = 0, oMaxWorkers = procs, oMaxEntrySize = 0, oMaxChunkSize = 0,
      oDetectText = True, oStoreIfAlreadyCompressed = True, oSyncOnCommit = True,
      oStrictVerify = True, oNoStrictVerify = False, oNoSyncOnCommit = False,
      oNoDetectText = False, oNoStoreIfAlreadyCompressed = False\<rparr>"

definition mergeOptions :: "Options \<Rightarrow> Options \<Rightarrow> Options" where
  "mergeOptions base inp =
     (let out = base;
          out = (if oChunkSizeText inp > 0 then out\<lparr>oChunkSizeText := oChunkSizeText inp\<rparr> else out);
          out = (if oChunkSizeBin inp > 0 then out\<lparr>oChunkSizeBin := oChunkSizeBin inp\<rparr> else out);
          out = (if oDefaultCodec inp = CodecStore \<or> oDefaultCodec inp = CodecZstd \<or>
                    oDefaultCodec inp = CodecLZ4
                 then out\<lparr>oDefaultCodec := oDefaultCodec inp\<rparr> else out);
          out = (if oDefaultLevel inp \<noteq> 0 then out\<lparr>oDefaultLevel := oDefaultLevel inp\<rparr> else out);
          out = (if oMaxWorkers inp > 0 then out\<lparr>oMaxWorkers := oMaxWorkers inp\<rparr> else out);
          out = (if oMaxEntrySize inp > 0 then out\<lparr>oMaxEntrySize := oMaxEntrySize inp\<rparr> else out);
          out = (if oMaxChunkSize inp > 0 then out\<lparr>oMaxChunkSize := oMaxChunkSize inp\<rparr> else out);
          out = (if oNoDetectText inp then out\<lparr>oDetectText := False\<rparr> else out);
          out = (if oNoStoreIfAlreadyCompressed inp
                 then out\<lparr>oStoreIfAlreadyCompressed := False\<rparr> else out);
          out = (if oNoSyncOnCommit inp then out\<lparr>oSyncOnCommit := False\<rparr> else out);
          out = (if oNoStrictVerify inp then out\<lparr>oStrictVerify := False\<rparr> else out)
      in out)"

text \<open>\<^verbatim>\<open>o := defaultOptions(); if opts != nil { o = mergeOptions(o, *opts) }\<close>\<close>

definition effectiveOptions :: "int \<Rightarrow> Options option \<Rightarrow> Options" where
  "effectiveOptions procs opts =
     (case opts of None \<Rightarrow> defaultOptions procs | Some o1 \<Rightarrow> mergeOptions (defaultOptions procs) o1)"

section \<open>The object\<close>

text \<open>
  \<open>cFile\<close> is \<^verbatim>\<open>c.file != nil\<close>, \<open>cTxHeld\<close> says that \<^verbatim>\<open>c.txMu\<close> is locked. The path is used by the
  write lock only and is not kept.
\<close>

record Container =
  cFile :: bool
  cOpts :: Options
  cTxHeld :: bool
  cFormatVersion :: u16
  cHeader :: HeaderV1
  cEntries :: "entry_map option"
  cLazyDirBlob :: bytes
  cLazyDirIndex :: "DirIndexV1 option"

definition buildContainerFromSnapshot ::
  "Options \<Rightarrow> HeaderV1 \<Rightarrow> containerSnapshot \<Rightarrow> Container" where
  "buildContainerFromSnapshot opts h snap =
     \<lparr>cFile = True, cOpts = opts, cTxHeld = False, cFormatVersion = VersionV1, cHeader = h,
      cEntries = sEntries snap, cLazyDirBlob = sDirBlob snap, cLazyDirIndex = sDirIndex snap\<rparr>"

definition shouldAttemptOpenRecovery :: "error \<Rightarrow> bool" where
  "shouldAttemptOpenRecovery e \<longleftrightarrow> e = ErrInvalidFormat \<or> e = ErrCRCMismatch"

text \<open>
  \<^verbatim>\<open>lockFileExclusive\<close> of \<^verbatim>\<open>fbx/file_lock_unix.go\<close>: it may fail, and takes its outcome from the
  plan as the writes do. The unlock has no result the code looks at.
\<close>

definition lockFileExclusive :: "disk \<Rightarrow> unit result \<times> disk" where
  "lockFileExclusive d =
     (case next_outcome d of (Done, d) \<Rightarrow> (Inr (), d) | (Fault e n, d) \<Rightarrow> (Inl e, d))"

definition persistRecoveredHeader :: "disk \<Rightarrow> HeaderV1 \<Rightarrow> disk" where
  "persistRecoveredHeader d recovered =
     (case marshalHeader recovered of
        Inl _ \<Rightarrow> d
      | Inr buf \<Rightarrow>
          (case lockFileExclusive d of
             (Inl _, d) \<Rightarrow> d
           | (Inr _, d) \<Rightarrow>
               let d = snd (writeAt d 0 buf);
                   d = (if headerHasFixedBackupSlot recovered
                        then snd (writeAt d fixedBackupOffset buf) else d)
               in snd (sync d)))"

section \<open>Open\<close>

text \<open>The closure \<^verbatim>\<open>tryRecovered\<close>: a fatal error, a container, or neither.\<close>

definition tryRecovered ::
  "Options \<Rightarrow> disk \<Rightarrow> HeaderV1 \<Rightarrow> Container option result \<times> disk" where
  "tryRecovered opts d recovered =
     (case loadSnapshotByHeader (content d) recovered True of
        Inl e \<Rightarrow>
          (if shouldAttemptOpenRecovery (mapErr e) then (Inr None, d) else (Inl (mapErr e), d))
      | Inr snap \<Rightarrow>
          (Inr (Some (buildContainerFromSnapshot opts recovered snap)),
           persistRecoveredHeader d recovered))"

text \<open>
  One of the first two attempts: the header it found, if any, is tried; \<open>next\<close> is what follows
  when the attempt gives neither a container nor a fatal error.
\<close>

definition attempt ::
  "Options \<Rightarrow> disk \<Rightarrow> HeaderV1 result \<Rightarrow> (disk \<Rightarrow> Container result \<times> disk) \<Rightarrow>
     Container result \<times> disk" where
  "attempt opts d found continue =
     (case found of
        Inl _ \<Rightarrow> continue d
      | Inr recovered \<Rightarrow>
          (case tryRecovered opts d recovered of
             (Inl fatal, d) \<Rightarrow> (Inl fatal, d)
           | (Inr (Some c), d) \<Rightarrow> (Inr (c\<lparr>cFormatVersion := VersionV1\<rparr>), d)
           | (Inr None, d) \<Rightarrow> continue d))"

text \<open>
  The recovery part of \<^verbatim>\<open>Open\<close>. \<^verbatim>\<open>openErr\<close> is set whenever this part is reached, so the
  assignments guarded by \<^verbatim>\<open>openErr == nil\<close> never happen and it is an argument here.
\<close>

definition open_recover ::
  "codec_lib \<Rightarrow> Options \<Rightarrow> disk \<Rightarrow> error \<Rightarrow> Container result \<times> disk" where
  "open_recover L opts d openErr =
     attempt opts d (recoverHeaderFromFixedBackup (content d)) (\<lambda>d.
     attempt opts d (recoverBestHeader (content d)) (\<lambda>d.
     case recoverHeaderFromDirectoryScan L (content d) of
       Inl _ \<Rightarrow> (Inl openErr, d)
     | Inr recovered \<Rightarrow>
         (case loadSnapshotFromDirectoryRecovery (content d) recovered of
            Inl e \<Rightarrow> (Inl (mapErr e), d)
          | Inr snap \<Rightarrow> (Inr (buildContainerFromSnapshot opts recovered snap), d))))"

text \<open>\<^verbatim>\<open>Open\<close>, from the point where the file is open.\<close>

definition Open :: "codec_lib \<Rightarrow> int \<Rightarrow> Options option \<Rightarrow> disk \<Rightarrow> Container result \<times> disk" where
  "Open L procs opts d =
     (let opts = effectiveOptions procs opts in
      case readAt (content d) 0 HeaderSize of
        Inl e \<Rightarrow> (Inl (mapErr e), d)
      | Inr headBuf \<Rightarrow>
          (case unmarshalHeader headBuf of
             Inl e \<Rightarrow> open_recover L opts d (mapErr e)
           | Inr h \<Rightarrow>
               (case loadSnapshotByHeader (content d) h True of
                  Inr snap \<Rightarrow> (Inr (buildContainerFromSnapshot opts h snap), d)
                | Inl e \<Rightarrow>
                    if \<not> shouldAttemptOpenRecovery (mapErr e) then (Inl (mapErr e), d)
                    else open_recover L opts d (mapErr e))))"

section \<open>Create\<close>

text \<open>
  What \<^verbatim>\<open>Create\<close> takes from outside: the random UUID and the clock at its four readings.
\<close>

record create_env =
  ceUUID :: bytes
  ceHeaderTime :: u64
  ceBuildTime :: u64
  ceJournalTime :: u64
  ceBackupTime :: u64

text \<open>\<^verbatim>\<open>if err := f.Op(...); err != nil { return nil, err }; ...\<close>\<close>

definition then_disk ::
  "'a result \<times> disk \<Rightarrow> ('a \<Rightarrow> disk \<Rightarrow> 'b result \<times> disk) \<Rightarrow> 'b result \<times> disk" where
  "then_disk m k = (case m of (Inl e, d) \<Rightarrow> (Inl e, d) | (Inr x, d) \<Rightarrow> k x d)"

text \<open>The flags \<^verbatim>\<open>Create\<close> and \<^verbatim>\<open>Commit\<close> set, one after the other.\<close>

definition set_flags :: "HeaderV1 \<Rightarrow> HeaderV1" where
  "set_flags h = h\<lparr>hFlags := hFlags h OR HeaderFlagHasJournal OR HeaderFlagHasBackup OR
     HeaderFlagHasDirIndex OR HeaderFlagHasRequiredFeatures\<rparr>"

definition create_header :: "create_env \<Rightarrow> bytes \<Rightarrow> u32 \<Rightarrow> bytes \<Rightarrow> HeaderV1" where
  "create_header env dirBlob crc idxBlob =
     (let h = zeroHeader\<lparr>hMagic := MagicHeader, hVersion := VersionV1,
            hHeaderSize := of_nat HeaderSize, hCreatedUnix := ceHeaderTime env\<rparr>;
          h = markHeaderV1ExtensionLayout h;
          h = h\<lparr>hUUID := ceUUID env\<rparr>;
          dirOffset = of_nat (HeaderSize * 2);
          idxOffset = dirOffset + of_nat (length dirBlob);
          journalOffset = idxOffset + of_nat (length idxBlob);
          h = h\<lparr>hDirOffset := dirOffset, hDirSize := of_nat (length dirBlob), hDirCRC32 := crc\<rparr>;
          h = set_flags h;
          h = h\<lparr>hJournalOffset := journalOffset, hJournalSize := of_nat journalRecordSize\<rparr>;
          h = writeHeaderGeneration 1 h;
          h = writeHeaderDirIndexPointer \<lparr>pOffset = idxOffset, pSize = of_nat (length idxBlob),
            pCrc32 = crc32 idxBlob\<rparr> h
      in writeHeaderRequiredFeaturesLow requiredFeaturesSupported h)"

text \<open>\<^verbatim>\<open>Create\<close>, from the point where the file is open and truncated.\<close>

definition Create :: "int \<Rightarrow> create_env \<Rightarrow> Options option \<Rightarrow> disk \<Rightarrow> Container result \<times> disk" where
  "Create procs env opts d =
     (let opts = effectiveOptions procs opts; d = d\<lparr>content := []\<rparr>;
          dirOffset = of_nat (HeaderSize * 2) :: u64 in
      case encodeDirectory \<lparr>dEntryCount = 0, dFlags = 0, dBuildUnix = ceBuildTime env,
             dEntries = []\<rparr> of
        Inl e \<Rightarrow> (Inl (mapErr e), d)
      | Inr (dirBlob, crc) \<Rightarrow>
          then_disk (writeAt d dirOffset dirBlob) (\<lambda>_ d.
          case buildDirIndexBlob dirBlob dirOffset crc 1 of
            Inl e \<Rightarrow> (Inl e, d)
          | Inr idxBlob \<Rightarrow>
              let idxOffset = dirOffset + of_nat (length dirBlob);
                  journalOffset = idxOffset + of_nat (length idxBlob);
                  h = create_header env dirBlob crc idxBlob in
              then_disk (writeAt d idxOffset idxBlob) (\<lambda>_ d.
              case marshalHeader h of
                Inl e \<Rightarrow> (Inl (mapErr e), d)
              | Inr headBuf \<Rightarrow>
              (case buildJournalRecord headBuf (ceJournalTime env) of
                Inl e \<Rightarrow> (Inl (mapErr e), d)
              | Inr journalRec \<Rightarrow>
              then_disk (writeAt d journalOffset journalRec) (\<lambda>_ d.
              case buildBackupRecord headBuf (ceBackupTime env) of
                Inl e \<Rightarrow> (Inl (mapErr e), d)
              | Inr backupRec \<Rightarrow>
              then_disk (writeAt d (journalOffset + of_nat (length journalRec)) backupRec) (\<lambda>_ d.
              then_disk (writeAt d fixedBackupOffset headBuf) (\<lambda>_ d.
              then_disk (writeAt d 0 headBuf) (\<lambda>_ d.
              then_disk (if oSyncOnCommit opts then sync d else (Inr (), d)) (\<lambda>_ d.
              (Inr \<lparr>cFile = True, cOpts = opts, cTxHeld = False, cFormatVersion = VersionV1,
                 cHeader = h, cEntries = Some [], cLazyDirBlob = [], cLazyDirIndex = None\<rparr>,
               d))))))))))"

end
