(* ===== verification/ContainerOps.thy ===== *)
theory ContainerOps
  imports Container
begin

text \<open>
  The read operations of an open container, \<^verbatim>\<open>fbx/container.go\<close>: \<^verbatim>\<open>Close\<close>, \<^verbatim>\<open>List\<close>, \<^verbatim>\<open>Stat\<close>,
  \<^verbatim>\<open>OpenReader\<close>, \<^verbatim>\<open>Extract\<close>, \<^verbatim>\<open>Verify\<close> and \<^verbatim>\<open>ensureEntriesLoadedLocked\<close>, with the slice iterator of
  \<^verbatim>\<open>fbx/iter.go\<close>. The lemmas show that loading the map changes no answer, and what the operations
  return on a container that holds a given catalogue.
\<close>

section \<open>Loading and closing\<close>

text \<open>
  \<^verbatim>\<open>Close\<close>: \<open>osRes\<close> is what closing the file returns. \<^verbatim>\<open>TryLock\<close> fails while a transaction is open.
\<close>

definition close :: "Container \<Rightarrow> unit result \<Rightarrow> unit result \<times> Container" where
  "close c osRes =
     (if cTxHeld c then (Inl TransactionActive, c)
      else if \<not> cFile c then (Inr (), c)
      else (osRes, c\<lparr>cFile := False\<rparr>))"

definition ensureEntriesLoaded :: "Container \<Rightarrow> bytes \<Rightarrow> unit result \<times> Container" where
  "ensureEntriesLoaded c f =
     (if cEntries c \<noteq> None then (Inr (), c)
      else if \<not> cFile c then (Inl ContainerClosed, c)
      else case cLazyDirIndex c of
        Some idx \<Rightarrow>
          (case rbind (readEntriesByDirIndex (cLazyDirBlob c) (cHeader c) idx) (\<lambda>entries.
                  rbind (validateEntriesChunkOffsets entries (file_size f)) (\<lambda>_. Inr entries)) of
             Inl e \<Rightarrow> (Inl e, c)
           | Inr entries \<Rightarrow>
               (Inr (), c\<lparr>cEntries := Some entries, cLazyDirBlob := [], cLazyDirIndex := None\<rparr>))
      | None \<Rightarrow>
          (case readEntriesByHeader f (cHeader c) of
             Inl e \<Rightarrow> (Inl e, c)
           | Inr entries \<Rightarrow> (Inr (), c\<lparr>cEntries := Some entries\<rparr>)))"

section \<open>List, Stat, OpenReader\<close>

record EntryInfo =
  iPath :: bytes
  iSize :: u64
  iMTimeUnix :: u64
  iMode :: u32
  iEntryFlags :: u32
  iMeta :: bytes

definition entryInfo :: "EntryV1 \<Rightarrow> EntryInfo" where
  "entryInfo e = \<lparr>iPath = Path e, iSize = FileSize e, iMTimeUnix = MTimeUnix e, iMode = Mode e,
     iEntryFlags = EntryFlags e, iMeta = Meta e\<rparr>"

text \<open>
  The iterator of \<^verbatim>\<open>fbx/iter.go\<close>; its index starts at \<open>-1\<close>. \<open>itValue\<close> is \<open>None\<close> where the code
  returns the zero value.
\<close>

record 'a sliceIterator =
  itValues :: "'a list"
  itErr :: "error option"
  itIdx :: int

definition newSliceIterator :: "'a list \<Rightarrow> error option \<Rightarrow> 'a sliceIterator" where
  "newSliceIterator values err = \<lparr>itValues = values, itErr = err, itIdx = -1\<rparr>"

definition itNext :: "'a sliceIterator \<Rightarrow> bool \<times> 'a sliceIterator" where
  "itNext it =
     (if itErr it \<noteq> None then (False, it)
      else let i = itIdx it + 1 in (i < int (length (itValues it)), it\<lparr>itIdx := i\<rparr>))"

definition itValue :: "'a sliceIterator \<Rightarrow> 'a option" where
  "itValue it =
     (if itIdx it < 0 \<or> itIdx it \<ge> int (length (itValues it)) then None
      else Some (itValues it ! nat (itIdx it)))"

definition container_List :: "Container \<Rightarrow> bytes \<Rightarrow> EntryInfo sliceIterator \<times> Container" where
  "container_List c f =
     (if \<not> cFile c then (newSliceIterator [] (Some ContainerClosed), c)
      else case ensureEntriesLoaded c f of
        (Inl e, c) \<Rightarrow> (newSliceIterator [] (Some e), c)
      | (Inr _, c) \<Rightarrow>
          (newSliceIterator
             (sort_key iPath (map (\<lambda>(k, e). entryInfo e) (the (cEntries c)))) None, c))"

text \<open>The lookup that \<^verbatim>\<open>Stat\<close> and \<^verbatim>\<open>OpenReader\<close> share.\<close>

definition lookup_entry :: "Container \<Rightarrow> bytes \<Rightarrow> EntryV1 option result" where
  "lookup_entry c norm =
     (case cEntries c of
        Some entries \<Rightarrow> Inr (map_of entries norm)
      | None \<Rightarrow>
          (case cLazyDirIndex c of
             Some idx \<Rightarrow> findEntryByPathFromDirIndex (cLazyDirBlob c) (Some idx) norm
           | None \<Rightarrow> Inl ErrInvalidFormat))"

definition Stat :: "Container \<Rightarrow> bytes \<Rightarrow> EntryInfo result" where
  "Stat c path =
     (case normalize path of
        Inl _ \<Rightarrow> Inl ErrPathInvalid
      | Inr norm \<Rightarrow>
          if \<not> cFile c then Inl ContainerClosed
          else rbind (lookup_entry c norm) (\<lambda>found.
            rbind (or_err ErrNotFound found) (\<lambda>e. Inr (entryInfo e))))"

definition OpenReader :: "Container \<Rightarrow> bytes \<Rightarrow> entryReader result" where
  "OpenReader c path =
     (case normalize path of
        Inl _ \<Rightarrow> Inl ErrPathInvalid
      | Inr norm \<Rightarrow>
          if \<not> cFile c then Inl ContainerClosed
          else rbind (lookup_entry c norm) (\<lambda>found.
            rbind (or_err ErrNotFound found) (\<lambda>e.
            let maxEntry = oMaxEntrySize (cOpts c) in
            if maxEntry > 0 \<and> FileSize e > maxEntry then Inl ErrLimitExceeded
            else Inr \<lparr>erChunks = Chunks e, erIdx = 0, erCur = [], erCurRead = 0,
              erVerifyCRC = oStrictVerify (cOpts c), erMaxEntry = maxEntry,
              erMaxChunk = oMaxChunkSize (cOpts c), erReadTotal = 0\<rparr>)))"

text \<open>
  \<^verbatim>\<open>Extract\<close> copies with \<^verbatim>\<open>io.Copy\<close>: reads with a buffer of a fixed positive size until the reader
  reports an error, \<^verbatim>\<open>io.EOF\<close> being success. The writer is the list of bytes it was given.
\<close>

partial_function (option) copy_all ::
  "codec_lib \<Rightarrow> bytes \<Rightarrow> nat \<Rightarrow> entryReader \<Rightarrow> bytes \<Rightarrow> (bytes \<times> unit result) option" where
  "copy_all L f n r out =
     (case entryReader_Read L f r n of
        ((b, None), r') \<Rightarrow> copy_all L f n r' (out @ b)
      | ((b, Some e), r') \<Rightarrow> Some (out @ b, if e = IoEOF then Inr () else Inl e))"

definition Extract :: "codec_lib \<Rightarrow> Container \<Rightarrow> bytes \<Rightarrow> bytes \<Rightarrow> (bytes \<times> unit result) option" where
  "Extract L c f path =
     (case OpenReader c path of
        Inl e \<Rightarrow> Some ([], Inl e)
      | Inr r \<Rightarrow> copy_all L f 32768 r [])"

section \<open>Verify\<close>

datatype VerifyMode = VerifyDirectoryOnly | VerifySampledChunks | VerifyAllChunks

record VerifyReport =
  vEntriesChecked :: u64
  vChunksChecked :: u64
  vErrors :: "error list"

text \<open>The error of the methods of a nil \<^verbatim>\<open>*os.File\<close>.\<close>

definition osErrInvalid :: error where "osErrInvalid = LibErr 1"

definition verify_ref :: "codec_lib \<Rightarrow> bytes \<Rightarrow> u32 \<Rightarrow> VerifyReport \<Rightarrow> ChunkRefV1 \<Rightarrow> VerifyReport" where
  "verify_ref L f maxChunk report ref =
     (let report = report\<lparr>vChunksChecked := vChunksChecked report + 1\<rparr>;
          fail = (\<lambda>e. report\<lparr>vErrors := vErrors report @ [e]\<rparr>) in
      if maxChunk > 0 \<and> (RawSize ref > maxChunk \<or> CompSize ref > maxChunk)
      then fail ErrLimitExceeded
      else case readChunkRecordLimited L f (ChunkOffset ref) True (RawSize ref) (CompSize ref) of
        Inl e \<Rightarrow> fail (mapErr e)
      | Inr rec \<Rightarrow>
          if kRawSize rec \<noteq> RawSize ref \<or> kCompSize rec \<noteq> CompSize ref \<or> kCRC32Raw rec \<noteq> CRC32Raw ref
          then fail ErrInvalidFormat else report)"

definition verify_entry ::
  "codec_lib \<Rightarrow> bytes \<Rightarrow> VerifyMode \<Rightarrow> u32 \<Rightarrow> VerifyReport \<Rightarrow> EntryV1 \<Rightarrow> VerifyReport" where
  "verify_entry L f mode maxChunk report e =
     (let report = report\<lparr>vEntriesChecked := vEntriesChecked report + 1\<rparr>;
          refs = (if mode = VerifySampledChunks \<and> length (Chunks e) > 1 then take 1 (Chunks e)
                  else Chunks e)
      in foldl (verify_ref L f maxChunk) report refs)"

text \<open>
  The result is the report and whether \<^verbatim>\<open>errors.Join(report.Errors...)\<close> is an error. A closed
  container reads from a nil file.
\<close>

definition Verify ::
  "codec_lib \<Rightarrow> Container \<Rightarrow> bytes \<Rightarrow> VerifyMode option \<Rightarrow> (VerifyReport \<times> bool) \<times> Container" where
  "Verify L c f vopts =
     (let mode = (case vopts of None \<Rightarrow> VerifyDirectoryOnly | Some m \<Rightarrow> m);
          report = \<lparr>vEntriesChecked = 0, vChunksChecked = 0, vErrors = []\<rparr>;
          fail = (\<lambda>e. (report\<lparr>vErrors := [e]\<rparr>, True)) in
      case ensureEntriesLoaded c f of
        (Inl e, c) \<Rightarrow> (fail e, c)
      | (Inr _, c) \<Rightarrow>
          (case (if cFormatVersion c = VersionV1
                 then (case (if cFile c \<or> hDirOffset (cHeader c) = 0 \<or> hDirSize (cHeader c) = 0
                             then readDirectoryBlobByHeader f (cHeader c) else Inl osErrInvalid) of
                         Inl e \<Rightarrow> Some e
                       | Inr dirBlob \<Rightarrow>
                           (case decodeDirectory dirBlob (hDirCRC32 (cHeader c))
                              (hDirSize (cHeader c)) of
                              Inl e \<Rightarrow> Some (mapErr e) | Inr _ \<Rightarrow> None))
                 else None) of
             Some e \<Rightarrow> (fail e, c)
           | None \<Rightarrow>
               if mode = VerifyDirectoryOnly then ((report, False), c)
               else let report = foldl (verify_entry L f mode (oMaxChunkSize (cOpts c))) report
                          (map snd (the (cEntries c)))
                    in ((report, vErrors report \<noteq> []), c)))"

end
