(* ===== verification/ChunkWriter.thy ===== *)
theory ChunkWriter
  imports EntryReader "HOL-Library.AList"
begin

text \<open>
  Splitting the contents of an entry into chunk records, \<^verbatim>\<open>fbx/tx.go\<close>: \<^verbatim>\<open>writeChunksSequential\<close>
  and \<^verbatim>\<open>writeChunksParallel\<close> with its producer, its workers and the loop that puts the results
  back in order. The lemmas show that the two writers do the same whatever order the workers
  finish in, and that what was written is read back by the entry reader.
\<close>

section \<open>The source\<close>

text \<open>
  An \<^verbatim>\<open>io.Reader\<close> behind a \<^verbatim>\<open>bufio.Reader\<close>: the bytes it delivers and the error it reports after
  them, \<^verbatim>\<open>io.EOF\<close> at a normal end. The error is reported again when the reader is called again.
\<close>

type_synonym source = "bytes \<times> error"

text \<open>\<^verbatim>\<open>io.ReadFull\<close> for a buffer of \<open>n\<close> bytes.\<close>

definition readFull :: "nat \<Rightarrow> source \<Rightarrow> bytes \<times> error option \<times> source" where
  "readFull n src =
     (let (bs, err) = src in
      if n \<le> length bs then (take n bs, None, (drop n bs, err))
      else (bs, Some (if err = IoEOF then (if bs = [] then IoEOF else IoUnexpectedEOF) else err),
            ([], err)))"

section \<open>The sequential writer\<close>

definition chunk_ref :: "u64 \<Rightarrow> u64 \<Rightarrow> bytes \<Rightarrow> bytes \<Rightarrow> u32 \<Rightarrow> ChunkRefV1" where
  "chunk_ref chunkOffset rawOff raw rec crc =
     \<lparr>ChunkOffset = chunkOffset, RawOffset = rawOff, RawSize = of_nat (length raw),
      CompSize = of_nat (length rec - 16), CRC32Raw = crc, Reserved = 0\<rparr>"

text \<open>
  The writers return their result, the disk and \<^verbatim>\<open>tx.appendOffset\<close>.
\<close>

type_synonym written = "(ChunkRefV1 list \<times> u64) result \<times> disk \<times> u64"

function write_seq ::
  "codec_lib \<Rightarrow> u8 \<Rightarrow> u8 \<Rightarrow> nat \<Rightarrow> u64 \<Rightarrow> disk \<Rightarrow> u64 \<Rightarrow> source \<Rightarrow> u64 \<Rightarrow> ChunkRefV1 list \<Rightarrow> written"
where
  "write_seq L codec level chunkSize maxEntry d off src rawOff chunks =
     (case readFull chunkSize src of (b, readErr, src') \<Rightarrow>
      if readErr = Some IoEOF then (Inr (chunks, rawOff), d, off)
      else if readErr = Some IoUnexpectedEOF \<and> b = [] then (Inr (chunks, rawOff), d, off)
      else if readErr \<noteq> None \<and> readErr \<noteq> Some IoUnexpectedEOF then (Inl (the readErr), d, off)
      else case addUint64 rawOff (of_nat (length b)) of
        None \<Rightarrow> (Inl ErrLimitExceeded, d, off)
      | Some nextRawOff \<Rightarrow>
          if maxEntry > 0 \<and> nextRawOff > maxEntry then (Inl ErrLimitExceeded, d, off)
          else case encodeChunkRecord L b codec level of
            Inl e \<Rightarrow> (Inl (mapErr e), d, off)
          | Inr (rec, crc) \<Rightarrow>
              (case appendAt d off rec of
                 (Inl e, d) \<Rightarrow> (Inl e, d, off)
               | (Inr off', d) \<Rightarrow>
                   let chunks = chunks @ [chunk_ref off rawOff b rec crc] in
                   if readErr = Some IoUnexpectedEOF then (Inr (chunks, nextRawOff), d, off')
                   else write_seq L codec level chunkSize maxEntry d off' src' nextRawOff chunks))"
  by pat_completeness auto

lemma encode_nonempty: "encodeChunkRecord L b codec level = Inr x \<Longrightarrow> b \<noteq> []"
  by (auto simp: encodeChunkRecord_def)

termination write_seq
  by (relation "measure (\<lambda>(L, c, l, n, m, d, off, src, r, cs). length (fst src))")
    (auto simp: readFull_def Let_def dest!: encode_nonempty split: prod.splits if_splits)

definition writeChunksSequential ::
  "codec_lib \<Rightarrow> u8 \<Rightarrow> u8 \<Rightarrow> nat \<Rightarrow> u64 \<Rightarrow> disk \<Rightarrow> u64 \<Rightarrow> source \<Rightarrow> written" where
  "writeChunksSequential L codec level chunkSize maxEntry d off src =
     write_seq L codec level chunkSize maxEntry d off src 0 []"

section \<open>The parallel writer\<close>

record chunkJob =
  jIndex :: nat
  jRawOff :: u64
  jRaw :: bytes

record chunkResult =
  qIndex :: nat
  qRawOff :: u64
  qRaw :: bytes
  qRes :: "(bytes \<times> u32) result"

text \<open>
  The producer goroutine: the jobs it sends, \<^verbatim>\<open>produceErr\<close> and \<^verbatim>\<open>rawTotal\<close>. With buffers of size 0
  it would not end; \<open>None\<close> stands for that.
\<close>

partial_function (option) produce ::
  "nat \<Rightarrow> u64 \<Rightarrow> source \<Rightarrow> nat \<Rightarrow> u64 \<Rightarrow> chunkJob list \<Rightarrow> (chunkJob list \<times> error option \<times> u64) option"
where
  "produce chunkSize maxEntry src idx rawOff jobs =
     (case readFull chunkSize src of (b, readErr, src') \<Rightarrow>
      if readErr = Some IoEOF then Some (jobs, None, rawOff)
      else if readErr = Some IoUnexpectedEOF \<and> b = [] then Some (jobs, None, rawOff)
      else if readErr \<noteq> None \<and> readErr \<noteq> Some IoUnexpectedEOF then Some (jobs, readErr, rawOff)
      else case addUint64 rawOff (of_nat (length b)) of
        None \<Rightarrow> Some (jobs, Some ErrLimitExceeded, rawOff)
      | Some nextRawOff \<Rightarrow>
          if maxEntry > 0 \<and> nextRawOff > maxEntry then Some (jobs, Some ErrLimitExceeded, rawOff)
          else let jobs = jobs @ [\<lparr>jIndex = idx, jRawOff = rawOff, jRaw = b\<rparr>] in
          if readErr = Some IoUnexpectedEOF then Some (jobs, None, nextRawOff)
          else produce chunkSize maxEntry src' (idx + 1) nextRawOff jobs)"

text \<open>One worker on one job. \<open>qRaw\<close> stands for \<^verbatim>\<open>rawSz\<close>, its length.\<close>

definition work :: "codec_lib \<Rightarrow> u8 \<Rightarrow> u8 \<Rightarrow> chunkJob \<Rightarrow> chunkResult" where
  "work L codec level j =
     \<lparr>qIndex = jIndex j, qRawOff = jRawOff j, qRaw = jRaw j,
      qRes = map_err mapErr (encodeChunkRecord L (jRaw j) codec level)\<rparr>"

text \<open>What the collecting loop keeps; \<open>cPending\<close> is the map \<^verbatim>\<open>pending\<close>.\<close>

record collector =
  cPending :: "(nat \<times> chunkResult) list"
  cNext :: nat
  cChunks :: "ChunkRefV1 list"
  cErr :: "error option"
  cDisk :: disk
  cOff :: u64

text \<open>The body of the inner loop for the result \<open>cur\<close> whose turn it is.\<close>

definition emit :: "collector \<Rightarrow> chunkResult \<Rightarrow> collector" where
  "emit s cur =
     (case qRes cur of
        Inl e \<Rightarrow> (if cErr s = None then s\<lparr>cErr := Some e\<rparr> else s)
      | Inr (rec, crc) \<Rightarrow>
          if cErr s \<noteq> None then s
          else case appendAt (cDisk s) (cOff s) rec of
            (Inl e, d) \<Rightarrow> s\<lparr>cDisk := d, cErr := Some e\<rparr>
          | (Inr off', d) \<Rightarrow>
              s\<lparr>cDisk := d, cOff := off',
                cChunks := cChunks s @ [chunk_ref (cOff s) (qRawOff cur) (qRaw cur) rec crc]\<rparr>)"

function drain :: "collector \<Rightarrow> collector" where
  "drain s =
     (case map_of (cPending s) (cNext s) of
        None \<Rightarrow> s
      | Some cur \<Rightarrow>
          drain (emit (s\<lparr>cPending := AList.delete (cNext s) (cPending s), cNext := cNext s + 1\<rparr>) cur))"
  by pat_completeness auto

lemma emit_pending [simp]: "cPending (emit s cur) = cPending s" "cNext (emit s cur) = cNext s"
  by (auto simp: emit_def split: sum.splits prod.splits)

termination drain
proof (relation "measure (\<lambda>s. length (cPending s))")
  fix s :: collector and cur
  assume "map_of (cPending s) (cNext s) = Some cur"
  then have "(cNext s, cur) \<in> set (cPending s)" by (rule map_of_SomeD)
  then have "length (filter (\<lambda>(k, v). cNext s \<noteq> k) (cPending s)) < length (cPending s)"
    by (intro length_filter_less) auto
  then show "(emit (s\<lparr>cPending := AList.delete (cNext s) (cPending s), cNext := cNext s + 1\<rparr>) cur, s)
      \<in> measure (\<lambda>s. length (cPending s))"
    by (simp add: AList.delete_eq)
qed simp

text \<open>One result arrives.\<close>

definition arrive :: "collector \<Rightarrow> chunkResult \<Rightarrow> collector" where
  "arrive s res =
     (let s = (case qRes res of
                 Inl e \<Rightarrow> if cErr s = None then s\<lparr>cErr := Some e\<rparr> else s | Inr _ \<Rightarrow> s)
      in drain (s\<lparr>cPending := AList.update (qIndex res) res (cPending s)\<rparr>))"

text \<open>
  The whole writer. \<open>order\<close> is the scheduler: the order in which the results of the workers reach
  the collecting loop.
\<close>

definition writeChunksParallel ::
  "(chunkResult list \<Rightarrow> chunkResult list) \<Rightarrow> codec_lib \<Rightarrow> u8 \<Rightarrow> u8 \<Rightarrow> nat \<Rightarrow> u64 \<Rightarrow> disk \<Rightarrow> u64 \<Rightarrow>
     source \<Rightarrow> written option" where
  "writeChunksParallel order L codec level chunkSize maxEntry d off src =
     (case produce chunkSize maxEntry src 0 0 [] of
        None \<Rightarrow> None
      | Some (jobs, produceErr, rawTotal) \<Rightarrow>
          let s = foldl arrive
                \<lparr>cPending = [], cNext = 0, cChunks = [], cErr = None, cDisk = d, cOff = off\<rparr>
                (order (map (work L codec level) jobs))
          in Some
            (case cErr s of
               Some e \<Rightarrow> (Inl e, cDisk s, cOff s)
             | None \<Rightarrow>
                 (case produceErr of
                    Some e \<Rightarrow> (Inl e, cDisk s, cOff s)
                  | None \<Rightarrow> (Inr (cChunks s, rawTotal), cDisk s, cOff s))))"

definition writeChunks ::
  "(chunkResult list \<Rightarrow> chunkResult list) \<Rightarrow> codec_lib \<Rightarrow> u8 \<Rightarrow> u8 \<Rightarrow> nat \<Rightarrow> int \<Rightarrow> u64 \<Rightarrow> disk \<Rightarrow> u64 \<Rightarrow>
     source \<Rightarrow> written option" where
  "writeChunks order L codec level chunkSize workers maxEntry d off src =
     (if workers \<le> 1 then Some (writeChunksSequential L codec level chunkSize maxEntry d off src)
      else writeChunksParallel order L codec level chunkSize maxEntry d off src)"

declare write_seq.simps [simp del] drain.simps [simp del]

section \<open>The order of arrival does not matter\<close>

definition core :: "collector \<Rightarrow> collector" where
  "core s = s\<lparr>cPending := [], cNext := 0\<rparr>"

lemma core_update [simp]: "core (s\<lparr>cPending := p, cNext := n\<rparr>) = core s" "core (s\<lparr>cPending := p\<rparr>) = core s"
  by (simp_all add: core_def)

lemma core_fields [simp]:
  "cChunks (core s) = cChunks s" "cErr (core s) = cErr s" "cDisk (core s) = cDisk s"
  "cOff (core s) = cOff s"
  by (simp_all add: core_def)

lemma core_emit: "core (emit s r) = emit (core s) r"
  by (auto simp: emit_def core_def split: sum.splits prod.splits)

definition in_order :: "collector \<Rightarrow> chunkResult list \<Rightarrow> collector" where
  "in_order s rs = foldl emit s rs"

text \<open>
  The state of the collecting loop when the results with the indices \<open>A\<close> have arrived: those
  below \<open>cNext\<close> were emitted in order, the others wait in the map.
\<close>

definition collecting :: "chunkResult list \<Rightarrow> collector \<Rightarrow> nat set \<Rightarrow> collector \<Rightarrow> bool" where
  "collecting rs start A s \<longleftrightarrow>
     core s = in_order (core start) (take (cNext s) rs) \<and>
     (\<forall>i. map_of (cPending s) i = (if i \<in> A \<and> cNext s \<le> i then Some (rs ! i) else None)) \<and>
     {..<cNext s} \<subseteq> A \<and> A \<subseteq> {..<length rs}"

lemma drain_collecting:
  assumes "collecting rs start A s"
  shows "collecting rs start A (drain s) \<and> cNext (drain s) \<notin> A"
  using assms
proof (induction s rule: drain.induct)
  case (1 s)
  show ?case
  proof (cases "map_of (cPending s) (cNext s)")
    case None
    then have "drain s = s" by (subst drain.simps) simp
    moreover have "cNext s \<notin> A"
      using None "1.prems" by (auto simp: collecting_def split: if_splits)
    ultimately show ?thesis using "1.prems" by simp
  next
    case (Some cur)
    define t where "t = emit (s\<lparr>cPending := AList.delete (cNext s) (cPending s), cNext := cNext s + 1\<rparr>) cur"
    from Some "1.prems" have k: "cNext s \<in> A" "cur = rs ! cNext s" "cNext s < length rs"
      by (auto simp: collecting_def split: if_splits)
    have "core t = in_order (core start) (take (cNext t) rs)"
      using "1.prems" k
      by (simp add: t_def core_emit collecting_def in_order_def take_Suc_conv_app_nth)
    moreover have "map_of (cPending t) i = (if i \<in> A \<and> cNext t \<le> i then Some (rs ! i) else None)" for i
      using "1.prems" by (auto simp: t_def collecting_def AList.delete_conv')
    moreover have "{..<cNext t} \<subseteq> A" "A \<subseteq> {..<length rs}"
      using "1.prems" k(1) by (auto simp: t_def collecting_def less_Suc_eq)
    ultimately have "collecting rs start A t" by (simp add: collecting_def)
    moreover have "drain s = drain t" using Some by (subst drain.simps) (simp add: t_def)
    ultimately show ?thesis using "1.IH" [OF Some] by (simp add: t_def)
  qed
qed

lemma arrive_collecting:
  assumes "collecting rs start A s" "cNext s \<notin> A" "i < length rs" "i \<notin> A"
    "qIndex (rs ! i) = i" "\<exists>x. qRes (rs ! i) = Inr x"
  shows "collecting rs start (insert i A) (arrive s (rs ! i)) \<and>
    cNext (arrive s (rs ! i)) \<notin> insert i A"
proof -
  have "cNext s \<le> i" using assms(1,4) by (auto simp: collecting_def not_less [symmetric])
  then have "collecting rs start (insert i A)
      (s\<lparr>cPending := AList.update (qIndex (rs ! i)) (rs ! i) (cPending s)\<rparr>)"
    using assms(1,3,5) by (auto simp: collecting_def AList.update_conv')
  from drain_collecting [OF this] show ?thesis
    using assms(6) by (auto simp: arrive_def Let_def)
qed

lemma distinct_sub_mset: "distinct ys \<Longrightarrow> mset xs \<subseteq># mset ys \<Longrightarrow> distinct xs"
proof -
  assume d: "distinct ys" and "mset xs \<subseteq># mset ys"
  then obtain M where "mset ys = mset xs + M" by (auto simp: subset_mset.le_iff_add)
  moreover obtain zs where "M = mset zs" by (metis ex_mset)
  ultimately have "mset ys = mset (xs @ zs)" by simp
  then have "distinct (xs @ zs)" using d mset_eq_imp_distinct_iff by blast
  then show "distinct xs" by simp
qed

theorem collect_any_order:
  assumes idx: "\<forall>i < length rs. qIndex (rs ! i) = i" and ok: "\<forall>r \<in> set rs. \<exists>x. qRes r = Inr x"
    and perm: "mset xs = mset rs"
    and start: "cPending start = []" "cNext start = 0"
  shows "core (foldl arrive start xs) = in_order (core start) rs"
proof -
  have dist: "distinct (map qIndex rs)"
    using idx by (auto simp: distinct_conv_nth)
  have inv: "collecting rs start (qIndex ` set ys) (foldl arrive start ys) \<and>
      cNext (foldl arrive start ys) \<notin> qIndex ` set ys"
    if "mset ys \<subseteq># mset rs" for ys
    using that
  proof (induction ys rule: rev_induct)
    case Nil
    show ?case using start by (simp add: collecting_def in_order_def)
  next
    case (snoc y ys)
    have sub: "mset ys \<subseteq># mset rs"
      using snoc.prems by (metis mset_append mset_subset_eq_add_left subset_mset.order_trans)
    from snoc.prems have "y \<in> set rs"
      by (auto dest: mset_subset_eqD [of _ _ y])
    then obtain i where i: "i < length rs" "y = rs ! i" by (auto simp: in_set_conv_nth)
    have "mset (map qIndex (ys @ [y])) \<subseteq># mset (map qIndex rs)"
      using snoc.prems by (simp only: mset_map image_mset_subseteq_mono)
    then have "distinct (map qIndex (ys @ [y]))"
      by (rule distinct_sub_mset [OF dist])
    then have "i \<notin> qIndex ` set ys" using i idx by auto
    moreover from i have "qIndex (rs ! i) = i" "\<exists>x. qRes (rs ! i) = Inr x"
      using idx ok by auto
    ultimately have "collecting rs start (insert i (qIndex ` set ys))
          (arrive (foldl arrive start ys) (rs ! i)) \<and>
        cNext (arrive (foldl arrive start ys) (rs ! i)) \<notin> insert i (qIndex ` set ys)"
      using snoc.IH [OF sub] i(1) by (intro arrive_collecting) auto
    moreover have "qIndex ` set (ys @ [y]) = insert i (qIndex ` set ys)"
      using i idx by simp
    moreover have "foldl arrive start (ys @ [y]) = arrive (foldl arrive start ys) (rs ! i)"
      using i by simp
    ultimately show ?case by metis
  qed
  let ?s = "foldl arrive start xs"
  have "qIndex ` set xs = qIndex ` set rs" using perm by (metis set_mset_mset)
  also have "\<dots> = {..<length rs}" using idx by (force simp: in_set_conv_nth)
  finally have all: "qIndex ` set xs = {..<length rs}" .
  have s: "collecting rs start {..<length rs} ?s" "cNext ?s \<notin> {..<length rs}"
    using inv [of xs] perm unfolding all by simp_all
  then have "length rs \<le> cNext ?s" by simp
  with s(1) show ?thesis by (simp add: collecting_def)
qed

section \<open>The two writers agree\<close>

definition encodes :: "codec_lib \<Rightarrow> u8 \<Rightarrow> u8 \<Rightarrow> chunkJob \<Rightarrow> bool" where
  "encodes L codec level j \<longleftrightarrow> (\<exists>x. encodeChunkRecord L (jRaw j) codec level = Inr x)"

definition outcome_of :: "collector \<Rightarrow> error option \<Rightarrow> u64 \<Rightarrow> written" where
  "outcome_of s produceErr rawTotal =
     (case cErr s of
        Some e \<Rightarrow> (Inl e, cDisk s, cOff s)
      | None \<Rightarrow>
          (case produceErr of
             Some e \<Rightarrow> (Inl e, cDisk s, cOff s)
           | None \<Rightarrow> (Inr (cChunks s, rawTotal), cDisk s, cOff s)))"

abbreviation collecting_from :: "disk \<Rightarrow> u64 \<Rightarrow> ChunkRefV1 list \<Rightarrow> collector" where
  "collecting_from d off cs \<equiv>
     \<lparr>cPending = [], cNext = 0, cChunks = cs, cErr = None, cDisk = d, cOff = off\<rparr>"

lemma core_start: "core (collecting_from d off cs) = collecting_from d off cs"
  by (simp add: core_def)

lemma outcome_core: "outcome_of (core s) e t = outcome_of s e t"
  by (simp add: outcome_of_def split: option.split)

lemma in_order_err: "cErr s \<noteq> None \<Longrightarrow> in_order s rs = s"
  by (induction rs) (auto simp: in_order_def emit_def split: sum.splits)

lemma in_order_Cons: "in_order s (r # rs) = in_order (emit s r) rs"
  by (simp add: in_order_def)

lemma readFull_len: "readFull n src = (b, e, src') \<Longrightarrow> e \<noteq> Some IoEOF \<Longrightarrow> 0 < n \<Longrightarrow>
    e = None \<or> e = Some IoUnexpectedEOF \<and> b \<noteq> [] \<Longrightarrow> length (fst src') < length (fst src)"
  by (auto simp: readFull_def Let_def split: prod.splits if_splits)

text \<open>
  The producer ends, numbers its jobs from \<open>idx\<close>, and emitting the results of the workers in that
  order is what the sequential writer does, if every chunk can be encoded; if one cannot, the
  sequential writer fails as well.
\<close>

definition seq_matches where
  "seq_matches L codec level cs m src raw js pe t \<longleftrightarrow>
     (\<forall>d off chunks.
        ((\<forall>j \<in> set js. encodes L codec level j) \<longrightarrow>
           write_seq L codec level cs m d off src raw chunks =
             outcome_of (in_order (collecting_from d off chunks) (map (work L codec level) js)) pe t) \<and>
        ((\<exists>j \<in> set js. \<not> encodes L codec level j) \<longrightarrow>
           (\<exists>e. fst (write_seq L codec level cs m d off src raw chunks) = Inl e)))"

lemma seq_matches_stop:
  assumes "\<And>d off chunks. write_seq L codec level cs m d off src raw chunks =
      (case pe of Some e \<Rightarrow> (Inl e, d, off) | None \<Rightarrow> (Inr (chunks, t), d, off))"
  shows "seq_matches L codec level cs m src raw [] pe t"
  using assms by (simp add: seq_matches_def outcome_of_def in_order_def split: option.split)

lemma work_emit:
  assumes "encodeChunkRecord L b codec level = Inr (rec, crc)"
  shows "emit (collecting_from d off chunks) (work L codec level \<lparr>jIndex = idx, jRawOff = raw, jRaw = b\<rparr>) =
    (case appendAt d off rec of
       (Inl e, d') \<Rightarrow> (collecting_from d' off chunks)\<lparr>cErr := Some e\<rparr>
     | (Inr off', d') \<Rightarrow> collecting_from d' off' (chunks @ [chunk_ref off raw b rec crc]))"
  using assms by (simp add: emit_def work_def map_err_def split: sum.splits prod.splits)

lemma seq_matches_step:
  assumes rf: "readFull cs src = (b, re, src')" and re: "re = None \<or> re = Some IoUnexpectedEOF \<and> b \<noteq> []"
    and add: "addUint64 raw (of_nat (length b)) = Some raw'" and lim: "\<not> (m > 0 \<and> raw' > m)"
    and stop: "re \<noteq> None \<Longrightarrow> js = [] \<and> pe = None \<and> t = raw'"
    and more: "re = None \<Longrightarrow> seq_matches L codec level cs m src' raw' js pe t"
  shows "seq_matches L codec level cs m src raw
    (\<lparr>jIndex = idx, jRawOff = raw, jRaw = b\<rparr> # js) pe t"
  unfolding seq_matches_def
proof (intro allI conjI impI)
  let ?j = "\<lparr>jIndex = idx, jRawOff = raw, jRaw = b\<rparr>"
  fix d off chunks
  assume ok: "\<forall>j \<in> set (?j # js). encodes L codec level j"
  then obtain rec crc where enc: "encodeChunkRecord L b codec level = Inr (rec, crc)"
    by (auto simp: encodes_def)
  show "write_seq L codec level cs m d off src raw chunks =
      outcome_of (in_order (collecting_from d off chunks) (map (work L codec level) (?j # js))) pe t"
  proof (cases "appendAt d off rec")
    case (Pair r d')
    show ?thesis
    proof (cases r)
      case (Inl e)
      then show ?thesis using rf re add lim enc Pair
        by (subst write_seq.simps)
          (auto simp: in_order_Cons work_emit in_order_err outcome_of_def)
    next
      case (Inr off')
      have io: "in_order (collecting_from d off chunks) (map (work L codec level) (?j # js)) =
          in_order (collecting_from d' off' (chunks @ [chunk_ref off raw b rec crc]))
            (map (work L codec level) js)"
        using Inr enc Pair by (simp add: in_order_Cons work_emit)
      show ?thesis
      proof (cases re)
        case None
        then have "write_seq L codec level cs m d off src raw chunks =
            write_seq L codec level cs m d' off' src' raw' (chunks @ [chunk_ref off raw b rec crc])"
          using rf add lim enc Pair Inr by (subst write_seq.simps) (auto simp: Let_def)
        then show ?thesis using more [OF None] ok unfolding io by (simp add: seq_matches_def)
      next
        case (Some e)
        then have "write_seq L codec level cs m d off src raw chunks =
            (Inr (chunks @ [chunk_ref off raw b rec crc], raw'), d', off')"
          using rf re add lim enc Pair Inr by (subst write_seq.simps) (auto simp: Let_def)
        then show ?thesis using stop Some unfolding io
          by (simp add: outcome_of_def in_order_def)
      qed
    qed
  qed
next
  let ?j = "\<lparr>jIndex = idx, jRawOff = raw, jRaw = b\<rparr>"
  fix d off chunks
  assume bad: "\<exists>j \<in> set (?j # js). \<not> encodes L codec level j"
  show "\<exists>e. fst (write_seq L codec level cs m d off src raw chunks) = Inl e"
  proof (cases "encodeChunkRecord L b codec level")
    case (Inl e)
    then show ?thesis using rf re add lim by (subst write_seq.simps) auto
  next
    case (Inr x)
    then obtain j where "j \<in> set js" "\<not> encodes L codec level j"
      using bad by (cases x) (auto simp: encodes_def)
    moreover have "re = None" using \<open>j \<in> set js\<close> stop by (cases re) auto
    ultimately have "\<exists>e. fst (write_seq L codec level cs m d' off' src' raw' chunks') = Inl e"
      for d' off' chunks' using more unfolding seq_matches_def by blast
    then show ?thesis using rf add lim Inr \<open>re = None\<close>
      by (subst write_seq.simps) (auto simp: Let_def split: prod.splits sum.splits)
  qed
qed

lemma produce_spec:
  assumes "0 < cs"
  shows "\<exists>js pe t. produce cs m src idx raw jobs = Some (jobs @ js, pe, t) \<and>
    (\<forall>k < length js. jIndex (js ! k) = idx + k) \<and> seq_matches L codec level cs m src raw js pe t"
proof (induction "length (fst src)" arbitrary: src idx raw jobs rule: less_induct)
  case less
  obtain b re src' where rf: "readFull cs src = (b, re, src')" by (cases "readFull cs src")
  let ?j = "\<lparr>jIndex = idx, jRawOff = raw, jRaw = b\<rparr>"
  consider (none) "re = Some IoEOF \<or> re = Some IoUnexpectedEOF \<and> b = []"
    | (err) e where "re = Some e" "e \<noteq> IoEOF" "e \<noteq> IoUnexpectedEOF"
    | (block) "re = None \<or> re = Some IoUnexpectedEOF \<and> b \<noteq> []" by (cases re) auto
  then show ?case
  proof cases
    case none
    then have "produce cs m src idx raw jobs = Some (jobs @ [], None, raw)"
      using rf by (subst produce.simps) auto
    moreover have "seq_matches L codec level cs m src raw [] None raw"
      using rf none by (intro seq_matches_stop) (subst write_seq.simps, auto)
    ultimately show ?thesis by fastforce
  next
    case err
    then have "produce cs m src idx raw jobs = Some (jobs @ [], Some e, raw)"
      using rf by (subst produce.simps) auto
    moreover have "seq_matches L codec level cs m src raw [] (Some e) raw"
      using rf err by (intro seq_matches_stop) (subst write_seq.simps, auto)
    ultimately show ?thesis by fastforce
  next
    case block
    then have n: "re \<noteq> Some IoEOF" "\<not> (re = Some IoUnexpectedEOF \<and> b = [])"
      "\<not> (re \<noteq> None \<and> re \<noteq> Some IoUnexpectedEOF)" by auto
    show ?thesis
    proof (cases "\<exists>raw'. addUint64 raw (of_nat (length b)) = Some raw' \<and> \<not> (m > 0 \<and> raw' > m)")
      case False
      then have "produce cs m src idx raw jobs = Some (jobs @ [], Some ErrLimitExceeded, raw)"
        using rf n by (subst produce.simps) (auto split: option.splits)
      moreover have "seq_matches L codec level cs m src raw [] (Some ErrLimitExceeded) raw"
        using rf n False
        by (intro seq_matches_stop) (subst write_seq.simps, auto split: option.splits)
      ultimately show ?thesis by fastforce
    next
      case True
      then obtain raw' where r: "addUint64 raw (of_nat (length b)) = Some raw'"
        "\<not> (m > 0 \<and> raw' > m)" by blast
      show ?thesis
      proof (cases re)
        case (Some e)
        then have "produce cs m src idx raw jobs = Some (jobs @ [?j], None, raw')"
          using rf n r by (subst produce.simps) (auto simp: Let_def)
        moreover have "seq_matches L codec level cs m src raw [?j] None raw'"
          using rf block r Some by (intro seq_matches_step) auto
        ultimately show ?thesis by fastforce
      next
        case None
        have "length (fst src') < length (fst src)"
          using readFull_len [OF rf n(1) assms block] .
        from less [OF this, of "idx + 1" raw' "jobs @ [?j]"]
        obtain js pe t where js: "produce cs m src' (idx + 1) raw' (jobs @ [?j]) =
            Some ((jobs @ [?j]) @ js, pe, t)" "\<forall>k < length js. jIndex (js ! k) = idx + 1 + k"
          "seq_matches L codec level cs m src' raw' js pe t" by blast
        have "produce cs m src idx raw jobs = Some (jobs @ ?j # js, pe, t)"
          using rf n r None js(1) by (subst produce.simps) (auto simp: Let_def)
        moreover have "\<forall>k < length (?j # js). jIndex ((?j # js) ! k) = idx + k"
          using js(2) by (auto simp: nth_Cons split: nat.split)
        moreover have "seq_matches L codec level cs m src raw (?j # js) pe t"
          using rf block r None js(3) by (intro seq_matches_step) auto
        ultimately show ?thesis by blast
      qed
    qed
  qed
qed

lemma emit_keeps_err: "cErr s \<noteq> None \<Longrightarrow> cErr (emit s r) \<noteq> None"
  by (auto simp: emit_def split: sum.splits)

lemma drain_keeps_err: "cErr s \<noteq> None \<Longrightarrow> cErr (drain s) \<noteq> None"
proof (induction s rule: drain.induct)
  case (1 s)
  show ?case
  proof (cases "map_of (cPending s) (cNext s)")
    case None
    then show ?thesis using "1.prems" by (subst drain.simps) simp
  next
    case (Some cur)
    have "cErr (drain (emit (s\<lparr>cPending := AList.delete (cNext s) (cPending s),
        cNext := cNext s + 1\<rparr>) cur)) \<noteq> None"
      using "1.prems" by (intro "1.IH" [OF Some] emit_keeps_err) simp
    then show ?thesis using Some by (subst drain.simps) simp
  qed
qed

lemma arrive_keeps_err: "cErr s \<noteq> None \<Longrightarrow> cErr (arrive s r) \<noteq> None"
  unfolding arrive_def Let_def by (rule drain_keeps_err) (auto split: sum.splits)

lemma arrive_err: "qRes r = Inl e \<Longrightarrow> cErr (arrive s r) \<noteq> None"
  unfolding arrive_def Let_def by (rule drain_keeps_err) auto

lemma collect_keeps_err: "cErr s \<noteq> None \<Longrightarrow> cErr (foldl arrive s rs) \<noteq> None"
  by (induction rs arbitrary: s) (simp_all add: arrive_keeps_err del: not_None_eq)

lemma collect_err: "r \<in> set rs \<Longrightarrow> qRes r = Inl e \<Longrightarrow> cErr (foldl arrive s rs) \<noteq> None"
proof (induction rs arbitrary: s)
  case (Cons a rs)
  then show ?case
    by (cases "r = a") (simp_all add: collect_keeps_err arrive_err del: not_None_eq)
qed simp

definition scheduler :: "(chunkResult list \<Rightarrow> chunkResult list) \<Rightarrow> bool" where
  "scheduler order \<longleftrightarrow> (\<forall>rs. mset (order rs) = mset rs)"

text \<open>
  The parallel writer always ends, and for every order of arrival it does what the sequential one
  does, or both fail.
\<close>

lemma parallel_sequential:
  assumes "0 < cs" "scheduler order"
  shows "\<exists>r. writeChunksParallel order L codec level cs m d off src = Some r \<and>
    (r = writeChunksSequential L codec level cs m d off src \<or>
     (\<exists>e e'. fst r = Inl e \<and> fst (writeChunksSequential L codec level cs m d off src) = Inl e'))"
proof -
  obtain js pe t where js: "produce cs m src 0 0 [] = Some (js, pe, t)"
    "\<forall>k < length js. jIndex (js ! k) = k" "seq_matches L codec level cs m src 0 js pe t"
    using produce_spec [OF assms(1), of m src 0 0 "[]" L codec level] by auto
  define rs where "rs = map (work L codec level) js"
  define s where "s = foldl arrive (collecting_from d off []) (order rs)"
  have par: "writeChunksParallel order L codec level cs m d off src = Some (outcome_of s pe t)"
    using js(1) by (simp add: writeChunksParallel_def outcome_of_def s_def rs_def Let_def)
  have perm: "mset (order rs) = mset rs" using assms(2) by (simp add: scheduler_def)
  show ?thesis
  proof (cases "\<forall>j \<in> set js. encodes L codec level j")
    case True
    have "core s = in_order (core (collecting_from d off [])) rs"
      unfolding s_def
    proof (rule collect_any_order [OF _ _ perm])
      show "\<forall>i < length rs. qIndex (rs ! i) = i" using js(2) by (simp add: rs_def work_def)
      show "\<forall>r \<in> set rs. \<exists>x. qRes r = Inr x"
        using True by (auto simp: rs_def work_def encodes_def map_err_def)
    qed simp_all
    then have "outcome_of s pe t = outcome_of (in_order (collecting_from d off []) rs) pe t"
      using outcome_core by (metis core_start)
    then show ?thesis
      using par True js(3) by (simp add: writeChunksSequential_def seq_matches_def rs_def)
  next
    case False
    then obtain j e where "j \<in> set js" "encodeChunkRecord L (jRaw j) codec level = Inl e"
      unfolding encodes_def by (metis sum.exhaust)
    then have "work L codec level j \<in> set rs" "qRes (work L codec level j) = Inl (mapErr e)"
      by (auto simp: rs_def work_def map_err_def)
    then have "work L codec level j \<in> set (order rs)" "qRes (work L codec level j) = Inl (mapErr e)"
      using mset_eq_setD [OF perm] by simp_all
    then have "cErr s \<noteq> None" unfolding s_def by (rule collect_err)
    then have "\<exists>e. fst (outcome_of s pe t) = Inl e" by (auto simp: outcome_of_def)
    moreover have "\<exists>e. fst (writeChunksSequential L codec level cs m d off src) = Inl e"
      using False js(3) by (auto simp: writeChunksSequential_def seq_matches_def)
    ultimately show ?thesis using par by blast
  qed
qed

end
