(* ===== verification/Sniff.thy ===== *)
theory Sniff
  imports PathNorm
begin

text \<open>
  Guessing the kind of an entry from its path and its first bytes, \<^verbatim>\<open>fbx/tx.go\<close>: \<^verbatim>\<open>detectText\<close>,
  \<^verbatim>\<open>textExt\<close>, \<^verbatim>\<open>looksCompressed\<close> and \<^verbatim>\<open>compressedExt\<close>, with \<^verbatim>\<open>filepath.Ext\<close> and
  \<^verbatim>\<open>strings.ToLower\<close>. The lemmas say what the extension of a path is and that the guess about
  compressed data depends on no byte after the twelfth.
\<close>

section \<open>Extensions\<close>

text \<open>\<^verbatim>\<open>filepath.Ext\<close> goes backwards to the last dot of the last element.\<close>

fun ext_back :: "bytes \<Rightarrow> bytes \<Rightarrow> bytes" where
  "ext_back [] acc = []"
| "ext_back (c # r) acc = (if c = 47 then [] else if c = 46 then c # acc else ext_back r (c # acc))"

definition path_ext :: "bytes \<Rightarrow> bytes" where "path_ext p = ext_back (rev p) []"

text \<open>
  \<^verbatim>\<open>strings.ToLower\<close>, for comparison with ASCII text: the letters, and the two characters outside
  ASCII that have an ASCII lower case, the dotted capital I and the Kelvin sign. What else is not
  ASCII stays so.
\<close>

fun to_lower :: "bytes \<Rightarrow> bytes" where
  "to_lower [] = []"
| "to_lower (c # s) =
     (case s of
        b # s' \<Rightarrow>
          (if c = 0xC4 \<and> b = 0xB0 then 105 # to_lower s'
           else (case s' of
             a # s'' \<Rightarrow>
               (if c = 0xE2 \<and> b = 0x84 \<and> a = 0xAA then 107 # to_lower s''
                else (if 65 \<le> c \<and> c \<le> 90 then c + 32 else c) # to_lower s)
           | [] \<Rightarrow> (if 65 \<le> c \<and> c \<le> 90 then c + 32 else c) # to_lower s))
      | [] \<Rightarrow> [if 65 \<le> c \<and> c \<le> 90 then c + 32 else c])"

definition ascii :: "string \<Rightarrow> bytes" where "ascii s = map of_char s"

definition textExt :: "bytes \<Rightarrow> bool" where
  "textExt p \<longleftrightarrow> to_lower (path_ext p) \<in> set (map ascii
     [''.txt'', ''.md'', ''.json'', ''.xml'', ''.html'', ''.htm'', ''.csv'', ''.yaml'', ''.yml'',
      ''.fb2'', ''.opf'', ''.css'', ''.js''])"

definition compressedExt :: "bytes \<Rightarrow> bool" where
  "compressedExt p \<longleftrightarrow> to_lower (path_ext p) \<in> set (map ascii
     [''.jpg'', ''.jpeg'', ''.png'', ''.gif'', ''.webp'', ''.avif'', ''.heic'', ''.zip'', ''.gz'',
      ''.bz2'', ''.xz'', ''.7z'', ''.mp3'', ''.m4a'', ''.aac'', ''.ogg'', ''.mp4'', ''.mkv'',
      ''.pdf''])"

section \<open>The first bytes\<close>

definition printable :: "u8 \<Rightarrow> bool" where
  "printable b \<longleftrightarrow> b = 10 \<or> b = 13 \<or> b = 9 \<or> 32 \<le> b \<and> b \<le> 126"

definition detectText :: "bytes \<Rightarrow> bytes \<Rightarrow> bool" where
  "detectText path probe =
     (if textExt path then True
      else if length probe = 0 then False
      else if 0 \<in> set probe then False
      else if \<not> utf8_valid probe then False
      else length (filter printable probe) * 100 div length probe \<ge> 85)"

definition looksCompressed :: "bytes \<Rightarrow> bytes \<Rightarrow> bool" where
  "looksCompressed path probe \<longleftrightarrow>
     compressedExt path \<or>
     length probe \<ge> 2 \<and> take 2 probe \<in> {[0xFF, 0xD8], [0x1F, 0x8B]} \<or>
     length probe \<ge> 4 \<and>
       (take 4 probe = [0x89, 0x50, 0x4E, 0x47] \<or>
        probe ! 0 = 0x50 \<and> probe ! 1 = 0x4B \<and> (probe ! 2 = 3 \<or> probe ! 2 = 5 \<or> probe ! 2 = 7) \<and>
          (probe ! 3 = 4 \<or> probe ! 3 = 6 \<or> probe ! 3 = 8) \<or>
        length probe \<ge> 12 \<and> take 4 probe = ascii ''RIFF'' \<and>
          take 4 (drop 8 probe) = ascii ''WEBP'')"

lemma ext_back_spec:
  "46 \<notin> set x \<Longrightarrow> 47 \<notin> set x \<Longrightarrow> ext_back (rev x @ [46] @ r) acc = 46 # x @ acc"
proof (induction x arbitrary: acc rule: rev_induct)
  case (snoc c x)
  then show ?case by simp
qed simp

lemma path_ext_spec: "46 \<notin> set x \<Longrightarrow> 47 \<notin> set x \<Longrightarrow> path_ext (p @ 46 # x) = 46 # x"
  using ext_back_spec [of x "rev p" "[]"] by (simp add: path_ext_def)

lemma looksCompressed_probe:
  assumes "take 12 probe = take 12 probe'"
  shows "looksCompressed path probe = looksCompressed path probe'"
proof -
  have t: "take k probe = take k probe'" if "k \<le> 12" for k
    using assms that by (metis min.absorb1 take_take)
  have n: "probe ! k = probe' ! k" if "k < 12" for k
    using assms that by (metis nth_take)
  have l: "k \<le> length probe \<longleftrightarrow> k \<le> length probe'" if "k \<le> 12" for k
    using arg_cong [OF assms, of length] that by (auto simp: min_def split: if_splits)
  have d: "take 4 (drop 8 probe) = take 4 (drop 8 probe')"
    using arg_cong [OF assms, of "drop 8"] by (simp add: drop_take)
  show ?thesis by (simp add: looksCompressed_def t n l d)
qed

end
