(* ===== verification/Tx.thy ===== *)
theory Tx
  imports ContainerOps ChunkWriter Sniff
begin

text \<open>
  Transactions, \<^verbatim>\<open>fbx/tx.go\<close>: the transaction object, the writing of an entry and the operations
  that change the table of entries in memory. \<^verbatim>\<open>Commit\<close> is in \<open>Commit\<close>. The lemmas show that the
  operations are the updates of a finite map, what they add to the compaction counters, and that
  they only write behind the end of the committed file.
\<close>

section \<open>The transaction\<close>

text \<open>
  \<open>tFileLocked\<close> is \<^verbatim>\<open>tx.fileWriteLocked\<close>, \<open>tPathLocked\<close> is \<^verbatim>\<open>tx.unlockWritePath != nil\<close>. A Go map
  is an association list; the order of the list stands for the order in which a \<^verbatim>\<open>range\<close> over the
  map happens to run.
\<close>

record Tx =
  tEntries :: entry_map
  tAppendOffset :: u64
  tDeadBytes :: u64
  tChurnOps :: u64
  tClosed :: bool
  tFileLocked :: bool
  tPathLocked :: bool

fun stored_bytes :: "ChunkRefV1 list \<Rightarrow> u64 \<Rightarrow> u64" where
  "stored_bytes [] acc = acc"
| "stored_bytes (ch # chs) acc =
     stored_bytes chs (saturatingAddUint64 acc (ucast (CompSize ch) + 16))"

definition entryStoredBytes :: "EntryV1 \<Rightarrow> u64" where
  "entryStoredBytes e = stored_bytes (Chunks e) 0"

definition markObsolete :: "EntryV1 \<Rightarrow> Tx \<Rightarrow> Tx" where
  "markObsolete e tx =
     tx\<lparr>tDeadBytes := saturatingAddUint64 (tDeadBytes tx) (entryStoredBytes e),
        tChurnOps := saturatingAddUint64 (tChurnOps tx) 1\<rparr>"

section \<open>Writing an entry\<close>

record WriteOptions =
  wCodec :: u8
  wLevel :: int
  wChunkSize :: int
  wMTimeUnix :: u64
  wMode :: u32
  wFlags :: u32

definition EntryFlagIsBinary :: u32 where "EntryFlagIsBinary = 1"
definition EntryFlagIsText :: u32 where "EntryFlagIsText = 2"

text \<open>What an operation takes from outside: the codecs, the clock, the order the workers finish in.\<close>

record env =
  nLib :: codec_lib
  nNow :: u64
  nOrder :: "chunkResult list \<Rightarrow> chunkResult list"

text \<open>The local variables of \<^verbatim>\<open>writeEntry\<close> when the chunks are about to be written.\<close>

record write_params =
  wpCodec :: u8
  wpLevel :: u8
  wpChunkSize :: int
  wpMTime :: u64
  wpMode :: u32
  wpFlags :: u32
  wpWorkers :: int

text \<open>The options and the content decide the text flag: \<open>(isText, flags)\<close>.\<close>

definition classify :: "Options \<Rightarrow> bytes \<Rightarrow> bytes \<Rightarrow> u32 \<Rightarrow> bool \<times> u32" where
  "classify opts path probe flags =
     (if flags AND EntryFlagIsText \<noteq> 0 then (True, flags)
      else if flags AND EntryFlagIsBinary \<noteq> 0 then (False, flags)
      else if oDetectText opts then
        (let isText = detectText path probe
         in (isText, flags OR (if isText then EntryFlagIsText else EntryFlagIsBinary)))
      else (False, flags))"

definition pick_chunk_size :: "Options \<Rightarrow> bool \<Rightarrow> int option \<Rightarrow> int result" where
  "pick_chunk_size opts isText explicit =
     (let chunkSize =
            (case explicit of
               Some n \<Rightarrow> n
             | None \<Rightarrow>
                 if isText \<and> oChunkSizeText opts > 0 then oChunkSizeText opts
                 else oChunkSizeBin opts);
          chunkSize = (if chunkSize \<le> 0 then 4194304 else chunkSize);
          maxChunk = uint (oMaxChunkSize opts) in
      if maxChunk > 0 then
        (let chunkSize = (if chunkSize > maxChunk then maxChunk else chunkSize)
         in if chunkSize \<le> 0 then Inl ErrLimitExceeded else Inr chunkSize)
      else Inr chunkSize)"

definition write_entry_params ::
  "env \<Rightarrow> Options \<Rightarrow> bytes \<Rightarrow> bytes \<Rightarrow> WriteOptions option \<Rightarrow> write_params result" where
  "write_entry_params env opts path probe wopts =
     (let explicitSize = (case wopts of Some w \<Rightarrow> if wChunkSize w > 0 then Some (wChunkSize w) else None
                                      | None \<Rightarrow> None);
          explicitCodec = (case wopts of Some w \<Rightarrow> wCodec w = CodecZstd \<or> wCodec w = CodecLZ4
                                       | None \<Rightarrow> False);
          codec = (case wopts of
                     Some w \<Rightarrow> if explicitCodec then wCodec w
                               else if wCodec w = CodecStore then CodecStore else oDefaultCodec opts
                   | None \<Rightarrow> oDefaultCodec opts);
          level = (case wopts of Some w \<Rightarrow> if wLevel w \<noteq> 0 then wLevel w else oDefaultLevel opts
                               | None \<Rightarrow> oDefaultLevel opts);
          mtime = (case wopts of Some w \<Rightarrow> if wMTimeUnix w \<noteq> 0 then wMTimeUnix w else nNow env
                               | None \<Rightarrow> nNow env);
          mode = (case wopts of Some w \<Rightarrow> wMode w | None \<Rightarrow> 0);
          flags = (case wopts of Some w \<Rightarrow> wFlags w | None \<Rightarrow> 0);
          (isText, flags) = classify opts path probe flags;
          codec = (if oStoreIfAlreadyCompressed opts \<and> \<not> explicitCodec \<and> codec \<noteq> CodecStore \<and>
                      looksCompressed path probe
                   then CodecStore else codec);
          workers = (if oMaxWorkers opts \<le> 0 then 1 else oMaxWorkers opts) in
      rbind (pick_chunk_size opts isText explicitSize) (\<lambda>chunkSize.
      Inr \<lparr>wpCodec = codec, wpLevel = of_int level, wpChunkSize = chunkSize, wpMTime = mtime,
        wpMode = mode, wpFlags = flags, wpWorkers = workers\<rparr>))"

text \<open>
  \<open>None\<close> as the source is a nil reader; \<open>None\<close> as the result means that the call does not return.
\<close>

definition writeEntry ::
  "env \<Rightarrow> Options \<Rightarrow> bytes \<Rightarrow> source option \<Rightarrow> bytes \<Rightarrow> WriteOptions option \<Rightarrow> Tx \<Rightarrow> disk \<Rightarrow>
     (EntryV1 result \<times> Tx \<times> disk) option" where
  "writeEntry env opts path r meta wopts tx d =
     (case r of
        None \<Rightarrow> Some (Inl ErrInvalidFormat, tx, d)
      | Some src \<Rightarrow>
          (case write_entry_params env opts path (take 4096 (fst src)) wopts of
             Inl e \<Rightarrow> Some (Inl e, tx, d)
           | Inr p \<Rightarrow>
               (case writeChunks (nOrder env) (nLib env) (wpCodec p) (wpLevel p)
                       (nat (wpChunkSize p)) (wpWorkers p) (oMaxEntrySize opts) d
                       (tAppendOffset tx) src of
                  None \<Rightarrow> None
                | Some (Inl e, d, off) \<Rightarrow> Some (Inl e, tx\<lparr>tAppendOffset := off\<rparr>, d)
                | Some (Inr (chunks, fileSize), d, off) \<Rightarrow>
                    Some (Inr \<lparr>PathHash64 = 0, MTimeUnix = wpMTime p, Mode = wpMode p,
                            EntryFlags = wpFlags p, FileSize = fileSize, ChunkCount = 0,
                            MetaSize = 0, PathSize = 0, Chunks = chunks, Meta = meta,
                            Path = path\<rparr>,
                          tx\<lparr>tAppendOffset := off\<rparr>, d))))"

section \<open>Operations that write\<close>

type_synonym tx_result = "(unit result \<times> Tx \<times> disk) option"

text \<open>\<^verbatim>\<open>e, err := tx.writeEntry(...); if err != nil { return err }; tx.entries[norm] = e\<close>\<close>

definition write_and_put ::
  "env \<Rightarrow> Options \<Rightarrow> bytes \<Rightarrow> source option \<Rightarrow> bytes \<Rightarrow> WriteOptions option \<Rightarrow> Tx \<Rightarrow> disk \<Rightarrow> tx_result"
where
  "write_and_put env opts norm r meta wopts tx d =
     (case writeEntry env opts norm r meta wopts tx d of
        None \<Rightarrow> None
      | Some (Inl e, tx, d) \<Rightarrow> Some (Inl e, tx, d)
      | Some (Inr e, tx, d) \<Rightarrow>
          Some (Inr (), tx\<lparr>tEntries := AList.update norm e (tEntries tx)\<rparr>, d))"

definition Tx_Add ::
  "env \<Rightarrow> Options \<Rightarrow> bytes \<Rightarrow> source option \<Rightarrow> bytes \<Rightarrow> WriteOptions option \<Rightarrow> Tx \<Rightarrow> disk \<Rightarrow> tx_result"
where
  "Tx_Add env opts path r meta wopts tx d =
     (if tClosed tx then Some (Inl IoErrClosedPipe, tx, d) else
      case normalize path of
        Inl _ \<Rightarrow> Some (Inl ErrPathInvalid, tx, d)
      | Inr norm \<Rightarrow>
          if map_of (tEntries tx) norm \<noteq> None then Some (Inl ErrAlreadyExists, tx, d)
          else write_and_put env opts norm r meta wopts tx d)"

definition Tx_Upsert ::
  "env \<Rightarrow> Options \<Rightarrow> bytes \<Rightarrow> source option \<Rightarrow> bytes \<Rightarrow> WriteOptions option \<Rightarrow> Tx \<Rightarrow> disk \<Rightarrow> tx_result"
where
  "Tx_Upsert env opts path r meta wopts tx d =
     (if tClosed tx then Some (Inl IoErrClosedPipe, tx, d) else
      case normalize path of
        Inl _ \<Rightarrow> Some (Inl ErrPathInvalid, tx, d)
      | Inr norm \<Rightarrow>
          let tx = (case map_of (tEntries tx) norm of Some old \<Rightarrow> markObsolete old tx | None \<Rightarrow> tx)
          in write_and_put env opts norm r meta wopts tx d)"

definition Tx_Replace ::
  "env \<Rightarrow> Options \<Rightarrow> bytes \<Rightarrow> source option \<Rightarrow> bytes \<Rightarrow> WriteOptions option \<Rightarrow> Tx \<Rightarrow> disk \<Rightarrow> tx_result"
where
  "Tx_Replace env opts path r meta wopts tx d =
     (if tClosed tx then Some (Inl IoErrClosedPipe, tx, d) else
      case normalize path of
        Inl _ \<Rightarrow> Some (Inl ErrPathInvalid, tx, d)
      | Inr norm \<Rightarrow>
          (case map_of (tEntries tx) norm of
             None \<Rightarrow> Some (Inl ErrNotFound, tx, d)
           | Some old \<Rightarrow> write_and_put env opts norm r meta wopts (markObsolete old tx) d))"

section \<open>Operations on the table\<close>

definition drop_entry :: "bytes \<Rightarrow> EntryV1 \<Rightarrow> Tx \<Rightarrow> Tx" where
  "drop_entry norm old tx =
     (markObsolete old tx)\<lparr>tEntries := AList.delete norm (tEntries tx)\<rparr>"

definition Tx_Remove :: "bytes \<Rightarrow> Tx \<Rightarrow> unit result \<times> Tx" where
  "Tx_Remove path tx =
     (if tClosed tx then (Inl IoErrClosedPipe, tx) else
      case normalize path of
        Inl _ \<Rightarrow> (Inl ErrPathInvalid, tx)
      | Inr norm \<Rightarrow>
          (case map_of (tEntries tx) norm of
             None \<Rightarrow> (Inl ErrNotFound, tx)
           | Some old \<Rightarrow> (Inr (), drop_entry norm old tx)))"

text \<open>The operations on many entries return \<^verbatim>\<open>removed\<close> together with the error.\<close>

fun remove_many :: "bytes list \<Rightarrow> nat \<Rightarrow> Tx \<Rightarrow> (nat \<times> error option) \<times> Tx" where
  "remove_many [] removed tx = ((removed, None), tx)"
| "remove_many (p # paths) removed tx =
     (case normalize p of
        Inl _ \<Rightarrow> ((removed, Some ErrPathInvalid), tx)
      | Inr norm \<Rightarrow>
          (case map_of (tEntries tx) norm of
             Some old \<Rightarrow> remove_many paths (removed + 1) (drop_entry norm old tx)
           | None \<Rightarrow> remove_many paths removed tx))"

definition Tx_RemoveMany :: "bytes list \<Rightarrow> Tx \<Rightarrow> (nat \<times> error option) \<times> Tx" where
  "Tx_RemoveMany paths tx =
     (if tClosed tx then ((0, Some IoErrClosedPipe), tx) else remove_many paths 0 tx)"

text \<open>The loop \<^verbatim>\<open>for p, e := range tx.entries\<close> that removes what a test selects.\<close>

fun remove_selected ::
  "(bytes \<times> EntryV1 \<Rightarrow> bool result) \<Rightarrow> entry_map \<Rightarrow> nat \<Rightarrow> Tx \<Rightarrow> (nat \<times> error option) \<times> Tx" where
  "remove_selected sel [] removed tx = ((removed, None), tx)"
| "remove_selected sel ((p, e) # es) removed tx =
     (case sel (p, e) of
        Inl err \<Rightarrow> ((removed, Some err), tx)
      | Inr True \<Rightarrow> remove_selected sel es (removed + 1) (drop_entry p e tx)
      | Inr False \<Rightarrow> remove_selected sel es removed tx)"

definition Tx_RemovePrefix :: "bytes \<Rightarrow> Tx \<Rightarrow> (nat \<times> error option) \<times> Tx" where
  "Tx_RemovePrefix prefix tx =
     (if tClosed tx then ((0, Some IoErrClosedPipe), tx) else
      case normalizePrefix prefix of
        Inl _ \<Rightarrow> ((0, Some ErrPathInvalid), tx)
      | Inr norm \<Rightarrow>
          let fullPrefix = norm @ [47] in
          remove_selected (\<lambda>(p, e). Inr (p = norm \<or> take (length fullPrefix) p = fullPrefix))
            (tEntries tx) 0 tx)"

definition Tx_RemoveWhere :: "(EntryInfo \<Rightarrow> bool) option \<Rightarrow> Tx \<Rightarrow> (nat \<times> error option) \<times> Tx" where
  "Tx_RemoveWhere predicate tx =
     (if tClosed tx then ((0, Some IoErrClosedPipe), tx) else
      case predicate of
        None \<Rightarrow> ((0, Some ErrInvalidFormat), tx)
      | Some pred \<Rightarrow> remove_selected (\<lambda>(p, e). Inr (pred (entryInfo e))) (tEntries tx) 0 tx)"

definition Tx_SetMeta :: "bytes \<Rightarrow> bytes \<Rightarrow> Tx \<Rightarrow> unit result \<times> Tx" where
  "Tx_SetMeta path meta tx =
     (if tClosed tx then (Inl IoErrClosedPipe, tx) else
      case normalize path of
        Inl _ \<Rightarrow> (Inl ErrPathInvalid, tx)
      | Inr norm \<Rightarrow>
          (case map_of (tEntries tx) norm of
             None \<Rightarrow> (Inl ErrNotFound, tx)
           | Some e \<Rightarrow>
               (Inr (), tx\<lparr>tEntries := AList.update norm (e\<lparr>Meta := meta\<rparr>) (tEntries tx)\<rparr>)))"

fun set_meta_many ::
  "(bytes \<times> bytes) list \<Rightarrow> bool \<Rightarrow> nat \<Rightarrow> nat \<Rightarrow> Tx \<Rightarrow> (nat \<times> nat \<times> error option) \<times> Tx" where
  "set_meta_many [] ignoreMissing updated missing tx = ((updated, missing, None), tx)"
| "set_meta_many ((p, meta) # ms) ignoreMissing updated missing tx =
     (case normalize p of
        Inl _ \<Rightarrow> ((updated, missing, Some ErrPathInvalid), tx)
      | Inr norm \<Rightarrow>
          (case map_of (tEntries tx) norm of
             None \<Rightarrow>
               if ignoreMissing then set_meta_many ms ignoreMissing updated (missing + 1) tx
               else ((updated, missing, Some ErrNotFound), tx)
           | Some e \<Rightarrow>
               set_meta_many ms ignoreMissing (updated + 1) missing
                 (tx\<lparr>tEntries := AList.update norm (e\<lparr>Meta := meta\<rparr>) (tEntries tx)\<rparr>)))"

definition Tx_SetMetaMany ::
  "(bytes \<times> bytes) list \<Rightarrow> bool \<Rightarrow> Tx \<Rightarrow> (nat \<times> nat \<times> error option) \<times> Tx" where
  "Tx_SetMetaMany metaByPath ignoreMissing tx =
     (if tClosed tx then ((0, 0, Some IoErrClosedPipe), tx)
      else set_meta_many metaByPath ignoreMissing 0 0 tx)"

end
