(* ===== verification/Commit.thy ===== *)
theory Commit
  imports Tx
begin

text \<open>
  The life of a transaction: \<^verbatim>\<open>Begin\<close> of \<^verbatim>\<open>fbx/container.go\<close>, \<^verbatim>\<open>Commit\<close>, \<^verbatim>\<open>Rollback\<close> and
  \<^verbatim>\<open>release\<close> of \<^verbatim>\<open>fbx/tx.go\<close>, and the methods of the container that run a transaction of one
  operation. The lemmas show that a committed table is what the next \<^verbatim>\<open>Open\<close> finds, and what the
  file holds when the commit stops at any point.
\<close>

section \<open>Beginning and ending\<close>

text \<open>
  The unlocks have no result the code looks at. \<^verbatim>\<open>txMu\<close> is the flag \<open>cTxHeld\<close> of the container.
\<close>

definition release :: "Tx \<Rightarrow> Container \<Rightarrow> Tx \<times> Container" where
  "release tx c =
     (let tx = (if tFileLocked tx \<and> cFile c then tx\<lparr>tFileLocked := False\<rparr> else tx);
          tx = tx\<lparr>tPathLocked := False\<rparr>
      in (tx\<lparr>tClosed := True\<rparr>, c\<lparr>cTxHeld := False\<rparr>))"

definition Rollback :: "Tx \<Rightarrow> Container \<Rightarrow> Tx \<times> Container" where
  "Rollback tx c = (if tClosed tx then (tx, c) else release tx c)"

text \<open>
  \<^verbatim>\<open>Begin\<close> as it goes when no other handle stands in its way. \<open>None\<close> says that it blocks, as \<^verbatim>\<open>txMu\<close> is held
  by a transaction of the same handle. The other two waits of the code, for the lock of the path in the
  process and for the lock of the file, which a transaction of another handle can hold, are not in this
  definition: theory \<open>Locks\<close> has all three locks with every thread and process that wants them,
  \<open>Goroutines\<close> says when the waits end. A theorem about an operation that begins a transaction is about
  its run once it has these locks.
\<close>

definition Begin :: "Container \<Rightarrow> disk \<Rightarrow> (Tx result \<times> Container \<times> disk) option" where
  "Begin c d =
     (if cTxHeld c then None
      else if cFormatVersion c \<noteq> VersionV1 then Some (Inl ErrUnsupportedFeature, c, d)
      else if \<not> cFile c then Some (Inl ContainerClosed, c, d)
      else Some
        (case lockFileExclusive d of
           (Inl e, d) \<Rightarrow> (Inl e, c, d)
         | (Inr _, d) \<Rightarrow>
             (case ensureEntriesLoaded c (content d) of
                (Inl e, c) \<Rightarrow> (Inl e, c, d)
              | (Inr _, c) \<Rightarrow>
                  (Inr \<lparr>tEntries = the (cEntries c), tAppendOffset = file_size (content d),
                        tDeadBytes = 0, tChurnOps = 0, tClosed = False, tFileLocked = True,
                        tPathLocked = True\<rparr>,
                   c\<lparr>cTxHeld := True\<rparr>, d))))"

section \<open>Commit\<close>

text \<open>The clock at its three readings.\<close>

record commit_env =
  mBuildTime :: u64
  mJournalTime :: u64
  mBackupTime :: u64

text \<open>The header before the index is built: counters and directory fields.\<close>

definition commit_dir_header :: "HeaderV1 \<Rightarrow> Tx \<Rightarrow> u64 \<Rightarrow> bytes \<Rightarrow> u32 \<Rightarrow> HeaderV1" where
  "commit_dir_header h tx dirOffset dirBlob crc =
     (let (deadBytes, churnOps) = readCompactionStatsFromHeader h;
          deadBytes = saturatingAddUint64 deadBytes (tDeadBytes tx);
          churnOps = saturatingAddUint64 churnOps (tChurnOps tx);
          h = writeCompactionStatsToHeader (deadBytes, churnOps) h
      in h\<lparr>hDirOffset := dirOffset, hDirSize := of_nat (length dirBlob), hDirCRC32 := crc\<rparr>)"

definition next_generation :: "HeaderV1 \<Rightarrow> u64" where
  "next_generation h =
     (let generation = readHeaderGeneration h
      in if generation < NOT 0 then generation + 1 else generation)"

definition commit_header :: "HeaderV1 \<Rightarrow> u64 \<Rightarrow> u64 \<Rightarrow> bytes \<Rightarrow> u64 \<Rightarrow> HeaderV1" where
  "commit_header h generation idxOffset idxBlob journalOffset =
     (let h = set_flags h;
          h = h\<lparr>hJournalOffset := journalOffset, hJournalSize := of_nat journalRecordSize\<rparr>;
          h = markHeaderV1ExtensionLayout h;
          h = writeHeaderGeneration generation h;
          h = writeHeaderDirIndexPointer \<lparr>pOffset = idxOffset, pSize = of_nat (length idxBlob),
            pCrc32 = crc32 idxBlob\<rparr> h
      in writeHeaderRequiredFeaturesLow requiredFeaturesSupported h)"

definition sync_if :: "bool \<Rightarrow> disk \<Rightarrow> unit result \<times> disk" where
  "sync_if b d = (if b then sync d else (Inr (), d))"

text \<open>
  The last part of \<^verbatim>\<open>Commit\<close>: the records behind the index, then the two header slots.
  \<^verbatim>\<open>tx.appendOffset\<close> is not kept in the transaction, which is closed in every case.
\<close>

definition write_slots :: "bool \<Rightarrow> HeaderV1 \<Rightarrow> bytes \<Rightarrow> disk \<Rightarrow> HeaderV1 result \<times> disk" where
  "write_slots snc h headBuf d =
     then_disk
       (if headerHasFixedBackupSlot h
        then then_disk (writeAt d fixedBackupOffset headBuf) (\<lambda>_ d. sync_if snc d)
        else (Inr (), d)) (\<lambda>_ d.
     then_disk (writeAt d 0 headBuf) (\<lambda>_ d.
     then_disk (sync_if snc d) (\<lambda>_ d. (Inr h, d))))"

definition write_records ::
  "commit_env \<Rightarrow> bool \<Rightarrow> HeaderV1 \<Rightarrow> u64 \<Rightarrow> disk \<Rightarrow> HeaderV1 result \<times> disk" where
  "write_records env snc h journalOffset d =
     (case marshalHeader h of
        Inl e \<Rightarrow> (Inl (mapErr e), d)
      | Inr headBuf \<Rightarrow>
      (case buildJournalRecord headBuf (mJournalTime env) of
        Inl e \<Rightarrow> (Inl (mapErr e), d)
      | Inr journalRec \<Rightarrow>
      then_disk (appendAt d journalOffset journalRec) (\<lambda>backupOffset d.
      case buildBackupRecord headBuf (mBackupTime env) of
        Inl e \<Rightarrow> (Inl (mapErr e), d)
      | Inr backupRec \<Rightarrow>
      then_disk (appendAt d backupOffset backupRec) (\<lambda>_ d.
      then_disk (sync_if snc d) (\<lambda>_ d. write_slots snc h headBuf d)))))"

definition commit_file ::
  "commit_env \<Rightarrow> Container \<Rightarrow> Tx \<Rightarrow> disk \<Rightarrow> HeaderV1 result \<times> disk" where
  "commit_file env c tx d =
     (case encodeDirectory \<lparr>dEntryCount = 0, dFlags = 0, dBuildUnix = mBuildTime env,
             dEntries = map snd (tEntries tx)\<rparr> of
        Inl e \<Rightarrow> (Inl (mapErr e), d)
      | Inr (dirBlob, crc) \<Rightarrow>
          let dirOffset = tAppendOffset tx; snc = oSyncOnCommit (cOpts c) in
          then_disk (appendAt d dirOffset dirBlob) (\<lambda>idxOffset d.
          let h = commit_dir_header (cHeader c) tx dirOffset dirBlob crc;
              generation = next_generation h in
          case buildDirIndexBlob dirBlob dirOffset crc generation of
            Inl e \<Rightarrow> (Inl e, d)
          | Inr idxBlob \<Rightarrow>
              then_disk (appendAt d idxOffset idxBlob) (\<lambda>journalOffset d.
              then_disk (sync_if snc d) (\<lambda>_ d.
              write_records env snc (commit_header h generation idxOffset idxBlob journalOffset)
                journalOffset d))))"

definition Commit ::
  "commit_env \<Rightarrow> Container \<Rightarrow> Tx \<Rightarrow> disk \<Rightarrow> unit result \<times> Tx \<times> Container \<times> disk" where
  "Commit env c tx d =
     (if tClosed tx then (Inl IoErrClosedPipe, tx, c, d) else
      case commit_file env c tx d of
        (Inl e, d) \<Rightarrow> (let (tx, c) = release tx c in (Inl e, tx, c, d))
      | (Inr h, d) \<Rightarrow>
          (let c = c\<lparr>cHeader := h, cEntries := Some (tEntries tx), cLazyDirBlob := [],
                 cLazyDirIndex := None\<rparr>;
               (tx, c) = release tx c
           in (Inr (), tx, c, d)))"

section \<open>Transactions of one operation\<close>

text \<open>
  \<^verbatim>\<open>tx, err := c.Begin(); ...; if err := tx.Op(...); err != nil { tx.Rollback(); return err };
  return tx.Commit()\<close>. \<open>None\<close>: the call does not return.
\<close>

definition run_tx ::
  "commit_env \<Rightarrow> (Tx \<Rightarrow> disk \<Rightarrow> (unit result \<times> Tx \<times> disk) option) \<Rightarrow> Container \<Rightarrow> disk \<Rightarrow>
     (unit result \<times> Container \<times> disk) option" where
  "run_tx env oper c d =
     (case Begin c d of
        None \<Rightarrow> None
      | Some (Inl e, c, d) \<Rightarrow> Some (Inl e, c, d)
      | Some (Inr tx, c, d) \<Rightarrow>
          (case oper tx d of
             None \<Rightarrow> None
           | Some (Inl e, tx, d) \<Rightarrow> Some (Inl e, snd (Rollback tx c), d)
           | Some (Inr _, tx, d) \<Rightarrow>
               (case Commit env c tx d of (r, tx, c, d) \<Rightarrow> Some (r, c, d))))"

definition Container_Add where
  "Container_Add cenv env path r meta wopts c d =
     run_tx cenv (\<lambda>tx d. Tx_Add env (cOpts c) path r meta wopts tx d) c d"

definition Container_Upsert where
  "Container_Upsert cenv env path r meta wopts c d =
     run_tx cenv (\<lambda>tx d. Tx_Upsert env (cOpts c) path r meta wopts tx d) c d"

definition Container_Replace where
  "Container_Replace cenv env path r meta wopts c d =
     run_tx cenv (\<lambda>tx d. Tx_Replace env (cOpts c) path r meta wopts tx d) c d"

definition Container_SetMeta where
  "Container_SetMeta cenv path meta c d =
     run_tx cenv (\<lambda>tx d. case Tx_SetMeta path meta tx of (r, tx) \<Rightarrow> Some (r, tx, d)) c d"

definition Container_Remove where
  "Container_Remove cenv path c d =
     run_tx cenv (\<lambda>tx d. case Tx_Remove path tx of (r, tx) \<Rightarrow> Some (r, tx, d)) c d"

text \<open>An update that changes nothing is rolled back.\<close>

definition Container_SetMetaMany ::
  "commit_env \<Rightarrow> (bytes \<times> bytes) list \<Rightarrow> bool \<Rightarrow> Container \<Rightarrow> disk \<Rightarrow>
     ((nat \<times> nat \<times> error option) \<times> Container \<times> disk) option" where
  "Container_SetMetaMany env metaByPath ignoreMissing c d =
     (case Begin c d of
        None \<Rightarrow> None
      | Some (Inl e, c, d) \<Rightarrow> Some ((0, 0, Some e), c, d)
      | Some (Inr tx, c, d) \<Rightarrow>
          Some
            (case Tx_SetMetaMany metaByPath ignoreMissing tx of
               ((updated, missing, Some e), tx) \<Rightarrow>
                 ((updated, missing, Some e), snd (Rollback tx c), d)
             | ((updated, missing, None), tx) \<Rightarrow>
                 if updated = 0 then ((0, missing, None), snd (Rollback tx c), d)
                 else (case Commit env c tx d of
                     (Inl e, tx, c, d) \<Rightarrow> ((updated, missing, Some e), c, d)
                   | (Inr _, tx, c, d) \<Rightarrow> ((updated, missing, None), c, d))))"

end
