(* ===== verification/Frame.thy ===== *)
theory Frame
  imports EntryReader
begin

text \<open>
  Which bytes of a file the writes leave alone, and what survives with them: regions, whole
  stored catalogues, and the contents of entries. These are the frame lemmas of the writers,
  the transactions and \<^verbatim>\<open>Commit\<close>.
\<close>

section \<open>Files that agree on a range\<close>

definition same :: "nat \<Rightarrow> nat \<Rightarrow> bytes \<Rightarrow> bytes \<Rightarrow> bool" where
  "same lo hi f g \<longleftrightarrow> hi \<le> length f \<and> length f \<le> length g \<and> (\<forall>i. lo \<le> i \<and> i < hi \<longrightarrow> g ! i = f ! i)"

lemma same_refl: "hi \<le> length f \<Longrightarrow> same lo hi f f"
  by (simp add: same_def)

lemma same_trans: "same lo hi f g \<Longrightarrow> same lo hi g h \<Longrightarrow> same lo hi f h"
  by (auto simp: same_def)

lemma same_weaken: "same lo hi f g \<Longrightarrow> lo \<le> lo' \<Longrightarrow> hi' \<le> hi \<Longrightarrow> same lo' hi' f g"
  by (auto simp: same_def)

lemma same_both:
  "same a hi f g \<Longrightarrow> same b hi' g h \<Longrightarrow> a \<le> lo \<Longrightarrow> b \<le> lo \<Longrightarrow> k \<le> hi \<Longrightarrow> k \<le> hi' \<Longrightarrow> same lo k f h"
  by (auto simp: same_def)

lemma same_length: "same lo hi f g \<Longrightarrow> hi \<le> length f \<and> hi \<le> length g \<and> length f \<le> length g"
  by (auto simp: same_def)

lemma same_sub_bytes:
  assumes "same lo hi f g" "lo \<le> a" "b \<le> hi"
  shows "sub_bytes g a b = sub_bytes f a b"
  using assms by (intro nth_equalityI) (auto simp: same_def sub_bytes_def)

lemma same_at: "at f off b \<Longrightarrow> same lo hi f g \<Longrightarrow> lo \<le> off \<Longrightarrow> off + length b \<le> hi \<Longrightarrow> at g off b"
  using same_sub_bytes [of lo hi f g off "off + length b"] by (auto simp: at_def same_def)

lemma same_readAt:
  assumes "readAt f off n = Inr b" "same lo hi f g" "lo \<le> unat off" "unat off + n \<le> hi"
  shows "readAt g off n = Inr b"
  using assms same_sub_bytes [OF assms(2), of "unat off" "unat off + n"]
  by (auto simp: readAt_def same_def split: if_splits)

section \<open>Writes\<close>

lemma overwrite_nth:
  assumes "i < off \<or> off + length b \<le> i" "i < length f"
  shows "overwrite f off b ! i = f ! i"
  using assms by (auto simp: overwrite_def nth_append)

lemma overwrite_grows: "length f \<le> length (overwrite f off b)"
  by (auto simp: overwrite_def)

lemma same_overwrite:
  "hi \<le> length f \<Longrightarrow> hi \<le> off \<or> off + length b \<le> lo \<Longrightarrow> same lo hi f (overwrite f off b)"
  by (auto simp: same_def overwrite_grows overwrite_nth)

lemma at_overwritten: "off \<le> length f \<Longrightarrow> at (overwrite f off b) off b"
  by (auto simp: at_def overwrite_def sub_bytes_def)

lemma writeAt_same:
  assumes "writeAt d off b = (r, d')" "hi \<le> length (content d)"
    "hi \<le> unat off \<or> unat off + length b \<le> lo"
  shows "same lo hi (content d) (content d')"
proof (cases "maxInt < off")
  case True
  then show ?thesis using assms(1,2) by (simp add: writeAt_def same_refl)
next
  case False
  obtain x dx where x: "next_outcome d = (x, dx)" by fastforce
  have s: "same lo hi (content d) (overwrite (content d) (unat off) (take n b))" for n
  proof (rule same_overwrite [OF assms(2)])
    have "length (take n b) \<le> length b" by simp
    then show "hi \<le> unat off \<or> unat off + length (take n b) \<le> lo"
      using assms(3) by linarith
  qed
  obtain n where "content d' = overwrite (content d) (unat off) (take n b)"
  proof (cases x)
    case Done
    then have "content d' = overwrite (content d) (unat off) (take (length b) b)"
      using assms(1) False x next_outcome_content [OF x] by (simp add: writeAt_def) auto
    then show thesis by (rule that)
  next
    case (Fault e n)
    then have "content d' = overwrite (content d) (unat off) (take n b)"
      using assms(1) False x next_outcome_content [OF x] by (simp add: writeAt_def) auto
    then show thesis by (rule that)
  qed
  then show ?thesis using s by simp
qed

lemma writeAt_at:
  assumes "writeAt d off b = (Inr u, d')" "unat off \<le> length (content d)"
  shows "at (content d') (unat off) b"
proof -
  obtain x dx where x: "next_outcome d = (x, dx)" by fastforce
  then show ?thesis
    using assms next_outcome_content [OF x]
    by (cases x) (auto simp: writeAt_def at_overwritten split: if_splits)
qed

lemma sync_content [simp]: "sync d = (r, d') \<Longrightarrow> content d' = content d"
  by (auto simp: sync_def split: prod.splits outcome.splits)

lemma appendAt_same:
  "appendAt d off b = (r, d') \<Longrightarrow> hi \<le> length (content d) \<Longrightarrow> hi \<le> unat off \<Longrightarrow>
   same 0 hi (content d) (content d')"
  by (auto simp: appendAt_def same_refl split: if_splits sum.splits prod.splits
      dest: writeAt_same [of _ _ _ _ _ hi 0])

text \<open>A successful append puts the data in place and returns the offset behind it.\<close>

lemma appendAt_at:
  assumes "appendAt d off b = (Inr off', d')" "unat off \<le> length (content d)"
    "length (content d') < 2 ^ 64"
  shows "at (content d') (unat off) b" "unat off' = unat off + length b" "b \<noteq> []"
    "unat off' \<le> length (content d')"
proof -
  from assms(1) have w: "writeAt d off b = (Inr (), d')" "off' = off + of_nat (length b)" "b \<noteq> []"
    by (auto simp: appendAt_def split: if_splits sum.splits prod.splits)
  show a: "at (content d') (unat off) b" by (rule writeAt_at [OF w(1) assms(2)])
  show "b \<noteq> []" by (rule w(3))
  have "unat off + length b \<le> length (content d')" using a by (simp add: at_def)
  moreover from this show "unat off' = unat off + length b"
    using assms(3) w(2) by (simp add: unat_add_u64 unat_of_nat)
  ultimately show "unat off' \<le> length (content d')" by simp
qed

section \<open>Contents of entries\<close>

lemma same_chunk_payload:
  assumes p: "chunk_payload L f v mc c = Inr p" and s: "same lo hi f g"
    and lo: "lo \<le> unat (ChunkOffset c)" and hi: "unat (ChunkOffset c) + 16 + unat (CompSize c) \<le> hi"
  shows "chunk_payload L g v mc c = Inr p"
proof -
  from p obtain rec where rec: "readChunkRecordLimited L f (ChunkOffset c) v (RawSize c) (CompSize c) = Inr rec"
    and eq: "kCompSize rec = CompSize c"
    and rest: "chunk_payload L f v mc c = Inr (kPayload rec)"
    by (auto simp: chunk_payload_def inr_simps split: if_splits)
  from rec obtain hd payload where hd: "readChunkHeaderAt f (ChunkOffset c) = Inr hd"
    and pl: "readAt f (ChunkOffset c + 16) (unat (kCompSize hd)) = Inr payload"
    and cs: "kCompSize rec = kCompSize hd" by (elim readChunk_parts) blast
  from hd obtain head where rd: "readAt f (ChunkOffset c) 16 = Inr head"
    by (auto simp: readChunkHeaderAt_def inr_simps)
  have "readAt g (ChunkOffset c) 16 = Inr head"
    using same_readAt [OF rd s] lo hi by simp
  then have hd': "readChunkHeaderAt g (ChunkOffset c) = Inr hd"
    using hd rd by (simp add: readChunkHeaderAt_def)
  have "unat (ChunkOffset c + 16) = unat (ChunkOffset c) + 16"
    using readAt_sound(4) [OF rd] by (simp add: unat_add_u64)
  then have "readAt g (ChunkOffset c + 16) (unat (kCompSize hd)) = Inr payload"
    using lo hi eq cs by (intro same_readAt [OF pl s]) simp_all
  then have same_rec: "readChunkRecordLimited L g (ChunkOffset c) v (RawSize c) (CompSize c) =
      readChunkRecordLimited L f (ChunkOffset c) v (RawSize c) (CompSize c)"
    using hd hd' pl by (simp add: readChunkRecordLimited_def)
  show ?thesis using p unfolding chunk_payload_def same_rec .
qed

text \<open>The chunks of an entry hold the bytes \<open>data\<close>, whether or not the CRCs are verified.\<close>

definition reads_as :: "codec_lib \<Rightarrow> bytes \<Rightarrow> ChunkRefV1 list \<Rightarrow> bytes \<Rightarrow> bool" where
  "reads_as L f cs data \<longleftrightarrow>
     (\<exists>ps. list_all2 (\<lambda>c p. \<forall>v. chunk_payload L f v 0 c = Inr p) cs ps \<and> concat ps = data)"

definition chunks_in :: "nat \<Rightarrow> nat \<Rightarrow> ChunkRefV1 list \<Rightarrow> bool" where
  "chunks_in lo hi cs \<longleftrightarrow>
     (\<forall>c \<in> set cs. lo \<le> unat (ChunkOffset c) \<and> unat (ChunkOffset c) + 16 + unat (CompSize c) \<le> hi)"

lemma chunks_in_simps [simp]:
  "chunks_in lo hi []"
  "chunks_in lo hi (c # cs) \<longleftrightarrow> lo \<le> unat (ChunkOffset c) \<and>
     unat (ChunkOffset c) + 16 + unat (CompSize c) \<le> hi \<and> chunks_in lo hi cs"
  "chunks_in lo hi (cs @ cs') \<longleftrightarrow> chunks_in lo hi cs \<and> chunks_in lo hi cs'"
  by (auto simp: chunks_in_def)

lemma chunks_in_mono: "chunks_in lo hi cs \<Longrightarrow> lo' \<le> lo \<Longrightarrow> hi \<le> hi' \<Longrightarrow> chunks_in lo' hi' cs"
  by (fastforce simp: chunks_in_def)

lemma reads_as_Nil [simp]: "reads_as L f [] data \<longleftrightarrow> data = []"
  by (auto simp: reads_as_def)

lemma reads_as_append:
  "reads_as L f cs x \<Longrightarrow> reads_as L f ds y \<Longrightarrow> reads_as L f (cs @ ds) (x @ y)"
proof -
  assume "reads_as L f cs x" "reads_as L f ds y"
  then obtain ps qs where
    "list_all2 (\<lambda>c p. \<forall>v. chunk_payload L f v 0 c = Inr p) cs ps" "concat ps = x"
    "list_all2 (\<lambda>c p. \<forall>v. chunk_payload L f v 0 c = Inr p) ds qs" "concat qs = y"
    by (auto simp: reads_as_def)
  then show ?thesis
    unfolding reads_as_def by (intro exI [of _ "ps @ qs"]) (simp add: list_all2_appendI)
qed

lemma reads_as_single: "(\<And>v. chunk_payload L f v 0 c = Inr p) \<Longrightarrow> reads_as L f [c] p"
  unfolding reads_as_def by (rule exI [of _ "[p]"]) simp

lemma same_reads_as:
  assumes "reads_as L f cs data" "chunks_in lo hi cs" "same lo hi f g"
  shows "reads_as L g cs data"
proof -
  from assms(1) obtain ps where ps: "list_all2 (\<lambda>c p. \<forall>v. chunk_payload L f v 0 c = Inr p) cs ps"
    "concat ps = data" by (auto simp: reads_as_def)
  have "list_all2 (\<lambda>c p. \<forall>v. chunk_payload L g v 0 c = Inr p) cs ps"
    using ps(1)
  proof (rule list.rel_mono_strong)
    fix c p
    assume "c \<in> set cs" "\<forall>v. chunk_payload L f v 0 c = Inr p"
    then show "\<forall>v. chunk_payload L g v 0 c = Inr p"
      using assms(2) same_chunk_payload [OF _ assms(3)] by (simp add: chunks_in_def)
  qed
  then show ?thesis using ps(2) by (auto simp: reads_as_def)
qed

lemma reads_as_stream:
  assumes "reads_as L f cs data"
  shows "stream_from L f v 0 0 sofar cs = (data, IoEOF)"
proof -
  from assms obtain ps where ps: "list_all2 (\<lambda>c p. \<forall>v. chunk_payload L f v 0 c = Inr p) cs ps"
    "concat ps = data" by (auto simp: reads_as_def)
  then have "list_all2 (\<lambda>c p. chunk_payload L f v 0 c = Inr p) cs ps"
    by (auto elim!: list.rel_mono_strong)
  then show ?thesis using stream_from_good [of L f v 0 cs ps 0 sofar] ps(2) by simp
qed

section \<open>Stored catalogues\<close>

lemma stored_same:
  assumes "stored f h bu es" "same lo (length f) f g" "lo \<le> unat (hDirOffset h)"
    "lo \<le> unat (pOffset (readHeaderDirIndexPointer h))"
  shows "stored g h bu es"
proof -
  have "at f off b \<Longrightarrow> lo \<le> off \<Longrightarrow> at g off b" for off b
    using same_at [of f off b lo "length f" g] assms(2) by (simp add: at_def)
  moreover have "chunks_inside (length f) es \<Longrightarrow> chunks_inside (length g) es"
    using assms(2) by (auto simp: same_def elim: chunks_inside_mono)
  ultimately show ?thesis
    using assms(1,3,4) by (auto simp: stored_def dir_stored_def idx_stored_def Let_def)
qed

end
