(* ===== verification/WriteRead.thy ===== *)
theory WriteRead
  imports Frame ChunkWriter
begin

text \<open>
  What the chunk writers leave in the file: records that the entry reader turns back into the
  bytes of the source, behind everything that was there, with raw ranges that tile the entry.
\<close>

section \<open>One record\<close>

text \<open>The records of chunks up to \<open>n\<close> bytes stay below \<open>2 ^ 32\<close> bytes.\<close>

definition records_fit :: "codec_lib \<Rightarrow> nat \<Rightarrow> u8 \<Rightarrow> u8 \<Rightarrow> bool" where
  "records_fit L n codec level \<longleftrightarrow>
     (\<forall>raw rec crc. length raw \<le> n \<longrightarrow> encodeChunkRecord L raw codec level = Inr (rec, crc) \<longrightarrow>
        length rec < 2 ^ 32)"

lemma records_fitD:
  "records_fit L n codec level \<Longrightarrow> length raw \<le> n \<Longrightarrow>
   encodeChunkRecord L raw codec level = Inr (rec, crc) \<Longrightarrow> length rec < 2 ^ 32"
  unfolding records_fit_def by iprover

lemma records_fit_store: "n < 2 ^ 32 - 16 \<Longrightarrow> records_fit L n CodecStore level"
  by (auto simp: records_fit_def encodeChunkRecord_def compressPayload_def Let_def)

lemma record_head: "encodeChunkRecord L raw codec level = Inr (rec, crc) \<Longrightarrow> 16 \<le> length rec"
  using encodeChunkRecord_eq(3) by fastforce

lemma new_chunk_reads:
  assumes laws: "codec_laws L" and enc: "encodeChunkRecord L raw codec level = Inr (rec, crc)"
    and n: "length raw < 2 ^ 32" "length rec < 2 ^ 32"
    and f: "at f (unat off) rec" "length f < 2 ^ 63"
  shows "chunk_payload L f v 0 (chunk_ref off start raw rec crc) = Inr raw"
proof -
  define pre where "pre = take (unat off) f"
  define post where "post = drop (unat off + length rec) f"
  have "f = pre @ rec @ post" and pre: "length pre = unat off"
    using f(1) by (auto simp: at_def pre_def post_def sub_bytes_def)
      (metis add.commute append_take_drop_id drop_drop)
  note f' = this
  have u: "unat (of_nat (length raw) :: u32) = length raw"
    "unat (of_nat (length rec - 16) :: u32) = length rec - 16"
    using n by (simp_all add: unat_of_nat_u32)
  have "readChunkRecordLimited L (pre @ rec @ post) off v (of_nat (length raw))
      (of_nat (length rec - 16)) =
    Inr \<lparr>kCodec = codec, kLevel = level, kRawSize = of_nat (length raw),
      kCompSize = of_nat (length rec - 16), kCRC32Raw = crc32 raw, kPayload = raw\<rparr>"
    using f(2) f' pre u record_head [OF enc] by (intro read_encoded_chunk [OF laws enc n]) simp_all
  moreover have "crc = crc32 raw" by (rule encodeChunkRecord_eq(2) [OF enc])
  ultimately show ?thesis
    by (simp add: chunk_payload_def chunk_ref_def flip: f'(1))
qed

section \<open>Raw ranges\<close>

fun tiles :: "u64 \<Rightarrow> ChunkRefV1 list \<Rightarrow> u64 \<Rightarrow> bool" where
  "tiles start [] stop \<longleftrightarrow> start = stop"
| "tiles start (c # cs) stop \<longleftrightarrow>
     RawOffset c = start \<and> Reserved c = 0 \<and> unat start + unat (RawSize c) < 2 ^ 64 \<and>
     tiles (start + ucast (RawSize c)) cs stop"

lemma tiles_refs_ok: "tiles start cs stop \<Longrightarrow> refs_ok b start cs"
  by (induction start cs stop arbitrary: b rule: tiles.induct) auto

lemma tiles_last:
  "tiles start cs stop \<Longrightarrow> cs \<noteq> [] \<Longrightarrow> \<not> last_end_differs cs stop"
proof (induction start cs stop rule: tiles.induct)
  case (2 start c cs stop)
  then show ?case
    by (cases cs) (auto simp: last_end_differs_def addUint64_alt)
qed simp

section \<open>The sequential writer\<close>

definition written_as ::
  "codec_lib \<Rightarrow> bytes \<Rightarrow> disk \<Rightarrow> u64 \<Rightarrow> u64 \<Rightarrow> disk \<Rightarrow> u64 \<Rightarrow> ChunkRefV1 list \<Rightarrow> u64 \<Rightarrow> bool" where
  "written_as L data d off start d' off' new stop \<longleftrightarrow>
     reads_as L (content d') new data \<and> chunks_in (unat off) (unat off') new \<and>
     same 0 (unat off) (content d) (content d') \<and>
     unat off \<le> unat off' \<and> unat off' \<le> length (content d') \<and>
     tiles start new stop \<and> unat stop = unat start + length data"

lemma written_as_Nil:
  "unat off \<le> length (content d) \<Longrightarrow> written_as L [] d off start d off [] start"
  by (simp add: written_as_def same_refl)

lemma written_as_Cons:
  assumes laws: "codec_laws L" and enc: "encodeChunkRecord L b codec level = Inr (rec, crc)"
    and n: "length b < 2 ^ 32" "length rec < 2 ^ 32"
    and app: "appendAt d off rec = (Inr off1, d1)" "unat off \<le> length (content d)"
    and add: "addUint64 start (of_nat (length b)) = Some start1"
    and len: "length (content d') < 2 ^ 63" "length (content d1) \<le> length (content d')"
    and w: "written_as L data d1 off1 start1 d' off' new stop"
  shows "written_as L (b @ data) d off start d' off' (chunk_ref off start b rec crc # new) stop"
proof -
  let ?c = "chunk_ref off start b rec crc"
  have len1: "length (content d1) < 2 ^ 63" "length (content d1) < 2 ^ 64" using len by simp_all
  note a = appendAt_at [OF app len1(2)]
  note wd = w [unfolded written_as_def]
  have rs: "unat (RawSize ?c) = length b" "unat (CompSize ?c) = length rec - 16"
    using n by (simp_all add: chunk_ref_def unat_of_nat_u32)
  note rec = record_head [OF enc]
  have ins: "chunks_in (unat off) (unat off1) [?c]"
    using a(2) rec rs(2) by (simp add: chunk_ref_def)
  have "reads_as L (content d1) [?c] b"
    using new_chunk_reads [OF laws enc n a(1) len1(1)] by (rule reads_as_single)
  then have "reads_as L (content d') [?c] b"
    using ins wd by (blast intro: same_reads_as chunks_in_mono)
  from reads_as_append [OF this] have "reads_as L (content d') (?c # new) (b @ data)"
    using wd by simp
  moreover have "chunks_in (unat off) (unat off') (?c # new)"
    using ins wd a(2) by (auto elim: chunks_in_mono)
  moreover have "same 0 (unat off) (content d) (content d')"
  proof (rule same_trans)
    show "same 0 (unat off) (content d) (content d1)"
      by (rule appendAt_same [OF app(1,2) order_refl])
    show "same 0 (unat off) (content d1) (content d')"
      using wd a(2) by (auto elim: same_weaken)
  qed
  moreover have "unat start1 = unat start + length b"
    using addUint64_SomeD [OF add] n(1) by (simp add: unat_of_nat)
  moreover have st: "start1 = start + ucast (RawSize ?c)"
    using add n(1) by (simp add: chunk_ref_def addUint64_alt ucast_of_nat_u32 split: if_splits)
  moreover have "tiles start (?c # new) stop"
    using wd calculation(4) unat_u64_lt [of start1] rs(1) unfolding st [symmetric]
    by (simp add: st [symmetric]) (simp add: chunk_ref_def)
  ultimately show ?thesis
    using wd a(2) unfolding written_as_def by simp
qed

lemma appendAt_grows: "appendAt d off b = (r, d') \<Longrightarrow> length (content d) \<le> length (content d')"
  using appendAt_same [of d off b r d' 0] by (simp add: same_def)

text \<open>One round of the writer that does not stop it.\<close>

lemma write_seq_cases:
  assumes "write_seq L codec level cs m d off src start chunks = (Inr (chunks', stop), d', off')"
  obtains (none) "fst src = []" "snd src = IoEOF \<or> snd src = IoUnexpectedEOF"
      "chunks' = chunks" "stop = start" "d' = d" "off' = off"
  | (last) rec crc where "length (fst src) \<le> cs" "snd src = IoEOF \<or> snd src = IoUnexpectedEOF"
      "encodeChunkRecord L (fst src) codec level = Inr (rec, crc)"
      "addUint64 start (of_nat (length (fst src))) = Some stop" "m > 0 \<longrightarrow> stop \<le> m"
      "appendAt d off rec = (Inr off', d')"
      "chunks' = chunks @ [chunk_ref off start (fst src) rec crc]"
  | (more) rec crc off1 d1 start1 where
      "encodeChunkRecord L (take cs (fst src)) codec level = Inr (rec, crc)"
      "readFull cs src = (take cs (fst src), None, (drop cs (fst src), snd src))"
      "addUint64 start (of_nat (length (take cs (fst src)))) = Some start1" "m > 0 \<longrightarrow> start1 \<le> m"
      "appendAt d off rec = (Inr off1, d1)"
      "write_seq L codec level cs m d1 off1 (drop cs (fst src), snd src) start1
         (chunks @ [chunk_ref off start (take cs (fst src)) rec crc]) = (Inr (chunks', stop), d', off')"
proof -
  obtain bs err where src: "src = (bs, err)" by fastforce
  show thesis
  proof (cases "cs \<le> length bs")
    case True
    then have rf: "readFull cs src = (take cs bs, None, (drop cs bs, err))"
      by (simp add: readFull_def src)
    with assms show thesis
      by (subst (asm) write_seq.simps)
        (auto simp: src Let_def split: option.splits if_splits sum.splits prod.splits intro!: more)
  next
    case False
    then have rf: "readFull cs src = (bs, Some (if err = IoEOF then
        (if bs = [] then IoEOF else IoUnexpectedEOF) else err), ([], err))"
      by (simp add: readFull_def src)
    show thesis
    proof (cases "bs = []")
      case True
      with assms rf show thesis
        by (subst (asm) write_seq.simps) (auto simp: src intro!: none split: if_splits)
    next
      case ne: False
      with assms rf have "err = IoEOF \<or> err = IoUnexpectedEOF"
        by (subst (asm) write_seq.simps) (auto simp: src split: if_splits)
      with assms rf ne False show thesis
        by (subst (asm) write_seq.simps)
          (auto simp: src Let_def not_less split: option.splits if_splits sum.splits prod.splits
            intro!: last)
    qed
  qed
qed

lemma write_seq_grows:
  "write_seq L codec level cs m d off src start chunks = (Inr (chunks', stop), d', off') \<Longrightarrow>
   length (content d) \<le> length (content d')"
proof (induction "length (fst src)" arbitrary: d off src start chunks rule: less_induct)
  case less
  from less.prems show ?case
  proof (cases rule: write_seq_cases)
    case (more rec crc off1 d1 start1)
    have "length (fst (drop cs (fst src), snd src)) < length (fst src)"
      using encode_nonempty [OF more(1)] by (cases "fst src"; cases cs) auto
    from less.hyps [OF this more(6)] appendAt_grows [OF more(5)] show ?thesis by simp
  qed (auto dest: appendAt_grows)
qed

lemma write_seq_spec:
  assumes laws: "codec_laws L" and cs: "cs < 2 ^ 32" and fit: "records_fit L cs codec level"
    and run: "write_seq L codec level cs m d off src start chunks = (Inr (chunks', stop), d', off')"
    and off: "unat off \<le> length (content d)" and len: "length (content d') < 2 ^ 63"
  shows "\<exists>new. chunks' = chunks @ new \<and> written_as L (fst src) d off start d' off' new stop"
    and "snd src = IoEOF \<or> snd src = IoUnexpectedEOF" and "m > 0 \<longrightarrow> start \<le> m \<longrightarrow> stop \<le> m"
proof -
  have "(\<exists>new. chunks' = chunks @ new \<and> written_as L (fst src) d off start d' off' new stop) \<and>
    (snd src = IoEOF \<or> snd src = IoUnexpectedEOF) \<and> (m > 0 \<longrightarrow> start \<le> m \<longrightarrow> stop \<le> m)"
    using run off
  proof (induction "length (fst src)" arbitrary: d off src start chunks rule: less_induct)
    case less
    from less.prems(1) show ?case
    proof (cases rule: write_seq_cases)
      case none
      then show ?thesis using written_as_Nil [OF less.prems(2)] by simp
    next
      case (last rec crc)
      have n: "length (fst src) < 2 ^ 32" "length rec < 2 ^ 32"
        using last(1) cs records_fitD [OF fit last(1,3)] by simp_all
      have "unat off' \<le> length (content d')"
        using appendAt_at(4) [OF last(6) less.prems(2)] len by simp
      from written_as_Cons [OF laws last(3) n last(6) less.prems(2) last(4) len order_refl
          written_as_Nil [OF this]]
      show ?thesis using last by (intro conjI exI [of _ "[chunk_ref off start (fst src) rec crc]"]) simp_all
    next
      case (more rec crc off1 d1 start1)
      let ?b = "take cs (fst src)" and ?src = "(drop cs (fst src), snd src)"
      have smaller: "length (fst ?src) < length (fst src)"
        using encode_nonempty [OF more(1)] by (cases "fst src"; cases cs) auto
      have grow: "length (content d1) \<le> length (content d')" by (rule write_seq_grows [OF more(6)])
      have lb: "length ?b \<le> cs" by simp
      have n: "length ?b < 2 ^ 32" "length rec < 2 ^ 32"
        using lb cs records_fitD [OF fit lb more(1)] by linarith+
      have "unat off1 \<le> length (content d1)"
        using appendAt_at(4) [OF more(5) less.prems(2)] len grow by simp
      from less.hyps [OF smaller more(6) this]
      obtain new where new: "chunks' = (chunks @ [chunk_ref off start ?b rec crc]) @ new"
        "written_as L (fst ?src) d1 off1 start1 d' off' new stop"
        and rest: "snd src = IoEOF \<or> snd src = IoUnexpectedEOF" "m > 0 \<longrightarrow> start1 \<le> m \<longrightarrow> stop \<le> m"
        by auto
      from written_as_Cons [OF laws more(1) n more(5) less.prems(2) more(3) len grow new(2)]
      have "written_as L (fst src) d off start d' off' (chunk_ref off start ?b rec crc # new) stop"
        by simp
      with new(1) rest more(4) show ?thesis by auto
    qed
  qed
  then show "\<exists>new. chunks' = chunks @ new \<and> written_as L (fst src) d off start d' off' new stop"
    "snd src = IoEOF \<or> snd src = IoUnexpectedEOF" "m > 0 \<longrightarrow> start \<le> m \<longrightarrow> stop \<le> m" by blast+
qed

section \<open>Every run of the writers only appends\<close>

text \<open>
  From an offset inside the file the offset only grows, stays inside the file, and the bytes
  below it do not change; as long as the file stays below \<open>2 ^ 64\<close> bytes.
\<close>

definition appended :: "disk \<Rightarrow> u64 \<Rightarrow> disk \<Rightarrow> u64 \<Rightarrow> bool" where
  "appended d off d' off' \<longleftrightarrow> length (content d) \<le> length (content d') \<and>
     (length (content d') < 2 ^ 64 \<longrightarrow> unat off \<le> length (content d) \<longrightarrow>
        same 0 (unat off) (content d) (content d') \<and> unat off \<le> unat off' \<and>
        unat off' \<le> length (content d'))"

lemma appended_refl: "appended d off d off"
  by (simp add: appended_def same_refl)

lemma appended_trans: "appended d off d1 off1 \<Longrightarrow> appended d1 off1 d' off' \<Longrightarrow> appended d off d' off'"
proof -
  assume a: "appended d off d1 off1" and b: "appended d1 off1 d' off'"
  have len: "length (content d) \<le> length (content d1)" "length (content d1) \<le> length (content d')"
    using a b by (simp_all add: appended_def)
  show ?thesis
    unfolding appended_def
  proof (intro conjI impI)
    show "length (content d) \<le> length (content d')" using len by simp
    assume small: "length (content d') < 2 ^ 64" and off: "unat off \<le> length (content d)"
    then have small1: "length (content d1) < 2 ^ 64" using len by linarith
    have 1: "same 0 (unat off) (content d) (content d1)" "unat off \<le> unat off1"
      "unat off1 \<le> length (content d1)"
      using a small1 off unfolding appended_def by blast+
    have 2: "same 0 (unat off1) (content d1) (content d')" "unat off1 \<le> unat off'"
      "unat off' \<le> length (content d')"
      using b small 1(3) unfolding appended_def by blast+
    show "same 0 (unat off) (content d) (content d')"
      by (rule same_trans [OF 1(1) same_weaken [OF 2(1) order_refl 1(2)]])
    show "unat off \<le> unat off'" "unat off' \<le> length (content d')" using 1 2 by simp_all
  qed
qed

lemma appended_append:
  assumes "appendAt d off b = (r, d')"
  shows "appended d off d' (case r of Inl _ \<Rightarrow> off | Inr off' \<Rightarrow> off')"
  using appendAt_grows [OF assms] appendAt_same [OF assms _ order_refl]
    appendAt_at(2,4) [of d off b _ d'] assms
  by (auto simp: appended_def split: sum.split)

lemma write_seq_appended:
  "write_seq L codec level cs m d off src start chunks = (r, d', off') \<Longrightarrow> appended d off d' off'"
proof (induction L codec level cs m d off src start chunks arbitrary: r d' off' rule: write_seq.induct)
  case (1 L codec level cs m d off src start chunks)
  obtain b re src' where rf: "readFull cs src = (b, re, src')" by (cases "readFull cs src")
  consider (quit) "d' = d" "off' = off"
    | (go) rec crc start1 where "\<not> (re = Some IoEOF)" "\<not> (re = Some IoUnexpectedEOF \<and> b = [])"
        "\<not> (re \<noteq> None \<and> re \<noteq> Some IoUnexpectedEOF)"
        "addUint64 start (of_nat (length b)) = Some start1" "\<not> (m > 0 \<and> start1 > m)"
        "encodeChunkRecord L b codec level = Inr (rec, crc)"
  proof (cases "re = Some IoEOF \<or> re = Some IoUnexpectedEOF \<and> b = [] \<or>
      re \<noteq> None \<and> re \<noteq> Some IoUnexpectedEOF")
    case True
    with "1.prems" rf have "d' = d \<and> off' = off"
      by (subst (asm) write_seq.simps) (auto split: if_splits)
    then show thesis using quit by blast
  next
    case ok: False
    show thesis
    proof (cases "\<exists>x y. addUint64 start (of_nat (length b)) = Some x \<and> \<not> (m > 0 \<and> x > m) \<and>
        encodeChunkRecord L b codec level = Inr y")
      case True
      then show thesis using ok go by fast
    next
      case False
      with "1.prems" rf ok have "d' = d \<and> off' = off"
        by (subst (asm) write_seq.simps) (auto split: if_splits option.splits sum.splits)
      then show thesis using quit by blast
    qed
  qed
  then show ?case
  proof cases
    case quit
    then show ?thesis by (simp add: appended_refl)
  next
    case go
    obtain ar d1 where a: "appendAt d off rec = (ar, d1)" by fastforce
    note app = appended_append [OF a]
    show ?thesis
    proof (cases ar)
      case (Inl e)
      then have "d' = d1" "off' = off"
        using "1.prems" rf go a by (subst (asm) write_seq.simps; auto simp: Let_def)+
      then show ?thesis using app Inl by simp
    next
      case (Inr off1)
      show ?thesis
      proof (cases "re = Some IoUnexpectedEOF")
        case True
        then have "d' = d1" "off' = off1"
          using "1.prems" rf go a Inr by (subst (asm) write_seq.simps; auto simp: Let_def)+
        then show ?thesis using app Inr by simp
      next
        case False
        then have "write_seq L codec level cs m d1 off1 src' start1
            (chunks @ [chunk_ref off start b rec crc]) = (r, d', off')"
          using "1.prems" rf go a Inr by (subst (asm) write_seq.simps) (auto simp: Let_def)
        from "1.IH" [OF rf [symmetric] refl go(1-5) go(6) refl a [symmetric] Inr refl False this]
        show ?thesis using app Inr appended_trans by simp
      qed
    qed
  qed
qed

lemma emit_appended: "appended (cDisk s) (cOff s) (cDisk (emit s cur)) (cOff (emit s cur))"
proof (cases "qRes cur")
  case (Inr x)
  obtain rec crc where x: "x = (rec, crc)" by fastforce
  obtain ar d1 where a: "appendAt (cDisk s) (cOff s) rec = (ar, d1)" by fastforce
  show ?thesis
    using appended_append [OF a] Inr x a
    by (cases ar) (simp_all add: emit_def appended_refl)
qed (simp add: emit_def appended_refl)

lemma drain_appended: "appended (cDisk s) (cOff s) (cDisk (drain s)) (cOff (drain s))"
proof (induction s rule: drain.induct)
  case (1 s)
  show ?case
  proof (cases "map_of (cPending s) (cNext s)")
    case None
    then show ?thesis by (subst (1 2) drain.simps) (simp add: appended_refl)
  next
    case (Some cur)
    let ?t = "s\<lparr>cPending := AList.delete (cNext s) (cPending s), cNext := cNext s + 1\<rparr>"
    have "drain s = drain (emit ?t cur)" using Some by (subst drain.simps) simp
    then show ?thesis using appended_trans [OF emit_appended [of ?t cur] "1.IH" [OF Some]] by simp
  qed
qed

lemma collect_appended:
  "appended (cDisk s) (cOff s) (cDisk (foldl arrive s rs)) (cOff (foldl arrive s rs))"
proof (induction rs arbitrary: s)
  case (Cons r rs)
  have "appended (cDisk s) (cOff s) (cDisk (arrive s r)) (cOff (arrive s r))"
  proof -
    define t where "t = (case qRes r of Inl e \<Rightarrow> if cErr s = None then s\<lparr>cErr := Some e\<rparr> else s | Inr _ \<Rightarrow> s)"
    have "cDisk t = cDisk s" "cOff t = cOff s" by (auto simp: t_def split: sum.split)
    then show ?thesis
      using drain_appended [of "t\<lparr>cPending := AList.update (qIndex r) r (cPending t)\<rparr>"]
      by (simp add: arrive_def Let_def t_def [symmetric])
  qed
  from appended_trans [OF this Cons.IH [of "arrive s r"]] show ?case by simp
qed (simp add: appended_refl)

lemma writeChunks_appended:
  assumes "writeChunks order L codec level cs w m d off src = Some (r, d', off')"
  shows "appended d off d' off'"
proof (cases "w \<le> 1")
  case True
  then show ?thesis
    using assms write_seq_appended by (auto simp: writeChunks_def writeChunksSequential_def)
next
  case False
  then obtain rs where "d' = cDisk (foldl arrive (collecting_from d off []) rs)"
    "off' = cOff (foldl arrive (collecting_from d off []) rs)"
    using assms
    by (auto simp: writeChunks_def writeChunksParallel_def Let_def split: option.splits)
  then show ?thesis using collect_appended [of "collecting_from d off []" rs] by simp
qed

end
