(* ===== verification/TxSpec.thy ===== *)
theory TxSpec
  imports Tx WriteRead
begin

text \<open>
  The transaction operations as updates of an abstract container: a map from paths to the bytes
  and the metadata of entries. The concrete table refines it, with the chunks of every entry
  inside the part of the file the transaction has written or found; the operations keep the
  table well-formed and leave the file below their start alone.
\<close>

section \<open>Writing an entry\<close>

text \<open>
  The environment is usable: the codecs obey their laws, every result of a worker arrives, and
  the chunk sizes in force are below \<open>2 ^ 32\<close>, compressed records included.
\<close>

definition env_ok :: "env \<Rightarrow> Options \<Rightarrow> WriteOptions option \<Rightarrow> bool" where
  "env_ok env opts wopts \<longleftrightarrow>
     codec_laws (nLib env) \<and> scheduler (nOrder env) \<and>
     (\<exists>N < 2 ^ 32. 4194304 \<le> N \<and> oChunkSizeText opts \<le> int N \<and> oChunkSizeBin opts \<le> int N \<and>
        (\<forall>w. wopts = Some w \<longrightarrow> wChunkSize w \<le> int N) \<and>
        (\<forall>codec level. records_fit (nLib env) N codec level))"

lemma records_fit_mono: "records_fit L N codec level \<Longrightarrow> n \<le> N \<Longrightarrow> records_fit L n codec level"
  unfolding records_fit_def by (meson le_trans)

lemma pick_chunk_size_bounds:
  assumes "4194304 \<le> N" "oChunkSizeText opts \<le> int N" "oChunkSizeBin opts \<le> int N"
    "\<And>n. explicit = Some n \<Longrightarrow> n \<le> int N"
  shows "\<exists>n. pick_chunk_size opts isText explicit = Inr n \<and> 0 < n \<and> n \<le> int N"
  using assms by (auto simp: pick_chunk_size_def Let_def split: option.splits)

lemma params_total: "\<exists>p. write_entry_params env opts path probe wopts = Inr p \<and> 0 < wpChunkSize p"
  by (auto simp: write_entry_params_def pick_chunk_size_def Let_def case_prod_beta split: option.splits)

lemma params_size:
  assumes "write_entry_params env opts path probe wopts = Inr p"
    "4194304 \<le> N" "oChunkSizeText opts \<le> int N" "oChunkSizeBin opts \<le> int N"
    "\<And>w. wopts = Some w \<Longrightarrow> wChunkSize w \<le> int N"
  shows "0 < wpChunkSize p" "wpChunkSize p \<le> int N"
proof -
  let ?explicit = "case wopts of Some w \<Rightarrow> if wChunkSize w > 0 then Some (wChunkSize w) else None
      | None \<Rightarrow> None"
  obtain isText where "pick_chunk_size opts isText ?explicit = Inr (wpChunkSize p)"
    using assms(1)
    by (auto simp: write_entry_params_def Let_def case_prod_beta inr_simps)
  moreover have "\<And>n. ?explicit = Some n \<Longrightarrow> n \<le> int N"
    using assms(5) by (auto split: option.splits if_splits)
  ultimately show "0 < wpChunkSize p" "wpChunkSize p \<le> int N"
    using pick_chunk_size_bounds [OF assms(2-4), of ?explicit isText] by auto
qed

lemma writeChunks_total:
  assumes "0 < cs" "scheduler order"
  shows "\<exists>r. writeChunks order L codec level cs w m d off src = Some r"
proof (cases "w \<le> 1")
  case False
  then show ?thesis
    using parallel_sequential [OF assms, of L codec level m d off src]
    unfolding writeChunks_def by auto
next
  case True
  then have "writeChunks order L codec level cs w m d off src =
      Some (writeChunksSequential L codec level cs m d off src)" by (simp add: writeChunks_def)
  then show ?thesis by (rule exI)
qed

lemma writeChunks_success:
  assumes "0 < cs" "scheduler order"
    "writeChunks order L codec level cs w m d off src = Some (Inr x, d', off')"
  shows "writeChunksSequential L codec level cs m d off src = (Inr x, d', off')"
  using parallel_sequential [OF assms(1,2), of L codec level m d off src] assms(3)
  by (auto simp: writeChunks_def split: if_splits)

text \<open>
  \<^verbatim>\<open>writeEntry\<close> always returns, and a success leaves an entry that holds the bytes of the source.
\<close>

lemma writeEntry_total:
  assumes "scheduler (nOrder env)"
  shows "\<exists>r. writeEntry env opts path src meta wopts tx d = Some r"
proof (cases src)
  case None
  then show ?thesis by (simp add: writeEntry_def)
next
  case (Some s)
  obtain p where p: "write_entry_params env opts path (take 4096 (fst s)) wopts = Inr p"
    "0 < wpChunkSize p" using params_total by blast
  then obtain r where "writeChunks (nOrder env) (nLib env) (wpCodec p) (wpLevel p)
      (nat (wpChunkSize p)) (wpWorkers p) (oMaxEntrySize opts) d (tAppendOffset tx) s = Some r"
    using writeChunks_total [OF _ assms] by (meson zero_less_nat_eq)
  then show ?thesis
    using Some p by (auto simp: writeEntry_def split: prod.split sum.split)
qed

definition entry_written :: "codec_lib \<Rightarrow> bytes \<Rightarrow> u64 \<Rightarrow> disk \<Rightarrow> u64 \<Rightarrow> disk \<Rightarrow> EntryV1 \<Rightarrow> bool" where
  "entry_written L data off d off' d' e \<longleftrightarrow>
     written_as L data d off 0 d' off' (Chunks e) (FileSize e)"

lemma writeEntry_spec:
  assumes env: "env_ok env opts wopts"
    and run: "writeEntry env opts path (Some src) meta wopts tx d = Some (Inr e, tx', d')"
    and off: "unat (tAppendOffset tx) \<le> length (content d)" and len: "length (content d') < 2 ^ 63"
  shows "\<exists>off'. tx' = tx\<lparr>tAppendOffset := off'\<rparr> \<and>
      entry_written (nLib env) (fst src) (tAppendOffset tx) d off' d' e"
    and "Path e = path" "Meta e = meta"
    and "snd src = IoEOF \<or> snd src = IoUnexpectedEOF"
    and "oMaxEntrySize opts > 0 \<longrightarrow> FileSize e \<le> oMaxEntrySize opts"
proof -
  obtain N where N: "N < 2 ^ 32" "4194304 \<le> N" "oChunkSizeText opts \<le> int N"
    "oChunkSizeBin opts \<le> int N" "\<And>w. wopts = Some w \<Longrightarrow> wChunkSize w \<le> int N"
    "\<And>codec level. records_fit (nLib env) N codec level"
    using env by (auto simp: env_ok_def)
  obtain p where p: "write_entry_params env opts path (take 4096 (fst src)) wopts = Inr p"
    using params_total by blast
  note sz = params_size [OF p N(2-5)]
  let ?cs = "nat (wpChunkSize p)"
  have cs: "0 < ?cs" "?cs \<le> N" using sz by simp_all
  from run p obtain off' where
    w: "writeChunks (nOrder env) (nLib env) (wpCodec p) (wpLevel p) ?cs (wpWorkers p)
        (oMaxEntrySize opts) d (tAppendOffset tx) src = Some (Inr (Chunks e, FileSize e), d', off')"
    and e: "Path e = path" "Meta e = meta" and tx': "tx' = tx\<lparr>tAppendOffset := off'\<rparr>"
    by (auto simp: writeEntry_def split: option.splits sum.splits prod.splits)
  have "scheduler (nOrder env)" "codec_laws (nLib env)" using env by (simp_all add: env_ok_def)
  note seq = writeChunks_success [OF cs(1) this(1) w, unfolded writeChunksSequential_def]
  note spec = write_seq_spec [OF \<open>codec_laws (nLib env)\<close> _ records_fit_mono [OF N(6) cs(2)] seq off len]
  have small: "?cs < 2 ^ 32" using cs(2) N(1) by simp
  show "\<exists>off'. tx' = tx\<lparr>tAppendOffset := off'\<rparr> \<and>
      entry_written (nLib env) (fst src) (tAppendOffset tx) d off' d' e"
    using spec(1) [OF small] tx' by (auto simp: entry_written_def)
  show "Path e = path" "Meta e = meta" by (rule e)+
  show "snd src = IoEOF \<or> snd src = IoUnexpectedEOF" by (rule spec(2) [OF small])
  show "oMaxEntrySize opts > 0 \<longrightarrow> FileSize e \<le> oMaxEntrySize opts" using spec(3) [OF small] by simp
qed

section \<open>The table\<close>

text \<open>What the directory codec asks of an entry, apart from the limits on its sizes.\<close>

definition shape_ok :: "EntryV1 \<Rightarrow> bool" where
  "shape_ok e \<longleftrightarrow>
     Path e \<noteq> [] \<and> refs_ok False 0 (Chunks (norm_entry e)) \<and> (Chunks e = [] \<longrightarrow> FileSize e = 0) \<and>
     (FileSize e > 0 \<and> Chunks e \<noteq> [] \<longrightarrow> \<not> last_end_differs (Chunks (norm_entry e)) (FileSize e))"

definition entry_sizes :: "EntryV1 \<Rightarrow> bool" where
  "entry_sizes e \<longleftrightarrow>
     length (Path e) < 2 ^ 32 \<and> length (Meta e) < 2 ^ 32 \<and> length (Chunks e) < 2 ^ 32"

lemma shape_sizes: "entry_ok (norm_entry e) \<longleftrightarrow> shape_ok e \<and> entry_sizes e"
  by (auto simp: entry_ok_def shape_ok_def entry_sizes_def norm_entry_def)

lemma entry_ok_shape: "entry_ok e \<Longrightarrow> shape_ok e"
  using shape_sizes [of e] norm_entry_ok [of e] by simp

lemma written_shape_ok:
  assumes w: "entry_written L data off d off' d' e" and p: "Path e \<noteq> []"
  shows "shape_ok e"
proof -
  from w have t: "tiles 0 (Chunks e) (FileSize e)"
    by (simp add: entry_written_def written_as_def)
  have r: "map (Reserved_update (\<lambda>_. 0)) cs = cs" if "tiles s cs t" for s cs t
    using that by (induction s cs t rule: tiles.induct) auto
  have "Chunks e = [] \<longrightarrow> FileSize e = 0" using t by auto
  then show ?thesis
    using p tiles_refs_ok [OF t] tiles_last [OF t] r [OF t] by (auto simp: shape_ok_def)
qed

definition table_ok :: "nat \<Rightarrow> nat \<Rightarrow> entry_map \<Rightarrow> bool" where
  "table_ok lo hi m \<longleftrightarrow> distinct (map fst m) \<and>
     (\<forall>k e. map_of m k = Some e \<longrightarrow> Path e = k \<and> shape_ok e \<and> chunks_in lo hi (Chunks e))"

text \<open>The abstract container: contents and metadata.\<close>

type_synonym store = "bytes \<rightharpoonup> bytes \<times> bytes"

definition cell :: "codec_lib \<Rightarrow> bytes \<Rightarrow> EntryV1 option \<Rightarrow> (bytes \<times> bytes) option \<Rightarrow> bool" where
  "cell L f oe os \<longleftrightarrow>
     (case oe of
        None \<Rightarrow> os = None
      | Some e \<Rightarrow> \<exists>data. os = Some (data, Meta e) \<and> reads_as L f (Chunks e) data \<and>
          unat (FileSize e) = length data)"

definition refines :: "codec_lib \<Rightarrow> bytes \<Rightarrow> entry_map \<Rightarrow> store \<Rightarrow> bool" where
  "refines L f m s \<longleftrightarrow> (\<forall>k. cell L f (map_of m k) (s k))"

lemma cell_simps [simp]:
  "cell L f None os \<longleftrightarrow> os = None"
  "cell L f (Some e) os \<longleftrightarrow> (\<exists>data. os = Some (data, Meta e) \<and> reads_as L f (Chunks e) data \<and>
     unat (FileSize e) = length data)"
  by (simp_all add: cell_def)

lemma refinesD:
  assumes "refines L f m s"
  shows "map_of m k = None \<Longrightarrow> s k = None"
    "map_of m k = Some e \<Longrightarrow> \<exists>data. s k = Some (data, Meta e) \<and>
       reads_as L f (Chunks e) data \<and> unat (FileSize e) = length data"
proof -
  have c: "cell L f (map_of m k) (s k)" using assms unfolding refines_def by iprover
  show "map_of m k = None \<Longrightarrow> s k = None"
    "map_of m k = Some e \<Longrightarrow> \<exists>data. s k = Some (data, Meta e) \<and>
       reads_as L f (Chunks e) data \<and> unat (FileSize e) = length data" using c by simp_all
qed

lemma table_okD:
  assumes "table_ok lo hi m" "map_of m k = Some e"
  shows "Path e = k" "shape_ok e" "chunks_in lo hi (Chunks e)"
  using assms unfolding table_ok_def by blast+

lemma table_okI:
  assumes "distinct (map fst m)"
    "\<And>k e. map_of m k = Some e \<Longrightarrow> Path e = k \<and> shape_ok e \<and> chunks_in lo hi (Chunks e)"
  shows "table_ok lo hi m"
  using assms unfolding table_ok_def by blast

lemma table_ok_distinct: "table_ok lo hi m \<Longrightarrow> distinct (map fst m)"
  by (simp add: table_ok_def)

lemma table_ok_mono: "table_ok lo hi m \<Longrightarrow> hi \<le> hi' \<Longrightarrow> table_ok lo hi' m"
  by (rule table_okI) (blast intro: table_ok_distinct table_okD chunks_in_mono [OF _ order_refl])+

lemma table_update:
  assumes "table_ok lo hi m" "Path e = k" "shape_ok e" "chunks_in lo hi (Chunks e)"
  shows "table_ok lo hi (AList.update k e m)"
proof (rule table_okI)
  show "distinct (map fst (AList.update k e m))"
    using table_ok_distinct [OF assms(1)] by (rule AList.distinct_update)
  fix k' e'
  assume "map_of (AList.update k e m) k' = Some e'"
  then show "Path e' = k' \<and> shape_ok e' \<and> chunks_in lo hi (Chunks e')"
    using assms(2-4) table_okD [OF assms(1), of k' e']
    by (cases "k' = k") (simp_all add: AList.update_conv')
qed

lemma table_delete:
  assumes "table_ok lo hi m"
  shows "table_ok lo hi (AList.delete k m)"
proof (rule table_okI)
  show "distinct (map fst (AList.delete k m))"
    using table_ok_distinct [OF assms] by (rule AList.distinct_delete)
  fix k' e'
  assume "map_of (AList.delete k m) k' = Some e'"
  then show "Path e' = k' \<and> shape_ok e' \<and> chunks_in lo hi (Chunks e')"
    using table_okD [OF assms, of k' e'] by (cases "k' = k") (simp_all add: AList.delete_conv')
qed

lemma refines_same:
  assumes "refines L f m s" "table_ok lo hi m" "same lo hi f g"
  shows "refines L g m s"
  unfolding refines_def
proof
  fix k
  show "cell L g (map_of m k) (s k)"
  proof (cases "map_of m k")
    case None
    then show ?thesis using refinesD(1) [OF assms(1)] by simp
  next
    case (Some e)
    then show ?thesis
      using refinesD(2) [OF assms(1) Some] same_reads_as [OF _ table_okD(3) [OF assms(2) Some] assms(3)]
      by auto
  qed
qed

lemma refines_update:
  assumes "refines L f m s" "reads_as L f (Chunks e) data" "unat (FileSize e) = length data"
  shows "refines L f (AList.update k e m) (s(k \<mapsto> (data, Meta e)))"
  unfolding refines_def
proof
  fix k'
  have "cell L f (map_of m k') (s k')" using assms(1) unfolding refines_def by iprover
  then show "cell L f (map_of (AList.update k e m) k') ((s(k \<mapsto> (data, Meta e))) k')"
    using assms(2,3) by (cases "k' = k") (simp_all add: AList.update_conv')
qed

lemma refines_delete:
  assumes "refines L f m s"
  shows "refines L f (AList.delete k m) (s(k := None))"
  unfolding refines_def
proof
  fix k'
  have "cell L f (map_of m k') (s k')" using assms unfolding refines_def by iprover
  then show "cell L f (map_of (AList.delete k m) k') ((s(k := None)) k')"
    by (cases "k' = k") (simp_all add: AList.delete_conv')
qed

section \<open>The operations refine map updates\<close>

text \<open>
  The invariant of an open transaction on a file: the table is well-formed and refines the
  abstract container, and everything it refers to lies below the append offset.
\<close>

definition tx_inv :: "codec_lib \<Rightarrow> nat \<Rightarrow> bytes \<Rightarrow> Tx \<Rightarrow> store \<Rightarrow> bool" where
  "tx_inv L lo f tx s \<longleftrightarrow>
     lo \<le> unat (tAppendOffset tx) \<and> unat (tAppendOffset tx) \<le> length f \<and>
     table_ok lo (unat (tAppendOffset tx)) (tEntries tx) \<and> refines L f (tEntries tx) s"

lemma tx_inv_grow:
  assumes "tx_inv L lo (content d) tx s" "appended d (tAppendOffset tx) d' off'"
    "length (content d') < 2 ^ 64"
  shows "tx_inv L lo (content d') (tx\<lparr>tAppendOffset := off'\<rparr>) s"
    "same 0 (unat (tAppendOffset tx)) (content d) (content d')"
    "unat (tAppendOffset tx) \<le> unat off'"
proof -
  have a: "same 0 (unat (tAppendOffset tx)) (content d) (content d')"
    "unat (tAppendOffset tx) \<le> unat off'" "unat off' \<le> length (content d')"
    using assms unfolding appended_def tx_inv_def by blast+
  show "same 0 (unat (tAppendOffset tx)) (content d) (content d')"
    "unat (tAppendOffset tx) \<le> unat off'" by (rule a(1), rule a(2))
  have "refines L (content d') (tEntries tx) s"
    using assms(1) a(1) unfolding tx_inv_def by (blast intro: refines_same same_weaken)
  then show "tx_inv L lo (content d') (tx\<lparr>tAppendOffset := off'\<rparr>) s"
    using assms(1) a(2,3) table_ok_mono [of lo _ "tEntries tx" "unat off'"] by (auto simp: tx_inv_def)
qed

lemma tx_inv_counters:
  "tx_inv L lo f (tx\<lparr>tDeadBytes := x, tChurnOps := y\<rparr>) s \<longleftrightarrow> tx_inv L lo f tx s"
  "tx_inv L lo f (markObsolete e tx) s \<longleftrightarrow> tx_inv L lo f tx s"
  by (simp_all add: tx_inv_def markObsolete_def)

lemma writeEntry_fails:
  assumes "writeEntry env opts path r meta wopts tx d = Some (Inl e, tx', d')"
  shows "\<exists>off'. tx' = tx\<lparr>tAppendOffset := off'\<rparr> \<and> appended d (tAppendOffset tx) d' off'"
proof -
  have refl: "\<exists>off'. tx = tx\<lparr>tAppendOffset := off'\<rparr> \<and> appended d (tAppendOffset tx) d off'"
    by (rule exI [of _ "tAppendOffset tx"]) (simp add: appended_refl)
  show ?thesis
    using assms refl
    by (auto simp: writeEntry_def split: option.splits sum.splits prod.splits
        dest: writeChunks_appended)
qed

text \<open>
  A source the writers accept as read to its end. A source that fails with
  \<^verbatim>\<open>io.ErrUnexpectedEOF\<close> is taken for one that ends.
\<close>

definition read_to_end :: "source \<Rightarrow> bool" where
  "read_to_end src \<longleftrightarrow> snd src = IoEOF \<or> snd src = IoUnexpectedEOF"

lemma write_and_put_spec:
  assumes env: "env_ok env opts wopts" and inv: "tx_inv (nLib env) lo (content d) tx s"
    and run: "write_and_put env opts norm r meta wopts tx d = Some (res, tx', d')"
    and len: "length (content d') < 2 ^ 63" and norm: "norm \<noteq> []"
  shows "res = Inr () \<Longrightarrow> (\<exists>src. r = Some src \<and> read_to_end src \<and>
      tx_inv (nLib env) lo (content d') tx' (s(norm \<mapsto> (fst src, meta))))"
    and "res = Inl e \<Longrightarrow> tx_inv (nLib env) lo (content d') tx' s"
    and "same 0 (unat (tAppendOffset tx)) (content d) (content d')"
    and "tDeadBytes tx' = tDeadBytes tx" "tChurnOps tx' = tChurnOps tx" "tClosed tx' = tClosed tx"
    and "unat (tAppendOffset tx) \<le> unat (tAppendOffset tx')"
proof -
  let ?L = "nLib env"
  have len64: "length (content d') < 2 ^ 64" using len by simp
  obtain wr txw where w: "writeEntry env opts norm r meta wopts tx d = Some (wr, txw, d')"
    and tx': "(\<exists>e. wr = Inl e \<and> res = Inl e \<and> tx' = txw) \<or>
      (\<exists>e. wr = Inr e \<and> res = Inr () \<and> tx' = txw\<lparr>tEntries := AList.update norm e (tEntries txw)\<rparr>)"
    using run by (auto simp: write_and_put_def split: option.splits sum.splits)
  have "((res = Inr () \<longrightarrow> (\<exists>src. r = Some src \<and> read_to_end src \<and>
        tx_inv ?L lo (content d') tx' (s(norm \<mapsto> (fst src, meta))))) \<and>
      ((\<exists>e. res = Inl e) \<longrightarrow> tx_inv ?L lo (content d') tx' s)) \<and>
    same 0 (unat (tAppendOffset tx)) (content d) (content d') \<and>
    tDeadBytes tx' = tDeadBytes tx \<and> tChurnOps tx' = tChurnOps tx \<and> tClosed tx' = tClosed tx \<and>
    unat (tAppendOffset tx) \<le> unat (tAppendOffset tx')"
  proof (cases wr)
    case (Inl e)
    then obtain off' where "txw = tx\<lparr>tAppendOffset := off'\<rparr>" "appended d (tAppendOffset tx) d' off'"
      using writeEntry_fails w by blast
    with tx_inv_grow [OF inv this(2) len64] tx' Inl show ?thesis by auto
  next
    case (Inr e)
    then obtain src where src: "r = Some src"
      using w by (cases r) (auto simp: writeEntry_def)
    note w' = w [unfolded Inr src]
    have off: "unat (tAppendOffset tx) \<le> length (content d)" using inv by (simp add: tx_inv_def)
    note spec = writeEntry_spec [OF env w' off len]
    obtain off' where txw: "txw = tx\<lparr>tAppendOffset := off'\<rparr>"
      and ew: "entry_written ?L (fst src) (tAppendOffset tx) d off' d' e" using spec(1) by blast
    have wa: "reads_as ?L (content d') (Chunks e) (fst src)"
      "chunks_in (unat (tAppendOffset tx)) (unat off') (Chunks e)"
      "same 0 (unat (tAppendOffset tx)) (content d) (content d')"
      "unat (tAppendOffset tx) \<le> unat off'" "unat off' \<le> length (content d')"
      "unat (FileSize e) = length (fst src)"
      using ew by (simp_all add: entry_written_def written_as_def)
    have "appended d (tAppendOffset tx) d' off'"
      using wa(3-5) by (simp add: appended_def same_length)
    from tx_inv_grow(1) [OF inv this len64]
    have g: "lo \<le> unat off'" "table_ok lo (unat off') (tEntries tx)"
      "refines ?L (content d') (tEntries tx) s" "lo \<le> unat (tAppendOffset tx)"
      using inv by (simp_all add: tx_inv_def)
    have "shape_ok e" using written_shape_ok [OF ew] spec(2) norm by simp
    moreover have "chunks_in lo (unat off') (Chunks e)"
      using wa(2) g(4) by (rule chunks_in_mono) simp
    ultimately have "table_ok lo (unat off') (AList.update norm e (tEntries tx))"
      using g(2) spec(2) by (intro table_update)
    moreover have "refines ?L (content d') (AList.update norm e (tEntries tx)) (s(norm \<mapsto> (fst src, Meta e)))"
      by (rule refines_update [OF g(3) wa(1,6)])
    ultimately show ?thesis
      using tx' Inr src txw g(1) wa spec(3,4) by (auto simp: tx_inv_def read_to_end_def)
  qed
  then show "res = Inr () \<Longrightarrow> (\<exists>src. r = Some src \<and> read_to_end src \<and>
      tx_inv ?L lo (content d') tx' (s(norm \<mapsto> (fst src, meta))))"
    "res = Inl e \<Longrightarrow> tx_inv ?L lo (content d') tx' s"
    "same 0 (unat (tAppendOffset tx)) (content d) (content d')"
    "tDeadBytes tx' = tDeadBytes tx" "tChurnOps tx' = tChurnOps tx" "tClosed tx' = tClosed tx"
    "unat (tAppendOffset tx) \<le> unat (tAppendOffset tx')"
    by blast+
qed

end
