(* ===== verification/TxOps.thy ===== *)
theory TxOps
  imports TxSpec
begin

text \<open>
  The operations of a transaction one by one: what a success does to the abstract container, that
  a failure does nothing to it, which error is returned when, and what the removing operations
  add to the compaction counters, which do not depend on the order a map is gone through.
\<close>

section \<open>Operations that write\<close>

lemma normalize_nonempty: "normalize p = Inr q \<Longrightarrow> q \<noteq> []"
  using normalize_safe path_safe_first(1) by blast

text \<open>
  The outcome of \<^verbatim>\<open>Add\<close>, \<^verbatim>\<open>Upsert\<close> and \<^verbatim>\<open>Replace\<close>, seen from the abstract container: \<open>may\<close> says for
  which present state of the path the operation goes on to write.
\<close>

definition put_outcome ::
  "((bytes \<times> bytes) option \<Rightarrow> bool) \<Rightarrow> codec_lib \<Rightarrow> nat \<Rightarrow> bytes \<Rightarrow> source option \<Rightarrow> bytes \<Rightarrow> Tx \<Rightarrow> disk \<Rightarrow>
     store \<Rightarrow> unit result \<Rightarrow> Tx \<Rightarrow> disk \<Rightarrow> bool" where
  "put_outcome may L lo path r meta tx d s res tx' d' \<longleftrightarrow>
     (case res of
        Inr _ \<Rightarrow> \<exists>q src. normalize path = Inr q \<and> r = Some src \<and> read_to_end src \<and> may (s q) \<and>
          tx_inv L lo (content d') tx' (s(q \<mapsto> (fst src, meta)))
      | Inl _ \<Rightarrow> tx_inv L lo (content d') tx' s) \<and>
     same 0 (unat (tAppendOffset tx)) (content d) (content d') \<and> tClosed tx' = tClosed tx \<and>
     unat (tAppendOffset tx) \<le> unat (tAppendOffset tx')"

lemma put_outcome_stop:
  "tx_inv L lo (content d) tx s \<Longrightarrow> put_outcome may L lo path r meta tx d s (Inl e) tx d"
  by (simp add: put_outcome_def same_refl tx_inv_def)

lemma put_outcome_write:
  assumes "env_ok env opts wopts" "tx_inv (nLib env) lo (content d) tx s"
    "write_and_put env opts q r meta wopts tx0 d = Some (res, tx', d')"
    "length (content d') < 2 ^ 63" "normalize path = Inr q" "may (s q)"
    "tEntries tx0 = tEntries tx" "tAppendOffset tx0 = tAppendOffset tx" "tClosed tx0 = tClosed tx"
  shows "put_outcome may (nLib env) lo path r meta tx d s res tx' d'"
proof -
  have inv: "tx_inv (nLib env) lo (content d) tx0 s"
    using assms(2,7,8) by (simp add: tx_inv_def)
  note spec = write_and_put_spec [OF assms(1) inv assms(3,4) normalize_nonempty [OF assms(5)]]
  show ?thesis
  proof (cases res)
    case (Inl e)
    then show ?thesis using spec(2) [OF Inl] spec(3,6,7) assms(8,9) by (simp add: put_outcome_def)
  next
    case (Inr u)
    then show ?thesis using spec(1) spec(3,6,7) assms(5,6,8,9) by (auto simp: put_outcome_def)
  qed
qed

lemma mark_same [simp]:
  "tEntries (markObsolete e tx) = tEntries tx" "tAppendOffset (markObsolete e tx) = tAppendOffset tx"
  "tClosed (markObsolete e tx) = tClosed tx"
  by (simp_all add: markObsolete_def)

lemma table_present:
  assumes "tx_inv L lo f tx s"
  shows "map_of (tEntries tx) k = None \<longleftrightarrow> s k = None"
proof -
  have r: "refines L f (tEntries tx) s" using assms by (simp add: tx_inv_def)
  show ?thesis
    using refinesD(1) [OF r, of k] refinesD(2) [OF r, of k]
    by (cases "map_of (tEntries tx) k") auto
qed

lemma add_outcome:
  assumes "env_ok env opts wopts" "tx_inv (nLib env) lo (content d) tx s"
    "Tx_Add env opts path r meta wopts tx d = Some (res, tx', d')" "length (content d') < 2 ^ 63"
  shows "put_outcome (\<lambda>o1. o1 = None) (nLib env) lo path r meta tx d s res tx' d'"
proof (cases "tClosed tx")
  case True
  then show ?thesis
    using assms(3) put_outcome_stop [OF assms(2)] by (auto simp: Tx_Add_def)
next
  case open1: False
  show ?thesis
  proof (cases "normalize path")
    case (Inl e)
    then show ?thesis using assms(3) open1 put_outcome_stop [OF assms(2)] by (auto simp: Tx_Add_def)
  next
    case (Inr q)
    show ?thesis
    proof (cases "map_of (tEntries tx) q")
      case None
      then have "write_and_put env opts q r meta wopts tx d = Some (res, tx', d')"
        using assms(3) open1 Inr by (simp add: Tx_Add_def)
      then show ?thesis
        using put_outcome_write [OF assms(1,2) _ assms(4) Inr] table_present [OF assms(2)] None by simp
    next
      case (Some e)
      then show ?thesis using assms(3) open1 Inr put_outcome_stop [OF assms(2)] by (auto simp: Tx_Add_def)
    qed
  qed
qed

lemma upsert_outcome:
  assumes "env_ok env opts wopts" "tx_inv (nLib env) lo (content d) tx s"
    "Tx_Upsert env opts path r meta wopts tx d = Some (res, tx', d')" "length (content d') < 2 ^ 63"
  shows "put_outcome (\<lambda>_. True) (nLib env) lo path r meta tx d s res tx' d'"
proof (cases "tClosed tx \<or> (\<exists>e. normalize path = Inl e)")
  case True
  then show ?thesis
    using assms(3) put_outcome_stop [OF assms(2)] by (auto simp: Tx_Upsert_def split: if_splits)
next
  case False
  then obtain q where q: "normalize path = Inr q" by (cases "normalize path") auto
  obtain tx0 where "write_and_put env opts q r meta wopts tx0 d = Some (res, tx', d')"
    "tEntries tx0 = tEntries tx" "tAppendOffset tx0 = tAppendOffset tx" "tClosed tx0 = tClosed tx"
  proof (cases "map_of (tEntries tx) q")
    case None
    then have "write_and_put env opts q r meta wopts tx d = Some (res, tx', d')"
      using assms(3) False q by (simp add: Tx_Upsert_def)
    then show thesis by (rule that) simp_all
  next
    case (Some old)
    then have "write_and_put env opts q r meta wopts (markObsolete old tx) d = Some (res, tx', d')"
      using assms(3) False q by (simp add: Tx_Upsert_def)
    then show thesis by (rule that) simp_all
  qed
  note w = this
  show ?thesis by (rule put_outcome_write [OF assms(1,2) w(1) assms(4) q TrueI w(2-4)])
qed

lemma replace_outcome:
  assumes "env_ok env opts wopts" "tx_inv (nLib env) lo (content d) tx s"
    "Tx_Replace env opts path r meta wopts tx d = Some (res, tx', d')" "length (content d') < 2 ^ 63"
  shows "put_outcome (\<lambda>o1. o1 \<noteq> None) (nLib env) lo path r meta tx d s res tx' d'"
proof (cases "tClosed tx \<or> (\<exists>e. normalize path = Inl e)")
  case True
  then show ?thesis
    using assms(3) put_outcome_stop [OF assms(2)] by (auto simp: Tx_Replace_def split: if_splits)
next
  case False
  then obtain q where q: "normalize path = Inr q" by (cases "normalize path") auto
  show ?thesis
  proof (cases "map_of (tEntries tx) q")
    case None
    then show ?thesis
      using assms(3) False q put_outcome_stop [OF assms(2)] by (auto simp: Tx_Replace_def)
  next
    case (Some old)
    then have "write_and_put env opts q r meta wopts (markObsolete old tx) d = Some (res, tx', d')"
      using assms(3) False q by (simp add: Tx_Replace_def)
    note w = put_outcome_write [OF assms(1,2) this assms(4) q, of "\<lambda>o1. o1 \<noteq> None"]
    have "s q \<noteq> None" using table_present [OF assms(2), of q] Some by auto
    then show ?thesis by (rule w) simp_all
  qed
qed

text \<open>The writing operations always return.\<close>

lemma put_total:
  assumes "scheduler (nOrder env)"
  shows "\<exists>r. write_and_put env opts q src meta wopts tx d = Some r"
  using writeEntry_total [OF assms, of opts q src meta wopts tx d]
  by (auto simp: write_and_put_def split: sum.split)

lemma put_operations_total:
  assumes "scheduler (nOrder env)"
  shows "\<exists>r. Tx_Add env opts path src meta wopts tx d = Some r"
    "\<exists>r. Tx_Upsert env opts path src meta wopts tx d = Some r"
    "\<exists>r. Tx_Replace env opts path src meta wopts tx d = Some r"
proof -
  show "\<exists>r. Tx_Add env opts path src meta wopts tx d = Some r"
    unfolding Tx_Add_def using put_total [OF assms] by (auto split: sum.split)
  show "\<exists>r. Tx_Upsert env opts path src meta wopts tx d = Some r"
    unfolding Tx_Upsert_def Let_def using put_total [OF assms] by (auto split: sum.split)
  show "\<exists>r. Tx_Replace env opts path src meta wopts tx d = Some r"
    unfolding Tx_Replace_def using put_total [OF assms] by (auto split: sum.split option.split)
qed

section \<open>Removing\<close>

lemma drop_entry_inv:
  "tx_inv L lo f tx s \<Longrightarrow> tx_inv L lo f (drop_entry k e tx) (s(k := None))"
  by (simp add: tx_inv_def drop_entry_def table_delete refines_delete)

lemma remove_outcome:
  assumes "tx_inv L lo f tx s" "Tx_Remove path tx = (res, tx')"
  shows "case res of
      Inr _ \<Rightarrow> \<exists>q. normalize path = Inr q \<and> s q \<noteq> None \<and> tx_inv L lo f tx' (s(q := None))
    | Inl e \<Rightarrow> tx' = tx \<and> e =
        (if tClosed tx then IoErrClosedPipe
         else if \<exists>q. normalize path = Inr q then ErrNotFound else ErrPathInvalid)"
proof -
  note present = table_present [OF assms(1)]
  show ?thesis
  proof (cases "tClosed tx \<or> (\<exists>e. normalize path = Inl e)")
    case True
    then show ?thesis using assms(2) by (auto simp: Tx_Remove_def split: if_splits)
  next
    case False
    then obtain q where q: "normalize path = Inr q" by (cases "normalize path") auto
    then show ?thesis
      using assms(2) False present [of q] drop_entry_inv [OF assms(1), of q]
      by (cases "map_of (tEntries tx) q") (auto simp: Tx_Remove_def)
  qed
qed

definition normal_paths :: "bytes list \<Rightarrow> bytes list" where
  "normal_paths ps = map (\<lambda>p. projr (normalize p)) (takeWhile (\<lambda>p. \<exists>q. normalize p = Inr q) ps)"

lemma normal_paths_simps [simp]:
  "normal_paths [] = []"
  "normalize p = Inr q \<Longrightarrow> normal_paths (p # ps) = q # normal_paths ps"
  "normalize p = Inl e \<Longrightarrow> normal_paths (p # ps) = []"
  by (simp_all add: normal_paths_def)

lemma restrict_drop: "((s(q := None)) |` (- set qs)) = s |` (- set (q # qs))"
  by (auto simp: restrict_map_def fun_eq_iff)

text \<open>
  \<^verbatim>\<open>RemoveMany\<close> drops the paths up to the first invalid one and counts those that were there.
\<close>

lemma remove_many_outcome:
  assumes "tx_inv L lo f tx s" "remove_many ps n tx = ((removed, err), tx')"
  shows "tx_inv L lo f tx' (s |` (- set (normal_paths ps))) \<and>
    removed = n + card (dom s \<inter> set (normal_paths ps)) \<and>
    err = (if \<forall>p \<in> set ps. \<exists>q. normalize p = Inr q then None else Some ErrPathInvalid)"
  using assms
proof (induction ps arbitrary: n tx s)
  case (Cons p ps)
  show ?case
  proof (cases "normalize p")
    case (Inl e)
    then show ?thesis using Cons.prems by auto
  next
    case (Inr q)
    show ?thesis
    proof (cases "map_of (tEntries tx) q")
      case None
      then have sq: "s q = None" using table_present [OF Cons.prems(1)] by simp
      have "remove_many ps n tx = ((removed, err), tx')" using Cons.prems(2) Inr None by simp
      from Cons.IH [OF Cons.prems(1) this] show ?thesis
        using Inr sq restrict_drop [of s q "normal_paths ps"]
        by (simp add: fun_upd_idem Int_insert_right domIff)
    next
      case (Some old)
      then have sq: "q \<in> dom s" using table_present [OF Cons.prems(1), of q] by (simp add: domIff)
      have "remove_many ps (n + 1) (drop_entry q old tx) = ((removed, err), tx')"
        using Cons.prems(2) Inr Some by simp
      note ih0 = Cons.IH [OF drop_entry_inv [OF Cons.prems(1)] this]
      have ih: "tx_inv L lo f tx' (s(q := None) |` (- set (normal_paths ps)))"
        "removed = n + 1 + card (dom (s(q := None)) \<inter> set (normal_paths ps))"
        "err = (if \<forall>p \<in> set ps. \<exists>q. normalize p = Inr q then None else Some ErrPathInvalid)"
        using ih0 by blast+
      have "dom s \<inter> set (q # normal_paths ps) = insert q (dom (s(q := None)) \<inter> set (normal_paths ps))"
        using sq by auto
      then have "card (dom s \<inter> set (q # normal_paths ps)) =
          Suc (card (dom (s(q := None)) \<inter> set (normal_paths ps)))" by simp
      moreover have "tx_inv L lo f tx' (s |` (- set (q # normal_paths ps)))"
        using ih(1) unfolding restrict_drop .
      ultimately show ?thesis using ih(2,3) Inr
        by (simp only: normal_paths_simps) simp
    qed
  qed
qed (auto simp: restrict_map_def)

text \<open>The loops with a test that cannot fail.\<close>

definition chosen :: "(bytes \<times> EntryV1 \<Rightarrow> bool) \<Rightarrow> entry_map \<Rightarrow> bytes set" where
  "chosen sel m = {k. \<exists>e. (k, e) \<in> set m \<and> sel (k, e)}"

lemma chosen_simps [simp]:
  "chosen sel [] = {}"
  "chosen sel ((k, e) # m) = (if sel (k, e) then insert k (chosen sel m) else chosen sel m)"
  by (auto simp: chosen_def)

lemma remove_selected_table:
  "remove_selected (\<lambda>x. Inr (sel x)) es n tx = ((removed, err), tx') \<Longrightarrow>
   tEntries tx' = filter (\<lambda>(k, _). k \<notin> chosen sel es) (tEntries tx) \<and>
   removed = n + length (filter sel es) \<and> err = None \<and> tClosed tx' = tClosed tx \<and>
   tAppendOffset tx' = tAppendOffset tx"
proof (induction es arbitrary: n tx)
  case (Cons x es)
  obtain k e where x: "x = (k, e)" by fastforce
  show ?case
  proof (cases "sel (k, e)")
    case True
    then have "remove_selected (\<lambda>x. Inr (sel x)) es (n + 1) (drop_entry k e tx) = ((removed, err), tx')"
      using Cons.prems x by simp
    from Cons.IH [OF this] True x show ?thesis
      by (auto simp: drop_entry_def AList.delete_eq case_prod_beta intro!: filter_cong)
  next
    case False
    then show ?thesis using Cons.IH [of n tx] Cons.prems x by simp
  qed
qed auto

lemma chosen_deleted:
  assumes "distinct (map fst m)"
  shows "map_of (filter (\<lambda>(k, _). k \<notin> chosen sel m) m) k =
    (case map_of m k of Some e \<Rightarrow> if sel (k, e) then None else Some e | None \<Rightarrow> None)"
proof -
  have "map_of (filter (\<lambda>(k, _). k \<notin> A) m) = map_of m |` (- A)" for A
    by (rule ext, induction m) (auto simp: restrict_map_def)
  moreover have "k \<in> chosen sel m \<longleftrightarrow> sel (k, e)" if e: "map_of m k = Some e" for e
  proof -
    have "(k, e') \<in> set m \<longleftrightarrow> e' = e" for e'
      using map_of_eq_Some_iff [OF assms, of k e'] map_of_eq_Some_iff [OF assms, of k e] e
      by (metis option.inject)
    then show ?thesis by (auto simp: chosen_def)
  qed
  ultimately show ?thesis by (auto simp: restrict_map_def split: option.split)
qed

lemma map_of_delete_set: "map_of (filter (\<lambda>(k, _). k \<notin> A) m) = map_of m |` (- A)"
  by (rule ext, induction m) (auto simp: restrict_map_def)

lemma filter_inv:
  assumes "tx_inv L lo f tx s" "tEntries tx' = filter (\<lambda>(k, _). k \<notin> A) (tEntries tx)"
    "tAppendOffset tx' = tAppendOffset tx"
  shows "tx_inv L lo f tx' (s |` (- A))"
proof -
  have t: "table_ok lo (unat (tAppendOffset tx)) (tEntries tx)" and r: "refines L f (tEntries tx) s"
    using assms(1) by (simp_all add: tx_inv_def)
  have m: "map_of (tEntries tx') = map_of (tEntries tx) |` (- A)"
    unfolding assms(2) by (rule map_of_delete_set)
  have "table_ok lo (unat (tAppendOffset tx)) (tEntries tx')"
  proof (rule table_okI)
    show "distinct (map fst (tEntries tx'))"
      unfolding assms(2) by (rule distinct_map_filter) (rule table_ok_distinct [OF t])
    fix k e
    assume "map_of (tEntries tx') k = Some e"
    then have "map_of (tEntries tx) k = Some e" unfolding m by (auto simp: restrict_map_def split: if_splits)
    then show "Path e = k \<and> shape_ok e \<and> chunks_in lo (unat (tAppendOffset tx)) (Chunks e)"
      using table_okD [OF t] by blast
  qed
  moreover have "refines L f (tEntries tx') (s |` (- A))"
    unfolding refines_def m
  proof
    fix k
    have "cell L f (map_of (tEntries tx) k) (s k)" using r unfolding refines_def by iprover
    then show "cell L f ((map_of (tEntries tx) |` (- A)) k) ((s |` (- A)) k)"
      by (cases "k \<in> A") (simp_all add: restrict_map_def)
  qed
  ultimately show ?thesis using assms(1,3) by (simp add: tx_inv_def)
qed

lemma chosen_card: "distinct (map fst m) \<Longrightarrow> length (filter sel m) = card (chosen sel m)"
proof -
  assume d: "distinct (map fst m)"
  have "chosen sel m = set (map fst (filter sel m))" by (force simp: chosen_def)
  moreover have "distinct (map fst (filter sel m))" using d by (rule distinct_map_filter)
  ultimately show ?thesis using distinct_card [of "map fst (filter sel m)"] by simp
qed

lemma remove_selected_outcome:
  assumes inv: "tx_inv L lo f tx s"
    and run: "remove_selected (\<lambda>x. Inr (sel x)) (tEntries tx) 0 tx = ((removed, err), tx')"
  shows "tx_inv L lo f tx' (s |` (- chosen sel (tEntries tx)))"
    "removed = card (chosen sel (tEntries tx))" "err = None"
proof -
  note t = remove_selected_table [OF run]
  have "distinct (map fst (tEntries tx))"
    using inv by (auto simp: tx_inv_def dest: table_ok_distinct)
  then show "removed = card (chosen sel (tEntries tx))" using t chosen_card by simp
  show "err = None" using t by simp
  show "tx_inv L lo f tx' (s |` (- chosen sel (tEntries tx)))"
    using t by (intro filter_inv [OF inv]) simp_all
qed

lemma dom_table:
  assumes "tx_inv L lo f tx s"
  shows "dom s = fst ` set (tEntries tx)"
proof (rule set_eqI)
  fix k
  show "k \<in> dom s \<longleftrightarrow> k \<in> fst ` set (tEntries tx)"
    using table_present [OF assms, of k] unfolding map_of_eq_None_iff domIff by argo
qed

text \<open>\<^verbatim>\<open>RemovePrefix\<close> drops the path itself and what lies below it, and nothing else.\<close>

definition under :: "bytes \<Rightarrow> bytes \<Rightarrow> bool" where
  "under q p \<longleftrightarrow> p = q \<or> (\<exists>r. p = q @ [47] @ r)"

lemma removePrefix_outcome:
  assumes inv: "tx_inv L lo f tx s" and run: "Tx_RemovePrefix prefix tx = ((removed, err), tx')"
    and "\<not> tClosed tx" "normalizePrefix prefix = Inr q"
  shows "tx_inv L lo f tx' (s |` (- Collect (under q)))"
    "removed = card (dom s \<inter> Collect (under q))" "err = None"
proof -
  define sel where "sel = (\<lambda>(p, e :: EntryV1). p = q \<or> take (length (q @ [47])) p = q @ [47])"
  have eq: "(\<lambda>(p, e). Inr (p = q \<or> take (length (q @ [47])) p = q @ [47])) = (\<lambda>x. Inr (sel x) :: bool result)"
    by (auto simp: sel_def fun_eq_iff)
  have run': "remove_selected (\<lambda>x. Inr (sel x)) (tEntries tx) 0 tx = ((removed, err), tx')"
    using run assms(3,4) unfolding Tx_RemovePrefix_def Let_def by (simp add: eq del: length_append)
  have sel: "sel (p, e) \<longleftrightarrow> under q p" for p e
  proof -
    have "take (length (q @ [47])) p = q @ [47] \<longleftrightarrow> (\<exists>r. p = (q @ [47]) @ r)"
      by (metis append_eq_conv_conj append_take_drop_id)
    then show ?thesis by (simp add: sel_def under_def)
  qed
  have ch: "chosen sel (tEntries tx) = dom s \<inter> Collect (under q)"
    unfolding dom_table [OF inv] by (force simp: chosen_def sel)
  note o = remove_selected_outcome [OF inv run', unfolded ch]
  show "removed = card (dom s \<inter> Collect (under q))" "err = None" by (rule o)+
  have "s |` (- (dom s \<inter> Collect (under q))) = s |` (- Collect (under q))"
    by (intro ext) (auto simp: restrict_map_def domIff simp del: not_None_eq)
  then show "tx_inv L lo f tx' (s |` (- Collect (under q)))" using o(1) by simp
qed

section \<open>Metadata\<close>

lemma meta_inv:
  assumes inv: "tx_inv L lo f tx s" and e: "map_of (tEntries tx) q = Some e"
  obtains data where "s q = Some (data, Meta e)"
    "tx_inv L lo f (tx\<lparr>tEntries := AList.update q (e\<lparr>Meta := m\<rparr>) (tEntries tx)\<rparr>) (s(q \<mapsto> (data, m)))"
proof -
  have t: "table_ok lo (unat (tAppendOffset tx)) (tEntries tx)" and r: "refines L f (tEntries tx) s"
    using inv by (simp_all add: tx_inv_def)
  obtain data where d: "s q = Some (data, Meta e)" "reads_as L f (Chunks e) data"
    "unat (FileSize e) = length data" using refinesD(2) [OF r e] by blast
  have "shape_ok (e\<lparr>Meta := m\<rparr>)"
    using table_okD(2) [OF t e] by (simp add: shape_ok_def)
  then have "table_ok lo (unat (tAppendOffset tx)) (AList.update q (e\<lparr>Meta := m\<rparr>) (tEntries tx))"
    using table_okD(1,3) [OF t e] by (intro table_update [OF t]) simp_all
  moreover have "refines L f (AList.update q (e\<lparr>Meta := m\<rparr>) (tEntries tx)) (s(q \<mapsto> (data, m)))"
    using refines_update [OF r, of "e\<lparr>Meta := m\<rparr>" data q] d by simp
  ultimately show thesis using inv d(1) that by (simp add: tx_inv_def)
qed

lemma setMeta_outcome:
  assumes "tx_inv L lo f tx s" "Tx_SetMeta path m tx = (res, tx')"
  shows "case res of
      Inr _ \<Rightarrow> \<exists>q data old. normalize path = Inr q \<and> s q = Some (data, old) \<and>
        tx_inv L lo f tx' (s(q \<mapsto> (data, m)))
    | Inl e \<Rightarrow> tx' = tx \<and> e =
        (if tClosed tx then IoErrClosedPipe
         else if \<exists>q. normalize path = Inr q then ErrNotFound else ErrPathInvalid)"
proof (cases "tClosed tx \<or> (\<exists>e. normalize path = Inl e)")
  case True
  then show ?thesis using assms(2) by (auto simp: Tx_SetMeta_def split: if_splits)
next
  case False
  then obtain q where q: "normalize path = Inr q" by (cases "normalize path") auto
  show ?thesis
  proof (cases "map_of (tEntries tx) q")
    case None
    then show ?thesis using assms(2) False q by (auto simp: Tx_SetMeta_def)
  next
    case (Some e)
    obtain data where "s q = Some (data, Meta e)"
      "tx_inv L lo f (tx\<lparr>tEntries := AList.update q (e\<lparr>Meta := m\<rparr>) (tEntries tx)\<rparr>) (s(q \<mapsto> (data, m)))"
      by (rule meta_inv [OF assms(1) Some])
    moreover have "res = Inr ()"
      "tx' = tx\<lparr>tEntries := AList.update q (e\<lparr>Meta := m\<rparr>) (tEntries tx)\<rparr>"
      using assms(2) False q Some by (simp_all add: Tx_SetMeta_def)
    ultimately show ?thesis using q by simp
  qed
qed

section \<open>What removing adds to the counters\<close>

text \<open>Saturated natural numbers: the additions of the code are the additions of these.\<close>

definition sat :: "nat \<Rightarrow> u64" where "sat n = of_nat (min n (2 ^ 64 - 1))"

lemma unat_sat: "unat (sat n) = min n (2 ^ 64 - 1)"
  by (simp add: sat_def unat_of_nat min_def)

lemma sat_add: "saturatingAddUint64 (sat a) (sat b) = sat (a + b)"
  by (rule word_unat_eq_iff [THEN iffD2]) (simp add: saturatingAddUint64_unat unat_sat)

lemma sat_unat: "sat (unat w) = w"
  using unat_u64_lt [of w] by (simp add: sat_def min_def)

definition bytes_of_chunks :: "ChunkRefV1 list \<Rightarrow> nat" where
  "bytes_of_chunks cs = sum_list (map (\<lambda>c. unat (CompSize c) + 16) cs)"

lemma chunk_sat: "ucast (CompSize c) + 16 = sat (unat (CompSize c) + 16)"
  using unat_u32_lt [of "CompSize c"]
  by (intro word_unat_eq_iff [THEN iffD2]) (simp add: unat_sat unat_add_u64)

lemma entryStoredBytes_sat: "entryStoredBytes e = sat (bytes_of_chunks (Chunks e))"
proof -
  have "stored_bytes cs (sat n) = sat (n + bytes_of_chunks cs)" for cs n
    by (induction cs arbitrary: n) (simp_all add: bytes_of_chunks_def chunk_sat sat_add add.assoc)
  from this [of "Chunks e" 0] show ?thesis by (simp add: entryStoredBytes_def sat_def)
qed

definition counters :: "Tx \<Rightarrow> nat \<Rightarrow> nat \<Rightarrow> bool" where
  "counters tx dead churn \<longleftrightarrow> tDeadBytes tx = sat dead \<and> tChurnOps tx = sat churn"

lemma counters_mark:
  "counters tx a c \<Longrightarrow> counters (markObsolete e tx) (a + bytes_of_chunks (Chunks e)) (c + 1)"
proof -
  assume c: "counters tx a c"
  have one: "(1 :: u64) = sat 1" by (simp add: sat_def)
  show ?thesis
    using c unfolding counters_def markObsolete_def entryStoredBytes_sat one
    by (simp only: sat_add Tx.simps) simp
qed

lemma counters_drop:
  "counters tx a c \<Longrightarrow> counters (drop_entry k e tx) (a + bytes_of_chunks (Chunks e)) (c + 1)"
  using counters_mark [of tx a c e] by (simp add: drop_entry_def counters_def)

lemma remove_selected_counters:
  "remove_selected (\<lambda>x. Inr (sel x)) es n tx = (r, tx') \<Longrightarrow> counters tx a c \<Longrightarrow>
   counters tx' (a + sum_list (map (\<lambda>(k, e). bytes_of_chunks (Chunks e)) (filter sel es)))
     (c + length (filter sel es))"
proof (induction es arbitrary: n tx a c)
  case (Cons x es)
  obtain k e where x: "x = (k, e)" by fastforce
  show ?case
  proof (cases "sel (k, e)")
    case True
    then have "remove_selected (\<lambda>x. Inr (sel x)) es (n + 1) (drop_entry k e tx) = (r, tx')"
      using Cons.prems(1) x by simp
    from Cons.IH [OF this counters_drop [OF Cons.prems(2)]] True x show ?thesis
      by (simp add: add.assoc)
  next
    case False
    then show ?thesis using Cons.IH [of n tx a c] Cons.prems x by simp
  qed
qed simp

text \<open>
  The order in which the map is gone through changes neither the count, nor the table as a map,
  nor the counters.
\<close>

lemma remove_selected_order:
  assumes run: "remove_selected (\<lambda>x. Inr (sel x)) (tEntries tx) 0 tx = ((n1, err1), tx1)"
    and run': "remove_selected (\<lambda>x. Inr (sel x)) es 0 (tx\<lparr>tEntries := es\<rparr>) = ((n2, err2), tx2)"
    and perm: "mset es = mset (tEntries tx)" and dist: "distinct (map fst (tEntries tx))"
  shows "n1 = n2 \<and> map_of (tEntries tx1) = map_of (tEntries tx2) \<and>
    tDeadBytes tx1 = tDeadBytes tx2 \<and> tChurnOps tx1 = tChurnOps tx2"
proof -
  let ?w = "\<lambda>(k :: bytes, e). bytes_of_chunks (Chunks e)"
  note t = remove_selected_table [OF run] remove_selected_table [OF run', simplified]
  have fm: "mset (filter sel es) = mset (filter sel (tEntries tx))"
    using perm by (simp only: mset_filter)
  have len: "length (filter sel es) = length (filter sel (tEntries tx))"
    using fm by (rule mset_eq_length)
  have sums: "sum_list (map ?w (filter sel es)) = sum_list (map ?w (filter sel (tEntries tx)))"
    using arg_cong [OF fm, of "\<lambda>M. sum_mset (image_mset ?w M)"]
    by (simp only: mset_map [symmetric] sum_mset_sum_list)
  have set_eq: "set es = set (tEntries tx)" by (rule mset_eq_setD [OF perm])
  have "mset (map fst es) = mset (map fst (tEntries tx))" using perm by (simp only: mset_map)
  then have dist': "distinct (map fst es)" using dist mset_eq_imp_distinct_iff by blast
  have "chosen sel es = chosen sel (tEntries tx)" by (simp add: chosen_def set_eq)
  moreover have "map_of es = map_of (tEntries tx)"
    using dist dist' set_eq by (metis map_of_inject_set)
  ultimately have "map_of (tEntries tx1) = map_of (tEntries tx2)"
    using t by (simp add: map_of_delete_set)
  moreover have "counters tx (unat (tDeadBytes tx)) (unat (tChurnOps tx))"
    by (simp add: counters_def sat_unat)
  then have "counters (tx\<lparr>tEntries := es\<rparr>) (unat (tDeadBytes tx)) (unat (tChurnOps tx))"
    by (simp add: counters_def)
  from remove_selected_counters [OF run' this] remove_selected_counters [OF run \<open>counters tx _ _\<close>]
  have "tDeadBytes tx1 = tDeadBytes tx2" "tChurnOps tx1 = tChurnOps tx2"
    by (simp_all add: counters_def sums len)
  ultimately show ?thesis using t len by simp
qed

section \<open>Sources that are cut off\<close>

text \<open>
  \<^verbatim>\<open>io.ReadFull\<close> reports \<^verbatim>\<open>io.ErrUnexpectedEOF\<close> when a source ends inside a chunk, and so does a source that
  is itself cut off; the writers take both for the end.
\<close>

lemma write_seq_cut:
  "write_seq L codec level cs m d off (b, IoUnexpectedEOF) rawOff chunks =
   write_seq L codec level cs m d off (b, IoEOF) rawOff chunks"
proof (induction "length b" arbitrary: b d off rawOff chunks rule: less_induct)
  case less
  show ?case
  proof (cases "cs \<le> length b")
    case True
    have "write_seq L codec level cs m d' off' (drop cs b, IoUnexpectedEOF) nro chs =
        write_seq L codec level cs m d' off' (drop cs b, IoEOF) nro chs"
      if "take cs b \<noteq> []" for d' off' nro chs
      using less [of "drop cs b"] that by (cases b; cases cs) simp_all
    then show ?thesis
      using True by (subst (1 2) write_seq.simps)
        (auto simp: readFull_def Let_def dest: encode_nonempty split: option.split sum.split prod.split)
  next
    case False
    then show ?thesis
      by (subst (1 2) write_seq.simps) (simp add: readFull_def split: option.split sum.split prod.split)
  qed
qed

lemma produce_cut:
  "0 < cs \<Longrightarrow> produce cs m (b, IoUnexpectedEOF) i rawOff jobs = produce cs m (b, IoEOF) i rawOff jobs"
proof (induction "length b" arbitrary: b i rawOff jobs rule: less_induct)
  case less
  show ?case
  proof (cases "cs \<le> length b")
    case True
    then have "produce cs m (drop cs b, IoUnexpectedEOF) i' nro js = produce cs m (drop cs b, IoEOF) i' nro js"
      for i' nro js
      using less(1) [of "drop cs b"] less(2) by simp
    then show ?thesis
      using True by (subst (1 2) produce.simps) (simp add: readFull_def Let_def split: option.split)
  next
    case False
    then show ?thesis by (subst (1 2) produce.simps) (simp add: readFull_def split: option.split)
  qed
qed

text \<open>
  An entry from a source that is cut off is stored as if the source had ended there, and no error is
  returned: \<^verbatim>\<open>Add\<close>, \<^verbatim>\<open>Upsert\<close> and \<^verbatim>\<open>Replace\<close> cannot tell the two apart.
\<close>

theorem truncated_source:
  "Tx_Add env opts path (Some (b, IoUnexpectedEOF)) meta wopts tx d =
     Tx_Add env opts path (Some (b, IoEOF)) meta wopts tx d"
  "Tx_Upsert env opts path (Some (b, IoUnexpectedEOF)) meta wopts tx d =
     Tx_Upsert env opts path (Some (b, IoEOF)) meta wopts tx d"
  "Tx_Replace env opts path (Some (b, IoUnexpectedEOF)) meta wopts tx d =
     Tx_Replace env opts path (Some (b, IoEOF)) meta wopts tx d"
proof -
  have "writeEntry env opts q (Some (b, IoUnexpectedEOF)) meta wopts t d =
      writeEntry env opts q (Some (b, IoEOF)) meta wopts t d" for q t
  proof -
    obtain p where p: "write_entry_params env opts q (take 4096 b) wopts = Inr p" "0 < wpChunkSize p"
      using params_total by blast
    then show ?thesis
      by (simp add: writeEntry_def writeChunks_def writeChunksSequential_def writeChunksParallel_def
          write_seq_cut produce_cut)
  qed
  then show "Tx_Add env opts path (Some (b, IoUnexpectedEOF)) meta wopts tx d =
       Tx_Add env opts path (Some (b, IoEOF)) meta wopts tx d"
    "Tx_Upsert env opts path (Some (b, IoUnexpectedEOF)) meta wopts tx d =
       Tx_Upsert env opts path (Some (b, IoEOF)) meta wopts tx d"
    "Tx_Replace env opts path (Some (b, IoUnexpectedEOF)) meta wopts tx d =
       Tx_Replace env opts path (Some (b, IoEOF)) meta wopts tx d"
    unfolding Tx_Add_def Tx_Upsert_def Tx_Replace_def by (simp_all only: write_and_put_def)
qed

end
