(* ===== verification/CommitSpec.thy ===== *)
theory CommitSpec
  imports Commit TxOps
begin

text \<open>
  What \<^verbatim>\<open>Create\<close> and \<^verbatim>\<open>Commit\<close> leave in the file, what \<^verbatim>\<open>Open\<close> makes of it, and what it makes of a
  file on which a commit stopped half-way.
\<close>

section \<open>The header of a commit\<close>

lemma set_flags_fields [simp]:
  "hReserved (set_flags h) = hReserved h" "hMagic (set_flags h) = hMagic h"
  "hVersion (set_flags h) = hVersion h" "hHeaderSize (set_flags h) = hHeaderSize h"
  "hUUID (set_flags h) = hUUID h" "hCreatedUnix (set_flags h) = hCreatedUnix h"
  "hDirOffset (set_flags h) = hDirOffset h" "hDirSize (set_flags h) = hDirSize h"
  "hDirCRC32 (set_flags h) = hDirCRC32 h" "hJournalOffset (set_flags h) = hJournalOffset h"
  "hJournalSize (set_flags h) = hJournalSize h"
  "hFlags (set_flags h) = hFlags h OR requiredFlags"
  by (simp_all add: set_flags_def requiredFlags_def ac_simps)

lemma reads_local:
  assumes "hReserved g = hReserved h"
  shows "readHeaderGeneration g = readHeaderGeneration h"
    "readHeaderDirIndexPointer g = readHeaderDirIndexPointer h"
    "readHeaderRequiredFeaturesLow g = readHeaderRequiredFeaturesLow h"
    "readCompactionStatsFromHeader g = readCompactionStatsFromHeader h"
  by (simp_all add: readHeaderGeneration_def readHeaderDirIndexPointer_def
      readHeaderRequiredFeaturesLow_def readCompactionStatsFromHeader_def assms)

lemmas reads_core [simp] =
  reads_local [of "set_flags h" h] reads_local [of "hJournalOffset_update f h" h]
  reads_local [of "hJournalSize_update f h" h] reads_local [of "hDirOffset_update f h" h]
  reads_local [of "hDirSize_update f h" h] reads_local [of "hDirCRC32_update f h" h]
  for h f

lemma shape_update [simp]:
  "header_shape (set_flags h) = header_shape h"
  "header_shape (hJournalOffset_update f h) = header_shape h"
  "header_shape (hJournalSize_update k h) = header_shape h"
  "header_shape (hDirOffset_update f h) = header_shape h"
  "header_shape (hDirSize_update f h) = header_shape h"
  "header_shape (hDirCRC32_update g h) = header_shape h"
  by (simp_all add: header_shape_def)

text \<open>The last four steps, which \<^verbatim>\<open>Create\<close> and \<^verbatim>\<open>Commit\<close> share.\<close>

definition seal :: "HeaderV1 \<Rightarrow> u64 \<Rightarrow> dirIndexPointer \<Rightarrow> HeaderV1" where
  "seal h gen ptr =
     writeHeaderRequiredFeaturesLow requiredFeaturesSupported
       (writeHeaderDirIndexPointer ptr (writeHeaderGeneration gen h))"

lemma seal_reads:
  assumes "header_shape h"
  shows "header_shape (seal h gen ptr)" "readHeaderGeneration (seal h gen ptr) = gen"
    "readHeaderDirIndexPointer (seal h gen ptr) = ptr"
    "readHeaderRequiredFeaturesLow (seal h gen ptr) = requiredFeaturesSupported"
    "readCompactionStatsFromHeader (seal h gen ptr) = readCompactionStatsFromHeader h"
    "hReserved (seal h gen ptr) ! 0 = hReserved h ! 0" "hReserved (seal h gen ptr) ! 1 = hReserved h ! 1"
  using assms
  by (simp_all add: seal_def reserved_rd_wr reserved_shape marker_frame marker_frame [unfolded One_nat_def])

lemma seal_fields [simp]:
  "hMagic (seal h gen ptr) = hMagic h" "hVersion (seal h gen ptr) = hVersion h"
  "hHeaderSize (seal h gen ptr) = hHeaderSize h" "hFlags (seal h gen ptr) = hFlags h"
  "hUUID (seal h gen ptr) = hUUID h" "hCreatedUnix (seal h gen ptr) = hCreatedUnix h"
  "hDirOffset (seal h gen ptr) = hDirOffset h" "hDirSize (seal h gen ptr) = hDirSize h"
  "hDirCRC32 (seal h gen ptr) = hDirCRC32 h" "hJournalOffset (seal h gen ptr) = hJournalOffset h"
  "hJournalSize (seal h gen ptr) = hJournalSize h"
  by (simp_all add: seal_def)

lemma commit_header_seal:
  "commit_header h gen io ib jo =
     seal (markHeaderV1ExtensionLayout
       ((set_flags h)\<lparr>hJournalOffset := jo, hJournalSize := of_nat journalRecordSize\<rparr>)) gen
       \<lparr>pOffset = io, pSize = of_nat (length ib), pCrc32 = crc32 ib\<rparr>"
  by (simp add: commit_header_def seal_def Let_def)

lemma commit_header_reads:
  assumes "header_valid h" and g_def: "g = commit_header h gen io ib jo"
  shows "header_valid g" "readHeaderGeneration g = gen"
    "readHeaderDirIndexPointer g = \<lparr>pOffset = io, pSize = of_nat (length ib), pCrc32 = crc32 ib\<rparr>"
    "hDirOffset g = hDirOffset h" "hDirSize g = hDirSize h" "hDirCRC32 g = hDirCRC32 h"
    "readCompactionStatsFromHeader g = readCompactionStatsFromHeader h"
    "hJournalOffset g = jo" "hUUID g = hUUID h" "hCreatedUnix g = hCreatedUnix h"
    "headerHasFixedBackupSlot g"
    "canonical_layout g \<longleftrightarrow> jo \<noteq> 0 \<and> io \<noteq> 0 \<and> (of_nat (length ib) :: u64) \<noteq> 0 \<and> crc32 ib \<noteq> 0"
proof -
  let ?m = "markHeaderV1ExtensionLayout
      ((set_flags h)\<lparr>hJournalOffset := jo, hJournalSize := of_nat journalRecordSize\<rparr>)"
  from assms(1) have sh: "header_shape h" by (simp add: header_valid_def)
  then have m: "header_shape ?m" by (intro mark_shape) simp
  note s = seal_reads [OF m]
  have marker: "hReserved ?m ! 0 = 2" "hReserved ?m ! 1 = 0"
    using mark_marker [of "(set_flags h)\<lparr>hJournalOffset := jo, hJournalSize := of_nat journalRecordSize\<rparr>"] sh
    by simp_all
  show "header_valid g" "readHeaderGeneration g = gen"
    "readHeaderDirIndexPointer g = \<lparr>pOffset = io, pSize = of_nat (length ib), pCrc32 = crc32 ib\<rparr>"
    "hDirOffset g = hDirOffset h" "hDirSize g = hDirSize h" "hDirCRC32 g = hDirCRC32 h"
    "readCompactionStatsFromHeader g = readCompactionStatsFromHeader h"
    "hJournalOffset g = jo" "hUUID g = hUUID h" "hCreatedUnix g = hCreatedUnix h"
    unfolding g_def commit_header_seal
    using assms(1) s by (simp_all add: header_valid_def mark_reads)
  show "headerHasFixedBackupSlot g"
    unfolding g_def commit_header_seal using s(6) marker by (simp add: headerHasFixedBackupSlot_def)
  show "canonical_layout g \<longleftrightarrow> jo \<noteq> 0 \<and> io \<noteq> 0 \<and> (of_nat (length ib) :: u64) \<noteq> 0 \<and> crc32 ib \<noteq> 0"
    unfolding g_def commit_header_seal canonical_layout_def
    using s marker by (simp add: or_and_mask)
qed

lemma commit_dir_header_reads:
  assumes "header_valid h" and "g = commit_dir_header h tx off blob crc"
  shows "header_valid g" "hDirOffset g = off" "hDirSize g = of_nat (length blob)" "hDirCRC32 g = crc"
    "readHeaderGeneration g = readHeaderGeneration h"
    "readCompactionStatsFromHeader g =
       (saturatingAddUint64 (fst (readCompactionStatsFromHeader h)) (tDeadBytes tx),
        saturatingAddUint64 (snd (readCompactionStatsFromHeader h)) (tChurnOps tx))"
    "hUUID g = hUUID h" "hCreatedUnix g = hCreatedUnix h"
  using assms reserved_shape(4) [of h]
  by (simp_all add: commit_dir_header_def case_prod_beta Let_def header_valid_def reserved_rd_wr)

section \<open>Runs of disk operations\<close>

lemma then_disk_cases:
  assumes "then_disk m k = (r, d')"
  obtains (fail) e where "m = (Inl e, d')" "r = Inl e"
  | (go) x d1 where "m = (Inr x, d1)" "k x d1 = (r, d')"
  using assms by (auto simp: then_disk_def split: sum.splits prod.splits)

lemma writeAt_cases:
  assumes "writeAt d off b = (r, d')"
  shows "\<exists>n. content d' = overwrite (content d) (unat off) (take n b) \<and> (r = Inr () \<longrightarrow> take n b = b)"
proof (cases "maxInt < off")
  case True
  then have "content d' = overwrite (content d) (unat off) (take 0 b) \<and> (r = Inr () \<longrightarrow> take 0 b = b)"
    using assms by (auto simp: writeAt_def overwrite_def)
  then show ?thesis by (rule exI)
next
  case False
  obtain x dx where x: "next_outcome d = (x, dx)" by fastforce
  note c = next_outcome_content [OF x]
  show ?thesis
  proof (cases x)
    case Done
    then have "content d' = overwrite (content d) (unat off) b"
      using assms False x c by (auto simp: writeAt_def)
    then show ?thesis by (intro exI [of _ "length b"]) simp
  next
    case (Fault e n)
    then have "content d' = overwrite (content d) (unat off) (take n b)" "r = Inl e"
      using assms False x c by (auto simp: writeAt_def)
    then show ?thesis by (intro exI [of _ n]) simp
  qed
qed

lemma sync_if_content: "sync_if b d = (r, d') \<Longrightarrow> content d' = content d"
  by (auto simp: sync_if_def split: if_splits)

section \<open>Opening a file that holds a catalogue\<close>

definition opened :: "Options \<Rightarrow> HeaderV1 \<Rightarrow> u64 \<Rightarrow> EntryV1 list \<Rightarrow> Container" where
  "opened opts h bu es = buildContainerFromSnapshot opts h
     \<lparr>sEntries = None, sDirBlob = dir_blob bu es,
      sDirIndex = Some (built_index bu es (hDirOffset h) (readHeaderGeneration h))\<rparr>"

text \<open>The header is in its slot at the start of the file and the catalogue is stored under it.\<close>

definition holds :: "bytes \<Rightarrow> HeaderV1 \<Rightarrow> u64 \<Rightarrow> EntryV1 list \<Rightarrow> bool" where
  "holds f h bu es \<longleftrightarrow> header_valid h \<and> at f 0 (header_bytes h) \<and> stored f h bu es \<and>
     length f < 2 ^ 63"

lemma header_length: "header_valid h \<Longrightarrow> length (header_bytes h) = 128"
  by (simp add: header_valid_def length_header_bytes HeaderSize_def)

lemma read_header_at_start:
  assumes "holds f h bu es"
  shows "readAt f 0 HeaderSize = Inr (header_bytes h)"
  using assms readAt_at_iff [of f 0 "header_bytes h"] header_length [of h]
  by (simp add: holds_def HeaderSize_def)

lemma open_holds:
  assumes "holds (content d) h bu es"
  shows "Open L procs opts d = (Inr (opened (effectiveOptions procs opts) h bu es), d)"
  using read_header_at_start [OF assms] unmarshal_header_bytes [of h]
    load_stored_lazy [of "content d" h bu es] assms
  by (simp add: Open_def holds_def opened_def Let_def)

section \<open>The two header slots\<close>

text \<open>
  The header is written to the backup slot first and to the start of the file last; each of the
  writes may stop after any number of bytes.
\<close>

lemma write_slots_cases:
  assumes slot: "headerHasFixedBackupSlot h" and len: "length hb = 128" "256 \<le> length (content d)"
    and run: "write_slots snc h hb d = (r, d')"
  obtains (backup) n e where "r = Inl e" "content d' = overwrite (content d) 128 (take n hb)"
  | (main) n where "content d' = overwrite (overwrite (content d) 128 hb) 0 (take n hb)"
      "r = Inr h \<longrightarrow> take n hb = hb" "(\<exists>e. r = Inl e) \<or> r = Inr h"
proof -
  have fb: "unat fixedBackupOffset = 128" by (simp add: fixedBackupOffset_def)
  from run have run': "then_disk (then_disk (writeAt d fixedBackupOffset hb) (\<lambda>_ d. sync_if snc d)) (\<lambda>_ d.
      then_disk (writeAt d 0 hb) (\<lambda>_ d. then_disk (sync_if snc d) (\<lambda>_ d. (Inr h, d)))) = (r, d')"
    by (simp add: write_slots_def slot)
  then show thesis
  proof (cases rule: then_disk_cases)
    case (fail e)
    from fail(1) obtain n where "content d' = overwrite (content d) 128 (take n hb)"
    proof (cases rule: then_disk_cases)
      case (fail e1)
      then show thesis using writeAt_cases [OF fail(1)] that by (auto simp: fb)
    next
      case (go x d1)
      then show thesis
        using writeAt_cases [OF go(1)] sync_if_content [OF go(2)] that by (auto simp: fb)
    qed
    then show thesis using fail(2) backup by blast
  next
    case (go x d1)
    from go(1) have b: "content d1 = overwrite (content d) 128 hb"
    proof (cases rule: then_disk_cases)
      case (go y d2)
      then show ?thesis
        using writeAt_cases [OF go(1)] sync_if_content [OF go(2)] by (auto simp: fb)
    qed simp
    from go(2) show thesis
    proof (cases rule: then_disk_cases)
      case (fail e)
      then show thesis using writeAt_cases [OF fail(1)] main b by auto
    next
      case (go y d2)
      obtain n where n: "content d2 = overwrite (content d1) 0 (take n hb)" "take n hb = hb"
        using writeAt_cases [OF go(1)] by auto
      from go(2) have "content d' = content d2 \<and> ((\<exists>e. r = Inl e) \<or> r = Inr h)"
        by (cases rule: then_disk_cases) (auto dest: sync_if_content)
      then show thesis using main [of n] n b by auto
    qed
  qed
qed

section \<open>The file before the slots are written\<close>

definition commit_entries :: "Tx \<Rightarrow> EntryV1 list" where
  "commit_entries tx = map norm_entry (sort_key Path (map snd (tEntries tx)))"

text \<open>The offsets, the index and the header of a commit at build time \<open>bu\<close>.\<close>

definition commit_index :: "Container \<Rightarrow> Tx \<Rightarrow> u64 \<Rightarrow> DirIndexV1" where
  "commit_index c tx bu =
     built_index bu (commit_entries tx) (tAppendOffset tx) (next_generation (cHeader c))"

definition index_offset :: "Tx \<Rightarrow> u64 \<Rightarrow> u64" where
  "index_offset tx bu = tAppendOffset tx + of_nat (length (dir_blob bu (commit_entries tx)))"

definition journal_offset :: "Container \<Rightarrow> Tx \<Rightarrow> u64 \<Rightarrow> u64" where
  "journal_offset c tx bu = index_offset tx bu + of_nat (length (index_blob (commit_index c tx bu)))"

definition new_header :: "Container \<Rightarrow> Tx \<Rightarrow> u64 \<Rightarrow> HeaderV1" where
  "new_header c tx bu =
     commit_header
       (commit_dir_header (cHeader c) tx (tAppendOffset tx) (dir_blob bu (commit_entries tx))
          (crc32 (dir_body bu (commit_entries tx))))
       (next_generation (cHeader c)) (index_offset tx bu) (index_blob (commit_index c tx bu))
       (journal_offset c tx bu)"

text \<open>
  The limits of the format a commit must stay within. The checksum of the index is read as
  absent when it is 0.
\<close>

definition commit_fits :: "Container \<Rightarrow> Tx \<Rightarrow> u64 \<Rightarrow> bool" where
  "commit_fits c tx bu \<longleftrightarrow>
     length (dir_blob bu (commit_entries tx)) \<le> 2 ^ 30 \<and> 256 \<le> unat (tAppendOffset tx) \<and>
     crc32 (index_blob (commit_index c tx bu)) \<noteq> 0"

lemma next_generation_dir: 
  assumes "header_valid h"
  shows "next_generation (commit_dir_header h tx off blob crc) = next_generation h"
  using commit_dir_header_reads(5) [OF assms refl] by (simp add: next_generation_def)

lemma set_commit_entries:
  "e \<in> set (commit_entries tx) \<longleftrightarrow> (\<exists>k e0. (k, e0) \<in> set (tEntries tx) \<and> e = norm_entry e0)"
  by (force simp: commit_entries_def)

lemma entries_size_mem: "e \<in> set es \<Longrightarrow> length (enc_entry e) \<le> entries_size es"
  by (induction es) auto

lemma commit_entries_ok:
  assumes t: "table_ok lo hi (tEntries tx)" and len: "length (dir_blob bu (commit_entries tx)) \<le> 2 ^ 30"
  shows "list_all entry_ok (commit_entries tx)" "distinct (map Path (commit_entries tx))"
    "chunks_inside hi (commit_entries tx)" "\<forall>e \<in> set (map snd (tEntries tx)). Path e \<noteq> []"
proof -
  have d: "distinct (map fst (tEntries tx))" by (rule table_ok_distinct [OF t])
  have mem: "Path e = k" "shape_ok e" "chunks_in lo hi (Chunks e)" if "(k, e) \<in> set (tEntries tx)" for k e
    using table_okD [OF t map_of_is_SomeI [OF d that]] by simp_all
  then show "\<forall>e \<in> set (map snd (tEntries tx)). Path e \<noteq> []" by (auto simp: shape_ok_def)
  show "list_all entry_ok (commit_entries tx)"
    unfolding list_all_iff
  proof
    fix e
    assume e: "e \<in> set (commit_entries tx)"
    then obtain k e0 where e0: "(k, e0) \<in> set (tEntries tx)" "e = norm_entry e0"
      by (auto simp: set_commit_entries)
    have "length (enc_entry e) \<le> 2 ^ 30" using entries_size_mem [OF e] len by simp
    then have "entry_sizes e0" by (simp add: e0(2) entry_sizes_def)
    then show "entry_ok e" using mem(2) [OF e0(1)] shape_sizes e0(2) by simp
  qed
  have "map Path (map snd (tEntries tx)) = map fst (tEntries tx)"
    using mem(1) by (auto simp: comp_def)
  then have "distinct (map Path (map snd (tEntries tx)))" using d by (simp only:)
  then have "distinct (map Path (sort_key Path (map snd (tEntries tx))))"
    by (metis mset_eq_imp_distinct_iff mset_map mset_sort)
  then show "distinct (map Path (commit_entries tx))" by (simp add: commit_entries_def comp_def)
  show "chunks_inside hi (commit_entries tx)"
    unfolding chunks_inside_def
  proof (intro ballI)
    fix e c
    assume "e \<in> set (commit_entries tx)" "c \<in> set (Chunks e)"
    then obtain k e0 c0 where "(k, e0) \<in> set (tEntries tx)" "c0 \<in> set (Chunks e0)"
      "ChunkOffset c = ChunkOffset c0" "CompSize c = CompSize c0"
      by (auto simp: set_commit_entries)
    then show "unat (ChunkOffset c) + 16 + unat (CompSize c) \<le> hi"
      using mem(3) by (fastforce simp: chunks_in_def)
  qed
qed

lemma index_size_le:
  assumes "length (dir_blob bu es) \<le> 2 ^ 30"
  shows "length (index_blob (built_index bu es off gen)) \<le> 2 ^ 30"
proof -
  have "length (buildDirIndexHashRanges (rows_of 20 es)) \<le> length es"
    using length_ranges_from [of "rows_of 20 es" "hash_order (rows_of 20 es)"]
    by (simp add: build_ranges_eq hash_order_def)
  then have "length (index_blob (built_index bu es off gen)) \<le> 64 + 40 * length es"
    by (simp add: built_index_def)
  moreover have "44 * length es \<le> 2 ^ 30 - 36" using entries_size_ge [of es] assms by simp
  ultimately show ?thesis by simp
qed

text \<open>The regions the commit appends make its header a header of a stored catalogue.\<close>

lemma commit_stored:
  assumes hv: "header_valid (cHeader c)" and fits: "commit_fits c tx bu"
    and t: "table_ok lo (unat (tAppendOffset tx)) (tEntries tx)"
    and a: "at f (unat (tAppendOffset tx)) (dir_blob bu (commit_entries tx))"
      "at f (unat (index_offset tx bu)) (index_blob (commit_index c tx bu))"
    and len: "length f < 2 ^ 63"
  shows "stored f (new_header c tx bu) bu (commit_entries tx)" "header_valid (new_header c tx bu)"
    "headerHasFixedBackupSlot (new_header c tx bu)"
    "pOffset (readHeaderDirIndexPointer (new_header c tx bu)) = index_offset tx bu"
    "hDirOffset (new_header c tx bu) = tAppendOffset tx"
    "256 \<le> unat (index_offset tx bu)"
proof -
  let ?es = "commit_entries tx" and ?off = "tAppendOffset tx"
  let ?blob = "dir_blob bu ?es" and ?ib = "index_blob (commit_index c tx bu)"
  from fits have lim: "length ?blob \<le> 2 ^ 30" "256 \<le> unat ?off" "crc32 ?ib \<noteq> 0"
    by (simp_all add: commit_fits_def)
  have ib: "length ?ib \<le> 2 ^ 30" "64 \<le> length ?ib"
    using index_size_le [OF lim(1)] by (simp_all add: commit_index_def)
  have io: "unat (index_offset tx bu) = unat ?off + length ?blob"
    using a(1) len by (simp add: index_offset_def at_def unat_add_u64 unat_of_nat del: length_dir_blob)
  show io256: "256 \<le> unat (index_offset tx bu)" using io lim(2) by simp
  have jo: "unat (journal_offset c tx bu) = unat (index_offset tx bu) + length ?ib"
    using a(2) len by (simp add: journal_offset_def at_def unat_add_u64 unat_of_nat del: length_index_blob)
  let ?g = "commit_dir_header (cHeader c) tx ?off ?blob (crc32 (dir_body bu ?es))"
  note g = commit_dir_header_reads [OF hv refl, of tx ?off ?blob "crc32 (dir_body bu ?es)"]
  note h = commit_header_reads [OF g(1) new_header_def [unfolded atomize_eq]]
  show "header_valid (new_header c tx bu)" "headerHasFixedBackupSlot (new_header c tx bu)"
    "hDirOffset (new_header c tx bu) = ?off"
    "pOffset (readHeaderDirIndexPointer (new_header c tx bu)) = index_offset tx bu"
    using h g by simp_all
  have nz: "journal_offset c tx bu \<noteq> 0" "index_offset tx bu \<noteq> 0" "(of_nat (length ?ib) :: u64) \<noteq> 0"
    "?off \<noteq> 0"
    using io256 jo ib lim(2) by (auto simp: unat_of_nat word_unat_eq_iff simp del: length_index_blob)
  have "canonical_layout (new_header c tx bu)" using h(12) nz lim(3) by simp
  moreover have "dir_stored f (new_header c tx bu) bu ?es"
    unfolding dir_stored_def
    using a(1) h(4-6) g(2-4) nz(4) lim(1) commit_entries_ok [OF t lim(1)]
    by (auto simp: at_def simp del: length_dir_blob intro: chunks_inside_mono)
  moreover have "idx_stored f (new_header c tx bu)
      (built_index bu ?es (hDirOffset (new_header c tx bu)) (readHeaderGeneration (new_header c tx bu)))"
    using a(2) h(2-4) g(2) ib(1)
    by (simp add: idx_stored_def Let_def commit_index_def del: length_index_blob)
  ultimately show "stored f (new_header c tx bu) bu ?es" by (simp add: stored_def)
qed

section \<open>Commit, step by step\<close>

definition grows :: "disk \<Rightarrow> disk \<Rightarrow> bool" where
  "grows d d' \<longleftrightarrow> length (content d) \<le> length (content d')"

lemma then_disk_grows:
  assumes "then_disk m k = (r, d')" "\<And>x d1. m = (x, d1) \<Longrightarrow> grows d d1"
    "\<And>x d1. m = (Inr x, d1) \<Longrightarrow> k x d1 = (r, d') \<Longrightarrow> grows d1 d'"
  shows "grows d d'"
  using assms(1)
proof (cases rule: then_disk_cases)
  case (fail e)
  then show ?thesis using assms(2) by blast
next
  case (go x d1)
  then show ?thesis using assms(2) [OF go(1)] assms(3) [OF go] by (simp add: grows_def)
qed

lemma io_grows:
  "appendAt d off b = (r1, d') \<Longrightarrow> grows d d'" "writeAt d off b = (r2, d') \<Longrightarrow> grows d d'"
  "sync_if z d = (r2, d') \<Longrightarrow> grows d d'"
  using appendAt_grows writeAt_same [of d off b r2 d' 0 "unat off + length b"] sync_if_content
  by (auto simp: grows_def same_def)

lemma write_slots_grows: "write_slots snc h hb d = (r, d') \<Longrightarrow> grows d d'"
  unfolding write_slots_def
  by (erule then_disk_grows)
    (auto simp: grows_def split: if_splits dest: io_grows [unfolded grows_def]
      elim!: then_disk_grows [unfolded grows_def])

lemma write_records_cases:
  assumes "header_valid h"
    and "write_records env snc h joff d = (r, d')"
  obtains (fail) e d1 bo where "r = Inl e"
      "(appendAt d joff (header_record journalMagic (header_bytes h) (mJournalTime env)) = (Inl e, d')) \<or>
       (appendAt d joff (header_record journalMagic (header_bytes h) (mJournalTime env)) = (Inr bo, d1) \<and>
        (\<exists>x d2. appendAt d1 bo (header_record backupMagic (header_bytes h) (mBackupTime env)) = (x, d2) \<and>
           content d' = content d2))"
  | (go) d1 d2 d3 bo eo where
      "appendAt d joff (header_record journalMagic (header_bytes h) (mJournalTime env)) = (Inr bo, d1)"
      "appendAt d1 bo (header_record backupMagic (header_bytes h) (mBackupTime env)) = (Inr eo, d2)"
      "content d3 = content d2" "write_slots snc h (header_bytes h) d3 = (r, d')"
proof -
  have m: "marshalHeader h = Inr (header_bytes h)"
    using assms(1) by (simp add: header_valid_def marshalHeader_ok)
  have b: "buildJournalRecord (header_bytes h) t = Inr (header_record journalMagic (header_bytes h) t)"
    "buildBackupRecord (header_bytes h) t = Inr (header_record backupMagic (header_bytes h) t)" for t
    using header_length [OF assms(1)]
    by (simp_all add: buildJournalRecord_def buildBackupRecord_def buildHeaderRecord_eq
        journalMagic_def backupMagic_def)
  from assms(2) have "then_disk (appendAt d joff (header_record journalMagic (header_bytes h) (mJournalTime env)))
      (\<lambda>bo d. then_disk (appendAt d bo (header_record backupMagic (header_bytes h) (mBackupTime env)))
        (\<lambda>_ d. then_disk (sync_if snc d) (\<lambda>_ d. write_slots snc h (header_bytes h) d))) = (r, d')"
    by (simp add: write_records_def m b)
  then show thesis
  proof (cases rule: then_disk_cases)
    case (fail e)
    then show thesis using that(1) by blast
  next
    case (go bo d1)
    note g1 = go
    from g1(2) show thesis
    proof (cases rule: then_disk_cases)
      case (fail e)
      then show thesis using that(1) g1(1) by blast
    next
      case (go eo d2)
      note g2 = go
      from g2(2) show thesis
      proof (cases rule: then_disk_cases)
        case (fail e)
        then show thesis using that(1) g1(1) g2(1) sync_if_content by blast
      next
        case (go u d3)
        then show thesis using that(2) [OF g1(1) g2(1) sync_if_content [OF go(1)]] by blast
      qed
    qed
  qed
qed

lemma write_records_grows:
  assumes "header_valid h" "write_records env snc h joff d = (r, d')"
  shows "grows d d'"
  using assms
proof (cases rule: write_records_cases)
  case (fail e d1 bo)
  then show ?thesis by (auto simp: grows_def dest!: io_grows(1) [unfolded grows_def])
next
  case (go d1 d2 d3 bo eo)
  then show ?thesis
    using io_grows(1) [OF go(1)] io_grows(1) [OF go(2)] write_slots_grows [OF go(4)]
    by (simp add: grows_def)
qed

lemma same_step: "same 0 a f g \<Longrightarrow> same 0 b g h \<Longrightarrow> a \<le> b \<Longrightarrow> same 0 a f h"
  by (blast intro: same_trans same_weaken)

lemma appendAt_next: "appendAt d off b = (Inr off', d') \<Longrightarrow> off' = off + of_nat (length b)"
  by (auto simp: appendAt_def split: if_splits sum.splits prod.splits)

text \<open>
  Either the commit stops while it appends, and then only the bytes behind the append offset
  have changed; or the catalogue and both records are complete when the slots are written.
\<close>

definition ready :: "commit_env \<Rightarrow> Container \<Rightarrow> Tx \<Rightarrow> bytes \<Rightarrow> bool" where
  "ready env c tx f \<longleftrightarrow>
     (let h = new_header c tx (mBuildTime env); jo = unat (journal_offset c tx (mBuildTime env)) in
      header_valid h \<and> headerHasFixedBackupSlot h \<and>
      stored f h (mBuildTime env) (commit_entries tx) \<and>
      256 \<le> unat (hDirOffset h) \<and> 256 \<le> unat (pOffset (readHeaderDirIndexPointer h)) \<and>
      at f jo (header_record journalMagic (header_bytes h) (mJournalTime env)) \<and>
      at f (jo + 148) (header_record backupMagic (header_bytes h) (mBackupTime env)))"

lemma commit_encodes:
  assumes fits: "commit_fits c tx bu" and t: "table_ok lo hi (tEntries tx)"
  defines "es \<equiv> commit_entries tx"
  shows "encodeDirectory \<lparr>dEntryCount = 0, dFlags = 0, dBuildUnix = bu,
      dEntries = map snd (tEntries tx)\<rparr> = Inr (dir_blob bu es, crc32 (dir_body bu es))"
    "buildDirIndexBlob (dir_blob bu es) (tAppendOffset tx) (crc32 (dir_body bu es))
      (next_generation (cHeader c)) = Inr (index_blob (commit_index c tx bu))"
proof -
  have lim: "length (dir_blob bu es) \<le> 2 ^ 30" using fits by (simp add: commit_fits_def es_def)
  show "encodeDirectory \<lparr>dEntryCount = 0, dFlags = 0, dBuildUnix = bu,
      dEntries = map snd (tEntries tx)\<rparr> = Inr (dir_blob bu es, crc32 (dir_body bu es))"
    using commit_entries_ok(4) [OF t] lim
    by (subst encodeDirectory_ok) (simp_all add: commit_entries_def es_def)
  show "buildDirIndexBlob (dir_blob bu es) (tAppendOffset tx) (crc32 (dir_body bu es))
      (next_generation (cHeader c)) = Inr (index_blob (commit_index c tx bu))"
    unfolding commit_index_def es_def using lim by (intro buildDirIndexBlob_dir) (simp add: es_def)
qed

text \<open>The two records behind the index: nothing before them changes, and both are there before the slots are written.\<close>

lemma records_written:
  assumes hv: "header_valid h" and jo: "unat jo \<le> length (content d)"
    and run: "write_records env snc h jo d = (r, d')" and len: "length (content d') < 2 ^ 63"
  obtains (early) e where "r = Inl e" "same 0 (unat jo) (content d) (content d')"
  | (slots) d4 where "same 0 (unat jo) (content d) (content d4)"
      "at (content d4) (unat jo) (header_record journalMagic (header_bytes h) (mJournalTime env))"
      "at (content d4) (unat jo + 148) (header_record backupMagic (header_bytes h) (mBackupTime env))"
      "length (content d4) < 2 ^ 63" "grows d4 d'" "write_slots snc h (header_bytes h) d4 = (r, d')"
proof -
  let ?jr = "header_record journalMagic (header_bytes h) (mJournalTime env)"
  let ?br = "header_record backupMagic (header_bytes h) (mBackupTime env)"
  from hv run show thesis
  proof (cases rule: write_records_cases)
    case (fail e d5 bo)
    from fail(2) have "same 0 (unat jo) (content d) (content d')"
    proof (elim disjE conjE exE)
      assume "appendAt d jo ?jr = (Inl e, d')"
      then show ?thesis by (rule appendAt_same [OF _ jo order_refl])
    next
      fix x d6
      assume a: "appendAt d jo ?jr = (Inr bo, d5)" "appendAt d5 bo ?br = (x, d6)" "content d' = content d6"
      have "grows d5 d'" using io_grows(1) [OF a(2)] a(3) by (simp add: grows_def)
      then have len5: "length (content d5) < 2 ^ 64" using len by (simp add: grows_def)
      note at5 = appendAt_at [OF a(1) jo len5]
      have s6: "same 0 (unat bo) (content d5) (content d')"
        unfolding a(3) by (rule appendAt_same [OF a(2) at5(4) order_refl])
      have "unat jo \<le> unat bo" using at5(2) by simp
      with appendAt_same [OF a(1) jo order_refl] s6 show ?thesis by (rule same_step)
    qed
    then show thesis using fail(1) early by blast
  next
    case (go d5 d6 d4 bo eo)
    have gr4: "grows d4 d'" by (rule write_slots_grows [OF go(4)])
    have len6: "length (content d6) < 2 ^ 63" "length (content d6) < 2 ^ 64"
      using gr4 len go(3) by (simp_all add: grows_def)
    have len5: "length (content d5) < 2 ^ 64" using io_grows(1) [OF go(2)] len6 by (simp add: grows_def)
    note at5 = appendAt_at [OF go(1) jo len5]
    note at6 = appendAt_at [OF go(2) at5(4) len6(2)]
    have s6: "same 0 (unat bo) (content d5) (content d6)"
      by (rule appendAt_same [OF go(2) at5(4) order_refl])
    have "unat jo \<le> unat bo" using at5(2) by simp
    with appendAt_same [OF go(1) jo order_refl] s6
    have s36: "same 0 (unat jo) (content d) (content d6)" by (rule same_step)
    have jr: "length ?jr = 148"
      using header_length [OF hv] by (simp add: length_header_record journalMagic_def)
    have "at (content d6) (unat jo) ?jr" using same_at [OF at5(1) s6] at5(2) by simp
    moreover have "at (content d6) (unat jo + 148) ?br" using at6(1) at5(2) jr by simp
    ultimately show thesis using slots [of d4] s36 len6(1) gr4 go(3,4) by simp
  qed
qed

lemma commit_file_cases:
  assumes hv: "header_valid (cHeader c)" and fits: "commit_fits c tx (mBuildTime env)"
    and t: "table_ok lo (unat (tAppendOffset tx)) (tEntries tx)"
    and off: "unat (tAppendOffset tx) \<le> length (content d)"
    and run: "commit_file env c tx d = (r, d')" and len: "length (content d') < 2 ^ 63"
  obtains (early) e where "r = Inl e"
      "same 0 (unat (tAppendOffset tx)) (content d) (content d')"
  | (slots) d4 where "same 0 (unat (tAppendOffset tx)) (content d) (content d4)"
      "ready env c tx (content d4)" "grows d4 d'"
      "write_slots (oSyncOnCommit (cOpts c)) (new_header c tx (mBuildTime env))
         (header_bytes (new_header c tx (mBuildTime env))) d4 = (r, d')"
proof -
  let ?bu = "mBuildTime env" and ?off = "tAppendOffset tx" and ?snc = "oSyncOnCommit (cOpts c)"
  let ?es = "commit_entries tx"
  let ?blob = "dir_blob ?bu ?es" and ?ib = "index_blob (commit_index c tx ?bu)"
  let ?h = "new_header c tx ?bu"
  note enc = commit_encodes(1) [OF fits t] and ib = commit_encodes(2) [OF fits t]
  from run have run': "then_disk (appendAt d ?off ?blob) (\<lambda>io d.
      then_disk (appendAt d io ?ib) (\<lambda>jo d.
      then_disk (sync_if ?snc d) (\<lambda>_ d.
      write_records env ?snc (commit_header (commit_dir_header (cHeader c) tx ?off ?blob
        (crc32 (dir_body ?bu ?es))) (next_generation (cHeader c)) io ?ib jo) jo d))) = (r, d')"
    by (simp add: commit_file_def enc ib Let_def next_generation_dir [OF hv] del: length_dir_blob)
  then show thesis
  proof (cases rule: then_disk_cases)
    case (fail e)
    then show thesis using appendAt_same [OF fail(1) off order_refl] early by blast
  next
    case (go io d1)
    note g1 = go
    have io: "io = index_offset tx ?bu" using appendAt_next [OF g1(1)] by (simp add: index_offset_def del: length_dir_blob)
    have valid: "header_valid (commit_header (commit_dir_header (cHeader c) tx ?off ?blob
        (crc32 (dir_body ?bu ?es))) (next_generation (cHeader c)) io ?ib jo)" for jo
      by (intro commit_header_reads(1) [OF commit_dir_header_reads(1) [OF hv refl] refl])
    have gr1: "grows d1 d'"
      using g1(2)
    proof (rule then_disk_grows)
      fix jo d2
      assume "then_disk (sync_if ?snc d2) (\<lambda>_ d. write_records env ?snc
          (commit_header (commit_dir_header (cHeader c) tx ?off ?blob
            (crc32 (dir_body ?bu ?es))) (next_generation (cHeader c)) io ?ib jo) jo d) = (r, d')"
      then show "grows d2 d'"
        by (rule then_disk_grows) (auto intro: io_grows(3) write_records_grows [OF valid])
    qed (rule io_grows(1))
    have len1: "length (content d1) < 2 ^ 64" using gr1 len by (simp add: grows_def)
    note at1 = appendAt_at [OF g1(1) off len1]
    have s1: "same 0 (unat ?off) (content d) (content d1)" by (rule appendAt_same [OF g1(1) off order_refl])
    have offs: "unat ?off \<le> unat io" using at1(2) by simp
    from g1(2) show thesis
    proof (cases rule: then_disk_cases)
      case (fail e)
      have "same 0 (unat io) (content d1) (content d')"
        by (rule appendAt_same [OF fail(1) at1(4) order_refl])
      with s1 have "same 0 (unat ?off) (content d) (content d')"
        using offs by (rule same_step)
      then show thesis using fail(2) early by blast
    next
      case (go jo d2)
      note g2 = go
      have jo: "jo = journal_offset c tx ?bu"
        using appendAt_next [OF g2(1)] by (simp add: journal_offset_def io del: length_index_blob)
      have h: "commit_header (commit_dir_header (cHeader c) tx ?off ?blob
          (crc32 (dir_body ?bu ?es))) (next_generation (cHeader c)) io ?ib jo = ?h"
        by (simp only: new_header_def io jo)
      from g2(2) have run2: "then_disk (sync_if ?snc d2) (\<lambda>_ d. write_records env ?snc ?h jo d) = (r, d')"
        unfolding h .
      have hvn: "header_valid ?h" using valid [of jo] unfolding h .
      have gr2: "grows d2 d'"
        using run2 by (rule then_disk_grows) (auto intro: io_grows(3) write_records_grows [OF hvn])
      have len2: "length (content d2) < 2 ^ 64" using gr2 len by (simp add: grows_def)
      note at2 = appendAt_at [OF g2(1) at1(4) len2]
      have s2: "same 0 (unat io) (content d1) (content d2)"
        by (rule appendAt_same [OF g2(1) at1(4) order_refl])
      have s02: "same 0 (unat ?off) (content d) (content d2)"
        using s1 s2 offs by (rule same_step)
      from run2 show thesis
      proof (cases rule: then_disk_cases)
        case (fail e)
        then show thesis using early [OF fail(2)] s02 sync_if_content [OF fail(1)] by simp
      next
        case (go u d3)
        have c3: "content d3 = content d2" by (rule sync_if_content [OF go(1)])
        have s03: "same 0 (unat ?off) (content d) (content d3)" using s02 c3 by simp
        have jo3: "unat jo \<le> length (content d3)" using at2(4) c3 by simp
        have offj: "unat ?off \<le> unat jo" using at2(2) offs by simp
        from hvn jo3 go(2) len show thesis
        proof (cases rule: records_written)
          case (early e)
          from s03 early(2) offj have "same 0 (unat ?off) (content d) (content d')" by (rule same_step)
          then show thesis using early(1) that(1) by blast
        next
          case (slots d4)
          have io_jo: "unat io \<le> unat jo" using at2(2) by simp
          have s14: "same 0 (unat io) (content d1) (content d4)"
            using s2 slots(1) [unfolded c3] io_jo by (rule same_step)
          have a1: "at (content d4) (unat ?off) ?blob" using same_at [OF at1(1) s14] at1(2) by simp
          have "at (content d4) (unat io) ?ib"
            using same_at [OF at2(1) _ _, of 0 "unat jo"] slots(1) at2(2) c3 by simp
          then have a2: "at (content d4) (unat (index_offset tx ?bu)) ?ib" using io by simp
          have "ready env c tx (content d4)"
            using commit_stored [OF hv fits t a1 a2 slots(4)] slots(2,3) fits
            unfolding ready_def Let_def jo commit_fits_def by simp
          moreover from s03 slots(1) offj have "same 0 (unat ?off) (content d) (content d4)" by (rule same_step)
          ultimately show thesis using slots(5,6) that(2) by blast
        qed
      qed
    qed
  qed
qed

end
