(* ===== verification/CommitOpen.thy ===== *)
theory CommitOpen
  imports CommitSpec
begin

text \<open>
  \<^verbatim>\<open>Commit\<close> and \<^verbatim>\<open>Open\<close> together: a commit that succeeds is what the next \<^verbatim>\<open>Open\<close> finds, one that
  stops at any write, or in the middle of one, leaves a file on which \<^verbatim>\<open>Open\<close> finds the old
  catalogue or the new one.
\<close>

section \<open>What the slots leave in place\<close>

text \<open>A catalogue stored behind the two slots stays stored under any write into the slots.\<close>

definition beyond_slots :: "HeaderV1 \<Rightarrow> bool" where
  "beyond_slots h \<longleftrightarrow>
     256 \<le> unat (hDirOffset h) \<and> 256 \<le> unat (pOffset (readHeaderDirIndexPointer h))"

lemma stored_beyond:
  "stored f h bu es \<Longrightarrow> beyond_slots h \<Longrightarrow> same 256 (length f) f g \<Longrightarrow> stored g h bu es"
  by (auto simp: beyond_slots_def intro: stored_same)

lemma stored_length: "stored f h bu es \<Longrightarrow> beyond_slots h \<Longrightarrow> 256 \<le> length f"
  by (auto simp: stored_def dir_stored_def at_def beyond_slots_def)

lemma ready_facts:
  assumes "ready env c tx f"
  defines "h \<equiv> new_header c tx (mBuildTime env)"
  shows "header_valid h" "headerHasFixedBackupSlot h" "beyond_slots h"
    "stored f h (mBuildTime env) (commit_entries tx)" "length (header_bytes h) = 128" "256 \<le> length f"
proof -
  show hv: "header_valid h" "headerHasFixedBackupSlot h" "beyond_slots h"
    "stored f h (mBuildTime env) (commit_entries tx)"
    using assms(1) by (simp_all add: ready_def Let_def beyond_slots_def h_def)
  show "length (header_bytes h) = 128" by (rule header_length [OF hv(1)])
  show "256 \<le> length f" by (rule stored_length [OF hv(4,3)])
qed

lemma slot_same:
  assumes "length b = 128" "256 \<le> length f"
  shows "same 0 128 f (overwrite f 128 (take n b))" "same 256 (length f) f (overwrite f 128 (take n b))"
    "same 128 (length f) f (overwrite f 0 (take n b))"
  using assms by (auto intro!: same_overwrite)

lemma slot_at:
  assumes "length b = 128" "256 \<le> length f"
  shows "at (overwrite (overwrite f 128 b) 0 (take n b)) 128 b"
proof -
  have a: "at (overwrite f 128 b) 128 b" using assms by (intro at_overwritten) simp
  have "256 \<le> length (overwrite f 128 b)" using assms overwrite_grows [of f 128 b] by linarith
  from same_at [OF a slot_same(3) [OF assms(1) this]] this assms(1) show ?thesis by simp
qed

text \<open>Whatever becomes of the slots, nothing behind them changes.\<close>

lemma slots_frame:
  assumes b: "length b = 128" "256 \<le> length f"
  shows "same 256 (length f) f (overwrite (overwrite f 128 b) 0 (take n b))"
proof -
  have "256 \<le> length (overwrite f 128 b)" using b(2) overwrite_grows [of f 128 b] by linarith
  note s = slot_same(3) [OF b(1) this, of n]
  have "same 256 (length f) f (overwrite f 128 b)" using slot_same(2) [OF b, of 128] b(1) by simp
  from same_both [OF this s] show ?thesis using overwrite_grows [of f 128 b] by simp
qed

lemma commit_file_frame:
  assumes hv: "header_valid (cHeader c)" and fits: "commit_fits c tx (mBuildTime env)"
    and t: "table_ok lo (unat (tAppendOffset tx)) (tEntries tx)"
    and off: "unat (tAppendOffset tx) \<le> length (content d)"
    and run: "commit_file env c tx d = (r, d')" and len: "length (content d') < 2 ^ 63"
  shows "same 256 (unat (tAppendOffset tx)) (content d) (content d')"
  using hv fits t off run len
proof (cases rule: commit_file_cases)
  case (early e)
  show ?thesis by (rule same_weaken [OF early(2)]) simp_all
next
  case (slots d4)
  note f = ready_facts [OF slots(2)]
  have "unat (tAppendOffset tx) \<le> length (content d4)" using same_length [OF slots(1)] by simp
  note both = same_both [OF slots(1) _ _ _ _ this]
  from f(2,5,6) slots(4) show ?thesis
  proof (cases rule: write_slots_cases)
    case (backup n e)
    show ?thesis unfolding backup(2) by (rule both [OF slot_same(2) [OF f(5,6)]]) simp_all
  next
    case (main n)
    show ?thesis unfolding main(1) by (rule both [OF slots_frame [OF f(5,6)]]) simp_all
  qed
qed

section \<open>Success\<close>

text \<open>Both slots, the catalogue and the records are in the file.\<close>

lemma commit_file_success:
  assumes hv: "header_valid (cHeader c)" and fits: "commit_fits c tx (mBuildTime env)"
    and t: "table_ok lo (unat (tAppendOffset tx)) (tEntries tx)"
    and off: "unat (tAppendOffset tx) \<le> length (content d)"
    and run: "commit_file env c tx d = (Inr h, d')" and len: "length (content d') < 2 ^ 63"
  shows "h = new_header c tx (mBuildTime env)"
    and "holds (content d') h (mBuildTime env) (commit_entries tx)" "beyond_slots h"
    and "at (content d') 128 (header_bytes h)"
    and "same 256 (unat (tAppendOffset tx)) (content d) (content d')"
proof -
  let ?h = "new_header c tx (mBuildTime env)"
  obtain d4 where s: "same 0 (unat (tAppendOffset tx)) (content d) (content d4)"
    and rd: "ready env c tx (content d4)"
    and w: "write_slots (oSyncOnCommit (cOpts c)) ?h (header_bytes ?h) d4 = (Inr h, d')"
    using commit_file_cases [OF hv fits t off run len] by (metis Inl_Inr_False)
  note f = ready_facts [OF rd]
  from write_slots_cases [OF f(2,5,6) w]
  have c: "content d' = overwrite (overwrite (content d4) 128 (header_bytes ?h)) 0 (header_bytes ?h)"
    and h: "h = ?h" by auto
  show "h = ?h" by (rule h)
  have sl4: "same 256 (length (content d4)) (content d4) (content d')"
    using slots_frame [OF f(5,6), of 128] f(5) c by simp
  have "at (content d') 0 (header_bytes ?h)" unfolding c by (rule at_overwritten) simp
  then show "holds (content d') h (mBuildTime env) (commit_entries tx)"
    using f(1) stored_beyond [OF f(4,3) sl4] len by (simp add: holds_def h)
  show "beyond_slots h" using f(3) h by simp
  show "at (content d') 128 (header_bytes h)"
    using slot_at [OF f(5,6), of 128] f(5) c h by simp
  show "same 256 (unat (tAppendOffset tx)) (content d) (content d')"
    by (rule commit_file_frame [OF hv fits t off run len])
qed

section \<open>Recovery from the fixed backup slot\<close>

definition loads_badly :: "bytes \<Rightarrow> bool" where
  "loads_badly f \<longleftrightarrow>
     (case unmarshalHeader (take 128 f) of
        Inl _ \<Rightarrow> True
      | Inr h \<Rightarrow> (\<exists>e. loadSnapshotByHeader f h True = Inl e \<and> shouldAttemptOpenRecovery (mapErr e)))"

lemma open_from_backup:
  assumes hv: "header_valid h" and a: "at (content d) 128 (header_bytes h)"
    and st: "stored (content d) h bu es" and len: "length (content d) < 2 ^ 63"
    and bad: "loads_badly (content d)"
  shows "Open L procs opts d = (Inr (opened (effectiveOptions procs opts) h bu es),
    persistRecoveredHeader d h)"
proof -
  let ?f = "content d" and ?o = "effectiveOptions procs opts"
  have n: "128 + 128 \<le> length ?f" using a header_length [OF hv] by (simp add: at_def)
  have rd: "readAt ?f 0 HeaderSize = Inr (take 128 ?f)"
    using n len by (subst readAt_ok) (simp_all add: HeaderSize_def sub_bytes_def)
  have "readAt ?f fixedBackupOffset (length (header_bytes h)) = Inr (header_bytes h)"
    using a len by (intro readAt_at_iff) (simp_all add: fixedBackupOffset_def)
  then have fb: "recoverHeaderFromFixedBackup ?f = Inr h"
    using unmarshal_header_bytes [OF hv] validate_dir_stored [of ?f h bu es] st len header_length [OF hv]
    by (simp add: recoverHeaderFromFixedBackup_def HeaderSize_def stored_def)
  have "attempt ?o d (recoverHeaderFromFixedBackup ?f) k =
      (Inr (opened ?o h bu es), persistRecoveredHeader d h)" for k
    unfolding fb
    using load_stored_lazy [OF st len]
    by (simp add: attempt_def tryRecovered_def opened_def buildContainerFromSnapshot_def)
  then have r: "open_recover L ?o d e = (Inr (opened ?o h bu es), persistRecoveredHeader d h)" for e
    by (simp only: open_recover_def)
  show ?thesis
    using bad rd r by (auto simp: Open_def loads_badly_def Let_def split: sum.splits)
qed

text \<open>The recovered header is put back into both slots when the disk does not fail again.\<close>

lemma persist_holds:
  assumes hv: "header_valid h" and b: "headerHasFixedBackupSlot h" "beyond_slots h"
    and st: "stored (content d) h bu es" and len: "length (content d) < 2 ^ 63" and ok: "plan d = []"
  shows "holds (content (persistRecoveredHeader d h)) h bu es"
    "at (content (persistRecoveredHeader d h)) 128 (header_bytes h)"
proof -
  let ?hb = "header_bytes h" and ?f = "content d"
  have lb: "length ?hb = 128" by (rule header_length [OF hv])
  have n: "256 \<le> length ?f" by (rule stored_length [OF st b(2)])
  have m: "marshalHeader h = Inr ?hb" using hv by (simp add: header_valid_def marshalHeader_ok)
  have z: "\<not> maxInt < (0 :: u64)" "\<not> maxInt < fixedBackupOffset" "unat fixedBackupOffset = 128"
    by (simp_all add: maxInt_def fixedBackupOffset_def)
  have c: "content (persistRecoveredHeader d h) = overwrite (overwrite ?f 0 ?hb) 128 ?hb"
    using ok m b(1) z
    by (simp add: persistRecoveredHeader_def lockFileExclusive_def next_outcome_def writeAt_def
        sync_def Let_def)
  have s1: "same 128 (length ?f) ?f (overwrite ?f 0 ?hb)"
    using slot_same(3) [OF lb n, of 128] lb by simp
  have n1: "256 \<le> length (overwrite ?f 0 ?hb)" using n overwrite_grows [of ?f 0 ?hb] by simp
  have s2: "same 0 128 (overwrite ?f 0 ?hb) (overwrite (overwrite ?f 0 ?hb) 128 ?hb)"
    "same 256 (length (overwrite ?f 0 ?hb)) (overwrite ?f 0 ?hb) (overwrite (overwrite ?f 0 ?hb) 128 ?hb)"
    using slot_same(1,2) [OF lb n1, of 128] lb by simp_all
  have "same 256 (length ?f) ?f (overwrite (overwrite ?f 0 ?hb) 128 ?hb)"
    by (rule same_both [OF s1 s2(2)]) (simp_all add: overwrite_grows)
  then have st': "stored (content (persistRecoveredHeader d h)) h bu es"
    unfolding c by (rule stored_beyond [OF st b(2)])
  have "at (overwrite ?f 0 ?hb) 0 ?hb" by (rule at_overwritten) simp
  then have a0: "at (content (persistRecoveredHeader d h)) 0 ?hb"
    unfolding c using same_at [OF _ s2(1)] lb by simp
  have "length (content (persistRecoveredHeader d h)) = length ?f"
    unfolding c using n lb by (simp add: overwrite_length)
  then show "holds (content (persistRecoveredHeader d h)) h bu es"
    using hv a0 st' len by (simp add: holds_def)
  show "at (content (persistRecoveredHeader d h)) 128 ?hb"
    unfolding c using n1 by (intro at_overwritten) simp
qed

section \<open>A commit that stops\<close>

lemma holds_same:
  assumes "holds f h bu es" "beyond_slots h" "same 0 128 f g" "same 256 (length f) f g"
    "length g < 2 ^ 63"
  shows "holds g h bu es"
proof -
  have "at g 0 (header_bytes h)"
    using same_at [OF _ assms(3)] assms(1) header_length [of h] by (simp add: holds_def)
  then show ?thesis
    using assms stored_beyond [of f h bu es g] by (simp add: holds_def)
qed

lemma take_slot: "at f 0 b \<Longrightarrow> length b = 128 \<Longrightarrow> take 128 f = b"
  by (simp add: at_def sub_bytes_def)

lemma torn_slot:
  assumes "length hb = 128" "n < 128" "128 \<le> length g"
  shows "take 128 (overwrite g 0 (take n hb)) = take n hb @ drop n (take 128 g)"
  using assms by (auto simp: overwrite_def drop_take)

text \<open>
  The file after a commit that failed: the old catalogue still opens, or the new one does, or the
  header slot holds the first \<open>n\<close> bytes of the new header and the rest of the old one, and then
  the new catalogue is complete and its header is in the backup slot.
\<close>

definition torn :: "bytes \<Rightarrow> HeaderV1 \<Rightarrow> HeaderV1 \<Rightarrow> u64 \<Rightarrow> EntryV1 list \<Rightarrow> bool" where
  "torn f old h bu es \<longleftrightarrow>
     (\<exists>n. 0 < n \<and> n < 128 \<and> take 128 f = take n (header_bytes h) @ drop n (header_bytes old)) \<and>
     header_valid h \<and> stored f h bu es \<and> at f 128 (header_bytes h) \<and>
     headerHasFixedBackupSlot h \<and> beyond_slots h \<and> length f < 2 ^ 63"

lemma commit_file_failure:
  assumes hv: "header_valid (cHeader c)" and fits: "commit_fits c tx (mBuildTime env)"
    and t: "table_ok lo (unat (tAppendOffset tx)) (tEntries tx)"
    and off: "length f0 \<le> unat (tAppendOffset tx)" "unat (tAppendOffset tx) \<le> length (content d)"
    and old: "holds f0 old bu0 es0" "beyond_slots old" "same 0 (length f0) f0 (content d)"
    and run: "commit_file env c tx d = (r, d')" and len: "length (content d') < 2 ^ 63"
  shows "holds (content d') old bu0 es0 \<or>
    holds (content d') (new_header c tx (mBuildTime env)) (mBuildTime env) (commit_entries tx) \<and>
      beyond_slots (new_header c tx (mBuildTime env)) \<or>
    torn (content d') old (new_header c tx (mBuildTime env)) (mBuildTime env) (commit_entries tx)"
proof -
  let ?h = "new_header c tx (mBuildTime env)" and ?es = "commit_entries tx"
  let ?hb = "header_bytes ?h"
  have n0: "256 \<le> length f0" using old(1,2) stored_length by (auto simp: holds_def)
  have keep_old: "holds g old bu0 es0"
    if "same 0 128 (content d) g" "same 256 (length f0) (content d) g" "length g < 2 ^ 63" for g
    using holds_same [OF old(1,2) _ _ that(3)] n0
      same_both [OF old(3) that(1), of 0 128] same_both [OF old(3) that(2), of 256 "length f0"] by simp
  from hv fits t off(2) run len show ?thesis
  proof (cases rule: commit_file_cases)
    case (early e)
    have "same 0 128 (content d) (content d')" "same 256 (length f0) (content d) (content d')"
      using early(2) off(1) n0 by (auto elim: same_weaken)
    then show ?thesis using keep_old len by blast
  next
    case (slots d4)
    note f = ready_facts [OF slots(2)]
    have s4: "same 0 (length f0) (content d) (content d4)"
      using slots(1) off(1) by (auto elim: same_weaken)
    have keep: "holds g old bu0 es0"
      if "same 0 128 (content d4) g" "same 256 (length (content d4)) (content d4) g" "length g < 2 ^ 63"
      for g
    proof -
      have "length f0 \<le> length (content d4)" using same_length [OF s4] by simp
      then show ?thesis
        using keep_old [OF same_both [OF s4 that(1)] same_both [OF s4 that(2)] that(3)] n0 by simp
    qed
    from f(2,5,6) slots(4) show ?thesis
    proof (cases rule: write_slots_cases)
      case (backup n e)
      then show ?thesis using keep slot_same(1,2) [OF f(5,6), of n] len by simp
    next
      case (main n)
      let ?f1 = "overwrite (content d4) 128 ?hb"
      have f1: "256 \<le> length ?f1" using f(6) overwrite_grows [of "content d4" 128 ?hb] by linarith
      have s1: "same 0 128 (content d4) ?f1" "same 256 (length (content d4)) (content d4) ?f1"
        using slot_same(1,2) [OF f(5,6), of 128] f(5) by simp_all
      have "same 256 (length (content d4)) (content d4) (content d')"
        unfolding main(1) by (rule slots_frame [OF f(5,6)])
      from stored_beyond [OF f(4,3) this]
      have st: "stored (content d') ?h (mBuildTime env) ?es" .
      consider "n = 0" | "128 \<le> n" | "0 < n" "n < 128" by linarith
      then show ?thesis
      proof cases
        case 1
        then have "content d' = ?f1" using main(1) by (simp add: overwrite_def)
        then show ?thesis using keep [OF s1] len by simp
      next
        case 2
        then have "content d' = overwrite ?f1 0 ?hb" using main(1) f(5) by simp
        then have "at (content d') 0 ?hb" using at_overwritten [of 0 ?f1 ?hb] by simp
        then show ?thesis using f(1,3) st len by (simp add: holds_def)
      next
        case 3
        have "at (content d) 0 (header_bytes old)"
          using same_at [OF _ old(3)] old(1) header_length [of old] n0 by (simp add: holds_def)
        from same_at [OF this s4] have "at (content d4) 0 (header_bytes old)"
          using old(1) header_length [of old] n0 by (simp add: holds_def)
        from same_at [OF this s1(1)] have "at ?f1 0 (header_bytes old)"
          using old(1) header_length [of old] by (simp add: holds_def)
        then have "take 128 ?f1 = header_bytes old"
          using old(1) header_length [of old] by (intro take_slot) (simp_all add: holds_def)
        then have "take 128 (content d') = take n ?hb @ drop n (header_bytes old)"
          using torn_slot [OF f(5) 3(2), of ?f1] f1 main(1) by simp
        moreover have "at (content d') 128 ?hb" unfolding main(1) by (rule slot_at [OF f(5,6)])
        ultimately show ?thesis using 3 f(1-3) st len unfolding torn_def by blast
      qed
    qed
  qed
qed

text \<open>What \<^verbatim>\<open>Open\<close> makes of a torn slot that it can tell from a header.\<close>

lemma open_torn:
  assumes "torn (content d) old h bu es" "loads_badly (content d)"
  shows "Open L procs opts d = (Inr (opened (effectiveOptions procs opts) h bu es),
      persistRecoveredHeader d h)"
    and "plan d = [] \<Longrightarrow> holds (content (persistRecoveredHeader d h)) h bu es"
  using assms open_from_backup [of h d bu es L procs opts] persist_holds [of h d bu es]
  by (simp_all add: torn_def)

end
