(* ===== verification/ContainerSpec.thy ===== *)
theory ContainerSpec
  imports CommitOpen
begin

text \<open>
  The container as a whole: the state of a file that holds an abstract container, preserved and
  refined by whole transactions, created by \<^verbatim>\<open>Create\<close>, and read back by \<^verbatim>\<open>Stat\<close>, \<^verbatim>\<open>List\<close>,
  \<^verbatim>\<open>OpenReader\<close> and \<^verbatim>\<open>Extract\<close>.
\<close>

section \<open>A file that holds an abstract container\<close>

definition represents :: "codec_lib \<Rightarrow> bytes \<Rightarrow> HeaderV1 \<Rightarrow> u64 \<Rightarrow> EntryV1 list \<Rightarrow> store \<Rightarrow> bool" where
  "represents L f h bu es s \<longleftrightarrow>
     holds f h bu es \<and> beyond_slots h \<and> (\<forall>e \<in> set es. chunks_in 256 (length f) (Chunks e)) \<and>
     refines L f (entry_map_of es) s"

lemma map_of_entry_map: "map_of (entry_map_of es) k = path_lookup k es"
  by (induction es) (simp_all add: entry_map_of_def path_lookup_def)

lemma represents_table:
  assumes "represents L f h bu es s"
  shows "table_ok 256 (length f) (entry_map_of es)" "list_all entry_ok es" "distinct (map Path es)"
    "length (dir_blob bu es) \<le> 2 ^ 30"
proof -
  show e: "list_all entry_ok es" "distinct (map Path es)" "length (dir_blob bu es) \<le> 2 ^ 30"
    using assms by (auto simp: represents_def holds_def stored_def dir_stored_def)
  show "table_ok 256 (length f) (entry_map_of es)"
  proof (rule table_okI)
    show "distinct (map fst (entry_map_of es))" using e(2) by simp
    fix k x
    assume "map_of (entry_map_of es) k = Some x"
    then have x: "x \<in> set es" "Path x = k" by (auto simp: entry_map_of_def dest!: map_of_SomeD)
    then show "Path x = k \<and> shape_ok x \<and> chunks_in 256 (length f) (Chunks x)"
      using e(1) assms entry_ok_shape by (auto simp: represents_def list_all_iff)
  qed
qed

text \<open>
  A loaded table stands for the catalogue: the entries of a finished transaction are kept as they
  were written, with the fields the encoder recomputes left unset.
\<close>

definition stands_for :: "entry_map \<Rightarrow> EntryV1 list \<Rightarrow> bool" where
  "stands_for m es \<longleftrightarrow> distinct (map fst m) \<and>
     (\<forall>k. map_option norm_entry (map_of m k) = path_lookup k es)"

lemma norm_chunk_payload [simp]:
  "chunk_payload L f v mc (Reserved_update g c) = chunk_payload L f v mc c"
  by (cases c) (simp only: chunk_payload_def ChunkRefV1.select_convs ChunkRefV1.update_convs)

lemma norm_reads_as [simp]:
  "reads_as L f (map (Reserved_update g) cs) data = reads_as L f cs data"
  by (simp add: reads_as_def list.rel_map)

lemma norm_chunks_in [simp]:
  "chunks_in lo hi (map (Reserved_update g) cs) = chunks_in lo hi cs"
  by (simp add: chunks_in_def)

lemma norm_norm [simp]: "norm_entry (norm_entry e) = norm_entry e"
  by (simp add: norm_entry_def comp_def)

lemma norm_shape [simp]: "shape_ok (norm_entry e) = shape_ok e"
  using norm_norm [of e] by (simp add: shape_ok_def del: norm_norm)

lemma stands_for_entry_map:
  assumes "distinct (map Path es)" "list_all entry_ok es"
  shows "stands_for (entry_map_of es) es"
proof -
  have "map_option norm_entry (path_lookup k es) = path_lookup k es" for k
  proof (cases "path_lookup k es")
    case (Some e)
    then have "e \<in> set es" by (auto simp: path_lookup_def find_Some_iff)
    then show ?thesis using assms(2) Some norm_entry_ok by (auto simp: list_all_iff)
  qed simp
  then show ?thesis using assms(1) by (simp add: stands_for_def map_of_entry_map)
qed

lemma stands_for_inv:
  assumes m: "stands_for m es" and t: "table_ok lo hi (entry_map_of es)"
  shows "table_ok lo hi m" "refines L f m s \<longleftrightarrow> refines L f (entry_map_of es) s"
proof -
  have eq: "map_of (entry_map_of es) k = map_option norm_entry (map_of m k)" for k
    using m by (simp only: stands_for_def map_of_entry_map)
  show "table_ok lo hi m"
  proof (rule table_okI)
    show "distinct (map fst m)" using m by (simp add: stands_for_def)
    fix k e
    assume "map_of m k = Some e"
    then have "map_of (entry_map_of es) k = Some (norm_entry e)" by (simp only: eq option.map)
    then show "Path e = k \<and> shape_ok e \<and> chunks_in lo hi (Chunks e)"
      using table_okD [OF t, of k "norm_entry e"] by simp
  qed
  have "cell L f (map_of (entry_map_of es) k) (s k) = cell L f (map_of m k) (s k)" for k
    unfolding eq by (cases "map_of m k") simp_all
  then show "refines L f m s \<longleftrightarrow> refines L f (entry_map_of es) s"
    unfolding refines_def by (simp only:)
qed

text \<open>\<^verbatim>\<open>Begin\<close> on a container whose table, loaded or not, is the catalogue of the file.\<close>

definition caches :: "Container \<Rightarrow> HeaderV1 \<Rightarrow> u64 \<Rightarrow> EntryV1 list \<Rightarrow> bool" where
  "caches c h bu es \<longleftrightarrow> cFile c \<and> cFormatVersion c = VersionV1 \<and> cHeader c = h \<and>
     (cEntries c = None \<and> cLazyDirBlob c = dir_blob bu es \<and>
        cLazyDirIndex c = Some (built_index bu es (hDirOffset h) (readHeaderGeneration h)) \<or>
      (\<exists>m. cEntries c = Some m \<and> stands_for m es))"

lemma caches_opened: "caches (opened opts h bu es) h bu es"
  by (simp add: caches_def opened_def buildContainerFromSnapshot_def)

lemma represents_offsets:
  assumes "represents L f h bu es s"
  shows "validateEntriesChunkOffsets (entry_map_of es) (file_size f) = Inr ()"
    "readEntriesByHeader f h = Inr (entry_map_of es)"
    "readEntriesByDirIndex (dir_blob bu es) h
      (built_index bu es (hDirOffset h) (readHeaderGeneration h)) = Inr (entry_map_of es)"
proof -
  have st: "stored f h bu es" and len: "length f < 2 ^ 63"
    using assms by (auto simp: represents_def holds_def)
  show "validateEntriesChunkOffsets (entry_map_of es) (file_size f) = Inr ()"
    using st len
    by (simp add: validateEntriesChunkOffsets_def validateChunkOffsets_iff unat_file_size
        stored_def dir_stored_def)
  show "readEntriesByHeader f h = Inr (entry_map_of es)"
    by (simp add: readEntriesByHeader_def load_stored_eager [OF st len])
  show "readEntriesByDirIndex (dir_blob bu es) h
      (built_index bu es (hDirOffset h) (readHeaderGeneration h)) = Inr (entry_map_of es)"
    using st by (intro read_entries_dir) (simp_all add: stored_def dir_stored_def)
qed

text \<open>Loading the table succeeds and changes nothing but the cache.\<close>

lemma ensure_loaded:
  assumes rep: "represents L f h bu es s" and c: "caches c h bu es"
  obtains c' m where "ensureEntriesLoaded c f = (Inr (), c')" "cEntries c' = Some m"
    "stands_for m es" "caches c' h bu es"
    "cOpts c' = cOpts c" "cTxHeld c' = cTxHeld c" "cHeader c' = h" "cFile c'"
proof (cases "cEntries c")
  case None
  then have "ensureEntriesLoaded c f =
      (Inr (), c\<lparr>cEntries := Some (entry_map_of es), cLazyDirBlob := [], cLazyDirIndex := None\<rparr>)"
    using c represents_offsets [OF rep] by (simp add: ensureEntriesLoaded_def caches_def)
  then show thesis using that None c stands_for_entry_map [OF represents_table(3,2) [OF rep]]
    by (simp add: caches_def)
next
  case (Some m)
  then have "ensureEntriesLoaded c f = (Inr (), c)" by (simp add: ensureEntriesLoaded_def)
  then show thesis using that Some c by (simp add: caches_def)
qed

text \<open>A file keeps what it represents as long as its header and the bytes behind the slots stay.\<close>

lemma represents_same:
  assumes "represents L f h bu es s" "same 256 (length f) f g" "holds g h bu es"
  shows "represents L g h bu es s"
proof -
  have "refines L g (entry_map_of es) s"
    using assms(1,2) represents_table(1) [OF assms(1)] refines_same by (auto simp: represents_def)
  moreover have "length f \<le> length g" using same_length [OF assms(2)] by simp
  ultimately show ?thesis
    using assms(1,3) chunks_in_mono [of 256 "length f" _ 256 "length g"] by (auto simp: represents_def)
qed

lemma represents_append:
  assumes rep: "represents L f h bu es s" and sm: "same 0 (length f) f g" and len: "length g < 2 ^ 63"
  shows "represents L g h bu es s"
proof -
  have h: "holds f h bu es" "beyond_slots h" using rep by (auto simp: represents_def)
  then have n: "256 \<le> length f" using stored_length by (auto simp: holds_def)
  have s2: "same 256 (length f) f g" by (rule same_weaken [OF sm]) simp_all
  have "same 0 128 f g" using n by (intro same_weaken [OF sm]) simp_all
  from holds_same [OF h this s2 len] represents_same [OF rep s2] show ?thesis by blast
qed

lemma represents_inv:
  assumes rep: "represents L f h bu es s" and m: "stands_for m es"
  shows "table_ok 256 (length f) m" "refines L f m s"
  using stands_for_inv [OF m represents_table(1) [OF rep]] rep by (auto simp: represents_def)

section \<open>Begin\<close>

text \<open>
  \<^verbatim>\<open>Begin\<close> either blocks on a transaction of the same container, or fails on the lock of the file,
  or opens a transaction that refines the abstract container the file holds.
\<close>

definition begun :: "codec_lib \<Rightarrow> Container \<Rightarrow> disk \<Rightarrow> Tx \<Rightarrow> Container \<Rightarrow> disk \<Rightarrow> store \<Rightarrow> bool" where
  "begun L c d tx c' d' s \<longleftrightarrow>
     content d' = content d \<and> tx_inv L 256 (content d) tx s \<and>
     unat (tAppendOffset tx) = length (content d) \<and> \<not> tClosed tx \<and> tFileLocked tx \<and>
     tPathLocked tx \<and> counters tx 0 0 \<and> cTxHeld c' \<and> cOpts c' = cOpts c \<and> cHeader c' = cHeader c"

lemma lock_cases:
  assumes "lockFileExclusive d = (r, d')"
  shows "content d' = content d"
  using assms
  by (auto simp: lockFileExclusive_def dest: next_outcome_content split: prod.splits outcome.splits)

text \<open>A table that stands for the catalogue, under the counters of a new transaction.\<close>

lemma counters_new: "tDeadBytes tx = 0 \<Longrightarrow> tChurnOps tx = 0 \<Longrightarrow> counters tx 0 0"
  by (simp add: counters_def sat_def)

theorem begin_outcome:
  assumes rep: "represents L (content d) h bu es s" and c: "caches c h bu es"
  shows "case Begin c d of
      None \<Rightarrow> cTxHeld c
    | Some (Inl e, c', d') \<Rightarrow> c' = c \<and> content d' = content d
    | Some (Inr tx, c', d') \<Rightarrow> begun L c d tx c' d' s \<and> caches c' h bu es"
proof (cases "cTxHeld c")
  case True
  then show ?thesis by (simp add: Begin_def)
next
  case False
  obtain r d1 where l: "lockFileExclusive d = (r, d1)" by fastforce
  have d1: "content d1 = content d" by (rule lock_cases [OF l])
  have cc: "cFile c" "cFormatVersion c = VersionV1" using c by (auto simp: caches_def)
  show ?thesis
  proof (cases r)
    case (Inl e)
    then show ?thesis using False cc l d1 by (simp add: Begin_def)
  next
    case (Inr u)
    have rep1: "represents L (content d1) h bu es s" using rep d1 by simp
    obtain c' m where e: "ensureEntriesLoaded c (content d1) = (Inr (), c')" "cEntries c' = Some m"
      "stands_for m es" "caches c' h bu es"
      "cOpts c' = cOpts c" "cTxHeld c' = cTxHeld c" "cHeader c' = h" "cFile c'"
      by (rule ensure_loaded [OF rep1 c])
    have len: "length (content d) < 2 ^ 63" "256 \<le> length (content d)"
      using rep stored_length by (auto simp: represents_def holds_def)
    note inv = represents_inv [OF rep e(3)]
    have "caches (c'\<lparr>cTxHeld := True\<rparr>) h bu es" using e(4) by (simp add: caches_def)
    moreover have "cHeader c = h" using c by (simp add: caches_def)
    ultimately show ?thesis
      using False cc l d1 Inr e inv len
      by (simp add: Begin_def begun_def tx_inv_def unat_file_size counters_new)
  qed
qed


section \<open>Commit\<close>

lemma path_lookup_commit:
  assumes t: "table_ok lo hi (tEntries tx)"
    and d: "distinct (map Path (commit_entries tx))"
  shows "stands_for (tEntries tx) (commit_entries tx)"
  unfolding stands_for_def
proof (intro conjI allI)
  show dm: "distinct (map fst (tEntries tx))" by (rule table_ok_distinct [OF t])
  fix k
  have mem: "(k, e) \<in> set (entry_map_of (commit_entries tx)) \<longleftrightarrow>
      (\<exists>e0. (k, e0) \<in> set (tEntries tx) \<and> e = norm_entry e0)" for k e
  proof -
    have "Path e0 = k0" if "(k0, e0) \<in> set (tEntries tx)" for k0 e0
      using table_okD(1) [OF t map_of_is_SomeI [OF dm that]] .
    then show ?thesis
      by (auto simp: entry_map_of_def set_commit_entries image_iff)
  qed
  have "distinct (map fst (entry_map_of (commit_entries tx)))" using d by simp
  then have some: "map_of (entry_map_of (commit_entries tx)) k = Some e \<longleftrightarrow>
      (\<exists>e0. map_of (tEntries tx) k = Some e0 \<and> e = norm_entry e0)" for e
    using mem [of k e] dm by simp
  have "map_of (entry_map_of (commit_entries tx)) k = map_option norm_entry (map_of (tEntries tx) k)"
  proof (cases "map_of (tEntries tx) k")
    case None
    then have "map_of (entry_map_of (commit_entries tx)) k \<noteq> Some e" for e
      using some [of e] by simp
    then have "map_of (entry_map_of (commit_entries tx)) k = None" by (meson option.exhaust)
    then show ?thesis by (simp only: None option.map)
  next
    case (Some e0)
    then show ?thesis using some [of "norm_entry e0"] by simp
  qed
  then show "map_option norm_entry (map_of (tEntries tx) k) = path_lookup k (commit_entries tx)"
    by (simp only: map_of_entry_map)
qed

text \<open>A catalogue that stands for the table of a transaction represents what the table refines.\<close>

lemma commit_represents:
  assumes h: "holds f h bu (commit_entries tx)" "beyond_slots h"
    and t: "table_ok 256 off (tEntries tx)" "off \<le> length f" and r: "refines L f (tEntries tx) s"
  shows "represents L f h bu (commit_entries tx) s" "stands_for (tEntries tx) (commit_entries tx)"
proof -
  have d: "distinct (map Path (commit_entries tx))" "list_all entry_ok (commit_entries tx)"
    using h(1) by (auto simp: holds_def stored_def dir_stored_def)
  show st: "stands_for (tEntries tx) (commit_entries tx)" by (rule path_lookup_commit [OF t(1) d(1)])
  have dm: "distinct (map fst (tEntries tx))" by (rule table_ok_distinct [OF t(1)])
  have c: "chunks_in 256 (length f) (Chunks e)" if e: "e \<in> set (commit_entries tx)" for e
  proof -
    obtain k e0 where e0: "(k, e0) \<in> set (tEntries tx)" "e = norm_entry e0"
      using e unfolding set_commit_entries by blast
    have "chunks_in 256 off (Chunks e0)"
      by (rule table_okD(3) [OF t(1) map_of_is_SomeI [OF dm e0(1)]])
    then have "chunks_in 256 (length f) (Chunks e0)" by (rule chunks_in_mono) (simp_all add: t(2))
    then show ?thesis by (simp add: e0(2))
  qed
  have "table_ok 256 (length f) (entry_map_of (commit_entries tx))"
  proof (rule table_okI)
    show "distinct (map fst (entry_map_of (commit_entries tx)))" using d(1) by simp
    fix k e
    assume "map_of (entry_map_of (commit_entries tx)) k = Some e"
    then have e: "e \<in> set (commit_entries tx)" "Path e = k"
      by (auto simp: entry_map_of_def dest!: map_of_SomeD)
    then show "Path e = k \<and> shape_ok e \<and> chunks_in 256 (length f) (Chunks e)"
      using d(2) c entry_ok_shape by (auto simp: list_all_iff)
  qed
  from stands_for_inv(2) [OF st this] r h c
  show "represents L f h bu (commit_entries tx) s" by (simp add: represents_def)
qed


text \<open>
  The commit of a transaction that refines \<open>s\<close>, begun on a file that represents \<open>s0\<close>: a success
  represents \<open>s\<close> and is what the container has cached; after a failure the file represents \<open>s0\<close>,
  or already \<open>s\<close>, or its header slot is torn while catalogue and backup slot are those of \<open>s\<close>.
\<close>

theorem commit_outcome:
  assumes old: "represents L f0 old bu0 es0 s0" "cHeader c = old" "cFormatVersion c = VersionV1" "cFile c"
    and inv: "tx_inv L 256 (content d) tx s" "length f0 \<le> unat (tAppendOffset tx)"
      "same 0 (length f0) f0 (content d)" "\<not> tClosed tx"
    and fits: "commit_fits c tx (mBuildTime env)"
    and run: "Commit env c tx d = (r, tx', c', d')" and len: "length (content d') < 2 ^ 63"
  shows "tClosed tx' \<and> \<not> cTxHeld c' \<and> cOpts c' = cOpts c \<and>
    (case r of
       Inr _ \<Rightarrow>
         let h = new_header c tx (mBuildTime env); es = commit_entries tx in
         represents L (content d') h (mBuildTime env) es s \<and> caches c' h (mBuildTime env) es
     | Inl _ \<Rightarrow>
         let h = new_header c tx (mBuildTime env); es = commit_entries tx in
         represents L (content d') old bu0 es0 s0 \<or> represents L (content d') h (mBuildTime env) es s \<or>
         torn (content d') old h (mBuildTime env) es)"
proof -
  have hv: "header_valid (cHeader c)" and h0: "holds f0 old bu0 es0" "beyond_slots old"
    using old(1,2) by (auto simp: represents_def holds_def)
  have t: "table_ok 256 (unat (tAppendOffset tx)) (tEntries tx)"
    and off: "unat (tAppendOffset tx) \<le> length (content d)"
    and ref: "refines L (content d) (tEntries tx) s"
    using inv(1) by (auto simp: tx_inv_def)
  obtain cr d1 where cf: "commit_file env c tx d = (cr, d1)" by fastforce
  then have d1: "d1 = d'" using run inv(4) by (auto simp: Commit_def release_def Let_def split: sum.splits)
  show ?thesis
  proof (cases cr)
    case (Inr h)
    note ok = commit_file_success [OF hv fits t off cf [unfolded d1 Inr] len]
    have "refines L (content d') (tEntries tx) s" by (rule refines_same [OF ref t ok(5)])
    from commit_represents [OF ok(2,3) t _ this]
    have "represents L (content d') h (mBuildTime env) (commit_entries tx) s"
      "stands_for (tEntries tx) (commit_entries tx)"
      using same_length [OF ok(5)] by simp_all
    then show ?thesis
      using run inv(4) cf Inr ok(1) old(3,4)
      by (auto simp: Commit_def release_def Let_def caches_def)
  next
    case (Inl e)
    have "tClosed tx' \<and> \<not> cTxHeld c' \<and> cOpts c' = cOpts c \<and> r = Inl e"
      using run inv(4) cf Inl by (auto simp: Commit_def release_def Let_def)
    moreover
    have fail: "holds (content d') old bu0 es0 \<or>
        holds (content d') (new_header c tx (mBuildTime env)) (mBuildTime env) (commit_entries tx) \<and>
          beyond_slots (new_header c tx (mBuildTime env)) \<or>
        torn (content d') old (new_header c tx (mBuildTime env)) (mBuildTime env) (commit_entries tx)"
      by (rule commit_file_failure [OF hv fits t inv(2) off h0 inv(3) cf [unfolded d1] len])
    have fr: "same 256 (unat (tAppendOffset tx)) (content d) (content d')"
      by (rule commit_file_frame [OF hv fits t off cf [unfolded d1] len])
    have "same 256 (length f0) f0 (content d')" by (rule same_both [OF inv(3) fr]) (simp_all add: inv(2))
    then have "represents L (content d') old bu0 es0 s0" if "holds (content d') old bu0 es0"
      using that represents_same [OF old(1)] by blast
    moreover
    have "refines L (content d') (tEntries tx) s" by (rule refines_same [OF ref t fr])
    then have "represents L (content d') h bu (commit_entries tx) s"
      if "holds (content d') h bu (commit_entries tx)" "beyond_slots h" for h bu
      using commit_represents(1) [OF that t] same_length [OF fr] by simp
    ultimately show ?thesis using fail unfolding Let_def by auto
  qed
qed

end
