(* ===== verification/TxContract.thy ===== *)
theory TxContract
  imports ContainerSpec
begin

text \<open>
  The contract of an operation of a transaction, as a locale, and what a container operation that
  runs it in a transaction of its own does to the file: atomic on success, and on failure the file
  still opens with the old contents or is recovered with the new ones. The operations of
  \<^verbatim>\<open>fbx/tx.go\<close> are interpretations; the operations of \<^verbatim>\<open>fbx/container.go\<close> get their theorems from it.
\<close>

section \<open>The contract\<close>

text \<open>
  \<open>oper p\<close> is the operation at the arguments \<open>p\<close>, \<open>effect p\<close> the change of the abstract container
  a success stands for. A failure changes nothing, and neither touches the bytes below the
  append offset.
\<close>

locale tx_operation =
  fixes oper :: "'p \<Rightarrow> Tx \<Rightarrow> disk \<Rightarrow> (unit result \<times> Tx \<times> disk) option"
    and lib :: "'p \<Rightarrow> codec_lib"
    and pre :: "'p \<Rightarrow> bool"
    and effect :: "'p \<Rightarrow> store \<Rightarrow> store \<Rightarrow> bool"
  assumes returns: "pre p \<Longrightarrow> \<exists>r. oper p tx d = Some r"
    and success: "pre p \<Longrightarrow> tx_inv (lib p) lo (content d) tx s \<Longrightarrow>
      oper p tx d = Some (Inr u, tx', d') \<Longrightarrow> length (content d') < 2 ^ 63 \<Longrightarrow>
      \<exists>s'. effect p s s' \<and> tx_inv (lib p) lo (content d') tx' s'"
    and frame: "pre p \<Longrightarrow> tx_inv (lib p) lo (content d) tx s \<Longrightarrow>
      oper p tx d = Some (res, tx', d') \<Longrightarrow> length (content d') < 2 ^ 63 \<Longrightarrow>
      same 0 (unat (tAppendOffset tx)) (content d) (content d') \<and>
      unat (tAppendOffset tx) \<le> unat (tAppendOffset tx') \<and> tClosed tx' = tClosed tx"

text \<open>The commit at the end of the run stays within the limits of the format.\<close>

definition run_fits ::
  "commit_env \<Rightarrow> (Tx \<Rightarrow> disk \<Rightarrow> (unit result \<times> Tx \<times> disk) option) \<Rightarrow> Container \<Rightarrow> disk \<Rightarrow> bool" where
  "run_fits env oper c d =
     (case Begin c d of
        Some (Inr tx, c, d) \<Rightarrow>
          (case oper tx d of
             Some (Inr _, tx, d) \<Rightarrow> commit_fits c tx (mBuildTime env)
           | _ \<Rightarrow> True)
      | _ \<Rightarrow> True)"

text \<open>The outcome of a container operation, on the file and on what the container has cached.\<close>

definition ran ::
  "codec_lib \<Rightarrow> (store \<Rightarrow> store \<Rightarrow> bool) \<Rightarrow> HeaderV1 \<Rightarrow> u64 \<Rightarrow> EntryV1 list \<Rightarrow> store \<Rightarrow> u64 \<Rightarrow>
     unit result \<Rightarrow> Container \<Rightarrow> bytes \<Rightarrow> bool" where
  "ran L eff h bu es s bu' r c' f' \<longleftrightarrow> \<not> cTxHeld c' \<and>
     (case r of
        Inr _ \<Rightarrow> \<exists>h' es' s'. eff s s' \<and> represents L f' h' bu' es' s' \<and> caches c' h' bu' es'
      | Inl _ \<Rightarrow> caches c' h bu es \<and>
          (represents L f' h bu es s \<or>
           (\<exists>h' es' s'. eff s s' \<and> (represents L f' h' bu' es' s' \<or> torn f' h h' bu' es'))))"

lemma begin_returns: "\<not> cTxHeld c \<Longrightarrow> Begin c d \<noteq> None"
  by (simp add: Begin_def del: not_None_eq)

lemma run_tx_returns:
  assumes "\<not> cTxHeld c" "\<And>tx d. \<exists>r. oper tx d = Some r"
  shows "\<exists>r. run_tx env oper c d = Some r"
proof -
  obtain br c1 d1 where b: "Begin c d = Some (br, c1, d1)"
    using assms(1) begin_returns [of c d] by (cases "Begin c d") auto
  show ?thesis
  proof (cases br)
    case (Inr tx)
    obtain r tx1 d2 where "oper tx d1 = Some (r, tx1, d2)"
      using assms(2) [of tx d1] by (metis prod_cases3)
    then show ?thesis using b Inr by (cases r) (auto simp: run_tx_def split: prod.splits)
  qed (simp add: run_tx_def b)
qed

text \<open>No step of a commit shortens the file.\<close>

lemma grows_refl [simp]: "grows d d"
  by (simp add: grows_def)

lemma grows_then:
  assumes "grows d (snd m)" "\<And>x d1. grows d1 (snd (k x d1))"
  shows "grows d (snd (then_disk m k))"
  using assms(1) assms(2) [where x = "projr (fst m)" and ?d1.0 = "snd m"]
  by (cases m; cases "fst m") (auto simp: then_disk_def grows_def)

lemma grows_io:
  "grows d (snd (appendAt d off b))" "grows d (snd (sync_if z d))" "grows d (snd (write_slots z h hb d))"
  using io_grows(1) [of d off b] io_grows(3) [of z d] write_slots_grows [of z h hb d]
  by (cases "appendAt d off b"; cases "sync_if z d"; cases "write_slots z h hb d"; simp)+

lemma records_grow: "grows d (snd (write_records env snc h joff d))"
  unfolding write_records_def
  by (auto split: sum.split intro!: grows_then grows_io)

lemma commit_file_grows: "commit_file env c tx d = (r, d') \<Longrightarrow> grows d d'"
proof -
  have "grows d (snd (commit_file env c tx d))"
    unfolding commit_file_def Let_def
    by (auto split: sum.split intro!: grows_then grows_io records_grow)
  then show "commit_file env c tx d = (r, d') \<Longrightarrow> grows d d'" by simp
qed

lemma commit_failure_keeps:
  assumes "Commit env c tx d = (Inl e, tx', c', d')" "\<not> tClosed tx" "caches c h bu es"
  shows "caches c' h bu es"
  using assms by (auto simp: Commit_def release_def caches_def Let_def split: sum.splits prod.splits)

lemma rollback_keeps:
  assumes "\<not> tClosed tx" "caches c h bu es"
  shows "caches (snd (Rollback tx c)) h bu es" "\<not> cTxHeld (snd (Rollback tx c))"
  using assms by (auto simp: Rollback_def release_def caches_def Let_def)

context tx_operation begin

text \<open>The operation returns whenever it can begin.\<close>

lemma run_returns:
  assumes "pre p" "\<not> cTxHeld c"
  shows "\<exists>r. run_tx env (oper p) c d = Some r"
  using run_tx_returns [OF assms(2)] returns [OF assms(1)] .

lemma run_outcome:
  assumes pre: "pre p" and rep: "represents (lib p) (content d) h bu es s" and c: "caches c h bu es"
    and fits: "run_fits env (oper p) c d"
    and run: "run_tx env (oper p) c d = Some (r, c', d')" and len: "length (content d') < 2 ^ 63"
  shows "ran (lib p) (effect p) h bu es s (mBuildTime env) r c' (content d')"
proof -
  have held: "\<not> cTxHeld c" using run by (auto simp: run_tx_def Begin_def)
  note b = begin_outcome [OF rep c]
  obtain br c1 d1 where bg: "Begin c d = Some (br, c1, d1)"
    using held begin_returns [of c d] by (cases "Begin c d") auto
  show ?thesis
  proof (cases br)
    case (Inl e)
    then show ?thesis using b bg run rep c held by (auto simp: run_tx_def ran_def)
  next
    case (Inr tx)
    then have bn: "begun (lib p) c d tx c1 d1 s" "caches c1 h bu es" using b bg by simp_all
    then have inv: "tx_inv (lib p) 256 (content d1) tx s" and d1: "content d1 = content d"
      and nc: "\<not> tClosed tx" and off: "unat (tAppendOffset tx) = length (content d)"
      by (simp_all add: begun_def)
    obtain or tx1 d2 where o1: "oper p tx d1 = Some (or, tx1, d2)"
      using returns [OF pre, of tx d1] by (metis prod_cases3)
    show ?thesis
    proof (cases or)
      case (Inl e)
      then have r: "r = Inl e" "c' = snd (Rollback tx1 c1)" "d' = d2"
        using run bg \<open>br = Inr tx\<close> o1 by (auto simp: run_tx_def)
      have fr: "same 0 (length (content d)) (content d) (content d')" "tClosed tx1 = tClosed tx"
        using frame [OF pre inv o1] len d1 off r(3) by simp_all
      have "represents (lib p) (content d') h bu es s"
        using represents_append [OF rep fr(1) len] .
      then show ?thesis
        using rollback_keeps [OF _ bn(2), of tx1] fr(2) nc r by (auto simp: ran_def)
    next
      case (Inr u)
      obtain tx2 where cm: "Commit env c1 tx1 d2 = (r, tx2, c', d')"
        using run bg \<open>br = Inr tx\<close> o1 Inr by (auto simp: run_tx_def split: prod.splits)
      have fit: "commit_fits c1 tx1 (mBuildTime env)"
        using fits bg \<open>br = Inr tx\<close> o1 Inr by (simp add: run_fits_def)
      obtain cr where "commit_file env c1 tx1 d2 = (cr, d') \<or> d' = d2"
        using cm by (auto simp: Commit_def Let_def split: if_splits sum.splits prod.splits)
      then have "length (content d2) \<le> length (content d')"
        using commit_file_grows by (auto simp: grows_def)
      then have len2: "length (content d2) < 2 ^ 63" using len by simp
      obtain s' where s': "effect p s s'" "tx_inv (lib p) 256 (content d2) tx1 s'"
        using success [OF pre inv o1 [unfolded Inr] len2] by blast
      have fr: "same 0 (length (content d)) (content d) (content d2)" "\<not> tClosed tx1"
        "length (content d) \<le> unat (tAppendOffset tx1)"
        using frame [OF pre inv o1 len2] d1 off nc by simp_all
      have cc: "cHeader c1 = h" "cFormatVersion c1 = VersionV1" "cFile c1"
        using bn(2) by (auto simp: caches_def)
      note out = commit_outcome [OF rep cc s'(2) fr(3,1,2) fit cm len]
      show ?thesis
      proof (cases r)
        case (Inl e)
        have "caches c' h bu es"
          using commit_failure_keeps [OF cm [unfolded Inl] fr(2) bn(2)] .
        then show ?thesis using out s'(1) Inl unfolding ran_def Let_def by auto
      next
        case (Inr v)
        then show ?thesis using out s'(1) unfolding ran_def Let_def by auto
      qed
    qed
  qed
qed

end


section \<open>The operations keep the contract\<close>

text \<open>The arguments of an operation that writes.\<close>

record put_args =
  aEnv :: env
  aOpts :: Options
  aPath :: bytes
  aSource :: "source option"
  aMeta :: bytes
  aWrite :: "WriteOptions option"

definition put_pre :: "put_args \<Rightarrow> bool" where
  "put_pre p \<longleftrightarrow> env_ok (aEnv p) (aOpts p) (aWrite p)"

definition put_effect ::
  "((bytes \<times> bytes) option \<Rightarrow> bool) \<Rightarrow> put_args \<Rightarrow> store \<Rightarrow> store \<Rightarrow> bool" where
  "put_effect may p s s' \<longleftrightarrow>
     (\<exists>q src. normalize (aPath p) = Inr q \<and> aSource p = Some src \<and> read_to_end src \<and> may (s q) \<and>
        s' = s(q \<mapsto> (fst src, aMeta p)))"

lemma put_contract:
  assumes total: "\<And>p tx d. put_pre p \<Longrightarrow> \<exists>r. oper p tx d = Some r"
    and out: "\<And>p lo d tx s res tx' d'. put_pre p \<Longrightarrow> tx_inv (nLib (aEnv p)) lo (content d) tx s \<Longrightarrow>
      oper p tx d = Some (res, tx', d') \<Longrightarrow> length (content d') < 2 ^ 63 \<Longrightarrow>
      put_outcome may (nLib (aEnv p)) lo (aPath p) (aSource p) (aMeta p) tx d s res tx' d'"
  shows "tx_operation oper (\<lambda>p. nLib (aEnv p)) put_pre (put_effect may)"
proof
  show "\<exists>r. oper p tx d = Some r" if "put_pre p" for p tx d using total [OF that] .
  fix p lo and d :: disk and tx s tx' and d' :: disk
  assume pre: "put_pre p" and inv: "tx_inv (nLib (aEnv p)) lo (content d) tx s"
    and len: "length (content d') < 2 ^ 63"
  show "\<exists>s'. put_effect may p s s' \<and> tx_inv (nLib (aEnv p)) lo (content d') tx' s'"
    if "oper p tx d = Some (Inr u, tx', d')" for u
    using out [OF pre inv that len] by (auto simp: put_outcome_def put_effect_def)
  show "same 0 (unat (tAppendOffset tx)) (content d) (content d') \<and>
      unat (tAppendOffset tx) \<le> unat (tAppendOffset tx') \<and> tClosed tx' = tClosed tx"
    if "oper p tx d = Some (res, tx', d')" for res
    using out [OF pre inv that len] by (simp add: put_outcome_def)
qed

definition add_op where
  "add_op p = Tx_Add (aEnv p) (aOpts p) (aPath p) (aSource p) (aMeta p) (aWrite p)"

definition upsert_op where
  "upsert_op p = Tx_Upsert (aEnv p) (aOpts p) (aPath p) (aSource p) (aMeta p) (aWrite p)"

definition replace_op where
  "replace_op p = Tx_Replace (aEnv p) (aOpts p) (aPath p) (aSource p) (aMeta p) (aWrite p)"

lemmas put_ops = add_op_def upsert_op_def replace_op_def

lemma put_returns:
  assumes "put_pre p"
  shows "\<exists>r. add_op p tx d = Some r" "\<exists>r. upsert_op p tx d = Some r" "\<exists>r. replace_op p tx d = Some r"
  unfolding put_ops using assms
  by (intro put_operations_total; simp add: put_pre_def env_ok_def)+

interpretation add: tx_operation add_op "\<lambda>p. nLib (aEnv p)" put_pre "put_effect (\<lambda>x. x = None)"
  by (rule put_contract [OF put_returns(1)]) (simp_all only: put_ops put_pre_def add_outcome)

interpretation upsert: tx_operation upsert_op "\<lambda>p. nLib (aEnv p)" put_pre "put_effect (\<lambda>x. True)"
  by (rule put_contract [OF put_returns(2)]) (simp_all only: put_ops put_pre_def upsert_outcome)

interpretation replace: tx_operation replace_op "\<lambda>p. nLib (aEnv p)" put_pre
    "put_effect (\<lambda>x. x \<noteq> None)"
  by (rule put_contract [OF put_returns(3)]) (simp_all only: put_ops put_pre_def replace_outcome)


text \<open>Operations on the table alone; their arguments come with a codec to read the file by.\<close>

definition remove_op :: "codec_lib \<times> bytes \<Rightarrow> Tx \<Rightarrow> disk \<Rightarrow> (unit result \<times> Tx \<times> disk) option" where
  "remove_op p tx d = (case Tx_Remove (snd p) tx of (r, tx) \<Rightarrow> Some (r, tx, d))"

definition remove_effect :: "codec_lib \<times> bytes \<Rightarrow> store \<Rightarrow> store \<Rightarrow> bool" where
  "remove_effect p s s' \<longleftrightarrow> (\<exists>q. normalize (snd p) = Inr q \<and> s q \<noteq> None \<and> s' = s(q := None))"

definition meta_op ::
  "codec_lib \<times> bytes \<times> bytes \<Rightarrow> Tx \<Rightarrow> disk \<Rightarrow> (unit result \<times> Tx \<times> disk) option" where
  "meta_op p tx d = (case Tx_SetMeta (fst (snd p)) (snd (snd p)) tx of (r, tx) \<Rightarrow> Some (r, tx, d))"

definition meta_effect :: "codec_lib \<times> bytes \<times> bytes \<Rightarrow> store \<Rightarrow> store \<Rightarrow> bool" where
  "meta_effect p s s' \<longleftrightarrow>
     (\<exists>q data old. normalize (fst (snd p)) = Inr q \<and> s q = Some (data, old) \<and>
        s' = s(q \<mapsto> (data, snd (snd p))))"

lemma table_only:
  "Tx_Remove path tx = (r, tx') \<Longrightarrow> tAppendOffset tx' = tAppendOffset tx \<and> tClosed tx' = tClosed tx"
  "Tx_SetMeta path m tx = (r, tx') \<Longrightarrow> tAppendOffset tx' = tAppendOffset tx \<and> tClosed tx' = tClosed tx"
  by (auto simp: Tx_Remove_def Tx_SetMeta_def drop_entry_def split: if_splits sum.splits option.splits)

lemma table_frame: "tx_inv L lo (content d) tx s \<Longrightarrow> same 0 (unat (tAppendOffset tx)) (content d) (content d)"
  by (simp add: tx_inv_def same_refl)

interpretation remove: tx_operation remove_op fst "\<lambda>p. True" remove_effect
proof
  show "\<exists>r. remove_op p tx d = Some r" for p tx d by (simp add: remove_op_def split: prod.split)
  fix p :: "codec_lib \<times> bytes" and lo and d :: disk and tx s u tx' and d' :: disk
  assume inv: "tx_inv (fst p) lo (content d) tx s"
  show "\<exists>s'. remove_effect p s s' \<and> tx_inv (fst p) lo (content d') tx' s'"
    if "remove_op p tx d = Some (Inr u, tx', d')"
    using remove_outcome [OF inv, of "snd p" "Inr u" tx'] that
    by (auto simp: remove_op_def remove_effect_def split: prod.splits)
  show "same 0 (unat (tAppendOffset tx)) (content d) (content d') \<and>
      unat (tAppendOffset tx) \<le> unat (tAppendOffset tx') \<and> tClosed tx' = tClosed tx"
    if "remove_op p tx d = Some (res, tx', d')" for res
    using that table_only(1) table_frame [OF inv] by (auto simp: remove_op_def split: prod.splits)
qed

interpretation set_meta: tx_operation meta_op fst "\<lambda>p. True" meta_effect
proof
  show "\<exists>r. meta_op p tx d = Some r" for p tx d by (simp add: meta_op_def split: prod.split)
  fix p :: "codec_lib \<times> bytes \<times> bytes" and lo and d :: disk and tx s u tx' and d' :: disk
  assume inv: "tx_inv (fst p) lo (content d) tx s"
  show "\<exists>s'. meta_effect p s s' \<and> tx_inv (fst p) lo (content d') tx' s'"
    if "meta_op p tx d = Some (Inr u, tx', d')"
    using setMeta_outcome [OF inv, of "fst (snd p)" "snd (snd p)" "Inr u" tx'] that
    by (auto simp: meta_op_def meta_effect_def split: prod.splits)
  show "same 0 (unat (tAppendOffset tx)) (content d) (content d') \<and>
      unat (tAppendOffset tx) \<le> unat (tAppendOffset tx') \<and> tClosed tx' = tClosed tx"
    if "meta_op p tx d = Some (res, tx', d')" for res
    using that table_only(2) table_frame [OF inv] by (auto simp: meta_op_def split: prod.splits)
qed

section \<open>The operations of the container\<close>

lemma container_ops:
  "Container_Add cenv env path r meta wopts c =
     run_tx cenv (add_op \<lparr>aEnv = env, aOpts = cOpts c, aPath = path, aSource = r, aMeta = meta,
       aWrite = wopts\<rparr>) c"
  "Container_Upsert cenv env path r meta wopts c =
     run_tx cenv (upsert_op \<lparr>aEnv = env, aOpts = cOpts c, aPath = path, aSource = r, aMeta = meta,
       aWrite = wopts\<rparr>) c"
  "Container_Replace cenv env path r meta wopts c =
     run_tx cenv (replace_op \<lparr>aEnv = env, aOpts = cOpts c, aPath = path, aSource = r, aMeta = meta,
       aWrite = wopts\<rparr>) c"
  "Container_Remove cenv path c = run_tx cenv (remove_op (L, path)) c"
  "Container_SetMeta cenv path meta c = run_tx cenv (meta_op (L, path, meta)) c"
  by (intro ext; simp add: Container_Add_def Container_Upsert_def Container_Replace_def
      Container_Remove_def Container_SetMeta_def put_ops [abs_def] remove_op_def [abs_def]
      meta_op_def [abs_def])+

end
