(* ===== verification/CreateSpec.thy ===== *)
theory CreateSpec
  imports ContainerSpec
begin

text \<open>
  A container that \<^verbatim>\<open>Create\<close> has made: the bytes of the new file, written out, and that they represent
  the empty container, which the next \<^verbatim>\<open>Open\<close> finds.
\<close>

section \<open>The new file\<close>

abbreviation new_blob :: "u64 \<Rightarrow> bytes" where "new_blob bu \<equiv> dir_blob bu []"

definition new_index :: "u64 \<Rightarrow> DirIndexV1" where "new_index bu = built_index bu [] 256 1"

text \<open>The header of a new container, with the offsets worked out.\<close>

definition created_header :: "create_env \<Rightarrow> HeaderV1" where
  "created_header env =
     create_header env (new_blob (ceBuildTime env)) (crc32 (dir_body (ceBuildTime env) []))
       (index_blob (new_index (ceBuildTime env)))"

definition created_file :: "create_env \<Rightarrow> bytes" where
  "created_file env =
     (let hb = header_bytes (created_header env) in
      hb @ hb @ new_blob (ceBuildTime env) @ index_blob (new_index (ceBuildTime env)) @
      header_record journalMagic hb (ceJournalTime env) @
      header_record backupMagic hb (ceBackupTime env))"

text \<open>What the code needs of the world: a UUID of 16 bytes, which is a Go array of that length.\<close>

definition create_fits :: "create_env \<Rightarrow> bool" where
  "create_fits env \<longleftrightarrow> length (ceUUID env) = 16"

text \<open>The empty index ends with its own checksum, so the checksum of the whole is never 0.\<close>

lemma new_index_crc: "crc32 (index_blob (new_index bu)) = 0x2144DF1C"
  using crc32_appended [of "index_head (new_index bu)"]
  by (simp add: index_blob_def new_index_def built_index_def build_ranges_eq hash_order_def)

lemma new_lengths:
  "length (new_blob bu) = 36" "length (index_blob (new_index bu)) = 64"
  by (simp_all add: new_index_def built_index_def build_ranges_eq hash_order_def)

lemma created_header_facts:
  assumes "create_fits env"
  defines "h \<equiv> created_header env"
  shows "header_valid h" "canonical_layout h" "headerHasFixedBackupSlot h" "hDirOffset h = 256"
    "hDirSize h = 36" "hDirCRC32 h = crc32 (dir_body (ceBuildTime env) [])"
    "readHeaderGeneration h = 1" "hJournalOffset h = 356" "hUUID h = ceUUID env"
    "readHeaderDirIndexPointer h =
      \<lparr>pOffset = 292, pSize = 64, pCrc32 = crc32 (index_blob (new_index (ceBuildTime env)))\<rparr>"
proof -
  let ?bu = "ceBuildTime env"
  let ?z = "zeroHeader\<lparr>hMagic := MagicHeader, hVersion := VersionV1,
    hHeaderSize := of_nat HeaderSize, hCreatedUnix := ceHeaderTime env\<rparr>"
  let ?m = "(set_flags ((markHeaderV1ExtensionLayout ?z)\<lparr>hUUID := ceUUID env, hDirOffset := 256,
      hDirSize := 36, hDirCRC32 := crc32 (dir_body ?bu [])\<rparr>))
      \<lparr>hJournalOffset := 356, hJournalSize := of_nat journalRecordSize\<rparr>"
  let ?p = "\<lparr>pOffset = 292, pSize = 64, pCrc32 = crc32 (index_blob (new_index ?bu))\<rparr>"
  have z: "header_shape ?z" by (simp add: header_shape_def zeroHeader_def MagicHeader_def)
  then have sh: "header_shape ?m"
    using assms(1) mark_shape [OF z] by (simp add: header_shape_def create_fits_def)
  have h: "h = seal ?m 1 ?p"
    by (simp add: h_def created_header_def create_header_def seal_def Let_def new_lengths HeaderSize_def
        del: length_dir_blob length_index_blob)
  note s = seal_reads [OF sh, of 1 ?p]
  have marker: "hReserved ?m ! 0 = 2" "hReserved ?m ! 1 = 0"
    using mark_marker [OF z] by simp_all
  show "header_valid h" "hDirOffset h = 256" "hDirSize h = 36"
    "hDirCRC32 h = crc32 (dir_body ?bu [])" "readHeaderGeneration h = 1"
    "hJournalOffset h = 356" "readHeaderDirIndexPointer h = ?p" "hUUID h = ceUUID env"
    unfolding h using s by (simp_all add: header_valid_def)
  show "headerHasFixedBackupSlot h" unfolding h using s(6) marker by (simp add: headerHasFixedBackupSlot_def)
  show "canonical_layout h"
    unfolding h canonical_layout_def using s marker by (simp add: or_and_mask new_index_crc)
qed


section \<open>The empty catalogue\<close>

lemma then_disk_Inr:
  "then_disk m k = (Inr y, d') \<longleftrightarrow> (\<exists>x d1. m = (Inr x, d1) \<and> k x d1 = (Inr y, d'))"
  by (cases m; cases "fst m") (auto simp: then_disk_def)

lemma then_disk_InrE:
  assumes "then_disk m k = (Inr y, d')"
  obtains x d1 where "m = (Inr x, d1)" "k x d1 = (Inr y, d')"
  using assms by (auto simp: then_disk_Inr)

lemma written: "writeAt d off b = (Inr u, d') \<Longrightarrow> content d' = overwrite (content d) (unat off) b"
  using writeAt_cases [of d off b "Inr u" d'] by auto

text \<open>The values \<^verbatim>\<open>Create\<close> computes on its way.\<close>

lemma create_parts:
  assumes fits: "create_fits env"
  defines "bu \<equiv> ceBuildTime env" and "hb \<equiv> header_bytes (created_header env)"
  shows "encodeDirectory \<lparr>dEntryCount = 0, dFlags = 0, dBuildUnix = bu, dEntries = []\<rparr> =
      Inr (new_blob bu, crc32 (dir_body bu []))"
    "buildDirIndexBlob (new_blob bu) 256 (crc32 (dir_body bu [])) 1 = Inr (index_blob (new_index bu))"
    "length hb = 128" "marshalHeader (created_header env) = Inr hb"
    "\<And>t. buildJournalRecord hb t = Inr (header_record journalMagic hb t)"
    "\<And>t. buildBackupRecord hb t = Inr (header_record backupMagic hb t)"
    "\<And>t. length (header_record journalMagic hb t) = 148"
    "\<And>t. length (header_record backupMagic hb t) = 148"
    "(of_nat (HeaderSize * 2) :: u64) = 256" "(256 + of_nat (length (new_blob bu)) :: u64) = 292"
    "(292 + of_nat (length (index_blob (new_index bu))) :: u64) = 356"
proof -
  show hb: "length hb = 128" and "marshalHeader (created_header env) = Inr hb"
    using created_header_facts(1) [OF fits] header_length marshalHeader_ok
    by (simp_all add: header_valid_def hb_def)
  show "buildJournalRecord hb t = Inr (header_record journalMagic hb t)"
    "buildBackupRecord hb t = Inr (header_record backupMagic hb t)"
    "length (header_record journalMagic hb t) = 148" "length (header_record backupMagic hb t) = 148" for t
    using hb
    by (simp_all add: buildJournalRecord_def buildBackupRecord_def buildHeaderRecord_eq
        length_header_record journalMagic_def backupMagic_def)
  show "encodeDirectory \<lparr>dEntryCount = 0, dFlags = 0, dBuildUnix = bu, dEntries = []\<rparr> =
      Inr (new_blob bu, crc32 (dir_body bu []))"
    by (subst encodeDirectory_ok) simp_all
  show "buildDirIndexBlob (new_blob bu) 256 (crc32 (dir_body bu [])) 1 = Inr (index_blob (new_index bu))"
    unfolding new_index_def by (intro buildDirIndexBlob_dir) (simp add: new_lengths)
  show "(of_nat (HeaderSize * 2) :: u64) = 256" "(256 + of_nat (length (new_blob bu)) :: u64) = 292"
    "(292 + of_nat (length (index_blob (new_index bu))) :: u64) = 356"
    by (simp_all add: HeaderSize_def new_lengths del: length_dir_blob length_index_blob)
qed

theorem create_content:
  assumes fits: "create_fits env" and run: "Create procs env opts d = (Inr c, d')"
  shows "content d' = created_file env"
    "c = \<lparr>cFile = True, cOpts = effectiveOptions procs opts, cTxHeld = False,
       cFormatVersion = VersionV1, cHeader = created_header env, cEntries = Some [],
       cLazyDirBlob = [], cLazyDirIndex = None\<rparr>"
proof -
  let ?bu = "ceBuildTime env" and ?h = "created_header env"
  let ?blob = "new_blob ?bu" and ?ib = "index_blob (new_index ?bu)" and ?hb = "header_bytes ?h"
  let ?jr = "header_record journalMagic ?hb (ceJournalTime env)"
  let ?br = "header_record backupMagic ?hb (ceBackupTime env)"
  note p = create_parts [OF fits]
  have offs: "(of_nat (HeaderSize * 2) :: u64) = 256" "(256 + of_nat (length ?blob) :: u64) = 292"
    "(292 + of_nat (length ?ib) :: u64) = 356" "(356 + of_nat (length ?jr) :: u64) = 504"
    using p(9-11) p(7) [of "ceJournalTime env"] by (simp_all del: length_dir_blob length_index_blob)
  note rec = p(7) [of "ceJournalTime env"] p(8) [of "ceBackupTime env"]
  note run' = run [unfolded Create_def Let_def offs p(1) sum.case prod.case p(2)
      created_header_def [symmetric] p(4-6)]
  obtain u1 d1 u2 d2 u3 d3 u4 d4 u5 d5 u6 d6 where w:
      "writeAt (d\<lparr>content := []\<rparr>) 256 ?blob = (Inr u1, d1)" "writeAt d1 292 ?ib = (Inr u2, d2)"
      "writeAt d2 356 ?jr = (Inr u3, d3)" "writeAt d3 504 ?br = (Inr u4, d4)"
      "writeAt d4 fixedBackupOffset ?hb = (Inr u5, d5)" "writeAt d5 0 ?hb = (Inr u6, d6)"
    and fin: "content d' = content d6" "c = \<lparr>cFile = True, cOpts = effectiveOptions procs opts,
       cTxHeld = False, cFormatVersion = VersionV1, cHeader = created_header env, cEntries = Some [],
       cLazyDirBlob = [], cLazyDirIndex = None\<rparr>"
    using run'
    by (elim then_disk_InrE, simp only: offs) (rule that, assumption+, auto split: if_splits)
  show "c = \<lparr>cFile = True, cOpts = effectiveOptions procs opts, cTxHeld = False,
       cFormatVersion = VersionV1, cHeader = created_header env, cEntries = Some [],
       cLazyDirBlob = [], cLazyDirIndex = None\<rparr>" by (rule fin)
  note len = new_lengths rec p(3)
  have "?blob \<noteq> []" using len(1) [of ?bu] by (simp flip: length_greater_0_conv del: length_dir_blob)
  then have c1: "content d1 = replicate 256 0 @ ?blob"
    using written [OF w(1)] len(1) by (auto simp: overwrite_def simp del: length_dir_blob)
  have c2: "content d2 = replicate 256 0 @ ?blob @ ?ib"
    using written [OF w(2)] len by (auto simp: c1 overwrite_def simp del: length_dir_blob length_index_blob)
  have c3: "content d3 = replicate 256 0 @ ?blob @ ?ib @ ?jr"
    using written [OF w(3)] len by (auto simp: c2 overwrite_def simp del: length_dir_blob length_index_blob)
  have c4: "content d4 = replicate 256 0 @ ?blob @ ?ib @ ?jr @ ?br"
    using written [OF w(4)] len by (auto simp: c3 overwrite_def simp del: length_dir_blob length_index_blob)
  have c5: "content d5 = replicate 128 0 @ ?hb @ ?blob @ ?ib @ ?jr @ ?br"
    using written [OF w(5)] len
    by (auto simp: c4 overwrite_def fixedBackupOffset_def simp del: length_dir_blob length_index_blob)
  have "content d6 = ?hb @ ?hb @ ?blob @ ?ib @ ?jr @ ?br"
    using written [OF w(6)] len
    by (auto simp: c5 overwrite_def simp del: length_dir_blob length_index_blob)
  then show "content d' = created_file env" by (simp add: fin(1) created_file_def Let_def)
qed


text \<open>The regions of the new file.\<close>

lemma at_middle: "length x = off \<Longrightarrow> at (x @ b @ y) off b"
  by (auto simp: at_def sub_bytes_def)

lemma created_regions:
  assumes "create_fits env"
  defines "f \<equiv> created_file env" and "hb \<equiv> header_bytes (created_header env)"
  shows "at f 0 hb" "at f 128 hb" "at f 256 (new_blob (ceBuildTime env))"
    "at f 292 (index_blob (new_index (ceBuildTime env)))" "length f = 652"
    "at f 356 (header_record journalMagic hb (ceJournalTime env))"
    "at f 504 (header_record backupMagic hb (ceBackupTime env))"
proof -
  have hb: "length hb = 128"
    using created_header_facts(1) [OF assms(1)] header_length by (simp add: hb_def)
  have rec: "length (header_record journalMagic hb t) = 148" "length (header_record backupMagic hb t) = 148" for t
    using hb by (simp_all add: length_header_record journalMagic_def backupMagic_def)
  note len = new_lengths hb rec
  note simps = f_def created_file_def Let_def hb_def [symmetric]
  show "at f 0 hb" using at_middle [of "[]" 0] by (simp add: simps)
  show "at f 128 hb" unfolding simps by (rule at_middle) (rule hb)
  show "at f 256 (new_blob (ceBuildTime env))"
    unfolding simps append_assoc [of hb hb, symmetric] by (rule at_middle) (simp add: hb)
  show "at f 292 (index_blob (new_index (ceBuildTime env)))"
    using at_middle [of "hb @ hb @ new_blob (ceBuildTime env)"] len
    by (simp add: simps del: length_dir_blob length_index_blob)
  show "at f 356 (header_record journalMagic hb (ceJournalTime env))"
    using at_middle [of "hb @ hb @ new_blob (ceBuildTime env) @ index_blob (new_index (ceBuildTime env))"] len
    by (simp add: simps del: length_dir_blob length_index_blob)
  show "at f 504 (header_record backupMagic hb (ceBackupTime env))"
    using at_middle [of "hb @ hb @ new_blob (ceBuildTime env) @ index_blob (new_index (ceBuildTime env)) @
      header_record journalMagic hb (ceJournalTime env)" 504 _ "[]"] len
    by (simp add: simps del: length_dir_blob length_index_blob)
  show "length f = 652" using len by (simp add: simps del: length_dir_blob length_index_blob)
qed

theorem create_outcome:
  assumes fits: "create_fits env" and run: "Create procs env opts d = (Inr c, d')"
  shows "represents L (content d') (cHeader c) (ceBuildTime env) [] Map.empty"
    "caches c (cHeader c) (ceBuildTime env) []" "\<not> cTxHeld c"
    "cOpts c = effectiveOptions procs opts"
proof -
  let ?h = "created_header env" and ?bu = "ceBuildTime env"
  note c = create_content [OF fits run]
  note h = created_header_facts [OF fits]
  note r = created_regions [OF fits]
  have ds: "dir_stored (content d') ?h ?bu []"
    using r(3) h(4-6) new_lengths(1) [of ?bu]
    by (simp add: dir_stored_def c(1) chunks_inside_def del: length_dir_blob)
  have ix: "idx_stored (content d') ?h (built_index ?bu [] (hDirOffset ?h) (readHeaderGeneration ?h))"
    using r(4) h(4,7,10) new_lengths(2) [of ?bu]
    by (simp add: idx_stored_def Let_def c(1) new_index_def del: length_index_blob)
  have "holds (content d') ?h ?bu []"
    using r(1,5) h(1,2) ds ix by (simp add: holds_def stored_def c(1))
  moreover have "beyond_slots ?h" using h(4,10) by (simp add: beyond_slots_def)
  ultimately show "represents L (content d') (cHeader c) ?bu [] Map.empty"
    by (simp add: represents_def c(2) refines_def entry_map_of_def)
  show "caches c (cHeader c) ?bu []" "\<not> cTxHeld c" "cOpts c = effectiveOptions procs opts"
    by (simp_all add: c(2) caches_def stands_for_def path_lookup_def)
qed

text \<open>What represents a container opens, with nothing written to the file.\<close>

theorem open_outcome:
  assumes "represents L (content d) h bu es s"
  shows "\<exists>c. Open L procs opts d = (Inr c, d) \<and> caches c h bu es \<and> \<not> cTxHeld c \<and>
    cOpts c = effectiveOptions procs opts"
  using assms open_holds [of d h bu es L procs opts] caches_opened
  by (auto simp: represents_def opened_def buildContainerFromSnapshot_def)

end
