(* ===== verification/Live.thy ===== *)
theory Live
  imports TxContract CreateSpec
begin

text \<open>
  When no input or output fails: writing an entry, adding it in a transaction of its own and
  creating a container succeed. A plan without faults is \<open>plan d = []\<close>; chunks are stored, as the
  compressors may refuse to compress.
\<close>

section \<open>Quiet disks\<close>

lemma writeAt_quiet:
  "plan d = [] \<Longrightarrow> off \<le> maxInt \<Longrightarrow>
     writeAt d off b = (Inr (), d\<lparr>content := overwrite (content d) (unat off) b\<rparr>)"
  by (simp add: writeAt_def next_outcome_def not_less [symmetric] del: next_outcome_content not_less)

lemma sync_quiet: "plan d = [] \<Longrightarrow> sync d = (Inr (), d)" "plan d = [] \<Longrightarrow> sync_if z d = (Inr (), d)"
  by (simp_all add: sync_def sync_if_def next_outcome_def)

lemma lock_quiet: "plan d = [] \<Longrightarrow> lockFileExclusive d = (Inr (), d)"
  by (simp add: lockFileExclusive_def next_outcome_def)

lemma le_maxInt: "unat off < 2 ^ 63 \<Longrightarrow> off \<le> maxInt"
  by (simp add: maxInt_def word_le_nat_alt)

lemma length_overwrite_le: "length (overwrite f off b) \<le> max (length f) (off + length b)"
  by (auto simp: overwrite_def)

lemma appendAt_quiet:
  assumes "plan d = []" "unat off + length b < 2 ^ 63" "b \<noteq> []"
  shows "\<exists>off' d'. appendAt d off b = (Inr off', d') \<and> plan d' = [] \<and>
    unat off' = unat off + length b \<and>
    length (content d') \<le> max (length (content d)) (unat off + length b)"
proof -
  have "appendAt d off b =
      (Inr (off + of_nat (length b)), d\<lparr>content := overwrite (content d) (unat off) b\<rparr>)"
    using assms le_maxInt [of off] by (simp add: appendAt_def writeAt_quiet)
  moreover have "unat (off + of_nat (length b)) = unat off + length b"
    using assms(2) by (simp add: unat_add_u64 unat_of_nat)
  ultimately show ?thesis using assms(1) length_overwrite_le by simp
qed

section \<open>Writing chunks\<close>

lemma store_encodes:
  "b \<noteq> [] \<Longrightarrow> \<exists>rec. encodeChunkRecord L b CodecStore level = Inr (rec, crc32 b) \<and>
     length rec = 16 + length b"
  by (simp add: encodeChunkRecord_def compressPayload_def Let_def MagicChunk_def)

lemma write_seq_quiet:
  assumes "plan d = []" "0 < cs" "snd src = IoEOF" "codec = CodecStore"
    "unat off + 17 * length (fst src) < 2 ^ 63" "unat rawOff + length (fst src) < 2 ^ 63"
    "m = 0 \<or> unat rawOff + length (fst src) \<le> unat m"
  shows "\<exists>x d' off'. write_seq L codec level cs m d off src rawOff chunks = (Inr x, d', off') \<and>
    plan d' = [] \<and> unat off' \<le> unat off + 17 * length (fst src) \<and>
    length (content d') \<le> max (length (content d)) (unat off + 17 * length (fst src))"
  using assms
proof (induction L codec level cs m d off src rawOff chunks rule: write_seq.induct)
  case (1 L codec level cs m d off src rawOff chunks)
  obtain b re src' where rf: "readFull cs src = (b, re, src')" by (metis prod_cases3)
  show ?case
  proof (cases "re = Some IoEOF")
    case True
    then show ?thesis using "1.prems" by (subst write_seq.simps) (simp add: rf)
  next
    case False
    have rb: "re = None \<and> length b = cs \<and> fst src = b @ fst src' \<and> snd src' = IoEOF \<or>
        re = Some IoUnexpectedEOF \<and> b = fst src \<and> b \<noteq> []"
      using rf False "1.prems"(3) by (auto simp: readFull_def Let_def split: prod.splits if_splits)
    then have ne: "b \<noteq> []" and le: "length b \<le> length (fst src)" using "1.prems"(2) by auto
    obtain nro where nro: "addUint64 rawOff (of_nat (length b)) = Some nro"
      "unat nro = unat rawOff + length b"
      using "1.prems"(6) le by (simp add: addUint64_alt unat_of_nat unat_add_u64)
    have lim: "\<not> (m > 0 \<and> nro > m)"
      using "1.prems"(7) le nro(2) by (auto simp: word_less_nat_alt)
    obtain rec where rec: "encodeChunkRecord L b codec level = Inr (rec, crc32 b)"
      "length rec = 16 + length b" using store_encodes [OF ne] "1.prems"(4) by blast
    have b1: "1 \<le> length b" using ne by (cases b) simp_all
    have "unat off + length rec < 2 ^ 63" "rec \<noteq> []" using rec(2) "1.prems"(5) le b1 by auto
    then obtain off1 d1 where ap: "appendAt d off rec = (Inr off1, d1)" "plan d1 = []"
      "unat off1 = unat off + length rec"
      "length (content d1) \<le> max (length (content d)) (unat off + length rec)"
      using appendAt_quiet [OF "1.prems"(1)] by blast
    show ?thesis
    proof (cases "re = Some IoUnexpectedEOF")
      case True
      then show ?thesis
        using rf ne nro lim rec ap le b1 by (subst write_seq.simps) (auto simp: Let_def)
    next
      case go: False
      then have src: "re = None" "fst src = b @ fst src'" "snd src' = IoEOF" using rb by auto
      let ?cs = "chunks @ [chunk_ref off rawOff b rec (crc32 b)]"
      have bounds: "unat off1 + 17 * length (fst src') \<le> unat off + 17 * length (fst src)"
        using ap(3) rec(2) src(2) b1 by simp
      have "\<exists>x d' off'. write_seq L codec level cs m d1 off1 src' nro ?cs = (Inr x, d', off') \<and>
          plan d' = [] \<and> unat off' \<le> unat off1 + 17 * length (fst src') \<and>
          length (content d') \<le> max (length (content d1)) (unat off1 + 17 * length (fst src'))"
        by (rule "1.IH" [OF rf [symmetric] refl _ _ _ nro(1) _ rec(1) refl ap(1) [symmetric] refl refl _ ap(2)])
          (use src ne lim go False "1.prems" bounds nro(2) in auto)
      then obtain x d' off' where w: "write_seq L codec level cs m d1 off1 src' nro ?cs = (Inr x, d', off')"
        "plan d' = []" "unat off' \<le> unat off1 + 17 * length (fst src')"
        "length (content d') \<le> max (length (content d1)) (unat off1 + 17 * length (fst src'))"
        by blast
      have "write_seq L codec level cs m d off src rawOff chunks = (Inr x, d', off')"
        using rf src(1) nro(1) lim rec(1) ap(1) w(1) by (subst write_seq.simps) (simp add: Let_def)
      then show ?thesis using w(2-4) bounds ap(3,4) by auto
    qed
  qed
qed


lemma writeChunks_quiet:
  assumes "plan d = []" "0 < cs" "scheduler order" "snd src = IoEOF" "codec = CodecStore"
    "unat off + 17 * length (fst src) < 2 ^ 63" "m = 0 \<or> length (fst src) \<le> unat m"
  shows "\<exists>x d' off'. writeChunks order L codec level cs workers m d off src = Some (Inr x, d', off') \<and>
    plan d' = [] \<and> unat off' \<le> unat off + 17 * length (fst src) \<and>
    length (content d') \<le> max (length (content d)) (unat off + 17 * length (fst src))"
proof -
  have "\<exists>x d' off'. writeChunksSequential L codec level cs m d off src = (Inr x, d', off') \<and>
    plan d' = [] \<and> unat off' \<le> unat off + 17 * length (fst src) \<and>
    length (content d') \<le> max (length (content d)) (unat off + 17 * length (fst src))"
    unfolding writeChunksSequential_def
    using assms by (intro write_seq_quiet) auto
  then obtain x d' off' where sq: "writeChunksSequential L codec level cs m d off src = (Inr x, d', off')"
    "plan d' = []" "unat off' \<le> unat off + 17 * length (fst src)"
    "length (content d') \<le> max (length (content d)) (unat off + 17 * length (fst src))" by blast
  have "writeChunksParallel order L codec level cs m d off src = Some (Inr x, d', off')"
    using parallel_sequential [OF assms(2,3), of L codec level m d off src] sq(1) by auto
  then show ?thesis using sq by (auto simp: writeChunks_def)
qed

section \<open>Adding an entry\<close>

definition stores :: "Options \<Rightarrow> WriteOptions option \<Rightarrow> bool" where
  "stores opts wopts \<longleftrightarrow>
     (case wopts of None \<Rightarrow> oDefaultCodec opts | Some w \<Rightarrow> wCodec w) = CodecStore"

lemma params_store:
  assumes "write_entry_params env opts path probe wopts = Inr p" "stores opts wopts"
  shows "wpCodec p = CodecStore"
  using assms
  by (auto simp: write_entry_params_def stores_def Let_def CodecStore_def CodecZstd_def CodecLZ4_def
      split: option.splits prod.splits if_splits simp: rbind_eq_Inr)

lemma add_quiet:
  assumes "plan d = []" "scheduler (nOrder env)" "snd src = IoEOF" "stores opts wopts" "\<not> tClosed tx"
    "normalize path = Inr q" "map_of (tEntries tx) q = None"
    "unat (tAppendOffset tx) + 17 * length (fst src) < 2 ^ 63"
    "oMaxEntrySize opts = 0 \<or> length (fst src) \<le> unat (oMaxEntrySize opts)"
  shows "\<exists>tx' d'. Tx_Add env opts path (Some src) meta wopts tx d = Some (Inr (), tx', d') \<and>
    plan d' = [] \<and> unat (tAppendOffset tx') \<le> unat (tAppendOffset tx) + 17 * length (fst src) \<and>
    length (content d') \<le> max (length (content d)) (unat (tAppendOffset tx) + 17 * length (fst src))"
proof -
  obtain p where p: "write_entry_params env opts q (take 4096 (fst src)) wopts = Inr p"
    "0 < wpChunkSize p" using params_total by blast
  have "\<exists>x d' off'. writeChunks (nOrder env) (nLib env) (wpCodec p) (wpLevel p)
      (nat (wpChunkSize p)) (wpWorkers p) (oMaxEntrySize opts) d (tAppendOffset tx) src =
        Some (Inr x, d', off') \<and>
    plan d' = [] \<and> unat off' \<le> unat (tAppendOffset tx) + 17 * length (fst src) \<and>
    length (content d') \<le> max (length (content d)) (unat (tAppendOffset tx) + 17 * length (fst src))"
    using assms p(2) params_store [OF p(1) assms(4)] by (intro writeChunks_quiet) auto
  then obtain x d' off' where w: "writeChunks (nOrder env) (nLib env) (wpCodec p) (wpLevel p)
      (nat (wpChunkSize p)) (wpWorkers p) (oMaxEntrySize opts) d (tAppendOffset tx) src =
        Some (Inr x, d', off')" "plan d' = []"
    "unat off' \<le> unat (tAppendOffset tx) + 17 * length (fst src)"
    "length (content d') \<le> max (length (content d)) (unat (tAppendOffset tx) + 17 * length (fst src))"
    by blast
  then show ?thesis
    using assms(5-7) p(1)
    by (cases x) (auto simp: Tx_Add_def write_and_put_def writeEntry_def)
qed

section \<open>Committing\<close>

lemma then_disk_step: "m = (Inr x, d1) \<Longrightarrow> then_disk m k = k x d1"
  by (simp add: then_disk_def)

lemma write_slots_quiet:
  assumes "plan d = []" "length hb = 128"
  shows "\<exists>d'. write_slots snc h hb d = (Inr h, d') \<and> plan d' = [] \<and>
    length (content d') \<le> max (length (content d)) 256"
proof -
  have b: "length (overwrite f n hb) \<le> max (length f) 256" if "n \<le> 128" for f n
    using length_overwrite_le [of f n hb] assms(2) that by auto
  have "length (overwrite (content d) 0 hb) \<le> max (length (content d)) 256"
    "length (overwrite (overwrite (content d) 128 hb) 0 hb) \<le> max (length (content d)) 256"
    using b [of 0 "content d"] b [of 128 "content d"] b [of 0 "overwrite (content d) 128 hb"] by linarith+
  then show ?thesis
    using assms(1)
    by (simp add: write_slots_def writeAt_quiet fixedBackupOffset_def maxInt_def then_disk_def sync_quiet)
qed

lemma write_records_quiet:
  assumes "plan d = []" "header_valid h" "unat joff + 296 < 2 ^ 63"
  shows "\<exists>d'. write_records env snc h joff d = (Inr h, d') \<and> plan d' = [] \<and>
    length (content d') \<le> max (length (content d)) (unat joff + 296)"
proof -
  have hb: "length (header_bytes h) = 128" and mh: "marshalHeader h = Inr (header_bytes h)"
    using assms(2) header_length marshalHeader_ok by (simp_all add: header_valid_def)
  have rec: "buildJournalRecord (header_bytes h) t = Inr (header_record journalMagic (header_bytes h) t)"
    "buildBackupRecord (header_bytes h) t = Inr (header_record backupMagic (header_bytes h) t)"
    "length (header_record journalMagic (header_bytes h) t) = 148"
    "length (header_record backupMagic (header_bytes h) t) = 148" for t
    using hb by (simp_all add: buildJournalRecord_def buildBackupRecord_def buildHeaderRecord_eq
        length_header_record journalMagic_def backupMagic_def)
  have ne: "b \<noteq> []" if "length b = 148" for b :: bytes using that by auto
  obtain bo d1 where j: "appendAt d joff (header_record journalMagic (header_bytes h) (mJournalTime env)) = (Inr bo, d1)"
    "plan d1 = []" "unat bo = unat joff + 148" "length (content d1) \<le> max (length (content d)) (unat joff + 148)"
    using appendAt_quiet [OF assms(1) _ ne [OF rec(3)], of joff "mJournalTime env"] assms(3) rec(3)
    by (auto)
  obtain eo d2 where b: "appendAt d1 bo (header_record backupMagic (header_bytes h) (mBackupTime env)) = (Inr eo, d2)"
    "plan d2 = []" "length (content d2) \<le> max (length (content d1)) (unat bo + 148)"
    using appendAt_quiet [OF j(2) _ ne [OF rec(4)], of bo "mBackupTime env"] assms(3) rec(4) j(3) by auto
  obtain d' where w: "write_slots snc h (header_bytes h) d2 = (Inr h, d')" "plan d' = []"
    "length (content d') \<le> max (length (content d2)) 256"
    using write_slots_quiet [OF b(2) hb] by blast
  have "length (content d') \<le> max (length (content d)) (unat joff + 296)"
    using w(3) b(3) j(3,4) by auto
  then show ?thesis
    using mh rec(1,2) j(1) b(1) sync_quiet(2) [OF b(2)] w(1,2) by (simp add: write_records_def then_disk_def)
qed

lemma commit_quiet:
  assumes "plan d = []" "header_valid (cHeader c)" and fits: "commit_fits c tx (mBuildTime env)"
    and t: "table_ok lo hi (tEntries tx)" and off: "unat (tAppendOffset tx) + 2 ^ 32 < 2 ^ 63"
    and open_tx: "\<not> tClosed tx"
  shows "\<exists>tx' c' d'. Commit env c tx d = (Inr (), tx', c', d') \<and> plan d' = [] \<and>
    length (content d') \<le> max (length (content d)) (unat (tAppendOffset tx) + 2 ^ 32)"
proof -
  let ?bu = "mBuildTime env" and ?es = "commit_entries tx" and ?off = "tAppendOffset tx"
  let ?blob = "dir_blob ?bu ?es" and ?ib = "index_blob (commit_index c tx ?bu)"
  note enc = commit_encodes [OF fits t]
  have lim: "length ?blob \<le> 2 ^ 30" using fits by (simp add: commit_fits_def)
  have ibl: "length ?ib \<le> 2 ^ 30" using index_size_le [OF lim] by (simp add: commit_index_def)
  have ne: "?blob \<noteq> []" "?ib \<noteq> []" by (auto simp: dir_blob_def dir_footer_def MagicEnd_def index_blob_def index_head_def MagicDirIndex_def)
  obtain io d1 where a1: "appendAt d ?off ?blob = (Inr io, d1)" "plan d1 = []" "unat io = unat ?off + length ?blob"
    "length (content d1) \<le> max (length (content d)) (unat ?off + length ?blob)"
    using appendAt_quiet [OF assms(1) _ ne(1), of ?off] off lim by fastforce
  obtain jo d2 where a2: "appendAt d1 io ?ib = (Inr jo, d2)" "plan d2 = []" "unat jo = unat io + length ?ib"
    "length (content d2) \<le> max (length (content d1)) (unat io + length ?ib)"
    using appendAt_quiet [OF a1(2) _ ne(2), of io] off lim ibl a1(3) by fastforce
  let ?g = "commit_dir_header (cHeader c) tx ?off ?blob (crc32 (dir_body ?bu ?es))"
  let ?h = "commit_header ?g (next_generation (cHeader c)) io ?ib jo"
  have hv: "header_valid ?h"
    by (intro commit_header_reads(1) [OF commit_dir_header_reads(1) [OF assms(2) refl] refl])
  have "unat jo + 296 < 2 ^ 63" using a1(3) a2(3) off lim ibl
    by (simp del: length_dir_blob length_index_blob)
  from write_records_quiet [OF a2(2) hv this]
  obtain d' where w: "write_records env (oSyncOnCommit (cOpts c)) ?h jo d2 = (Inr ?h, d')" "plan d' = []"
    "length (content d') \<le> max (length (content d2)) (unat jo + 296)"
    by blast
  have bound: "length (content d') \<le> max (length (content d)) (unat ?off + 2 ^ 32)"
    using w(3) a2(3,4) a1(3,4) lim ibl by (simp del: length_dir_blob length_index_blob)
  have "commit_file env c tx d = (Inr ?h, d')"
    using a1(1) a2(1) sync_quiet(2) [OF a2(2)] w(1) next_generation_dir [OF assms(2)]
    by (simp add: commit_file_def enc Let_def then_disk_def del: length_dir_blob length_index_blob)
  then show ?thesis using w(2) bound open_tx by (simp add: Commit_def Let_def split: prod.split)
qed

section \<open>A container that is created and filled\<close>

lemma create_quiet:
  assumes "plan d = []" "create_fits env"
  shows "\<exists>c d'. Create procs env opts d = (Inr c, d') \<and> plan d' = []"
proof -
  note p = create_parts [OF assms(2)]
  have off: "(356 + of_nat (length (header_record journalMagic (header_bytes (created_header env)) t)) :: u64) = 504" for t
    by (simp add: p(7))
  show ?thesis
    unfolding Create_def Let_def p(9) p(1) sum.case prod.case
    using assms(1)
    by (simp add: p(2,10,11) created_header_def [symmetric] p(4-6) off writeAt_quiet then_disk_def
        maxInt_def fixedBackupOffset_def sync_quiet del: length_dir_blob length_index_blob)
qed

lemma begin_quiet:
  assumes rep: "represents L (content d) h bu es s" and c: "caches c h bu es"
    and free: "\<not> cTxHeld c" "plan d = []"
  obtains tx c1 where "Begin c d = Some (Inr tx, c1, d)" "begun L c d tx c1 d s" "caches c1 h bu es"
proof -
  obtain c1 m where e: "ensureEntriesLoaded c (content d) = (Inr (), c1)" "cEntries c1 = Some m"
    by (rule ensure_loaded [OF rep c])
  have cc: "cFile c" "cFormatVersion c = VersionV1" using c by (auto simp: caches_def)
  obtain tx c2 where "Begin c d = Some (Inr tx, c2, d)"
    using free cc e lock_quiet [OF free(2)] by (simp add: Begin_def)
  then show thesis using begin_outcome [OF rep c] that by simp
qed

lemma refines_absent:
  assumes "refines L f m s" "s q = None"
  shows "map_of m q = None"
  using refinesD(2) [OF assms(1), of q] assms(2) by (cases "map_of m q") auto

text \<open>A run whose operation succeeds is committed.\<close>

lemma run_quiet:
  assumes b: "Begin c d = Some (Inr tx, c1, d0)" and a: "oper tx d0 = Some (Inr u, tx1, d1)" "plan d1 = []"
    and hv: "header_valid (cHeader c1)" and fit: "commit_fits c1 tx1 (mBuildTime env)"
    and t: "table_ok lo hi (tEntries tx1)" and off: "unat (tAppendOffset tx1) + 2 ^ 32 < 2 ^ 63"
    and nc: "\<not> tClosed tx1"
  shows "\<exists>c' d'. run_tx env oper c d = Some (Inr (), c', d') \<and> plan d' = [] \<and>
    length (content d') \<le> max (length (content d1)) (unat (tAppendOffset tx1) + 2 ^ 32)"
  using commit_quiet [OF a(2) hv fit t off nc] b a(1) by (auto simp: run_tx_def)

text \<open>A new path, a readable source and no faults: the entry is added and committed.\<close>

theorem add_succeeds:
  assumes rep: "represents (nLib env) (content d) h bu es s" and c: "caches c h bu es"
    and free: "\<not> cTxHeld c" "plan d = []" and env: "env_ok env (cOpts c) wopts" "stores (cOpts c) wopts"
    and src: "snd src = IoEOF" and path: "normalize path = Inr q" "s q = None"
    and size: "length (content d) + 17 * length (fst src) + 2 ^ 32 < 2 ^ 63"
      "oMaxEntrySize (cOpts c) = 0 \<or> length (fst src) \<le> unat (oMaxEntrySize (cOpts c))"
    and fits: "run_fits cenv (\<lambda>tx d. Tx_Add env (cOpts c) path (Some src) meta wopts tx d) c d"
  shows "\<exists>c' d'. Container_Add cenv env path (Some src) meta wopts c d = Some (Inr (), c', d') \<and>
    plan d' = [] \<and> length (content d') \<le> length (content d) + 17 * length (fst src) + 2 ^ 32"
proof -
  let ?L = "nLib env" and ?op = "\<lambda>tx d. Tx_Add env (cOpts c) path (Some src) meta wopts tx d"
  obtain tx c1 where b: "Begin c d = Some (Inr tx, c1, d)" "begun ?L c d tx c1 d s" "caches c1 h bu es"
    by (rule begin_quiet [OF rep c free])
  then have inv: "tx_inv ?L 256 (content d) tx s" and off: "unat (tAppendOffset tx) = length (content d)"
    and nc: "\<not> tClosed tx" by (auto simp: begun_def)
  have abs: "map_of (tEntries tx) q = None"
    using inv path(2) refines_absent unfolding tx_inv_def by blast
  have sch: "scheduler (nOrder env)" using env(1) by (simp add: env_ok_def)
  have o1: "unat (tAppendOffset tx) + 17 * length (fst src) < 2 ^ 63" using off size(1) by simp
  obtain tx1 d1 where a: "?op tx d = Some (Inr (), tx1, d1)" "plan d1 = []"
    "unat (tAppendOffset tx1) \<le> unat (tAppendOffset tx) + 17 * length (fst src)"
    "length (content d1) \<le> max (length (content d)) (unat (tAppendOffset tx) + 17 * length (fst src))"
    using add_quiet [OF free(2) sch src env(2) nc path(1) abs o1 size(2)] by blast
  have len: "length (content d1) < 2 ^ 63" using a(4) off size(1) by simp
  from add_outcome [OF env(1) inv a(1) len]
  obtain s' where inv1: "tx_inv ?L 256 (content d1) tx1 s'" and nc1: "\<not> tClosed tx1"
    using nc by (auto simp: put_outcome_def)
  have hv: "header_valid (cHeader c1)"
    using b(3) rep by (auto simp: caches_def represents_def holds_def)
  have fit: "commit_fits c1 tx1 (mBuildTime cenv)" using fits b(1) a(1) by (simp add: run_fits_def)
  have t: "table_ok 256 (unat (tAppendOffset tx1)) (tEntries tx1)" using inv1 by (simp add: tx_inv_def)
  have off1: "unat (tAppendOffset tx1) + 2 ^ 32 < 2 ^ 63" using a(3) off size(1) by simp
  obtain c' d' where r: "run_tx cenv ?op c d = Some (Inr (), c', d')" "plan d' = []"
    "length (content d') \<le> max (length (content d1)) (unat (tAppendOffset tx1) + 2 ^ 32)"
    using run_quiet [where oper = ?op, OF b(1) a(1,2) hv fit t off1 nc1] by blast
  have "length (content d') \<le> length (content d) + 17 * length (fst src) + 2 ^ 32"
    using r(3) a(3,4) off by simp
  then show ?thesis using r(1,2) by (simp add: Container_Add_def)
qed

end
