(* ===== verification/ContainerRead.thy ===== *)
theory ContainerRead
  imports ContainerSpec
begin

text \<open>
  Reading a container whose file represents an abstract one: \<^verbatim>\<open>Stat\<close>, \<^verbatim>\<open>OpenReader\<close>, \<^verbatim>\<open>Extract\<close>,
  \<^verbatim>\<open>List\<close> and \<^verbatim>\<open>Verify\<close> answer from the abstract container, whether the table of entries has been
  loaded or is still the lazy index.
\<close>

section \<open>Lookup\<close>

lemma lookup_stands_for:
  assumes rep: "represents L f h bu es s" and c: "caches c h bu es"
  obtains oe where "lookup_entry c q = Inr oe" "map_option norm_entry oe = path_lookup q es"
proof (cases "cEntries c")
  case None
  have "findEntryByPathFromDirIndex (dir_blob bu es)
      (Some (built_index bu es (hDirOffset h) (readHeaderGeneration h))) q = Inr (path_lookup q es)"
    using represents_table(2-4) [OF rep] by (intro find_entry_dir) simp_all
  then have "lookup_entry c q = Inr (path_lookup q es)"
    using None c by (simp add: lookup_entry_def caches_def)
  moreover have "map_option norm_entry (path_lookup q es) = path_lookup q es"
    using stands_for_entry_map [OF represents_table(3,2) [OF rep]]
    by (simp add: stands_for_def map_of_entry_map)
  ultimately show thesis by (rule that)
next
  case (Some m)
  then have "lookup_entry c q = Inr (map_of m q)" "map_option norm_entry (map_of m q) = path_lookup q es"
    using c by (auto simp: lookup_entry_def caches_def stands_for_def)
  then show thesis by (rule that)
qed

text \<open>The entry found is the one of the abstract container.\<close>

lemma lookup_cell:
  assumes rep: "represents L f h bu es s" and c: "caches c h bu es"
  obtains (absent) "s q = None" "lookup_entry c q = Inr None"
  | (present) e data where "s q = Some (data, Meta e)" "lookup_entry c q = Inr (Some e)"
      "Path e = q" "reads_as L f (Chunks e) data" "unat (FileSize e) = length data"
proof -
  obtain oe where oe: "lookup_entry c q = Inr oe" "map_option norm_entry oe = path_lookup q es"
    by (rule lookup_stands_for [OF rep c])
  have "cell L f (path_lookup q es) (s q)"
    using rep by (simp add: represents_def refines_def map_of_entry_map)
  then have cell: "cell L f (map_option norm_entry oe) (s q)" by (simp only: oe(2))
  show thesis
  proof (cases oe)
    case None
    then show thesis using absent oe(1) cell by simp
  next
    case (Some e)
    then have "find (\<lambda>e. Path e = q) es = Some (norm_entry e)"
      using oe(2) by (simp add: path_lookup_def)
    then have "Path (norm_entry e) = q" unfolding find_Some_iff by (metis (lifting))
    then show thesis using present oe(1) cell Some by auto
  qed
qed

theorem stat_outcome:
  assumes "represents L f h bu es s" "caches c h bu es" "normalize path = Inr q"
  shows "case s q of
      None \<Rightarrow> Stat c path = Inl ErrNotFound
    | Some (data, meta) \<Rightarrow>
        \<exists>i. Stat c path = Inr i \<and> iPath i = q \<and> unat (iSize i) = length data \<and> iMeta i = meta"
  using assms(1,2)
proof (cases rule: lookup_cell [where q = q])
  case absent
  then show ?thesis using assms(2,3) by (simp add: Stat_def caches_def or_err_def)
next
  case (present e data)
  then show ?thesis using assms(2,3) by (simp add: Stat_def caches_def or_err_def entryInfo_def)
qed

section \<open>Reading the contents\<close>

text \<open>With limits set, the stream of a good entry is a prefix of it that ends at the limit.\<close>

lemma limited_payload:
  assumes "\<forall>v. chunk_payload L f v 0 c = Inr p"
  shows "chunk_payload L f v mc c = Inr p \<or> mc > 0 \<and> chunk_payload L f v mc c = Inl ErrLimitExceeded"
  using assms by (auto simp: chunk_payload_def)

lemma limited_stream:
  assumes "reads_as L f cs data" "stream_from L f v me mc sofar cs = (b, e)"
  shows "b = data \<and> e = IoEOF \<or>
    (me > 0 \<or> mc > 0) \<and> (\<exists>rest. data = b @ rest) \<and> e = ErrLimitExceeded"
proof -
  from assms(1) obtain ps where "list_all2 (\<lambda>c p. \<forall>v. chunk_payload L f v 0 c = Inr p) cs ps"
    "concat ps = data" by (auto simp: reads_as_def)
  then show ?thesis using assms(2)
  proof (induction cs ps arbitrary: sofar data b rule: list_all2_induct)
    case (Cons c cs p ps)
    show ?case
    proof (cases "chunk_payload L f v mc c")
      case (Inl x)
      then show ?thesis using limited_payload [OF Cons.hyps(1), of v mc] Cons.prems by auto
    next
      case (Inr x)
      then have x: "x = p" using limited_payload [OF Cons.hyps(1), of v mc] by auto
      show ?thesis
      proof (cases "me > 0 \<and> sofar + of_nat (length p) > me")
        case True
        then show ?thesis using Cons.prems Inr x by auto
      next
        case False
        obtain b' where st: "stream_from L f v me mc (sofar + of_nat (length p)) cs = (b', e)"
          and "b = p @ b'"
          using Cons.prems(2) Inr x False by (auto split: prod.splits)
        then show ?thesis using Cons.IH [of "concat ps", OF refl st] Cons.prems(1) by auto
      qed
    qed
  qed auto
qed

text \<open>\<^verbatim>\<open>io.Copy\<close> returns, with the whole stream.\<close>

lemma copy_all_stream:
  assumes "stream L f r = (s, e)" "0 < n"
  shows "copy_all L f n r out = Some (out @ s, if e = IoEOF then Inr () else Inl e)"
  using assms(1)
proof (induction "length s" arbitrary: r s out rule: less_induct)
  case less
  obtain r' where rd: "entryReader_Read L f r n =
      ((take n s, if n \<noteq> 0 \<and> s = [] then Some e else None), r')"
    and st: "stream L f r' = (drop n s, e)"
    using read_stream [OF less.prems] by blast
  show ?case
  proof (cases "s = []")
    case True
    then show ?thesis using rd assms(2) by (subst copy_all.simps) simp
  next
    case False
    then have "length (drop n s) < length s" using assms(2) by simp
    from less.hyps [OF this st] False rd show ?thesis
      by (subst copy_all.simps) simp
  qed
qed

theorem extract_outcome:
  assumes rep: "represents L f h bu es s" and c: "caches c h bu es" and q: "normalize path = Inr q"
  shows "case s q of
      None \<Rightarrow> Extract L c f path = Some ([], Inl ErrNotFound)
    | Some (data, meta) \<Rightarrow>
        \<exists>out rest. data = out @ rest \<and>
          (Extract L c f path = Some (out, Inr ()) \<and> rest = [] \<or>
           Extract L c f path = Some (out, Inl ErrLimitExceeded) \<and>
             (oMaxEntrySize (cOpts c) > 0 \<or> oMaxChunkSize (cOpts c) > 0))"
  using rep c
proof (cases rule: lookup_cell [where q = q])
  case absent
  then show ?thesis using c q by (simp add: Extract_def OpenReader_def caches_def or_err_def)
next
  case (present e data)
  let ?me = "oMaxEntrySize (cOpts c)" and ?mc = "oMaxChunkSize (cOpts c)"
  let ?r = "\<lparr>erChunks = Chunks e, erIdx = 0, erCur = [], erCurRead = 0,
    erVerifyCRC = oStrictVerify (cOpts c), erMaxEntry = ?me, erMaxChunk = ?mc, erReadTotal = 0\<rparr>"
  have o1: "OpenReader c path =
      (if ?me > 0 \<and> FileSize e > ?me then Inl ErrLimitExceeded else Inr ?r)"
    using present(2) c q by (simp add: OpenReader_def caches_def or_err_def Let_def)
  show ?thesis
  proof (cases "?me > 0 \<and> FileSize e > ?me")
    case True
    then have "Extract L c f path = Some ([], Inl ErrLimitExceeded)" by (simp add: Extract_def o1)
    then show ?thesis using True present(1) by auto
  next
    case False
    obtain b x where st: "stream_from L f (oStrictVerify (cOpts c)) ?me ?mc 0 (Chunks e) = (b, x)"
      by fastforce
    have "stream L f ?r = (b, x)" by (simp add: stream_def rest_def st)
    from copy_all_stream [OF this, of 32768 "[]"]
    have "copy_all L f 32768 ?r [] = Some (b, if x = IoEOF then Inr () else Inl x)" by simp
    moreover have "Extract L c f path = copy_all L f 32768 ?r []"
      using False by (simp add: Extract_def o1 if_not_P del: copy_all.simps)
    ultimately have "Extract L c f path = Some (b, if x = IoEOF then Inr () else Inl x)"
      by (simp only:)
    then show ?thesis using limited_stream [OF present(4) st] present(1) by auto
  qed
qed


section \<open>List\<close>

text \<open>The loop \<^verbatim>\<open>for it.Next() { v := it.Value() ... }\<close>, up to \<open>n\<close> rounds.\<close>

fun iterate :: "nat \<Rightarrow> 'a sliceIterator \<Rightarrow> 'a option list" where
  "iterate 0 it = []"
| "iterate (Suc n) it =
     (case itNext it of (True, it') \<Rightarrow> itValue it' # iterate n it' | (False, it') \<Rightarrow> [])"

lemma iterate_from:
  assumes "itErr it = None" "itIdx it = int k - 1" "k \<le> length (itValues it)"
  shows "iterate n it = take n (map Some (drop k (itValues it)))"
  using assms
proof (induction n arbitrary: it k)
  case (Suc n)
  show ?case
  proof (cases "k < length (itValues it)")
    case True
    then have "drop k (itValues it) = itValues it ! k # drop (Suc k) (itValues it)"
      by (simp add: Cons_nth_drop_Suc)
    moreover have "itNext it = (True, it\<lparr>itIdx := int k\<rparr>)"
      using True Suc.prems by (simp add: itNext_def Let_def)
    moreover have "iterate n (it\<lparr>itIdx := int k\<rparr>) =
        take n (map Some (drop (Suc k) (itValues it)))"
      using Suc.IH [of "it\<lparr>itIdx := int k\<rparr>" "Suc k"] Suc.prems True by simp
    ultimately show ?thesis using True by (simp add: itValue_def)
  next
    case False
    then show ?thesis using Suc.prems by (simp add: itNext_def Let_def)
  qed
qed simp

lemma iterate_all:
  "length vs \<le> n \<Longrightarrow> iterate n (newSliceIterator vs None) = map Some vs"
  using iterate_from [of "newSliceIterator vs None" 0 n] by (simp add: newSliceIterator_def)

definition info_view :: "EntryInfo list \<Rightarrow> bytes \<Rightarrow> (nat \<times> bytes) option" where
  "info_view vs = map_of (map (\<lambda>i. (iPath i, unat (iSize i), iMeta i)) vs)"

lemma info_view_sorted:
  assumes d: "distinct (map fst m)" and p: "\<And>k e. map_of m k = Some e \<Longrightarrow> Path e = k"
  shows "info_view (sort_key iPath (map (\<lambda>(k, e). entryInfo e) m)) q =
      map_option (\<lambda>e. (unat (FileSize e), Meta e)) (map_of m q)"
    "sorted (map iPath (sort_key iPath (map (\<lambda>(k, e). entryInfo e) m)))"
    "distinct (map iPath (sort_key iPath (map (\<lambda>(k, e). entryInfo e) m)))"
proof -
  let ?vs = "map (\<lambda>(k, e). entryInfo e) m"
  let ?row = "\<lambda>i. (iPath i, unat (iSize i), iMeta i)"
  have key: "Path e = k" if "(k, e) \<in> set m" for k e
    using p [OF map_of_is_SomeI [OF d that]] .
  have paths: "map iPath ?vs = map fst m" using key by (auto simp: entryInfo_def)
  show sd: "distinct (map iPath (sort_key iPath ?vs))"
    using d paths by (metis mset_eq_imp_distinct_iff mset_map mset_sort)
  show "sorted (map iPath (sort_key iPath ?vs))" by simp
  have "map fst (map ?row (sort_key iPath ?vs)) = map iPath (sort_key iPath ?vs)" by simp
  then have "distinct (map fst (map ?row (sort_key iPath ?vs)))" using sd by (simp only:)
  moreover have "map fst (map ?row ?vs) = map iPath ?vs" by simp
  then have "distinct (map fst (map ?row ?vs))" using d by (simp only: paths)
  ultimately have "map_of (map ?row (sort_key iPath ?vs)) = map_of (map ?row ?vs)"
    by (simp only: map_of_inject_set set_map set_sort)
  also have "map ?row ?vs = map (\<lambda>(k, e). (k, unat (FileSize e), Meta e)) m"
    using key by (auto simp: entryInfo_def)
  finally show "info_view (sort_key iPath ?vs) q =
      map_option (\<lambda>e. (unat (FileSize e), Meta e)) (map_of m q)"
    by (simp add: info_view_def map_of_map [of "\<lambda>e. (unat (FileSize e), Meta e)", simplified comp_def])
qed

theorem list_outcome:
  assumes rep: "represents L f h bu es s" and c: "caches c h bu es"
  obtains vs c' where "container_List c f = (newSliceIterator vs None, c')" "caches c' h bu es"
    "sorted (map iPath vs)" "distinct (map iPath vs)"
    "\<And>q. info_view vs q = map_option (\<lambda>(data, meta). (length data, meta)) (s q)"
proof -
  obtain c' m where e: "ensureEntriesLoaded c f = (Inr (), c')" "cEntries c' = Some m"
    "stands_for m es" "caches c' h bu es"
    by (rule ensure_loaded [OF rep c])
  let ?vs = "sort_key iPath (map (\<lambda>(k, e). entryInfo e) m)"
  note inv = represents_inv [OF rep e(3)]
  note v = info_view_sorted [OF table_ok_distinct [OF inv(1)] table_okD(1) [OF inv(1)]]
  have "info_view ?vs q = map_option (\<lambda>(data, meta). (length data, meta)) (s q)" for q
    using refinesD [OF inv(2), of q] by (cases "map_of m q") (auto simp: v(1))
  moreover have "container_List c f = (newSliceIterator ?vs None, c')"
    using e c by (simp add: container_List_def caches_def)
  ultimately show thesis using that e(4) v(2,3) by blast
qed


section \<open>Verify\<close>

text \<open>
  A check of all chunks that reports no error has read every chunk of every entry with its
  checksum; on a container that represents an abstract one it reports none.
\<close>

definition ref_good :: "codec_lib \<Rightarrow> bytes \<Rightarrow> u32 \<Rightarrow> ChunkRefV1 \<Rightarrow> bool" where
  "ref_good L f mc ref \<longleftrightarrow> (\<exists>p. chunk_payload L f True mc ref = Inr p)"

lemma verify_ref_errors:
  "vErrors (verify_ref L f mc report ref) = [] \<longleftrightarrow> vErrors report = [] \<and> ref_good L f mc ref"
  by (auto simp: verify_ref_def ref_good_def chunk_payload_def Let_def split: sum.splits)

lemma verify_refs_errors:
  "vErrors (foldl (verify_ref L f mc) report refs) = [] \<longleftrightarrow>
     vErrors report = [] \<and> (\<forall>ref \<in> set refs. ref_good L f mc ref)"
  by (induction refs arbitrary: report) (auto simp: verify_ref_errors)

text \<open>The chunks of an entry that a mode looks at.\<close>

definition checked_refs :: "VerifyMode option \<Rightarrow> EntryV1 \<Rightarrow> ChunkRefV1 list" where
  "checked_refs vopts e =
     (case vopts of
        Some VerifyAllChunks \<Rightarrow> Chunks e
      | Some VerifySampledChunks \<Rightarrow> take 1 (Chunks e)
      | _ \<Rightarrow> [])"

lemma verify_entries_errors:
  "mode \<noteq> VerifyDirectoryOnly \<Longrightarrow> vErrors (foldl (verify_entry L f mode mc) report es) = [] \<longleftrightarrow>
     vErrors report = [] \<and> (\<forall>e \<in> set es. \<forall>ref \<in> set (checked_refs (Some mode) e). ref_good L f mc ref)"
proof (induction es arbitrary: report)
  case (Cons e es)
  have "vErrors (verify_entry L f mode mc report e) = [] \<longleftrightarrow>
      vErrors report = [] \<and> (\<forall>ref \<in> set (checked_refs (Some mode) e). ref_good L f mc ref)"
    using Cons.prems
    by (cases mode) (auto simp: verify_entry_def Let_def verify_refs_errors checked_refs_def)
  then show ?case using Cons by auto
qed simp

lemma good_refs_stream:
  assumes "\<forall>ref \<in> set cs. ref_good L f mc ref"
  shows "\<exists>data. \<forall>sofar. stream_from L f True 0 mc sofar cs = (data, IoEOF)"
  using assms
proof (induction cs)
  case (Cons c cs)
  then obtain data p where "\<forall>sofar. stream_from L f True 0 mc sofar cs = (data, IoEOF)"
    "chunk_payload L f True mc c = Inr p" by (auto simp: ref_good_def)
  then show ?case by (intro exI [of _ "p @ data"]) simp
qed simp

text \<open>The verdict of every mode on an open container, and the reports that go with it.\<close>

lemma directory_checked:
  "validateHeaderDirectory f h =
    (case readDirectoryBlobByHeader f h of
       Inl e \<Rightarrow> Inl e
     | Inr blob \<Rightarrow> (case decodeDirectory blob (hDirCRC32 h) (hDirSize h) of Inl e \<Rightarrow> Inl e | Inr _ \<Rightarrow> Inr ()))"
  by (simp add: validateHeaderDirectory_def rbind_def split: sum.split)

lemma ensure_keeps:
  "ensureEntriesLoaded c f = (r, c') \<Longrightarrow>
     cFile c' = cFile c \<and> cFormatVersion c' = cFormatVersion c \<and> cHeader c' = cHeader c \<and> cOpts c' = cOpts c \<and>
     (r = Inr u \<longrightarrow> cEntries c' \<noteq> None)"
  by (auto simp: ensureEntriesLoaded_def split: if_splits option.splits sum.splits)

lemma verify_verdict:
  assumes op: "cFile c" "cFormatVersion c = VersionV1" and v: "Verify L c f vopts = ((report, failed), c')"
  shows "\<not> failed \<longleftrightarrow> (\<exists>m. ensureEntriesLoaded c f = (Inr (), c') \<and> cEntries c' = Some m \<and>
      validateHeaderDirectory f (cHeader c') = Inr () \<and>
      (\<forall>(k, e) \<in> set m. \<forall>ref \<in> set (checked_refs vopts e). ref_good L f (oMaxChunkSize (cOpts c')) ref))"
    "failed \<longleftrightarrow> vErrors report \<noteq> []"
proof -
  obtain r c1 where e: "ensureEntriesLoaded c f = (r, c1)" by fastforce
  note k = ensure_keeps [OF e]
  have both: "(\<not> failed \<longleftrightarrow> (\<exists>m. ensureEntriesLoaded c f = (Inr (), c') \<and> cEntries c' = Some m \<and>
      validateHeaderDirectory f (cHeader c') = Inr () \<and>
      (\<forall>(k, e) \<in> set m. \<forall>ref \<in> set (checked_refs vopts e). ref_good L f (oMaxChunkSize (cOpts c')) ref))) \<and>
    (failed \<longleftrightarrow> vErrors report \<noteq> [])"
  proof (cases r)
    case (Inl x)
    then show ?thesis using v e by (auto simp: Verify_def Let_def)
  next
    case (Inr u)
    then obtain m where m: "cEntries c1 = Some m" using k by auto
    define mode where "mode = (case vopts of None \<Rightarrow> VerifyDirectoryOnly | Some m \<Rightarrow> m)"
    define rep where "rep = foldl (verify_entry L f mode (oMaxChunkSize (cOpts c1)))
      \<lparr>vEntriesChecked = 0, vChunksChecked = 0, vErrors = []\<rparr> (map snd m)"
    have op1: "cFile c1" "cFormatVersion c1 = VersionV1" using k op by simp_all
    have res: "case validateHeaderDirectory f (cHeader c1) of
          Inl _ \<Rightarrow> vErrors report \<noteq> [] \<and> failed \<and> c' = c1
        | Inr _ \<Rightarrow> (if mode = VerifyDirectoryOnly
            then vErrors report = [] \<and> \<not> failed \<and> c' = c1
            else report = rep \<and> failed = (vErrors rep \<noteq> []) \<and> c' = c1)"
      using v unfolding directory_checked rep_def Verify_def e Inr Let_def mode_def [symmetric]
      by (simp add: op1 m split: sum.splits if_splits) (auto simp: op1 m split: sum.splits if_splits)
    have chk: "vErrors rep = [] \<longleftrightarrow> (\<forall>(k, e) \<in> set m. \<forall>ref \<in> set (checked_refs vopts e).
        ref_good L f (oMaxChunkSize (cOpts c1)) ref)" if "mode \<noteq> VerifyDirectoryOnly"
    proof -
      have "vopts = Some mode" using that by (auto simp: mode_def split: option.splits)
      then show ?thesis unfolding rep_def verify_entries_errors [OF that] by auto
    qed
    have none: "checked_refs vopts e = []" if "mode = VerifyDirectoryOnly" for e
      using that by (auto simp: mode_def checked_refs_def split: option.splits)
    show ?thesis
      using res chk none e Inr m
      by (cases "validateHeaderDirectory f (cHeader c1)"; cases "mode = VerifyDirectoryOnly") auto
  qed
  show "\<not> failed \<longleftrightarrow> (\<exists>m. ensureEntriesLoaded c f = (Inr (), c') \<and> cEntries c' = Some m \<and>
      validateHeaderDirectory f (cHeader c') = Inr () \<and>
      (\<forall>(k, e) \<in> set m. \<forall>ref \<in> set (checked_refs vopts e). ref_good L f (oMaxChunkSize (cOpts c')) ref))"
    "failed \<longleftrightarrow> vErrors report \<noteq> []" using both by blast+
qed

text \<open>After a check of all chunks every entry can be read to its end.\<close>

lemma verify_all_readable:
  assumes op: "cFile c" "cFormatVersion c = VersionV1" and v: "Verify L c f (Some VerifyAllChunks) = ((report, False), c')"
    and e: "(k, e) \<in> set (the (cEntries c'))"
  shows "\<exists>data. stream_from L f True 0 (oMaxChunkSize (cOpts c')) 0 (Chunks e) = (data, IoEOF)"
proof -
  obtain m where m: "cEntries c' = Some m"
    "\<forall>(k, e) \<in> set m. \<forall>ref \<in> set (Chunks e). ref_good L f (oMaxChunkSize (cOpts c')) ref"
    using verify_verdict(1) [OF op v] by (auto simp: checked_refs_def)
  then have "\<forall>ref \<in> set (Chunks e). ref_good L f (oMaxChunkSize (cOpts c')) ref" using e by fastforce
  from good_refs_stream [OF this] show ?thesis by blast
qed

text \<open>A container that represents an abstract one passes every mode.\<close>

theorem verify_represented_any:
  assumes rep: "represents L f h bu es s" and c: "caches c h bu es" and mc: "oMaxChunkSize (cOpts c) = 0"
  shows "\<exists>report c'. Verify L c f vopts = ((report, False), c') \<and>
    vErrors report = [] \<and> caches c' h bu es"
proof -
  obtain c' m where e: "ensureEntriesLoaded c f = (Inr (), c')" "cEntries c' = Some m"
    "stands_for m es" "caches c' h bu es" "cOpts c' = cOpts c" "cHeader c' = h" "cFile c'"
    by (rule ensure_loaded [OF rep c])
  note inv = represents_inv [OF rep e(3)]
  have st: "stored f h bu es" and len: "length f < 2 ^ 63"
    using rep by (auto simp: represents_def holds_def)
  have dir: "validateHeaderDirectory f h = Inr ()"
    using st len by (intro validate_dir_stored) (auto simp: stored_def)
  have good: "ref_good L f 0 ref" if "(k, e1) \<in> set m" "ref \<in> set (Chunks e1)" for k e1 ref
  proof -
    have "map_of m k = Some e1"
      using table_ok_distinct [OF inv(1)] that(1) by (rule map_of_is_SomeI)
    from refinesD(2) [OF inv(2) this] obtain data where "reads_as L f (Chunks e1) data" by blast
    then show ?thesis using that(2) by (fastforce simp: reads_as_def ref_good_def list_all2_conv_all_nth in_set_conv_nth)
  qed
  have op: "cFile c" "cFormatVersion c = VersionV1" using c by (simp_all add: caches_def)
  obtain report failed c2 where v: "Verify L c f vopts = ((report, failed), c2)" by (metis surj_pair)
  note vv = verify_verdict [OF op v]
  have "c2 = c'"
    using v e(1) by (auto simp: Verify_def Let_def split: option.splits sum.splits if_splits)
  have sub: "set (checked_refs vopts x) \<subseteq> set (Chunks x)" for x
  proof (cases vopts)
    case (Some mode)
    then show ?thesis by (cases mode) (auto simp: checked_refs_def dest: in_set_takeD)
  qed (simp add: checked_refs_def)
  have "\<forall>(k, x) \<in> set m. \<forall>ref \<in> set (checked_refs vopts x). ref_good L f (oMaxChunkSize (cOpts c2)) ref"
    using good sub e(5) mc unfolding \<open>c2 = c'\<close> by fastforce
  then have "\<not> failed" using vv(1) e(1,2,6) dir unfolding \<open>c2 = c'\<close> by auto
  then show ?thesis using v vv(2) e(4) unfolding \<open>c2 = c'\<close> by auto
qed

lemmas verify_represented = verify_represented_any [where vopts = "Some VerifyAllChunks"]

end
