(* ===== verification/Pack.thy ===== *)
theory Pack
  imports TxContract ContainerRead CreateSpec
begin

text \<open>
  \<^verbatim>\<open>Pack\<close> of \<^verbatim>\<open>fbx/pack.go\<close>: a container is rebuilt with its live entries only, into another file
  or, through a temporary file and a rename, in place. The progress callback has no effect and is
  left out. The lemmas show that a successful pack has the contents of the input, entry by entry,
  and no dead bytes.
\<close>

section \<open>Options\<close>

record PackOptions =
  poCodec :: u8
  poLevel :: int
  poChunkText :: int
  poChunkBin :: int
  poWorkers :: int
  poVerifyIn :: bool
  poFastUnsafe :: bool
  poClearMeta :: bool
  poMaxEntrySize :: u64
  poMaxChunkSize :: u32

definition zeroOptions :: Options where
  "zeroOptions =
     \<lparr>oChunkSizeText = 0, oChunkSizeBin = 0, oDefaultCodec = CodecStore, oDefaultLevel = 0,
      oMaxWorkers = 0, oMaxEntrySize = 0, oMaxChunkSize = 0, oDetectText = False,
      oStoreIfAlreadyCompressed = False, oSyncOnCommit = False, oStrictVerify = False,
      oNoStrictVerify = False, oNoSyncOnCommit = False, oNoDetectText = False,
      oNoStoreIfAlreadyCompressed = False\<rparr>"

definition pack_in_options :: "PackOptions \<Rightarrow> Options" where
  "pack_in_options po =
     zeroOptions\<lparr>oNoStrictVerify := poFastUnsafe po, oMaxEntrySize := poMaxEntrySize po,
       oMaxChunkSize := poMaxChunkSize po\<rparr>"

definition pack_out_options :: "int \<Rightarrow> PackOptions \<Rightarrow> Options" where
  "pack_out_options procs po =
     (let out = defaultOptions procs;
          out = (if poChunkText po > 0 then out\<lparr>oChunkSizeText := poChunkText po\<rparr> else out);
          out = (if poChunkBin po > 0 then out\<lparr>oChunkSizeBin := poChunkBin po\<rparr> else out);
          out = (if poWorkers po > 0 then out\<lparr>oMaxWorkers := poWorkers po\<rparr> else out);
          out = (if poMaxEntrySize po > 0 then out\<lparr>oMaxEntrySize := poMaxEntrySize po\<rparr> else out);
          out = (if poMaxChunkSize po > 0 then out\<lparr>oMaxChunkSize := poMaxChunkSize po\<rparr> else out);
          out = (if poFastUnsafe po then out\<lparr>oSyncOnCommit := False\<rparr> else out)
      in out)"

definition pickChunkSize :: "EntryInfo \<Rightarrow> PackOptions \<Rightarrow> int" where
  "pickChunkSize e po =
     (if iEntryFlags e AND EntryFlagIsText \<noteq> 0 \<and> poChunkText po > 0 then poChunkText po
      else if poChunkBin po > 0 then poChunkBin po
      else 0)"

definition pack_write_options :: "PackOptions \<Rightarrow> EntryInfo \<Rightarrow> WriteOptions" where
  "pack_write_options po e =
     \<lparr>wCodec = poCodec po, wLevel = poLevel po, wChunkSize = pickChunkSize e po,
      wMTimeUnix = iMTimeUnix e, wMode = iMode e, wFlags = iEntryFlags e\<rparr>"

section \<open>Packing into a file\<close>

text \<open>
  What the call takes from outside: the codecs, the clocks, the scheduler at each entry, and the
  results of closing the two files.
\<close>

record pack_env =
  peLib :: codec_lib
  peProcs :: int
  peCreate :: create_env
  peCommit :: commit_env
  peEntry :: "nat \<Rightarrow> env"
  peCloseSrc :: "unit result"
  peCloseDst :: "unit result"

text \<open>The error of \<^verbatim>\<open>errors.Join\<close> that \<^verbatim>\<open>Verify\<close> returns.\<close>

definition joinedErrors :: error where "joinedErrors = LibErr 2"

text \<open>\<^verbatim>\<open>if cerr := f.Close(); retErr == nil && cerr != nil { retErr = cerr }\<close>\<close>

definition keep_err :: "unit result \<Rightarrow> unit result \<Rightarrow> unit result" where
  "keep_err retErr cerr = (case retErr of Inl e \<Rightarrow> Inl e | Inr _ \<Rightarrow> cerr)"

text \<open>The entries one after the other: the reader of the input is the source of the upsert.\<close>

fun pack_entries ::
  "pack_env \<Rightarrow> PackOptions \<Rightarrow> Container \<Rightarrow> bytes \<Rightarrow> Options \<Rightarrow> nat \<Rightarrow> EntryInfo list \<Rightarrow> Tx \<Rightarrow> disk \<Rightarrow>
     tx_result" where
  "pack_entries pe po src f opts i [] tx d = Some (Inr (), tx, d)"
| "pack_entries pe po src f opts i (e # es) tx d =
     (case OpenReader src (iPath e) of
        Inl err \<Rightarrow> Some (Inl err, tx, d)
      | Inr r \<Rightarrow>
          let meta = (if poClearMeta po then [] else iMeta e) in
          (case Tx_Upsert (peEntry pe i) opts (iPath e) (Some (stream (peLib pe) f r)) meta
                  (Some (pack_write_options po e)) tx d of
             None \<Rightarrow> None
           | Some (Inl err, tx, d) \<Rightarrow> Some (Inl err, tx, d)
           | Some (Inr _, tx, d) \<Rightarrow> pack_entries pe po src f opts (i + 1) es tx d))"

text \<open>From the creation of the output to the commit of the transaction.\<close>

definition pack_fill ::
  "pack_env \<Rightarrow> PackOptions \<Rightarrow> Container \<Rightarrow> bytes \<Rightarrow> EntryInfo list \<Rightarrow> disk \<Rightarrow>
     ((Tx \<times> Container) result \<times> disk) option" where
  "pack_fill pe po src f entries d =
     (case Create (peProcs pe) (peCreate pe) (Some (pack_out_options (peProcs pe) po)) d of
        (Inl e, d) \<Rightarrow> Some (Inl e, d)
      | (Inr dst, d) \<Rightarrow>
          (case Begin dst d of
             None \<Rightarrow> None
           | Some (Inl e, dst, d) \<Rightarrow> Some (Inl e, d)
           | Some (Inr tx, dst, d) \<Rightarrow>
               (case pack_entries pe po src f (cOpts dst) 0 entries tx d of
                  None \<Rightarrow> None
                | Some (Inl e, tx, d) \<Rightarrow> Some (Inl e, d)
                | Some (Inr _, tx, d) \<Rightarrow> Some (Inr (tx, dst), d))))"

text \<open>The commit and the close of the output; a rollback before them leaves nothing to do.\<close>

definition pack_output ::
  "pack_env \<Rightarrow> PackOptions \<Rightarrow> Container \<Rightarrow> bytes \<Rightarrow> EntryInfo list \<Rightarrow> disk \<Rightarrow>
     (unit result \<times> disk) option" where
  "pack_output pe po src f entries d =
     (case pack_fill pe po src f entries d of
        None \<Rightarrow> None
      | Some (Inl e, d) \<Rightarrow> Some (Inl e, d)
      | Some (Inr (tx, dst), d) \<Rightarrow>
          (case Commit (peCommit pe) dst tx d of
             (r, tx, dst, d) \<Rightarrow> Some (keep_err r (fst (close dst (peCloseDst pe))), d)))"

text \<open>The input: open, verify if asked to, and list.\<close>

definition pack_scan :: "pack_env \<Rightarrow> PackOptions \<Rightarrow> disk \<Rightarrow> (Container \<times> EntryInfo list) result \<times> disk" where
  "pack_scan pe po d =
     (case Open (peLib pe) (peProcs pe) (Some (pack_in_options po)) d of
        (Inl e, d) \<Rightarrow> (Inl e, d)
      | (Inr src, d) \<Rightarrow>
          (case (if poVerifyIn po
                 then Verify (peLib pe) src (content d) (Some VerifyAllChunks)
                 else ((\<lparr>vEntriesChecked = 0, vChunksChecked = 0, vErrors = []\<rparr>, False), src)) of
             ((_, True), src) \<Rightarrow> (Inl joinedErrors, d)
           | ((_, False), src) \<Rightarrow>
               (case container_List src (content d) of
                  (it, src) \<Rightarrow>
                    (case itErr it of
                       Some e \<Rightarrow> (Inl e, d)
                     | None \<Rightarrow> (Inr (src, map the (iterate (Suc (length (itValues it))) it)), d)))))"

text \<open>
  \<^verbatim>\<open>packInto\<close> from the point where the input is open; the output is \<open>None\<close> as long as it has not been
  created. The faults that were planned for the input go on with the output.
\<close>

definition packInto ::
  "pack_env \<Rightarrow> PackOptions \<Rightarrow> disk \<Rightarrow> (unit result \<times> disk \<times> disk option) option" where
  "packInto pe po d =
     (case pack_scan pe po d of
        (Inl e, d) \<Rightarrow> Some (Inl e, d, None)
      | (Inr (src, entries), d) \<Rightarrow>
          (case pack_output pe po src (content d) entries \<lparr>content = [], plan = plan d\<rparr> of
             None \<Rightarrow> None
           | Some (r, dst) \<Rightarrow> Some (keep_err r (fst (close src (peCloseSrc pe))), d, Some dst)))"

section \<open>Entry by entry\<close>

lemma writeEntry_grows:
  "writeEntry env opts path r meta wopts tx d = Some (res, tx', d') \<Longrightarrow>
     length (content d) \<le> length (content d')"
  by (auto simp: writeEntry_def appended_def dest: writeChunks_appended
      split: option.splits sum.splits prod.splits)

lemma upsert_grows:
  "Tx_Upsert env opts path r meta wopts tx d = Some (res, tx', d') \<Longrightarrow>
     length (content d) \<le> length (content d')"
  by (auto simp: Tx_Upsert_def write_and_put_def dest!: writeEntry_grows
      split: if_splits option.splits sum.splits prod.splits)

lemma pack_entries_grow:
  "pack_entries pe po src f opts i es tx d = Some (res, tx', d') \<Longrightarrow>
     length (content d) \<le> length (content d')"
proof (induction es arbitrary: i tx d)
  case (Cons e es)
  then show ?case
    by (auto simp: Let_def split: sum.splits option.splits prod.splits dest!: upsert_grows)
       (meson le_trans)
qed simp

text \<open>The contents to keep: data as it is, metadata unless it is to be cleared.\<close>

definition repacked :: "PackOptions \<Rightarrow> store \<Rightarrow> store" where
  "repacked po s = (\<lambda>q. map_option (\<lambda>(data, meta). (data, if poClearMeta po then [] else meta)) (s q))"

definition pack_ok :: "pack_env \<Rightarrow> Options \<Rightarrow> PackOptions \<Rightarrow> bool" where
  "pack_ok pe opts po \<longleftrightarrow>
     (\<forall>i. nLib (peEntry pe i) = peLib pe \<and>
       (\<forall>e. env_ok (peEntry pe i) opts (Some (pack_write_options po e))))"

text \<open>The reader that is handed to the upsert.\<close>

lemma reader_source:
  assumes rep: "represents L f h bu es s" and c: "caches c h bu es" and q: "normalize path = Inr q"
    and sq: "s q = Some (data, meta)" and r: "OpenReader c path = Inr r"
    and fin: "read_to_end (stream L f r)"
  shows "stream L f r = (data, IoEOF)"
  using rep c
proof (cases rule: lookup_cell [where q = q])
  case absent
  then show ?thesis using sq by simp
next
  case (present e data')
  have r': "stream L f r = stream_from L f (oStrictVerify (cOpts c)) (oMaxEntrySize (cOpts c))
      (oMaxChunkSize (cOpts c)) 0 (Chunks e)"
    using r present(2) c q
    by (auto simp: OpenReader_def caches_def or_err_def Let_def stream_def rest_def split: if_splits prod.splits)
  obtain b x where st: "stream_from L f (oStrictVerify (cOpts c)) (oMaxEntrySize (cOpts c))
      (oMaxChunkSize (cOpts c)) 0 (Chunks e) = (b, x)" by fastforce
  from limited_stream [OF present(4) st] show ?thesis
    using fin present(1) sq by (auto simp: r' st read_to_end_def)
qed

lemma pack_entries_outcome:
  assumes rep: "represents L f h bu es s" and c: "caches src h bu es" and L: "L = peLib pe"
    and infos: "\<forall>e \<in> set infos. path_safe (iPath e) \<and> (\<exists>data. s (iPath e) = Some (data, iMeta e))"
    and ok: "pack_ok pe opts po"
    and inv: "tx_inv L lo (content d) tx t"
    and run: "pack_entries pe po src f opts i infos tx d = Some (Inr u, tx', d')"
    and len: "length (content d') < 2 ^ 63"
  shows "tx_inv L lo (content d') tx' (\<lambda>q. if q \<in> iPath ` set infos then repacked po s q else t q)"
    "same 0 (unat (tAppendOffset tx)) (content d) (content d')"
    "unat (tAppendOffset tx) \<le> unat (tAppendOffset tx')" "tClosed tx' = tClosed tx"
  using infos inv run
proof (induction infos arbitrary: i tx d t)
  case Nil
  case 1 then show ?case by simp
  case 2 then show ?case by (simp add: tx_inv_def same_refl)
  case 3 then show ?case by simp
  case 4 then show ?case by simp
next
  case (Cons e infos)
  have main: "tx_inv L lo (content d') tx' (\<lambda>q. if q \<in> iPath ` set (e # infos) then repacked po s q else t q) \<and>
      same 0 (unat (tAppendOffset tx)) (content d) (content d') \<and>
      unat (tAppendOffset tx) \<le> unat (tAppendOffset tx') \<and> tClosed tx' = tClosed tx"
    if inv: "tx_inv L lo (content d) tx t" and inf: "\<forall>e \<in> set (e # infos). path_safe (iPath e) \<and> (\<exists>data. s (iPath e) = Some (data, iMeta e))"
      and run: "pack_entries pe po src f opts i (e # infos) tx d = Some (Inr u, tx', d')"
    for i tx d t
  proof -
    let ?m = "if poClearMeta po then [] else iMeta e"
    obtain data where q: "normalize (iPath e) = Inr (iPath e)" "s (iPath e) = Some (data, iMeta e)"
      using inf normalize_fixed by auto
    obtain r where r: "OpenReader src (iPath e) = Inr r"
      using run by (auto split: sum.splits)
    let ?src = "stream L f r"
    obtain v tx1 d1 where up: "Tx_Upsert (peEntry pe i) opts (iPath e) (Some ?src) ?m
        (Some (pack_write_options po e)) tx d = Some (Inr v, tx1, d1)"
      and rec: "pack_entries pe po src f opts (i + 1) infos tx1 d1 = Some (Inr u, tx', d')"
      using run r L by (auto simp: Let_def split: option.splits sum.splits)
    have len1: "length (content d1) < 2 ^ 63" using pack_entries_grow [OF rec] len by simp
    have env: "env_ok (peEntry pe i) opts (Some (pack_write_options po e))" "nLib (peEntry pe i) = L"
      using ok L by (simp_all add: pack_ok_def)
    note out = upsert_outcome [OF env(1) inv [folded env(2)] up len1]
    have "read_to_end ?src" and inv1': "tx_inv L lo (content d1) tx1 (t(iPath e \<mapsto> (fst ?src, ?m)))"
      and fr: "same 0 (unat (tAppendOffset tx)) (content d) (content d1)"
        "unat (tAppendOffset tx) \<le> unat (tAppendOffset tx1)" "tClosed tx1 = tClosed tx"
      using out q(1) env(2) by (auto simp: put_outcome_def)
    have "?src = (data, IoEOF)" by (rule reader_source [OF rep c q r \<open>read_to_end ?src\<close>])
    then have inv1: "tx_inv L lo (content d1) tx1 (t(iPath e \<mapsto> (data, ?m)))" using inv1' by simp
    have infs: "\<forall>e \<in> set infos. path_safe (iPath e) \<and> (\<exists>data. s (iPath e) = Some (data, iMeta e))"
      using inf by simp
    have eq: "(\<lambda>q. if q \<in> iPath ` set infos then repacked po s q else (t(iPath e \<mapsto> (data, ?m))) q) =
        (\<lambda>q. if q \<in> iPath ` set (e # infos) then repacked po s q else t q)"
      using q(2) by (auto simp: repacked_def)
    note ih = Cons.IH [OF infs inv1 rec]
    show ?thesis
      using ih(1) [unfolded eq] ih(2-4) fr same_step [OF fr(1) ih(2) fr(2)] by simp
  qed
  case 1 then show ?case using main by blast
  case 2 then show ?case using main by blast
  case 3 then show ?case using main by blast
  case 4 then show ?case using main by blast
qed


section \<open>The whole pack\<close>

text \<open>The commit of the output stays within the limits of the format.\<close>

definition pack_fits :: "pack_env \<Rightarrow> PackOptions \<Rightarrow> Container \<Rightarrow> bytes \<Rightarrow> EntryInfo list \<Rightarrow> disk \<Rightarrow> bool" where
  "pack_fits pe po src f entries d =
     (case pack_fill pe po src f entries d of
        Some (Inr (tx, dst), d) \<Rightarrow> commit_fits dst tx (mBuildTime (peCommit pe))
      | _ \<Rightarrow> True)"

lemma commit_grows: "Commit env c tx d = (r, tx', c', d') \<Longrightarrow> length (content d) \<le> length (content d')"
  using commit_file_grows
  by (fastforce simp: Commit_def Let_def grows_def split: if_splits sum.splits prod.splits)

lemma pack_output_outcome:
  assumes rep: "represents (peLib pe) f h bu es s" and c: "caches src h bu es"
    and infos: "\<forall>e \<in> set infos. path_safe (iPath e) \<and> (\<exists>data. s (iPath e) = Some (data, iMeta e))"
    and all: "dom s \<subseteq> iPath ` set infos"
    and ok: "pack_ok pe (effectiveOptions (peProcs pe) (Some (pack_out_options (peProcs pe) po))) po"
    and cr: "create_fits (peCreate pe)" and fits: "pack_fits pe po src f infos d"
    and run: "pack_output pe po src f infos d = Some (Inr u, d')" and len: "length (content d') < 2 ^ 63"
  shows "\<exists>h' es'. represents (peLib pe) (content d') h' (mBuildTime (peCommit pe)) es' (repacked po s)"
proof -
  let ?L = "peLib pe"
  obtain tx1 dst1 d3 where fill: "pack_fill pe po src f infos d = Some (Inr (tx1, dst1), d3)"
    using run by (auto simp: pack_output_def split: option.splits sum.splits)
  obtain v tx2 dst2 where cm: "Commit (peCommit pe) dst1 tx1 d3 = (Inr v, tx2, dst2, d')"
    using run fill
    by (auto simp: pack_output_def keep_err_def split: prod.splits sum.splits)
  have fit: "commit_fits dst1 tx1 (mBuildTime (peCommit pe))" using fits fill by (simp add: pack_fits_def)
  obtain dst0 d1 tx d2 where create: "Create (peProcs pe) (peCreate pe)
      (Some (pack_out_options (peProcs pe) po)) d = (Inr dst0, d1)"
    and bg: "Begin dst0 d1 = Some (Inr tx, dst1, d2)"
    and pe: "\<exists>v. pack_entries pe po src f (cOpts dst1) 0 infos tx d2 = Some (Inr v, tx1, d3)"
    using fill by (auto simp: pack_fill_def split: option.splits sum.splits prod.splits)
  then obtain v' where pe': "pack_entries pe po src f (cOpts dst1) 0 infos tx d2 = Some (Inr v', tx1, d3)"
    by blast
  note c0 = create_outcome(1) [OF cr create, of ?L] create_outcome(2-4) [OF cr create]
  from begin_outcome [OF c0(1,2)] bg
  have bn: "begun ?L dst0 d1 tx dst1 d2 Map.empty" "caches dst1 (cHeader dst0) (ceBuildTime (peCreate pe)) []"
    by simp_all
  then have inv: "tx_inv ?L 256 (content d2) tx Map.empty" and d2: "content d2 = content d1"
    and o1: "cOpts dst1 = cOpts dst0" "unat (tAppendOffset tx) = length (content d1)" "\<not> tClosed tx"
    by (auto simp: begun_def)
  have len3: "length (content d3) < 2 ^ 63" using commit_grows [OF cm] len by simp
  have ok': "pack_ok pe (cOpts dst1) po" using ok c0(4) o1(1) by simp
  note out = pack_entries_outcome [OF rep c refl infos ok' inv pe' len3]
  have "(\<lambda>q. if q \<in> iPath ` set infos then repacked po s q else Map.empty q) = repacked po s"
    using all by (auto simp: repacked_def fun_eq_iff domIff)
  with out(1) have inv3: "tx_inv ?L 256 (content d3) tx1 (repacked po s)" by (simp only:)
  have cc: "cHeader dst1 = cHeader dst0" "cFormatVersion dst1 = VersionV1" "cFile dst1"
    using bn(2) by (auto simp: caches_def)
  have fr: "length (content d1) \<le> unat (tAppendOffset tx1)" "same 0 (length (content d1)) (content d1) (content d3)"
    "\<not> tClosed tx1"
    using out(2-4) o1(2,3) d2 by simp_all
  from commit_outcome [OF c0(1) cc inv3 fr fit cm len] show ?thesis by (auto simp: Let_def)
qed

definition packInto_fits :: "pack_env \<Rightarrow> PackOptions \<Rightarrow> disk \<Rightarrow> bool" where
  "packInto_fits pe po d =
     (case pack_scan pe po d of
        (Inr (src, entries), d) \<Rightarrow> pack_fits pe po src (content d) entries \<lparr>content = [], plan = plan d\<rparr>
      | _ \<Rightarrow> True)"

lemma verify_keeps:
  assumes "Verify L c f (Some VerifyAllChunks) = ((report, False), c')"
    and "represents L f h bu es s" "caches c h bu es"
  shows "caches c' h bu es"
proof -
  obtain c1 m where e: "ensureEntriesLoaded c f = (Inr (), c1)" "caches c1 h bu es"
    using ensure_loaded [OF assms(2,3)] by metis
  then have "c' = c1"
    using assms(1) by (auto simp: Verify_def Let_def split: sum.splits option.splits if_splits)
  then show ?thesis using e(2) by simp
qed

lemma scan_outcome:
  assumes rep: "represents (peLib pe) (content d) h bu es s"
    and run: "pack_scan pe po d = (Inr (src, infos), d')"
  shows "d' = d" "caches src h bu es" "distinct (map iPath infos)"
    "\<And>q. info_view infos q = map_option (\<lambda>(data, meta). (length data, meta)) (s q)"
proof -
  obtain c where op: "Open (peLib pe) (peProcs pe) (Some (pack_in_options po)) d = (Inr c, d)"
    "caches c h bu es" using open_outcome [OF rep] by blast
  obtain c1 where c1: "caches c1 h bu es"
    and ls: "(case container_List c1 (content d) of
        (it, src) \<Rightarrow> (case itErr it of
             Some e \<Rightarrow> (Inl e, d)
           | None \<Rightarrow> (Inr (src, map the (iterate (Suc (length (itValues it))) it)), d))) =
        (Inr (src, infos), d')"
  proof (cases "poVerifyIn po")
    case True
    obtain rp b c2 where v: "Verify (peLib pe) c (content d) (Some VerifyAllChunks) = ((rp, b), c2)"
      by (metis prod_cases3 surj_pair)
    have nb: "\<not> b" using run op(1) True v by (auto simp: pack_scan_def split: if_splits bool.splits)
    then show thesis
      using that [OF verify_keeps [OF _ rep op(2), of rp c2]] v run op(1) True
      by (simp add: pack_scan_def)
  next
    case False
    then show thesis using that [OF op(2)] run op(1) by (simp add: pack_scan_def)
  qed
  obtain vs c2 where l: "container_List c1 (content d) = (newSliceIterator vs None, c2)"
    "caches c2 h bu es" "distinct (map iPath vs)" "\<And>q. info_view vs q = map_option (\<lambda>(data, meta). (length data, meta)) (s q)"
    using list_outcome [OF rep c1] by metis
  have "map the (iterate (Suc (length vs)) (newSliceIterator vs None)) = vs"
    by (subst iterate_all) (simp_all add: comp_def)
  then have "d' = d \<and> src = c2 \<and> infos = vs"
    using ls l(1) by (simp add: newSliceIterator_def)
  then show "d' = d" "caches src h bu es" "distinct (map iPath infos)"
    "\<And>q. info_view infos q = map_option (\<lambda>(data, meta). (length data, meta)) (s q)"
    using l(2-4) by simp_all
qed

theorem packInto_outcome:
  assumes rep: "represents (peLib pe) (content d) h bu es s" and safe: "\<forall>q \<in> dom s. path_safe q"
    and ok: "pack_ok pe (effectiveOptions (peProcs pe) (Some (pack_out_options (peProcs pe) po))) po"
    and cr: "create_fits (peCreate pe)" and fits: "packInto_fits pe po d"
    and run: "packInto pe po d = Some (Inr u, d', Some dst)" and len: "length (content dst) < 2 ^ 63"
  shows "d' = d"
    "\<exists>h' es'. represents (peLib pe) (content dst) h' (mBuildTime (peCommit pe)) es' (repacked po s)"
proof -
  obtain src infos d1 where sc: "pack_scan pe po d = (Inr (src, infos), d1)"
    using run by (auto simp: packInto_def split: sum.splits prod.splits)
  note so = scan_outcome [OF rep sc]
  have out: "\<exists>u'. pack_output pe po src (content d) infos \<lparr>content = [], plan = plan d\<rparr> = Some (Inr u', dst)"
    and d': "d' = d"
    using run sc so(1) by (auto simp: packInto_def keep_err_def split: option.splits sum.splits)
  show "d' = d" by (rule d')
  have d: "distinct (map fst (map (\<lambda>i. (iPath i, unat (iSize i), iMeta i)) infos))"
    using so(3) by (simp add: comp_def)
  have "\<exists>data. s (iPath e) = Some (data, iMeta e)" if "e \<in> set infos" for e
  proof -
    have "(iPath e, unat (iSize e), iMeta e) \<in> set (map (\<lambda>i. (iPath i, unat (iSize i), iMeta i)) infos)"
      using that by force
    from map_of_is_SomeI [OF d this] have "info_view infos (iPath e) = Some (unat (iSize e), iMeta e)"
      by (simp only: info_view_def)
    then show ?thesis using so(4) [of "iPath e"] by auto
  qed
  then have infos: "\<forall>e \<in> set infos. path_safe (iPath e) \<and> (\<exists>data. s (iPath e) = Some (data, iMeta e))"
    using safe by blast
  have "q \<in> iPath ` set infos" if "s q \<noteq> None" for q
  proof -
    have "info_view infos q \<noteq> None" using that so(4) [of q] by simp
    then obtain x where "info_view infos q = Some x" by (cases "info_view infos q") simp_all
    then show ?thesis unfolding info_view_def by (auto dest!: map_of_SomeD)
  qed
  then have all: "dom s \<subseteq> iPath ` set infos" by blast
  have "pack_fits pe po src (content d) infos \<lparr>content = [], plan = plan d\<rparr>"
    using fits sc so(1) by (simp add: packInto_fits_def)
  from pack_output_outcome [OF rep so(2) infos all ok cr this _ len] out
  show "\<exists>h' es'. represents (peLib pe) (content dst) h' (mBuildTime (peCommit pe)) es' (repacked po s)"
    by blast
qed


section \<open>Pack\<close>

text \<open>
  The file system is a map from names to contents. From outside come \<^verbatim>\<open>filepath.Abs\<close>, the suffix
  of the temporary file, and the results of \<^verbatim>\<open>os.Rename\<close> and \<^verbatim>\<open>os.Remove\<close>.
\<close>

type_synonym files = "bytes \<rightharpoonup> bytes"

record pack_os =
  pkEnv :: pack_env
  pkAbs :: "bytes \<Rightarrow> bytes result"
  pkSuffix :: bytes
  pkRename :: "unit result"
  pkRemoves :: bool
  pkPlan :: "outcome list"

definition emptyPath :: error where "emptyPath = LibErr 3"
definition osNotExist :: error where "osNotExist = LibErr 4"

definition defaultPackOptions :: PackOptions where
  "defaultPackOptions =
     \<lparr>poCodec = CodecStore, poLevel = 0, poChunkText = 0, poChunkBin = 0, poWorkers = 0,
      poVerifyIn = True, poFastUnsafe = False, poClearMeta = False, poMaxEntrySize = 0,
      poMaxChunkSize = 0\<rparr>"

definition pack_config :: "PackOptions option \<Rightarrow> PackOptions" where
  "pack_config opts =
     (case opts of
        None \<Rightarrow> defaultPackOptions
      | Some po \<Rightarrow>
          if poCodec po \<noteq> CodecStore \<and> poCodec po \<noteq> CodecZstd \<and> poCodec po \<noteq> CodecLZ4
          then po\<lparr>poCodec := CodecStore\<rparr> else po)"

text \<open>\<^verbatim>\<open>packInto\<close> on the file system; an input that does not exist cannot be opened.\<close>

definition pack_files ::
  "pack_os \<Rightarrow> PackOptions \<Rightarrow> bytes \<Rightarrow> bytes \<Rightarrow> files \<Rightarrow> (unit result \<times> files) option" where
  "pack_files os po inPath target fs =
     (case fs inPath of
        None \<Rightarrow> Some (Inl osNotExist, fs)
      | Some f \<Rightarrow>
          (case packInto (pkEnv os) po \<lparr>content = f, plan = pkPlan os\<rparr> of
             None \<Rightarrow> None
           | Some (r, d, None) \<Rightarrow> Some (r, fs(inPath \<mapsto> content d))
           | Some (r, d, Some dst) \<Rightarrow> Some (r, fs(inPath \<mapsto> content d, target \<mapsto> content dst))))"

definition os_remove :: "pack_os \<Rightarrow> bytes \<Rightarrow> files \<Rightarrow> files" where
  "os_remove os p fs = (if pkRemoves os then fs(p := None) else fs)"

definition Pack ::
  "pack_os \<Rightarrow> bytes \<Rightarrow> bytes \<Rightarrow> PackOptions option \<Rightarrow> files \<Rightarrow> (unit result \<times> files) option" where
  "Pack os inPath outPath opts fs =
     (if inPath = [] then Some (Inl emptyPath, fs) else
      let outPath = (if outPath = [] then inPath else outPath); cfg = pack_config opts in
      case pkAbs os inPath of
        Inl e \<Rightarrow> Some (Inl e, fs)
      | Inr inAbs \<Rightarrow>
      (case pkAbs os outPath of
        Inl e \<Rightarrow> Some (Inl e, fs)
      | Inr outAbs \<Rightarrow>
          let inPlace = (inAbs = outAbs);
              target = (if inPlace then inPath @ pkSuffix os else outPath) in
          (case pack_files os cfg inPath target fs of
             None \<Rightarrow> None
           | Some (Inl e, fs) \<Rightarrow> Some (Inl e, os_remove os target fs)
           | Some (Inr _, fs) \<Rightarrow>
               if \<not> inPlace then Some (Inr (), fs)
               else (case pkRename os of
                   Inl e \<Rightarrow> Some (Inl e, os_remove os target fs)
                 | Inr _ \<Rightarrow> Some (Inr (), fs(inPath := fs target, target := None))))))"

text \<open>The inputs of the call fit the format and the codecs.\<close>

definition pack_inputs :: "pack_os \<Rightarrow> PackOptions \<Rightarrow> bytes \<Rightarrow> bool" where
  "pack_inputs os po f \<longleftrightarrow>
     (let pe = pkEnv os in
      pack_ok pe (effectiveOptions (peProcs pe) (Some (pack_out_options (peProcs pe) po))) po \<and>
      create_fits (peCreate pe) \<and> packInto_fits pe po \<lparr>content = f, plan = pkPlan os\<rparr>)"

lemma scan_clean:
  assumes "represents (peLib pe) (content d) h bu es s" "pack_scan pe po d = (r, d')"
  shows "d' = d"
proof -
  obtain c where "Open (peLib pe) (peProcs pe) (Some (pack_in_options po)) d = (Inr c, d)"
    using open_outcome [OF assms(1)] by blast
  then show ?thesis using assms(2)
    by (auto simp: pack_scan_def split: prod.splits bool.splits option.splits if_splits)
qed

lemma packInto_clean:
  assumes "represents (peLib pe) (content d) h bu es s" "packInto pe po d = Some (r, d', out)"
  shows "d' = d"
  using assms(2) scan_clean [OF assms(1), of po]
  by (auto simp: packInto_def split: prod.splits option.splits sum.splits)

lemma packInto_created:
  "packInto pe po d = Some (Inr u, d', out) \<Longrightarrow> \<exists>dst. out = Some dst"
  by (auto simp: packInto_def split: prod.splits option.splits sum.splits)

text \<open>
  In place: either the pack succeeds and the file holds the repacked contents, or it fails and the
  file is as it was.
\<close>

theorem pack_in_place:
  assumes f: "fs inPath = Some f" and rep: "represents (peLib (pkEnv os)) f h bu es s"
    and safe: "\<forall>q \<in> dom s. path_safe q" and ins: "pack_inputs os (pack_config opts) f"
    and suffix: "pkSuffix os \<noteq> []"
    and run: "Pack os inPath inPath opts fs = Some (r, fs')"
    and len: "\<And>p g. fs' p = Some g \<Longrightarrow> length g < 2 ^ 63"
  shows "case r of
      Inl e \<Rightarrow> fs' inPath = Some f
    | Inr _ \<Rightarrow> \<exists>g h' es'. fs' inPath = Some g \<and>
        represents (peLib (pkEnv os)) g h' (mBuildTime (peCommit (pkEnv os))) es'
          (repacked (pack_config opts) s)"
proof (cases "inPath = [] \<or> (\<exists>e. pkAbs os inPath = Inl e)")
  case True
  then show ?thesis using run f by (auto simp: Pack_def Let_def split: if_splits)
next
  case False
  let ?d = "\<lparr>content = f, plan = pkPlan os\<rparr>" and ?pe = "pkEnv os" and ?po = "pack_config opts"
  let ?t = "inPath @ pkSuffix os"
  have ne: "?t \<noteq> inPath" using suffix by simp
  have rep': "represents (peLib ?pe) (content ?d) h bu es s" using rep by simp
  obtain r0 d out where p: "packInto ?pe ?po ?d = Some (r0, d, out)"
    using run False f
    by (auto simp: Pack_def Let_def pack_files_def split: sum.splits option.splits prod.splits)
  have d: "d = ?d" by (rule packInto_clean [OF rep' p])
  define fs1 where "fs1 = (case out of None \<Rightarrow> fs(inPath \<mapsto> f) | Some dst \<Rightarrow> fs(inPath \<mapsto> f, ?t \<mapsto> content dst))"
  have files: "pack_files os ?po inPath ?t fs = Some (r0, fs1)" "fs1 inPath = Some f"
    using f p d ne by (auto simp: pack_files_def fs1_def split: option.splits)
  show ?thesis
  proof (cases r0)
    case (Inl e)
    then have "r = Inl e" "fs' = os_remove os ?t fs1"
      using run False files(1) by (auto simp: Pack_def Let_def split: sum.splits)
    then show ?thesis using files(2) ne by (simp add: os_remove_def)
  next
    case (Inr v)
    obtain dst where out: "out = Some dst" using packInto_created [OF p [unfolded Inr]] by blast
    show ?thesis
    proof (cases "pkRename os")
      case (Inl e)
      then have "r = Inl e" "fs' = os_remove os ?t fs1"
        using run False files(1) Inr by (auto simp: Pack_def Let_def split: sum.splits)
      then show ?thesis using files(2) ne by (simp add: os_remove_def)
    next
      case (Inr w)
      then have r: "r = Inr ()" "fs' = fs1(inPath := fs1 ?t, ?t := None)"
        using run False files(1) \<open>r0 = Inr v\<close> by (auto simp: Pack_def Let_def split: sum.splits)
      have g: "fs' inPath = Some (content dst)" using r(2) ne out by (simp add: fs1_def)
      note ins' = ins [unfolded pack_inputs_def Let_def]
      from packInto_outcome(2) [OF rep' safe _ _ _ p [unfolded \<open>r0 = Inr v\<close> out] len [OF g]] ins' g r(1)
      show ?thesis by auto
    qed
  qed
qed

text \<open>A pack that cannot open its input deletes the file it was to write.\<close>

theorem pack_failure_removes_output:
  assumes "fs inPath = None" "inPath \<noteq> []" "outPath \<noteq> []" "pkAbs os inPath = Inr a"
    "pkAbs os outPath = Inr b" "a \<noteq> b" "pkRemoves os"
  shows "Pack os inPath outPath opts fs = Some (Inl osNotExist, fs(outPath := None))"
  using assms by (simp add: Pack_def Let_def pack_files_def os_remove_def)

text \<open>The fast mode is meant to leave out the syncs, but \<^verbatim>\<open>Create\<close> merges the option away.\<close>

lemma let_inv: "I x \<Longrightarrow> (\<And>y. I y \<Longrightarrow> J (f y)) \<Longrightarrow> J (let y = x in f y)"
  by simp

lemma merge_keeps_sync:
  assumes "oSyncOnCommit base" "\<not> oNoSyncOnCommit inp"
  shows "oSyncOnCommit (mergeOptions base inp)"
  unfolding mergeOptions_def using assms
  by - ((rule let_inv [where I = oSyncOnCommit and J = oSyncOnCommit], (simp; fail))+, assumption)

lemma pack_out_no_flag: "\<not> oNoSyncOnCommit (pack_out_options procs po)"
  unfolding pack_out_options_def
  by ((rule let_inv [where I = "\<lambda>x. \<not> oNoSyncOnCommit x" and
      J = "\<lambda>x. \<not> oNoSyncOnCommit x"], (simp add: defaultOptions_def; fail))+, assumption)

theorem pack_fast_syncs:
  "oSyncOnCommit (effectiveOptions procs (Some (pack_out_options procs po)))"
  using merge_keeps_sync [OF _ pack_out_no_flag, of "defaultOptions procs"]
  by (simp add: effectiveOptions_def defaultOptions_def)

end
