(* ===== verification/Samples.thy ===== *)
theory Samples
  imports Live Pack
begin

text \<open>
  A small world to apply the theorems to: codecs that copy, a container created in an empty file
  and one entry added to it. Nothing here is used by the library.
\<close>

section \<open>Codecs and clocks\<close>

definition sample_lib :: codec_lib where
  "sample_lib =
     \<lparr>zEncode = \<lambda>level src. Inr src, zDecode = \<lambda>limit b. Inr b, lBound = int,
      lFast = \<lambda>src n. Inr src, lHC = \<lambda>level src n. Inr src, lDecode = \<lambda>b n. Inr b\<rparr>"

definition sample_env :: env where
  "sample_env = \<lparr>nLib = sample_lib, nNow = 9, nOrder = \<lambda>rs. rs\<rparr>"

definition sample_create :: create_env where
  "sample_create = \<lparr>ceUUID = replicate 16 7, ceHeaderTime = 1, ceBuildTime = 2, ceJournalTime = 3,
     ceBackupTime = 4\<rparr>"

definition sample_commit :: commit_env where
  "sample_commit = \<lparr>mBuildTime = 5, mJournalTime = 6, mBackupTime = 7\<rparr>"

lemma sample_laws: "codec_laws sample_lib"
  by (simp add: codec_laws_def zstd_law_def lz4_law_def sample_lib_def)

lemma sample_scheduler: "scheduler (nOrder sample_env)"
  by (simp add: sample_env_def scheduler_def)

lemma sample_records: "n < 2 ^ 32 - 16 \<Longrightarrow> records_fit sample_lib n codec level"
  by (auto simp: records_fit_def sample_lib_def encodeChunkRecord_def compressPayload_def
      zstdCompress_def lz4Compress_def lz4CompressWithLevel_def Let_def MagicChunk_def inr_simps split: if_splits)

lemma sample_env_ok: "env_ok sample_env (defaultOptions 1) None"
  unfolding env_ok_def using sample_laws sample_scheduler
  by (auto simp: defaultOptions_def sample_env_def intro!: exI [of _ 4194304] sample_records)

section \<open>An empty container\<close>

definition sample_start :: disk where "sample_start = \<lparr>content = [], plan = []\<rparr>"

definition sample_c0 :: Container where
  "sample_c0 = projr (fst (Create 1 sample_create None sample_start))"

definition sample_d0 :: disk where "sample_d0 = snd (Create 1 sample_create None sample_start)"

definition sample_h0 :: HeaderV1 where "sample_h0 = created_header sample_create"

lemma sample_fits: "create_fits sample_create"
  by (simp add: create_fits_def sample_create_def)

lemma sample_created:
  "Create 1 sample_create None sample_start = (Inr sample_c0, sample_d0)" "plan sample_d0 = []"
  using create_quiet [OF _ sample_fits, of sample_start 1 None]
  by (auto simp: sample_c0_def sample_d0_def sample_start_def)

lemma sample_c0_eq:
  "sample_c0 = \<lparr>cFile = True, cOpts = defaultOptions 1, cTxHeld = False, cFormatVersion = VersionV1,
     cHeader = sample_h0, cEntries = Some [], cLazyDirBlob = [], cLazyDirIndex = None\<rparr>"
  using create_content(2) [OF sample_fits sample_created(1)]
  by (simp add: effectiveOptions_def sample_h0_def)

lemma sample_d0_eq: "sample_d0 = \<lparr>content = created_file sample_create, plan = []\<rparr>"
  using create_content(1) [OF sample_fits sample_created(1)] sample_created(2) by simp

lemma sample_d0_length: "length (content sample_d0) = 652"
  using created_regions(5) [OF sample_fits] by (simp add: sample_d0_eq)

lemma sample_empty:
  "represents sample_lib (content sample_d0) sample_h0 2 [] Map.empty" "caches sample_c0 sample_h0 2 []"
  using create_outcome(1) [OF sample_fits sample_created(1), of sample_lib]
    create_outcome(2) [OF sample_fits sample_created(1)]
  by (simp_all add: sample_c0_eq) (simp_all add: sample_create_def)

section \<open>One entry added\<close>

definition sample_tx :: Tx where
  "sample_tx = \<lparr>tEntries = [], tAppendOffset = 652, tDeadBytes = 0, tChurnOps = 0, tClosed = False,
     tFileLocked = True, tPathLocked = True\<rparr>"

definition sample_data :: source where "sample_data = ([1, 2, 3], IoEOF)"

definition sample_chunk :: ChunkRefV1 where
  "sample_chunk = \<lparr>ChunkOffset = 652, RawOffset = 0, RawSize = 3, CompSize = 3,
     CRC32Raw = crc32 [1, 2, 3], Reserved = 0\<rparr>"

definition sample_file :: EntryV1 where
  "sample_file = \<lparr>PathHash64 = 0, MTimeUnix = 9, Mode = 0, EntryFlags = EntryFlagIsBinary,
     FileSize = 3, ChunkCount = 0, MetaSize = 0, PathSize = 0, Chunks = [sample_chunk],
     Meta = [5], Path = [97]\<rparr>"

lemma sample_begin:
  "Begin sample_c0 sample_d0 = Some (Inr sample_tx, sample_c0\<lparr>cTxHeld := True\<rparr>, sample_d0)"
proof -
  have "file_size (content sample_d0) = 652" by (simp add: file_size_def sample_d0_length)
  then show ?thesis
    using lock_quiet [OF sample_created(2)]
    by (simp add: Begin_def sample_c0_eq ensureEntriesLoaded_def sample_tx_def)
qed

lemma sample_params:
  "write_entry_params sample_env (defaultOptions 1) [97] [1, 2, 3] None =
     Inr \<lparr>wpCodec = CodecStore, wpLevel = 0, wpChunkSize = 4194304, wpMTime = 9, wpMode = 0,
       wpFlags = EntryFlagIsBinary, wpWorkers = 1\<rparr>"
proof -
  have "detectText [97] [1, 2, 3] = False"
    by (simp add: detectText_def textExt_def path_ext_def ascii_def printable_def)
  then show ?thesis
    by (simp add: write_entry_params_def classify_def pick_chunk_size_def defaultOptions_def
        sample_env_def)
qed

lemma sample_path: "normalize [97] = Inr [97]"
  by (rule normalize_fixed) (simp add: path_safe_def bad_part_def utf8_valid.simps)

definition sample_record :: bytes where
  "sample_record = MagicChunk @ [CodecStore, 0] @ put_u32 3 @ put_u32 3 @ put_u32 (crc32 [1, 2, 3]) @
     [1, 2, 3]"

lemma sample_encode: "encodeChunkRecord L [1, 2, 3] CodecStore 0 = Inr (sample_record, crc32 [1, 2, 3])"
  by (simp add: encodeChunkRecord_def compressPayload_def sample_record_def Let_def)

lemma sample_written:
  "\<exists>d'. write_seq sample_lib CodecStore 0 4194304 0 sample_d0 652 sample_data 0 [] =
    (Inr ([sample_chunk], 3), d', 671)"
proof -
  have len: "length sample_record = 19" by (simp add: sample_record_def MagicChunk_def)
  then have "sample_record \<noteq> []" by auto
  then have "\<exists>d1. appendAt sample_d0 652 sample_record = (Inr 671, d1)"
    using len by (simp add: appendAt_def writeAt_quiet [OF sample_created(2)] maxInt_def)
  then show ?thesis
    by (subst write_seq.simps)
      (auto simp: sample_data_def readFull_def addUint64_def sample_encode len chunk_ref_def
        sample_chunk_def)
qed

lemma sample_writes:
  "\<exists>d'. writeEntry sample_env (defaultOptions 1) [97] (Some sample_data) [5] None sample_tx sample_d0 =
    Some (Inr sample_file, sample_tx\<lparr>tAppendOffset := 671\<rparr>, d')"
proof -
  have "oMaxEntrySize (defaultOptions 1) = 0" "nLib sample_env = sample_lib" "tAppendOffset sample_tx = 652"
    by (simp_all add: defaultOptions_def sample_env_def sample_tx_def)
  moreover have "take 4096 (fst sample_data) = [1, 2, 3]" by (simp add: sample_data_def)
  ultimately show ?thesis
    using sample_written
    by (auto simp: writeEntry_def sample_params writeChunks_def writeChunksSequential_def sample_file_def)
qed

lemma sample_add:
  "\<exists>d'. Tx_Add sample_env (defaultOptions 1) [97] (Some sample_data) [5] None sample_tx sample_d0 =
    Some (Inr (), sample_tx\<lparr>tEntries := [([97], sample_file)], tAppendOffset := 671\<rparr>, d')"
  using sample_writes by (auto simp: Tx_Add_def write_and_put_def sample_path sample_tx_def)


definition sample_tx1 :: Tx where
  "sample_tx1 = sample_tx\<lparr>tEntries := [([97], sample_file)], tAppendOffset := 671\<rparr>"

lemma sample_entries: "commit_entries sample_tx1 = [norm_entry sample_file]"
  by (simp add: commit_entries_def sample_tx1_def sample_tx_def)

lemma le_put_numeral: "le_put (numeral k) x = of_nat x # le_put (pred_numeral k) (x div 256)"
  by (simp only: numeral_eq_Suc [of k] le_put.simps)

text \<open>The checksum of an index, from the state behind the checksum in its header.\<close>

lemma index_crc_rest:
  assumes "foldl crc_byte 0xDEBB20E3 (concat (map enc_index_row (iEntries i)) @
    concat (map enc_hash_range (iHashRanges i))) \<noteq> 0xFFFFFFFF"
  shows "crc32 (index_blob i) \<noteq> 0"
proof -
  let ?m = "index_head i @ put_u32 (crc32 (index_head i))"
  have st: "foldl crc_byte 0xFFFFFFFF ?m = 0xDEBB20E3"
  proof -
    have "foldl crc_byte 0xFFFFFFFF ?m XOR 0xFFFFFFFF = 0x2144DF1C"
      using crc32_appended [of "index_head i"] by (simp only: crc32_def)
    then have "(foldl crc_byte 0xFFFFFFFF ?m XOR 0xFFFFFFFF) XOR 0xFFFFFFFF = 0x2144DF1C XOR 0xFFFFFFFF"
      by (simp only:)
    then show ?thesis by (simp add: xor.assoc)
  qed
  let ?rest = "concat (map enc_index_row (iEntries i)) @ concat (map enc_hash_range (iHashRanges i))"
  have "foldl crc_byte 0xFFFFFFFF (?m @ ?rest) \<noteq> 0xFFFFFFFF" using st assms by simp
  moreover have "index_blob i = ?m @ ?rest" by (simp add: index_blob_def)
  moreover have "x XOR 0xFFFFFFFF = 0 \<longleftrightarrow> x = 0xFFFFFFFF" for x :: u32
    by (metis xor_cancel_right xor_self_eq)
  ultimately show ?thesis by (simp only: crc32_def not_False_eq_True)
qed

lemma one_row:
  assumes "rows_of 20 [e] = [r]"
  shows "iEntries (built_index bu [e] off gen) = [r]"
    "iHashRanges (built_index bu [e] off gen) = [\<lparr>gPathHash64 = xPathHash64 r, gFirstEntryIndex = 0, gEntrySpan = 1\<rparr>]"
  unfolding built_index_def assms by (simp_all add: build_ranges_eq hash_order_def)

lemma sample_index_crc:
  assumes "length (enc_entry e) = 78" "Path e = [97]"
  shows "crc32 (index_blob (built_index bu [e] off gen)) \<noteq> 0"
proof (rule index_crc_rest)
  have hash: "FNV1a64 [97] = 0xAF63DC4C8601EC8C" by (simp add: FNV1a64_def fnv64Offset_def fnv64Prime_def)
  have rows: "rows_of 20 [e] = [\<lparr>xDirEntryOffset = 20, xDirEntrySize = 78,
      xPathHash64 = 0xAF63DC4C8601EC8C, xPathOffset = 97, xPathSize = 1\<rparr>]"
    by (simp only: rows_of.simps assms) (simp add: hash)
  show "foldl crc_byte 0xDEBB20E3 (concat (map enc_index_row (iEntries (built_index bu [e] off gen))) @
      concat (map enc_hash_range (iHashRanges (built_index bu [e] off gen)))) \<noteq> 0xFFFFFFFF"
    unfolding one_row [OF rows]
    by (simp add: enc_index_row_def enc_hash_range_def put_u64_def put_u32_def le_put_numeral crc_eval)
qed

section \<open>The container after the addition\<close>

definition sample_args :: put_args where
  "sample_args = \<lparr>aEnv = sample_env, aOpts = defaultOptions 1, aPath = [97], aSource = Some sample_data,
     aMeta = [5], aWrite = None\<rparr>"

lemma sample_file_size: "length (enc_entry (norm_entry sample_file)) = 78" "Path (norm_entry sample_file) = [97]"
  by (simp_all add: sample_file_def norm_entry_def)

lemma sample_commit_fits: "commit_fits (sample_c0\<lparr>cTxHeld := True\<rparr>) sample_tx1 5"
  using sample_index_crc [OF sample_file_size] sample_file_size
  by (simp add: commit_fits_def commit_index_def sample_entries) (simp add: sample_tx1_def sample_tx_def)

lemma sample_add_tx1:
  "\<exists>d'. add_op sample_args sample_tx sample_d0 = Some (Inr (), sample_tx1, d')"
  using sample_add by (simp add: add_op_def sample_args_def sample_tx1_def)

lemma sample_run_fits: "run_fits sample_commit (add_op sample_args) sample_c0 sample_d0"
  using sample_add_tx1 sample_begin sample_commit_fits
  by (auto simp: run_fits_def sample_commit_def)

lemma sample_pre: "put_pre sample_args"
  using sample_env_ok by (simp add: put_pre_def sample_args_def)

lemma sample_opts [simp]: "cOpts sample_c0 = defaultOptions 1" "\<not> cTxHeld sample_c0"
  by (simp_all add: sample_c0_eq)

lemma sample_stores: "stores (defaultOptions 1) None"
  by (simp add: stores_def defaultOptions_def)

lemma sample_added:
  "\<exists>c d. Container_Add sample_commit sample_env [97] (Some sample_data) [5] None sample_c0 sample_d0 =
    Some (Inr (), c, d) \<and> plan d = [] \<and>
    length (content d) \<le> length (content sample_d0) + 17 * length (fst sample_data) + 2 ^ 32"
proof (rule add_succeeds)
  show "represents (nLib sample_env) (content sample_d0) sample_h0 2 [] Map.empty"
    using sample_empty(1) by (simp add: sample_env_def)
  show "run_fits sample_commit
     (Tx_Add sample_env (cOpts sample_c0) [97] (Some sample_data) [5] None) sample_c0 sample_d0"
    using sample_run_fits by (simp add: add_op_def sample_args_def)
qed (use sample_empty(2) sample_created(2) sample_env_ok sample_stores sample_path in
     \<open>simp_all add: sample_d0_length sample_data_def defaultOptions_def\<close>)

definition sample_store :: store where "sample_store = [[97] \<mapsto> ([1, 2, 3], [5])]"

definition sample_c1 :: Container where
  "sample_c1 = (case Container_Add sample_commit sample_env [97] (Some sample_data) [5] None sample_c0 sample_d0 of
     Some (_, c, _) \<Rightarrow> c)"

definition sample_d1 :: disk where
  "sample_d1 = (case Container_Add sample_commit sample_env [97] (Some sample_data) [5] None sample_c0 sample_d0 of
     Some (_, _, d) \<Rightarrow> d)"

lemma sample_add_run:
  "Container_Add sample_commit sample_env [97] (Some sample_data) [5] None sample_c0 sample_d0 =
    Some (Inr (), sample_c1, sample_d1)" "plan sample_d1 = []" "length (content sample_d1) < 2 ^ 33"
  using sample_added sample_d0_length by (auto simp: sample_c1_def sample_d1_def sample_data_def)

text \<open>The container and its file, exactly.\<close>

definition sample_h1 :: HeaderV1 where
  "sample_h1 = new_header (sample_c0\<lparr>cTxHeld := True\<rparr>) sample_tx1 5"

definition sample_es1 :: "EntryV1 list" where "sample_es1 = [norm_entry sample_file]"

lemma sample_effect: "put_effect (\<lambda>x. x = None) sample_args Map.empty s' \<longleftrightarrow> s' = sample_store"
  by (auto simp: put_effect_def sample_args_def sample_path sample_data_def sample_store_def read_to_end_def)

lemma sample_committed:
  obtains d tx' where "add_op sample_args sample_tx sample_d0 = Some (Inr (), sample_tx1, d)"
    "Commit sample_commit (sample_c0\<lparr>cTxHeld := True\<rparr>) sample_tx1 d = (Inr (), tx', sample_c1, sample_d1)"
    "tx_inv sample_lib 256 (content d) sample_tx1 sample_store"
    "same 0 (length (content sample_d0)) (content sample_d0) (content d)"
proof -
  let ?c = "sample_c0\<lparr>cTxHeld := True\<rparr>"
  obtain d where op: "add_op sample_args sample_tx sample_d0 = Some (Inr (), sample_tx1, d)"
    using sample_add_tx1 by blast
  obtain tx' where cm: "Commit sample_commit ?c sample_tx1 d = (Inr (), tx', sample_c1, sample_d1)"
    using sample_add_run(1) sample_begin op
    by (auto simp: container_ops run_tx_def sample_args_def split: prod.splits)
  have "grows d sample_d1"
    using cm commit_file_grows by (auto simp: Commit_def Let_def split: if_splits sum.splits prod.splits)
  then have len1: "length (content d) < 2 ^ 63" using sample_add_run(3) by (simp add: grows_def)
  have inv: "tx_inv (nLib (aEnv sample_args)) 256 (content sample_d0) sample_tx Map.empty"
    using begin_outcome [OF sample_empty] sample_begin
    by (simp add: begun_def sample_args_def sample_env_def)
  obtain s' where s': "put_effect (\<lambda>x. x = None) sample_args Map.empty s'"
    "tx_inv (nLib (aEnv sample_args)) 256 (content d) sample_tx1 s'"
    using add.success [OF sample_pre inv op len1] by blast
  then have "tx_inv sample_lib 256 (content d) sample_tx1 sample_store"
    using sample_effect by (auto simp: sample_args_def sample_env_def)
  moreover have "same 0 (length (content sample_d0)) (content sample_d0) (content d)"
    using add.frame [OF sample_pre inv op len1] by (simp add: sample_tx_def sample_d0_length)
  ultimately show thesis using op cm that by blast
qed

lemma sample_tx1_facts:
  "length (content sample_d0) \<le> unat (tAppendOffset sample_tx1)" "\<not> tClosed sample_tx1"
  "cHeader (sample_c0\<lparr>cTxHeld := True\<rparr>) = sample_h0"
  "cFormatVersion (sample_c0\<lparr>cTxHeld := True\<rparr>) = VersionV1" "cFile (sample_c0\<lparr>cTxHeld := True\<rparr>)"
  by (simp_all add: sample_d0_length sample_tx1_def sample_tx_def sample_c0_eq)

lemma sample_full:
  "represents sample_lib (content sample_d1) sample_h1 5 sample_es1 sample_store"
  "caches sample_c1 sample_h1 5 sample_es1" "\<not> cTxHeld sample_c1" "cOpts sample_c1 = defaultOptions 1"
  "cEntries sample_c1 = Some [([97], sample_file)]"
proof -
  have bt: "mBuildTime sample_commit = 5" by (simp add: sample_commit_def)
  have len: "length (content sample_d1) < 2 ^ 63" using sample_add_run(3) by simp
  obtain d tx' where c: "add_op sample_args sample_tx sample_d0 = Some (Inr (), sample_tx1, d)"
    "Commit sample_commit (sample_c0\<lparr>cTxHeld := True\<rparr>) sample_tx1 d = (Inr (), tx', sample_c1, sample_d1)"
    "tx_inv sample_lib 256 (content d) sample_tx1 sample_store"
    "same 0 (length (content sample_d0)) (content sample_d0) (content d)"
    by (rule sample_committed)
  note out = commit_outcome [OF sample_empty(1) sample_tx1_facts(3-5) c(3) sample_tx1_facts(1) c(4)
      sample_tx1_facts(2) sample_commit_fits [folded bt] c(2) len, unfolded bt sample_entries]
  show "represents sample_lib (content sample_d1) sample_h1 5 sample_es1 sample_store"
    "caches sample_c1 sample_h1 5 sample_es1" "\<not> cTxHeld sample_c1" "cOpts sample_c1 = defaultOptions 1"
    using out by (simp_all add: Let_def sample_h1_def sample_es1_def)
  show "cEntries sample_c1 = Some [([97], sample_file)]"
    using c(2) by (auto simp: Commit_def Let_def release_def sample_tx1_def
        dest!: arg_cong [where y = sample_c1 and f = cEntries] split: if_splits sum.splits prod.splits)
qed

lemma sample_valid: "header_valid (cHeader sample_c1)" "256 \<le> length (content sample_d1)"
  using sample_full(1,2) stored_length
  by (auto simp: represents_def holds_def caches_def)

definition sample_tx2 :: Tx where
  "sample_tx2 = \<lparr>tEntries = [([97], sample_file)], tAppendOffset = file_size (content sample_d1),
     tDeadBytes = 0, tChurnOps = 0, tClosed = False, tFileLocked = True, tPathLocked = True\<rparr>"

lemma sample_begin1:
  "Begin sample_c1 sample_d1 = Some (Inr sample_tx2, sample_c1\<lparr>cTxHeld := True\<rparr>, sample_d1)"
  using sample_full(2,3,5) lock_quiet [OF sample_add_run(2)]
  by (simp add: Begin_def ensureEntriesLoaded_def caches_def sample_tx2_def)

lemma sample_inv1: "tx_inv sample_lib 256 (content sample_d1) sample_tx2 sample_store"
  using begin_outcome [OF sample_full(1,2)] sample_begin1 by (simp add: begun_def)

lemma sample_offset: "unat (tAppendOffset sample_tx2) = length (content sample_d1)"
  using begin_outcome [OF sample_full(1,2)] sample_begin1 by (simp add: begun_def)

text \<open>An operation that leaves the disk alone is committed.\<close>

lemma sample_run:
  assumes op: "oper sample_tx2 sample_d1 = Some (Inr u, tx1, sample_d1)"
    and inv: "tx_inv sample_lib 256 (content sample_d1) tx1 s'" "\<not> tClosed tx1"
    and off: "tAppendOffset tx1 = tAppendOffset sample_tx2"
    and es: "commit_entries tx1 = [] \<or>
      (\<exists>e. commit_entries tx1 = [e] \<and> length (enc_entry e) = 78 \<and> Path e = [97])"
  shows "\<exists>c d. run_tx sample_commit oper sample_c1 sample_d1 = Some (Inr (), c, d) \<and>
      length (content d) < 2 ^ 63"
    "run_fits sample_commit oper sample_c1 sample_d1"
proof -
  let ?c = "sample_c1\<lparr>cTxHeld := True\<rparr>"
  have o: "unat (tAppendOffset tx1) = length (content sample_d1)" using off sample_offset by simp
  have "crc32 (index_blob (commit_index ?c tx1 5)) \<noteq> 0"
    using es
  proof
    assume "commit_entries tx1 = []"
    then show ?thesis
      using crc32_appended [of "index_head (commit_index ?c tx1 5)"]
      by (simp add: index_blob_def commit_index_def built_index_def build_ranges_eq hash_order_def)
  qed (auto simp: commit_index_def sample_index_crc)
  moreover have "length (dir_blob 5 (commit_entries tx1)) \<le> 2 ^ 30"
    using es by (auto simp del: length_enc_entry)
  ultimately have fit: "commit_fits ?c tx1 (mBuildTime sample_commit)"
    using o sample_valid(2) by (simp add: commit_fits_def sample_commit_def)
  then show "run_fits sample_commit oper sample_c1 sample_d1"
    using sample_begin1 op by (simp add: run_fits_def)
  have b: "unat (tAppendOffset tx1) + 2 ^ 32 < 2 ^ 63" using o sample_add_run(3) by simp
  have hv: "header_valid (cHeader ?c)" using sample_valid(1) by simp
  have t: "table_ok 256 (unat (tAppendOffset tx1)) (tEntries tx1)" using inv(1) by (simp add: tx_inv_def)
  obtain c' d' where r: "run_tx sample_commit oper sample_c1 sample_d1 = Some (Inr (), c', d')" "plan d' = []"
    "length (content d') \<le> max (length (content sample_d1)) (unat (tAppendOffset tx1) + 2 ^ 32)"
    using run_quiet [where oper = oper, OF sample_begin1 op sample_add_run(2) hv fit t b inv(2)] by blast
  then have "length (content d') < 2 ^ 63" using b sample_add_run(3) by simp
  then show "\<exists>c d. run_tx sample_commit oper sample_c1 sample_d1 = Some (Inr (), c, d) \<and>
      length (content d) < 2 ^ 63" using r(1) by blast
qed

section \<open>More operations\<close>

text \<open>An upsert of a new path is an addition.\<close>

lemma sample_upsert_op: "upsert_op sample_args sample_tx sample_d0 = add_op sample_args sample_tx sample_d0"
  by (simp add: upsert_op_def add_op_def sample_args_def Tx_Upsert_def Tx_Add_def sample_path)
    (simp add: sample_tx_def)

lemma sample_upsert_run:
  "Container_Upsert sample_commit sample_env [97] (Some sample_data) [5] None sample_c0 sample_d0 =
    Some (Inr (), sample_c1, sample_d1)"
  "run_fits sample_commit (upsert_op sample_args) sample_c0 sample_d0"
proof -
  have "run_tx sample_commit (upsert_op sample_args) sample_c0 sample_d0 =
      run_tx sample_commit (add_op sample_args) sample_c0 sample_d0"
    by (simp add: run_tx_def sample_begin sample_upsert_op)
  then show "Container_Upsert sample_commit sample_env [97] (Some sample_data) [5] None sample_c0 sample_d0 =
      Some (Inr (), sample_c1, sample_d1)"
    using sample_add_run(1) by (simp add: container_ops sample_args_def)
  show "run_fits sample_commit (upsert_op sample_args) sample_c0 sample_d0"
    using sample_run_fits by (simp add: run_fits_def sample_begin sample_upsert_op)
qed

text \<open>The entry of the second container removed, given new metadata, and replaced.\<close>

lemma sample_table: "map_of (tEntries sample_tx2) [97] = Some sample_file" "\<not> tClosed sample_tx2"
  by (simp_all add: sample_tx2_def)

lemma sample_removed:
  "\<exists>c d. run_tx sample_commit (remove_op (sample_lib, [97])) sample_c1 sample_d1 = Some (Inr (), c, d) \<and>
     length (content d) < 2 ^ 63"
  "run_fits sample_commit (remove_op (sample_lib, [97])) sample_c1 sample_d1"
proof -
  let ?tx = "drop_entry [97] sample_file sample_tx2"
  have op: "remove_op (sample_lib, [97]) sample_tx2 sample_d1 = Some (Inr (), ?tx, sample_d1)"
    by (simp add: remove_op_def Tx_Remove_def sample_path sample_table)
  obtain s' where inv: "tx_inv sample_lib 256 (content sample_d1) ?tx s'"
    using remove.success [of "(sample_lib, [97])", OF _ _ op] sample_inv1 sample_add_run(3) by force
  have f: "\<not> tClosed ?tx" "tAppendOffset ?tx = tAppendOffset sample_tx2" "commit_entries ?tx = []"
    by (simp_all add: drop_entry_def markObsolete_def sample_tx2_def commit_entries_def)
  note r = sample_run [where oper = "remove_op (sample_lib, [97])", OF op inv f(1,2) disjI1 [OF f(3)]]
  show "\<exists>c d. run_tx sample_commit (remove_op (sample_lib, [97])) sample_c1 sample_d1 = Some (Inr (), c, d) \<and>
     length (content d) < 2 ^ 63" by (rule r(1))
  show "run_fits sample_commit (remove_op (sample_lib, [97])) sample_c1 sample_d1" by (rule r(2))
qed

lemma sample_changed:
  "\<exists>c d. run_tx sample_commit (meta_op (sample_lib, [97], [6])) sample_c1 sample_d1 = Some (Inr (), c, d) \<and>
     length (content d) < 2 ^ 63"
  "run_fits sample_commit (meta_op (sample_lib, [97], [6])) sample_c1 sample_d1"
proof -
  let ?tx = "sample_tx2\<lparr>tEntries := [([97], sample_file\<lparr>Meta := [6]\<rparr>)]\<rparr>"
  have op: "meta_op (sample_lib, [97], [6]) sample_tx2 sample_d1 = Some (Inr (), ?tx, sample_d1)"
    by (simp add: meta_op_def Tx_SetMeta_def sample_path sample_table) (simp add: sample_tx2_def)
  obtain s' where inv: "tx_inv sample_lib 256 (content sample_d1) ?tx s'"
    using set_meta.success [of "(sample_lib, [97], [6])", OF _ _ op] sample_inv1 sample_add_run(3) by force
  have f: "\<not> tClosed ?tx" "tAppendOffset ?tx = tAppendOffset sample_tx2"
    "\<exists>e. commit_entries ?tx = [e] \<and> length (enc_entry e) = 78 \<and> Path e = [97]"
    by (simp_all add: sample_tx2_def commit_entries_def sample_file_def norm_entry_def)
  note r = sample_run [where oper = "meta_op (sample_lib, [97], [6])", OF op inv f(1,2) disjI2 [OF f(3)]]
  show "\<exists>c d. run_tx sample_commit (meta_op (sample_lib, [97], [6])) sample_c1 sample_d1 =
     Some (Inr (), c, d) \<and> length (content d) < 2 ^ 63" by (rule r(1))
  show "run_fits sample_commit (meta_op (sample_lib, [97], [6])) sample_c1 sample_d1" by (rule r(2))
qed

definition replace_args :: put_args where
  "replace_args = \<lparr>aEnv = sample_env, aOpts = defaultOptions 1, aPath = [97], aSource = Some ([], IoEOF),
     aMeta = replicate 33 0, aWrite = None\<rparr>"

lemma write_nothing:
  "0 < cs \<Longrightarrow> write_seq L codec level cs m d off ([], IoEOF) raw chunks = (Inr (chunks, raw), d, off)"
  by (subst write_seq.simps) (simp add: readFull_def)

lemma sample_replace_op:
  "\<exists>e. replace_op replace_args sample_tx2 sample_d1 =
     Some (Inr (), (markObsolete sample_file sample_tx2)\<lparr>tEntries := [([97], e)]\<rparr>, sample_d1) \<and>
     length (enc_entry (norm_entry e)) = 78 \<and> Path (norm_entry e) = [97]"
proof -
  obtain p where p: "write_entry_params sample_env (defaultOptions 1) [97] [] None = Inr p" "wpWorkers p \<le> 1"
    "0 < nat (wpChunkSize p)"
    by (cases "detectText [97] []")
      (auto simp: write_entry_params_def classify_def pick_chunk_size_def defaultOptions_def)
  have w: "writeChunks ord L codec level (nat (wpChunkSize p)) (wpWorkers p) m d off ([], IoEOF) =
      Some (Inr ([], 0), d, off)" for ord L codec level m d off
    using p(2,3) by (simp add: writeChunks_def writeChunksSequential_def write_nothing)
  have t: "tEntries (markObsolete e tx) = tEntries tx" "tClosed (markObsolete e tx) = tClosed tx"
    "tAppendOffset (markObsolete e tx) = tAppendOffset tx" for e tx
    by (simp_all add: markObsolete_def)
  show ?thesis
    by (simp add: replace_op_def replace_args_def Tx_Replace_def sample_path sample_table
        write_and_put_def writeEntry_def p(1) w t)
      (simp add: sample_tx2_def markObsolete_def norm_entry_def)
qed

lemma replace_pre: "put_pre replace_args"
  using sample_env_ok by (simp add: put_pre_def replace_args_def)

lemma sample_replaced:
  "\<exists>c d. run_tx sample_commit (replace_op replace_args) sample_c1 sample_d1 = Some (Inr (), c, d) \<and>
     length (content d) < 2 ^ 63"
  "run_fits sample_commit (replace_op replace_args) sample_c1 sample_d1"
proof -
  obtain e where op: "replace_op replace_args sample_tx2 sample_d1 =
      Some (Inr (), (markObsolete sample_file sample_tx2)\<lparr>tEntries := [([97], e)]\<rparr>, sample_d1)"
    and e: "length (enc_entry (norm_entry e)) = 78" "Path (norm_entry e) = [97]"
    using sample_replace_op by blast
  let ?tx = "(markObsolete sample_file sample_tx2)\<lparr>tEntries := [([97], e)]\<rparr>"
  have lib: "nLib (aEnv replace_args) = sample_lib" by (simp add: replace_args_def sample_env_def)
  obtain s' where inv: "tx_inv sample_lib 256 (content sample_d1) ?tx s'"
    using replace.success [OF replace_pre _ op, unfolded lib, OF sample_inv1] sample_add_run(3) by auto
  have f: "\<not> tClosed ?tx" "tAppendOffset ?tx = tAppendOffset sample_tx2" "commit_entries ?tx = [norm_entry e]"
    by (simp_all add: markObsolete_def sample_tx2_def commit_entries_def)
  have x: "\<exists>e. commit_entries ?tx = [e] \<and> length (enc_entry e) = 78 \<and> Path e = [97]"
    using f(3) e by (simp del: length_enc_entry)
  note r = sample_run [where oper = "replace_op replace_args", OF op inv f(1,2) disjI2 [OF x]]
  show "\<exists>c d. run_tx sample_commit (replace_op replace_args) sample_c1 sample_d1 = Some (Inr (), c, d) \<and>
     length (content d) < 2 ^ 63" by (rule r(1))
  show "run_fits sample_commit (replace_op replace_args) sample_c1 sample_d1" by (rule r(2))
qed

section \<open>A torn header\<close>

definition torn_old :: HeaderV1 where "torn_old = sample_h0\<lparr>hMagic := [0, 0, 0, 0]\<rparr>"

definition torn_file :: bytes where
  "torn_file = take 1 (header_bytes sample_h0) @ drop 1 (header_bytes torn_old) @
     drop 128 (created_file sample_create)"

lemma sample_torn: "torn torn_file torn_old sample_h0 2 []" "loads_badly torn_file"
proof -
  let ?f = "created_file sample_create"
  note r = created_regions [OF sample_fits]
  have h: "header_valid sample_h0" "stored ?f sample_h0 2 []" "beyond_slots sample_h0"
    using sample_empty(1) by (simp_all add: represents_def holds_def sample_d0_eq)
  then have shape: "header_shape sample_h0" "hMagic sample_h0 = MagicHeader" by (simp_all add: header_valid_def)
  then have l: "length (header_bytes sample_h0) = 128" "length (header_bytes torn_old) = 128"
    by (simp_all add: length_header_bytes header_shape_def torn_old_def HeaderSize_def)
  have t: "take 128 torn_file = take 1 (header_bytes sample_h0) @ drop 1 (header_bytes torn_old)"
    using l by (simp add: torn_file_def)
  have d: "drop 128 torn_file = drop 128 ?f" using l by (simp add: torn_file_def)
  have len: "length torn_file = 652" using l r(5) by (simp add: torn_file_def)
  have sl: "sub_bytes torn_file (128 + i) (128 + j) = sub_bytes ?f (128 + i) (128 + j)" for i j
    using arg_cong [OF d, of "\<lambda>x. take (j - i) (drop i x)"]
    by (simp add: sub_bytes_def drop_drop ac_simps)
  have "at torn_file 128 (header_bytes sample_h0)"
    using r(2) l(1) len sl [of 0 128] r(5) by (simp add: at_def sample_h0_def)
  moreover have "torn_file ! i = ?f ! i" if "128 \<le> i" "i < 652" for i
    using arg_cong [OF d, of "\<lambda>x. x ! (i - 128)"] that len r(5) by simp
  then have "same 256 652 ?f torn_file" using len r(5) by (simp add: same_def)
  then have "stored torn_file sample_h0 2 []" using stored_beyond [OF h(2,3)] r(5) by simp
  ultimately show "torn torn_file torn_old sample_h0 2 []"
    unfolding torn_def
    using h created_header_facts(3) [OF sample_fits] t len
    by (intro conjI exI [of _ 1]) (simp_all add: sample_h0_def)
  have "unmarshalHeader (take 128 torn_file) \<noteq> Inr g" for g
  proof
    assume "unmarshalHeader (take 128 torn_file) = Inr g"
    then have "header_valid g" "header_bytes g = take 128 torn_file" using unmarshalHeader_sound by blast+
    then have "hMagic g = MagicHeader" "header_bytes g ! 1 = 0"
      using t l by (simp_all add: header_valid_def nth_append header_bytes_def torn_old_def)
    then show False by (simp add: header_bytes_def MagicHeader_def)
  qed
  then show "loads_badly torn_file"
    unfolding loads_badly_def by (auto split: sum.split)
qed

end
