(* ===== verification/LostDirectories.thy ===== *)
theory LostDirectories
  imports RecoveryScan
begin

text \<open>
  What the recovery scan looks for, said of the bytes of the file alone: \<open>lost_directory\<close> is a stored
  directory blob whose chunks lie in the file, and \<open>directory_rank\<close> the order in which the scan prefers
  them. The lemmas show that the candidates of \<open>RecoveryScan\<close> are the lost directories and that the
  comparison of scores is the lexicographic order of the ranks.
\<close>

section \<open>Directories in a file\<close>

definition lost_directory :: "bytes \<Rightarrow> nat \<Rightarrow> u64 \<Rightarrow> EntryV1 list \<Rightarrow> bool" where
  "lost_directory f off bu es \<longleftrightarrow>
     0 < off \<and> at f off (dir_blob bu es) \<and> length (dir_blob bu es) \<le> 2 ^ 30 \<and>
     list_all entry_ok es \<and> chunks_inside (length f) es"

text \<open>The header that is made up for a directory, which has nothing but the directory in it.\<close>

definition lost_header :: "nat \<Rightarrow> u64 \<Rightarrow> EntryV1 list \<Rightarrow> HeaderV1" where
  "lost_header off bu es = zeroHeader\<lparr>hMagic := MagicHeader, hVersion := VersionV1,
     hHeaderSize := of_nat HeaderSize, hCreatedUnix := bu, hDirOffset := of_nat off,
     hDirSize := of_nat (length (dir_blob bu es)), hDirCRC32 := crc32 (dir_body bu es)\<rparr>"

text \<open>
  The rank: first the number of entries whose contents can be read, then how few others there are, then
  the time of the directory, then its place in the file.
\<close>

definition directory_rank ::
  "codec_lib \<Rightarrow> bytes \<Rightarrow> nat \<Rightarrow> u64 \<Rightarrow> EntryV1 list \<Rightarrow> nat \<times> int \<times> nat \<times> nat" where
  "directory_rank L f off bu es =
     (length (filter (entryReadableAt L f) es), - int (length (filter (\<lambda>e. \<not> entryReadableAt L f e) es)),
      unat bu, off)"

section \<open>The reader finds them\<close>

lemma at_part:
  assumes "at f off b" "b = pre @ m @ post"
  shows "at f (off + length pre) m"
proof -
  have a: "off + length b \<le> length f" "sub_bytes f off (off + length b) = b" using assms(1) by (simp_all add: at_def)
  have "f = take off f @ sub_bytes f off (off + length b) @ drop (off + length b) f"
    using a(1) by (simp add: sub_bytes_def drop_take) (metis append_take_drop_id drop_drop add.commute)
  then have f: "f = (take off f @ pre) @ m @ post @ drop (off + length b) f" unfolding a(2) by (simp add: assms(2))
  have "length (take off f @ pre) = off + length pre" using a(1) by simp
  then have "sub_bytes f (off + length pre) (off + length pre + length m) = m"
    by (subst f, intro sub_bytes_at) simp_all
  then show ?thesis using a(1) assms(2) by (simp add: at_def)
qed

lemma candidate_end_enc:
  assumes "at f off b" "b = pre @ concat (map enc_entry es) @ foot" "length pre = cur" "length foot = 16"
    and "length b \<le> 2 ^ 30" "length f < 2 ^ 63" "list_all entry_ok es"
  shows "candidate_end (length es) (of_nat cur) f (of_nat off) (file_size f) = Inr (of_nat (cur + entries_size es))"
  using assms(2,3,7)
proof (induction es arbitrary: pre cur)
  case Nil
  then show ?case by simp
next
  case (Cons e es)
  define c where "c = length (Chunks e)"
  define m where "m = length (Meta e)"
  define p where "p = length (Path e)"
  have sz: "length (enc_entry e) = 44 + 32 * c + m + p" by (simp add: c_def m_def p_def)
  have lb: "length b = cur + (44 + 32 * c + m + p) + entries_size es + 16"
    using Cons.prems assms(4) sz by (simp add: entries_size_def)
  have fb: "off + length b \<le> length f" using assms(1) by (simp add: at_def)
  have bnd: "cur + (44 + 32 * c + m + p) + entries_size es + 16 \<le> 2 ^ 30" using assms(5) lb by simp
  have bf: "off + (cur + (44 + 32 * c + m + p) + 16) \<le> length f" using fb lb by simp
  have IH: "candidate_end (length es) (of_nat (cur + 44 + 32 * c + m + p)) f (of_nat off) (file_size f)
      = Inr (of_nat (cur + 44 + 32 * c + m + p + entries_size es))"
    using Cons.prems sz by (intro Cons.IH [of "pre @ enc_entry e"]) simp_all
  have "at f (off + cur) (enc_entry_head e)"
    using at_part [OF assms(1), of pre "enc_entry_head e"] Cons.prems by (simp add: enc_entry_split)
  then have head: "readAt f (of_nat (off + cur)) 44 = Inr (enc_entry_head e)"
    using readAt_at_iff [of f "of_nat (off + cur)" "enc_entry_head e"] assms(6) bf
    by (simp add: enc_entry_head_fields unat_of_nat del: of_nat_add)
  have adds:
    "addUint64 (of_nat cur) 44 = Some (of_nat (cur + 44))"
    "addUint64 (of_nat off) (of_nat cur) = Some (of_nat (off + cur))"
    "mulUint64 (ucast (of_nat c :: u32)) 32 = Some (of_nat (32 * c))"
    "addUint64 (of_nat (cur + 44)) (of_nat (32 * c)) = Some (of_nat (cur + 44 + 32 * c))"
    "addUint64 (ucast (of_nat m :: u32)) (ucast (of_nat p :: u32)) = Some (of_nat (m + p))"
    "addUint64 (of_nat (cur + 44 + 32 * c)) (of_nat (m + p)) = Some (of_nat (cur + 44 + 32 * c + m + p))"
    "addUint64 (of_nat (cur + 44 + 32 * c + m + p)) 16 = Some (of_nat (cur + 44 + 32 * c + m + p + 16))"
    using bnd bf assms(6) addUint64_of_nat [of cur 44] addUint64_of_nat [of off cur] mulUint64_of_nat [of c 32]
      addUint64_of_nat [of "cur + 44" "32 * c"] addUint64_of_nat [of m p]
      addUint64_of_nat [of "cur + 44 + 32 * c" "m + p"] addUint64_of_nat [of "cur + 44 + 32 * c + m + p" 16]
      ucast_of_nat_u32 [of c] ucast_of_nat_u32 [of m] ucast_of_nat_u32 [of p]
    by (simp_all del: of_nat_add of_nat_mult add: mult.commute [of c] add.assoc)
  have inside: "regionWithinFile (of_nat off) (of_nat (cur + 44)) (file_size f)"
    "regionWithinFile (of_nat off) (of_nat (cur + 44 + 32 * c + m + p + 16)) (file_size f)"
    using bf assms(6) by (simp_all add: regionWithinFile_iff unat_file_size unat_of_nat del: of_nat_add)
  have fin: "cur + entries_size (e # es) = cur + 44 + 32 * c + m + p + entries_size es" using sz by simp
  show ?case
    unfolding list.size(4) add_Suc_right add_0_right candidate_end.simps fin
    by (simp only: adds or_err_simps rbind_simps inside head enc_entry_head_fields Let_def
        c_def [symmetric] m_def [symmetric] p_def [symmetric] if_False simp_thms IH not_True_eq_False)
qed

lemma lost_sizes:
  assumes "lost_directory f off bu es" "length f < 2 ^ 63"
  shows "length es < 2 ^ 25" "off + length (dir_blob bu es) \<le> length f" "magic_at f off" "off < 2 ^ 63"
proof -
  have l: "at f off (dir_blob bu es)" "length (dir_blob bu es) \<le> 2 ^ 30" using assms(1) by (simp_all add: lost_directory_def)
  then show "length es < 2 ^ 25" "off + length (dir_blob bu es) \<le> length f" "off < 2 ^ 63"
    using entries_size_ge [of es] assms(2) by (auto simp: at_def)
  have "at f off MagicDir"
    using at_part [OF l(1), of "[]" MagicDir] by (simp add: dir_blob_def dir_body_def)
  then show "magic_at f off" by (simp add: at_def magic_at_def sub_bytes_def MagicDir_def)
qed

lemma candidate_read:
  assumes lost: "lost_directory f off bu es" and len: "length f < 2 ^ 63"
  shows "readDirectoryCandidateAt f (of_nat off) (file_size f) =
    Inr (decoded bu es, of_nat (length (dir_blob bu es)), crc32 (dir_body bu es))"
proof -
  let ?b = "dir_blob bu es" and ?hd = "MagicDir @ put_u32 (of_nat (length es)) @ put_u32 0 @ put_u64 bu"
  note s = lost_sizes [OF lost len]
  have l: "at f off ?b" "length ?b \<le> 2 ^ 30" "list_all entry_ok es" using lost by (simp_all add: lost_directory_def)
  have b: "?b = ?hd @ concat (map enc_entry es) @ dir_footer (dir_body bu es)"
    by (simp add: dir_blob_def dir_body_def)
  have o: "unat (of_nat off :: u64) = off" using s(4) by (simp add: unat_of_nat)
  have "at f off ?hd" using at_part [OF l(1), of "[]" ?hd] b by simp
  then have head: "readAt f (of_nat off) 20 = Inr ?hd"
    using readAt_at_iff [of f "of_nat off" ?hd] len by (simp add: o MagicDir_def)
  have lb: "length ?b = 36 + entries_size es" by simp
  have hf: "sub_bytes ?hd 0 4 = MagicDir" "get_u32 (sub_bytes ?hd 4 8) = of_nat (length es)"
    "get_u32 (sub_bytes ?hd 8 12) = 0"
    by (simp_all add: sub_bytes_def MagicDir_def)
  have n: "unat (of_nat (length es) :: u32) = length es" "(ucast (of_nat (length es) :: u32) :: u64) = of_nat (length es)"
    using s(1) ucast_of_nat_u32 [of "length es"] by (simp_all add: unat_of_nat)
  have cnt: "\<not> of_nat (length es) > (file_size f - of_nat off - 20 - 16) div (44 :: u64)"
  proof -
    have "file_size f - of_nat off - 20 - 16 = (of_nat (length f - off - 36) :: u64)"
      using s(2) lb by (simp add: file_size_def of_nat_diff)
    moreover have "length f - off - 36 < 2 ^ 64" using len by simp
    ultimately have "unat ((file_size f - of_nat off - 20 - 16) div (44 :: u64)) = (length f - off - 36) div 44"
      by (simp add: unat_div unat_of_nat)
    moreover have "length es \<le> (length f - off - 36) div 44"
      using entries_size_ge [of es] s(2) lb by (simp add: less_eq_div_iff_mult_less_eq mult.commute)
    ultimately show ?thesis using s(1) by (simp add: word_less_nat_alt unat_of_nat not_less)
  qed
  have scan: "candidate_end (length es) 20 f (of_nat off) (file_size f) = Inr (of_nat (20 + entries_size es))"
    using candidate_end_enc [OF l(1) b _ _ l(2) len l(3), of 20] by (simp add: MagicDir_def)
  have szs: "addUint64 (20 :: u64) 16 = Some 36"
    "addUint64 (of_nat (20 + entries_size es)) 16 = Some (of_nat (length ?b))"
    using addUint64_of_nat [of 20 16] addUint64_of_nat [of "20 + entries_size es" 16] l(2) lb
    by (simp_all del: of_nat_add add: add.commute)
  have ub: "unat (of_nat (length ?b) :: u64) = length ?b" using l(2) by (simp add: unat_of_nat del: length_dir_blob)
  have inside: "regionWithinFile (of_nat off) 36 (file_size f)"
    "regionWithinFile (of_nat off) (of_nat (length ?b)) (file_size f)"
    using s(2) len o lb ub by (simp_all add: regionWithinFile_iff unat_file_size del: length_dir_blob)
  have lim: "\<not> (of_nat (length ?b) :: u64) > maxDirectoryBlobSize" "\<not> (of_nat (length ?b) :: u64) > maxInt"
    using l(2) by (simp_all add: word_less_nat_alt ub maxDirectoryBlobSize_def maxInt_def del: length_dir_blob)
  have whole: "readAt f (of_nat off) (length ?b) = Inr ?b"
    using readAt_at_iff [of f "of_nat off" ?b] l(1) len o by (simp del: length_dir_blob)
  have foot: "sub_bytes (dir_footer (dir_body bu es)) 0 4 = MagicEnd"
    "get_u32 (sub_bytes (dir_footer (dir_body bu es)) 4 8) = crc32 (dir_body bu es)"
    "get_u64 (sub_bytes (dir_footer (dir_body bu es)) 8 16) = of_nat (length ?b)"
    using dir_footer_parts [of "dir_body bu es"] lb by (simp_all add: sub_bytes_def)
  have dec: "decodeDirectory ?b (crc32 (dir_body bu es)) (of_nat (length ?b)) = Inr (decoded bu es)"
    using l(2,3) s(1) by (intro decodeDirectory_enc) simp_all
  show ?thesis
    unfolding readDirectoryCandidateAt_def Let_def
    by (simp only: szs or_err_simps rbind_simps inside head hf n cnt scan lim ub whole dir_blob_parts foot dec
        prod.case if_False if_True simp_thms not_True_eq_False)
qed

section \<open>And nothing else\<close>

lemma candidate_lost:
  assumes read: "readDirectoryCandidateAt f (of_nat off) (file_size f) = Inr (dir, sz, crc)"
    and chunks: "validateChunkOffsets (dEntries dir) (file_size f) = Inr ()"
    and off: "0 < off" "off < 2 ^ 63" and len: "length f < 2 ^ 63"
  shows "lost_directory f off (dBuildUnix dir) (dEntries dir)" "dir = decoded (dBuildUnix dir) (dEntries dir)"
    "sz = of_nat (length (dir_blob (dBuildUnix dir) (dEntries dir)))"
    "crc = crc32 (dir_body (dBuildUnix dir) (dEntries dir))"
proof -
  have o: "unat (of_nat off :: u64) = off" using off(2) by (simp add: unat_of_nat)
  obtain b where r: "regionWithinFile (of_nat off) sz (file_size f)" "\<not> sz > maxDirectoryBlobSize"
    "readAt f (of_nat off) (unat sz) = Inr b" "decodeDirectory b crc sz = Inr dir"
    using read by (auto simp: readDirectoryCandidateAt_def Let_def inr_simps split: if_splits)
  have in_file: "off + unat sz \<le> length f"
    using r(1) len o by (simp add: regionWithinFile_iff unat_file_size)
  then have b: "b = sub_bytes f off (off + unat sz)"
    using r(3) o by (auto simp: readAt_def sub_bytes_def split: if_splits)
  then have lb: "length b = unat sz" using in_file by simp
  then have "length b < 2 ^ 63" using in_file len by simp
  note d = decodeDirectory_sound [OF this r(4)]
  have "unat sz \<le> 2 ^ 30" using r(2) by (simp add: word_less_nat_alt not_less maxDirectoryBlobSize_def)
  moreover have "at f off b" using b lb in_file by (simp add: at_def)
  moreover have "chunks_inside (length f) (dEntries dir)" using chunks len by (simp add: validateChunkOffsets_iff unat_file_size)
  ultimately show "lost_directory f off (dBuildUnix dir) (dEntries dir)"
    using d(2,3) lb off(1) unfolding lost_directory_def by metis
  show "dir = decoded (dBuildUnix dir) (dEntries dir)" "crc = crc32 (dir_body (dBuildUnix dir) (dEntries dir))"
    by (fact d(1), fact d(5))
  show "sz = of_nat (length (dir_blob (dBuildUnix dir) (dEntries dir)))" using d(2,6) by metis
qed

lemma assess_count: "assess_readable L f es r = r + of_nat (length (filter (entryReadableAt L f) es))"
  by (induction es arbitrary: r) simp_all

definition lost_score :: "codec_lib \<Rightarrow> bytes \<Rightarrow> nat \<Rightarrow> u64 \<Rightarrow> EntryV1 list \<Rightarrow> recoveryDirectoryScore" where
  "lost_score L f off bu es = \<lparr>rBuildUnix = bu, rDirOffset = of_nat off, rEntriesTotal = of_nat (length es),
     rEntriesReadable = of_nat (length (filter (entryReadableAt L f) es))\<rparr>"

lemma validate_lost:
  assumes lost: "lost_directory f off bu es" and len: "length f < 2 ^ 63"
  shows "validateHeaderDirectory f (lost_header off bu es) = Inr ()"
proof -
  let ?b = "dir_blob bu es" and ?h = "lost_header off bu es"
  note s = lost_sizes [OF lost len]
  have l: "at f off ?b" "length ?b \<le> 2 ^ 30" "list_all entry_ok es" "0 < off" using lost by (simp_all add: lost_directory_def)
  have h: "hDirOffset ?h = of_nat off" "hDirSize ?h = of_nat (length ?b)" "hDirCRC32 ?h = crc32 (dir_body bu es)"
    by (simp_all add: lost_header_def)
  have o: "unat (of_nat off :: u64) = off" using s(4) by (simp add: unat_of_nat)
  then have "(of_nat off :: u64) \<noteq> 0" using l(4) by (metis unat_0 less_irrefl)
  moreover have "?b \<noteq> []" by (simp add: dir_blob_def dir_footer_def MagicEnd_def)
  ultimately have "readDirectoryBlobByHeader f ?h = Inr ?b"
    using readAt_region [of f "of_nat off" ?b, OF _ refl len] blob_limits [OF refl l(2)] l(1) o
    by (simp add: readDirectoryBlobByHeader_def h del: length_dir_blob)
  moreover have "decodeDirectory ?b (hDirCRC32 ?h) (hDirSize ?h) = Inr (decoded bu es)"
    unfolding h using l(2,3) s(1) by (intro decodeDirectory_enc) simp_all
  ultimately show ?thesis by (simp add: validateHeaderDirectory_def)
qed

lemma candidate_iff:
  assumes len: "length f < 2 ^ 63"
  shows "candidate L f off h s \<longleftrightarrow>
    (\<exists>bu es. lost_directory f off bu es \<and> h = lost_header off bu es \<and> s = lost_score L f off bu es)"
proof
  assume c: "candidate L f off h s"
  then have m: "off < 2 ^ 63" using magic_at_bound [of f off] len by (simp add: candidate_def)
  obtain dir sz crc where r: "readDirectoryCandidateAt f (of_nat off) (file_size f) = Inr (dir, sz, crc)"
    "validateChunkOffsets (dEntries dir) (file_size f) = Inr ()"
    "h = zeroHeader\<lparr>hMagic := MagicHeader, hVersion := VersionV1,
       hHeaderSize := of_nat HeaderSize, hCreatedUnix := dBuildUnix dir,
       hDirOffset := of_nat off, hDirSize := sz, hDirCRC32 := crc\<rparr>"
    "validateHeaderDirectory f h = Inr ()"
    "s = \<lparr>rBuildUnix = dBuildUnix dir, rDirOffset = of_nat off, rEntriesTotal = of_nat (length (dEntries dir)),
       rEntriesReadable = assessReadableEntriesAt L f dir\<rparr>"
    using c by (auto simp: candidate_def buildHeaderFromDirectoryAt_def inr_simps Let_def)
  have "(of_nat off :: u64) \<noteq> 0"
    using r(3,4) by (auto simp: validateHeaderDirectory_def readDirectoryBlobByHeader_def)
  then have "0 < off" by (cases off) simp_all
  from candidate_lost [OF r(1,2) this m len] r(3,5)
  show "\<exists>bu es. lost_directory f off bu es \<and> h = lost_header off bu es \<and> s = lost_score L f off bu es"
    by (intro exI [of _ "dBuildUnix dir"] exI [of _ "dEntries dir"])
      (simp add: lost_header_def lost_score_def assessReadableEntriesAt_def assess_count)
next
  assume "\<exists>bu es. lost_directory f off bu es \<and> h = lost_header off bu es \<and> s = lost_score L f off bu es"
  then obtain bu es where l: "lost_directory f off bu es" "h = lost_header off bu es" "s = lost_score L f off bu es"
    by blast
  have "validateChunkOffsets es (file_size f) = Inr ()"
    using l(1) len by (simp add: validateChunkOffsets_iff unat_file_size lost_directory_def)
  then show "candidate L f off h s"
    using candidate_read [OF l(1) len] lost_sizes(3) [OF l(1) len] validate_lost [OF l(1) len] l(2,3)
    by (simp add: candidate_def buildHeaderFromDirectoryAt_def decoded_def lost_header_def lost_score_def
        assessReadableEntriesAt_def assess_count Let_def)
qed

section \<open>The ranking\<close>

lemma uint_of_nat_eq:
  "n < 2 ^ 32 \<Longrightarrow> uint (of_nat n :: u32) = int n" "n < 2 ^ 64 \<Longrightarrow> uint (of_nat n :: u64) = int n"
  by (simp_all add: unsigned_of_nat take_bit_nat_eq_self)

lemma score_rank:
  assumes len: "length f < 2 ^ 63" and l: "lost_directory f off bu es" "lost_directory f off' bu' es'"
  shows "betterRecoveryDirectoryScore (lost_score L f off bu es) (lost_score L f off' bu' es') \<longleftrightarrow>
    directory_rank L f off' bu' es' < directory_rank L f off bu es"
proof -
  have key: "score_key (lost_score L f k b xs) =
      (int (fst r), fst (snd r), int (fst (snd (snd r))), int (snd (snd (snd r))))"
    if "lost_directory f k b xs" "r = directory_rank L f k b xs" for k b xs r
  proof -
    let ?n = "length (filter (entryReadableAt L f) xs)" and ?m = "length (filter (\<lambda>e. \<not> entryReadableAt L f e) xs)"
    note s = lost_sizes [OF that(1) len]
    have split: "length xs = ?n + ?m" using sum_length_filter_compl [of "entryReadableAt L f" xs] by simp
    have m: "(of_nat (length xs) :: u32) - of_nat ?n = of_nat ?m" unfolding split by simp
    have "?n < 2 ^ 32" "?m < 2 ^ 32" "k < 2 ^ 64" using split s(1,4) by simp_all
    then have u: "uint (of_nat ?n :: u32) = int ?n" "uint (of_nat ?m :: u32) = int ?m" "uint (of_nat k :: u64) = int k"
      by (simp_all only: uint_of_nat_eq)
    show ?thesis
      unfolding that(2) score_key_def lost_score_def directory_rank_def recoveryDirectoryScore.simps m u by simp
  qed
  have "uint bu' < uint bu \<longleftrightarrow> unat bu' < unat bu" "uint bu' = uint bu \<longleftrightarrow> unat bu' = unat bu"
    by (simp_all add: word_less_def [symmetric] word_less_nat_alt word_uint_eq_iff [symmetric] word_unat_eq_iff [symmetric])
  then show ?thesis
    unfolding better_key key [OF l(1) refl] key [OF l(2) refl]
    by (auto simp: directory_rank_def less_prod_def')
qed

theorem scan_rank:
  assumes "36 \<le> length f" "length f < 2 ^ 63"
  shows "recoverHeaderFromDirectoryScan L f = Inr h \<longleftrightarrow>
    (\<exists>off bu es. lost_directory f off bu es \<and> h = lost_header off bu es \<and>
       (\<forall>off' bu' es'. lost_directory f off' bu' es' \<longrightarrow>
          directory_rank L f off' bu' es' \<le> directory_rank L f off bu es))"
  unfolding scan_iff [OF assms] best_candidate_def candidate_iff [OF assms(2)]
proof
  assume "\<exists>off score. (\<exists>bu es. lost_directory f off bu es \<and> h = lost_header off bu es \<and> score = lost_score L f off bu es) \<and>
    (\<forall>off' h' score'. (\<exists>bu es. lost_directory f off' bu es \<and> h' = lost_header off' bu es \<and>
       score' = lost_score L f off' bu es) \<longrightarrow> \<not> betterRecoveryDirectoryScore score' score)"
  then obtain off bu es where l: "lost_directory f off bu es" "h = lost_header off bu es"
    "\<And>off' bu' es'. lost_directory f off' bu' es' \<Longrightarrow>
       \<not> betterRecoveryDirectoryScore (lost_score L f off' bu' es') (lost_score L f off bu es)" by metis
  then have "directory_rank L f off' bu' es' \<le> directory_rank L f off bu es" if "lost_directory f off' bu' es'" for off' bu' es'
    using score_rank [OF assms(2) that l(1), of L] l(3) [OF that] that by (simp add: not_less)
  then show "\<exists>off bu es. lost_directory f off bu es \<and> h = lost_header off bu es \<and>
       (\<forall>off' bu' es'. lost_directory f off' bu' es' \<longrightarrow>
          directory_rank L f off' bu' es' \<le> directory_rank L f off bu es)" using l(1,2) by blast
next
  assume "\<exists>off bu es. lost_directory f off bu es \<and> h = lost_header off bu es \<and>
       (\<forall>off' bu' es'. lost_directory f off' bu' es' \<longrightarrow>
          directory_rank L f off' bu' es' \<le> directory_rank L f off bu es)"
  then obtain off bu es where l: "lost_directory f off bu es" "h = lost_header off bu es"
    "\<And>off' bu' es'. lost_directory f off' bu' es' \<Longrightarrow>
       directory_rank L f off' bu' es' \<le> directory_rank L f off bu es" by blast
  have "\<not> betterRecoveryDirectoryScore (lost_score L f off' bu' es') (lost_score L f off bu es)"
    if "lost_directory f off' bu' es'" for off' bu' es'
    using score_rank [OF assms(2) that l(1), of L] l(3) [OF that] by (simp add: not_less)
  then show "\<exists>off score. (\<exists>bu es. lost_directory f off bu es \<and> h = lost_header off bu es \<and> score = lost_score L f off bu es) \<and>
    (\<forall>off' h' score'. (\<exists>bu es. lost_directory f off' bu es \<and> h' = lost_header off' bu es \<and>
       score' = lost_score L f off' bu es) \<longrightarrow> \<not> betterRecoveryDirectoryScore score' score)"
    using l(1,2) by blast
qed

end
