(* ===== verification/Formats.thy ===== *)
theory Formats
  imports Samples LostDirectories
begin

text \<open>
  The properties of the on-disk format: headers, directories, indexes, chunk records, journal
  records, the recovery scan, paths, and the readers and writers of the contents of entries.
\<close>

section \<open>Headers\<close>

text \<open>
  The header codec is canonical: 128 bytes decode to a header exactly when it is a valid one
  and the bytes are its encoding. Nothing else is accepted, and no two headers share an encoding.
\<close>

theorem header_codec:
  "unmarshalHeader b = Inr h \<longleftrightarrow> header_valid h \<and> b = header_bytes h"
  using unmarshal_header_bytes unmarshalHeader_sound by blast

text \<open>
  C40: the counters of dead bytes and of changes in the reserved area of a header hold what is
  written there, and their sum is the sum of the numbers up to the largest 64-bit one, so adding a
  transaction's counts never wraps around.
\<close>

theorem compaction_counters:
  assumes "header_shape h" and "readCompactionStatsFromHeader h = (dead, churn)"
  shows "case readCompactionStatsFromHeader (writeCompactionStatsToHeader
        (saturatingAddUint64 dead a, saturatingAddUint64 churn b) h) of
      (x, y) \<Rightarrow> unat x = min (2 ^ 64 - 1) (unat dead + unat a) \<and>
        unat y = min (2 ^ 64 - 1) (unat churn + unat b)"
  using reserved_rd_wr assms(1) by (simp add: saturatingAddUint64_unat)

theorem compaction_counters_witness:
  "case readCompactionStatsFromHeader (writeCompactionStatsToHeader
      (saturatingAddUint64 (fst (readCompactionStatsFromHeader sample_h0)) (- 1),
       saturatingAddUint64 (snd (readCompactionStatsFromHeader sample_h0)) 3) sample_h0) of
      (x, y) \<Rightarrow> unat x = 2 ^ 64 - 1"
  using compaction_counters [where h = sample_h0 and a = "- 1" and b = 3, OF _ prod.collapse [symmetric]]
    created_header_facts(1) [OF sample_fits]
  by (simp add: sample_h0_def header_valid_def unat_max_u64 split: prod.splits)

section \<open>The directory\<close>

text \<open>
  C38: decoding what \<^verbatim>\<open>EncodeDirectory\<close> wrote, under the CRC it returned, gives the entries back:
  sorted by path, with hash and counts recomputed and zero reserved words. The entries must be
  ones the encoder is meant for (\<open>entry_ok\<close> of the normal form); the sizes are those of a Go
  slice.
\<close>

theorem directory_roundtrip:
  assumes "encodeDirectory d = Inr (b, crc)"
    and "\<forall>e \<in> set (dEntries d). entry_ok (norm_entry e)"
    and "length (dEntries d) < 2 ^ 32" and "length b < 2 ^ 63"
  shows "decodeDirectory b crc (of_nat (length b))
    = Inr (decoded (dBuildUnix d) (map norm_entry (sort_key Path (dEntries d))))"
  using assms by (rule decode_encode_directory)

text \<open>A sample directory: one empty file \<^verbatim>\<open>a\<close>.\<close>

definition sample_entry :: EntryV1 where
  "sample_entry = \<lparr>PathHash64 = 0, MTimeUnix = 7, Mode = 0, EntryFlags = 1, FileSize = 0,
     ChunkCount = 0, MetaSize = 0, PathSize = 0, Chunks = [], Meta = [5], Path = [97]\<rparr>"

definition sample_dir :: DirectoryV1 where
  "sample_dir = \<lparr>dEntryCount = 0, dFlags = 0, dBuildUnix = 9, dEntries = [sample_entry]\<rparr>"

lemma sample_entry_ok: "entry_ok (norm_entry sample_entry)"
  by (simp add: entry_ok_def norm_entry_def sample_entry_def)

lemma encode_sample:
  "encodeDirectory sample_dir =
     Inr (dir_blob 9 [sample_entry], crc32 (dir_body 9 [sample_entry]))"
  by (subst encodeDirectory_ok) (simp_all add: sample_dir_def sample_entry_def)

theorem directory_roundtrip_witness:
  "\<exists>b crc. encodeDirectory sample_dir = Inr (b, crc) \<and>
     decodeDirectory b crc (of_nat (length b)) = Inr (decoded 9 [norm_entry sample_entry])"
  using directory_roundtrip [OF encode_sample] encode_sample sample_entry_ok
  by (simp add: sample_dir_def) (simp add: sample_entry_def)

text \<open>
  C19: a blob that \<^verbatim>\<open>DecodeDirectory\<close> accepts is byte for byte the encoding of the entries it
  returns, all of them well-formed: hashes match paths, counts match lists, chunk maps are
  ordered without overflow and end at the file size. Every such encoding is accepted; nothing is
  ignored or guessed.
\<close>

theorem directory_canonical:
  assumes "length b < 2 ^ 63"
  shows "decodeDirectory b crc sz = Inr d \<longleftrightarrow>
    (\<exists>bu es. d = decoded bu es \<and> b = dir_blob bu es \<and> list_all entry_ok es \<and> length es < 2 ^ 32 \<and>
       sz = of_nat (length b) \<and> crc = crc32 (dir_body bu es))"
proof
  assume "decodeDirectory b crc sz = Inr d"
  from decodeDirectory_sound [OF assms this] show "\<exists>bu es. d = decoded bu es \<and> b = dir_blob bu es \<and>
      list_all entry_ok es \<and> length es < 2 ^ 32 \<and> sz = of_nat (length b) \<and> crc = crc32 (dir_body bu es)"
    by blast
next
  assume "\<exists>bu es. d = decoded bu es \<and> b = dir_blob bu es \<and> list_all entry_ok es \<and>
      length es < 2 ^ 32 \<and> sz = of_nat (length b) \<and> crc = crc32 (dir_body bu es)"
  then show "decodeDirectory b crc sz = Inr d"
    using assms by (auto simp: decodeDirectory_enc simp del: length_dir_blob)
qed

theorem directory_canonical_witness:
  "(\<forall>d. decodeDirectory [] 0 0 \<noteq> Inr d) \<and>
   decodeDirectory (dir_blob 9 [norm_entry sample_entry]) (crc32 (dir_body 9 [norm_entry sample_entry]))
     (of_nat (length (dir_blob 9 [norm_entry sample_entry]))) = Inr (decoded 9 [norm_entry sample_entry])"
proof
  show "\<forall>d. decodeDirectory [] 0 0 \<noteq> Inr d"
    using directory_canonical [of "[]" 0 0] by (auto simp: dir_blob_def dir_footer_def MagicEnd_def)
  have len: "length (dir_blob 9 [norm_entry sample_entry]) < 2 ^ 63" by (simp add: sample_entry_def)
  show "decodeDirectory (dir_blob 9 [norm_entry sample_entry]) (crc32 (dir_body 9 [norm_entry sample_entry]))
     (of_nat (length (dir_blob 9 [norm_entry sample_entry]))) = Inr (decoded 9 [norm_entry sample_entry])"
    by (rule directory_canonical [OF len, THEN iffD2], intro exI [of _ 9] exI [of _ "[norm_entry sample_entry]"])
      (simp add: sample_entry_ok)
qed

section \<open>The directory index\<close>

text \<open>
  The binary form of an index is decoded to the index it was made from if that one is valid, and
  to its validation error otherwise; the index the writer builds for a catalogue is valid, so it
  survives the round trip.
\<close>

theorem index_roundtrip:
  assumes "list_all entry_ok es" "length (dir_blob bu es) < 2 ^ 32"
  shows "marshalDirIndex (built_index bu es off gen) = Inr (index_blob (built_index bu es off gen)) \<and>
    unmarshalDirIndex (index_blob (built_index bu es off gen)) = Inr (built_index bu es off gen)"
proof -
  have n: "length (iEntries (built_index bu es off gen)) < 2 ^ 32"
    "length (iHashRanges (built_index bu es off gen)) < 2 ^ 32"
    using built_index_sizes(2,3) [OF assms(2)] .
  have "validateDirIndex (built_index bu es off gen) = Inr ()"
    using built_index_ok [OF assms] validateDirIndex_iff [OF n(1)] by blast
  then show ?thesis
    using unmarshal_index_blob [OF n] n by (simp add: marshalDirIndex_ok)
qed

theorem index_roundtrip_witness:
  "unmarshalDirIndex (index_blob (built_index 9 [norm_entry sample_entry] 256 1)) =
     Inr (built_index 9 [norm_entry sample_entry] 256 1)"
  using index_roundtrip [of "[norm_entry sample_entry]" 9 256 1] sample_entry_ok
  by (simp add: sample_entry_def)

text \<open>
  C20: looking a path up through the index, by binary search for its hash and a walk over the rows
  of that hash, finds what a search through the whole catalogue finds, collisions of the hash
  included.
\<close>

theorem index_lookup:
  assumes "list_all entry_ok es" "length (dir_blob bu es) < 2 ^ 32" "distinct (map Path es)"
  shows "findEntryByPathFromDirIndex (dir_blob bu es) (Some (built_index bu es off gen)) path
    = Inr (find (\<lambda>e. Path e = path) es)"
  using find_entry_dir [OF assms] by (simp add: path_lookup_def)

theorem index_lookup_witness:
  "findEntryByPathFromDirIndex (dir_blob 9 [norm_entry sample_entry])
     (Some (built_index 9 [norm_entry sample_entry] 256 1)) [97] = Inr (Some (norm_entry sample_entry)) \<and>
   findEntryByPathFromDirIndex (dir_blob 9 [norm_entry sample_entry])
     (Some (built_index 9 [norm_entry sample_entry] 256 1)) [98] = Inr None"
proof -
  have *: "list_all entry_ok [norm_entry sample_entry]" "length (dir_blob 9 [norm_entry sample_entry]) < 2 ^ 32"
    "distinct (map Path [norm_entry sample_entry])"
    using sample_entry_ok by (simp_all add: sample_entry_def)
  show ?thesis unfolding index_lookup [OF *] by (simp add: sample_entry_def norm_entry_def)
qed

section \<open>Chunk records\<close>

text \<open>
  C24: a chunk record that the encoder wrote anywhere in a file is read back as the data it was made
  from, for every codec whose compressor keeps its documented laws, with or without checking the
  checksum and under every limit that the sizes keep.
\<close>

theorem chunk_roundtrip:
  assumes "codec_laws L" and "encodeChunkRecord L raw codec level = Inr (rec, crc)"
    and "length raw < 2 ^ 32" "length rec < 2 ^ 32"
    and "length pre = unat off" "length (pre @ rec @ post) < 2 ^ 63"
    and "mr = 0 \<or> length raw \<le> unat mr" "mc = 0 \<or> length rec \<le> unat mc + 16"
  shows "readChunkRecordLimited L (pre @ rec @ post) off verify mr mc =
    Inr \<lparr>kCodec = codec, kLevel = level, kRawSize = of_nat (length raw),
      kCompSize = of_nat (length rec - 16), kCRC32Raw = crc32 raw, kPayload = raw\<rparr>"
  using assms by (rule read_encoded_chunk)

lemma sample_record_length: "length sample_record = 19"
  by (simp add: sample_record_def MagicChunk_def)

theorem chunk_roundtrip_witness:
  "readChunkRecordLimited sample_lib ([0] @ sample_record @ [0]) 1 True 3 3 =
    Inr \<lparr>kCodec = CodecStore, kLevel = 0, kRawSize = 3, kCompSize = 3,
      kCRC32Raw = crc32 [1, 2, 3], kPayload = [1, 2, 3]\<rparr>"
  using chunk_roundtrip [OF sample_laws sample_encode [of sample_lib], of "[0]" 1 "[0]" 3 3 True]
  by (simp add: sample_record_length)

text \<open>
  C25: what the reader of chunk records returns has been checked. With and without the verification of
  checksums the payload has the recorded size, neither size is zero or above its limit, the codec is
  one of the three known ones, and the payload is what that codec makes of the stored bytes. With the
  verification, which \<^verbatim>\<open>NoStrictVerify\<close> turns off, it also has the recorded checksum; and the verification
  only takes results away, it changes none.
\<close>

theorem chunk_integrity:
  assumes "readChunkRecordLimited L f off verify mr mc = Inr r"
  shows "of_nat (length (kPayload r)) = kRawSize r \<and>
    kRawSize r \<noteq> 0 \<and> kCompSize r \<noteq> 0 \<and> (mr = 0 \<or> kRawSize r \<le> mr) \<and>
    (mc = 0 \<or> kCompSize r \<le> mc) \<and> kCodec r \<in> {CodecStore, CodecZstd, CodecLZ4} \<and>
    decompressPayload L (sub_bytes f (unat off + 16) (unat off + 16 + unat (kCompSize r))) (kCodec r) (kRawSize r) =
      Inr (kPayload r) \<and>
    (verify \<longrightarrow> crc32 (kPayload r) = kCRC32Raw r) \<and>
    readChunkRecordLimited L f off True mr mc =
      (if crc32 (kPayload r) = kCRC32Raw r then Inr r else Inl FmtCRCMismatch)"
  using readChunk_checked [OF assms] .

theorem chunk_integrity_witness:
  "\<exists>r. readChunkRecordLimited sample_lib sample_record 0 True 3 3 = Inr r \<and>
     crc32 (kPayload r) = kCRC32Raw r"
proof -
  have "readChunkRecordLimited sample_lib ([] @ sample_record @ []) 0 True 3 3 =
    Inr \<lparr>kCodec = CodecStore, kLevel = 0, kRawSize = 3, kCompSize = 3,
      kCRC32Raw = crc32 [1, 2, 3], kPayload = [1, 2, 3]\<rparr>"
    using read_encoded_chunk [OF sample_laws sample_encode [of sample_lib], of "[]" 0 "[]" 3 3 True]
    by (simp add: sample_record_length)
  from chunk_integrity [OF this [simplified]] this show ?thesis by auto
qed

section \<open>Journal and backup records\<close>

lemma sample_file_facts:
  "created_file sample_create = take 504 (created_file sample_create) @
     header_record backupMagic (header_bytes sample_h0) 4"
  "header_valid sample_h0" "holds (created_file sample_create) sample_h0 2 []"
  "validateHeaderDirectory (created_file sample_create) sample_h0 = Inr ()"
  "length (created_file sample_create) = 652"
proof -
  let ?f = "created_file sample_create"
  note r = created_regions [OF sample_fits]
  show h: "holds ?f sample_h0 2 []" using sample_empty(1) by (simp add: represents_def sample_d0_eq)
  then show "header_valid sample_h0" by (simp add: holds_def)
  show len: "length ?f = 652" by (rule r(5))
  have rl: "length (header_record backupMagic (header_bytes sample_h0) 4) = 148"
    using header_length [OF \<open>header_valid sample_h0\<close>] by (simp add: length_header_record backupMagic_def)
  then have "sub_bytes ?f 504 652 = header_record backupMagic (header_bytes sample_h0) 4"
    using r(7) by (simp add: at_def sample_h0_def sample_create_def sub_bytes_def)
  then show "?f = take 504 ?f @ header_record backupMagic (header_bytes sample_h0) 4"
    using len by (simp add: sub_bytes_def) (metis append_take_drop_id take_all_iff order_refl)
  have "stored ?f sample_h0 2 []" using h by (simp add: holds_def)
  then show "validateHeaderDirectory ?f sample_h0 = Inr ()"
    using len by (auto simp: stored_def intro: validate_dir_stored)
qed

text \<open>
  A header recovered from the records at the end of the file or from the fixed backup slot is
  valid and points to a directory that is read and decoded without error; the one of the slot is
  there byte for byte.
\<close>

theorem recovered_headers_readable:
  assumes "length f < 2 ^ 63"
  shows "(recoverBestHeader f = Inr h \<longrightarrow> header_valid h \<and> validateHeaderDirectory f h = Inr ()) \<and>
    (recoverHeaderFromFixedBackup f = Inr h \<longrightarrow>
       header_valid h \<and> validateHeaderDirectory f h = Inr () \<and> at f 128 (header_bytes h))"
  using recoverBest_sound [OF _ assms] recoverFixed_sound by blast

theorem recovered_headers_readable_witness:
  "\<exists>h. recoverBestHeader (created_file sample_create) = Inr h \<and>
     header_valid h \<and> validateHeaderDirectory (created_file sample_create) h = Inr ()"
proof -
  have len: "length (created_file sample_create) < 2 ^ 63" using sample_file_facts(5) by simp
  have "recoverHeaderByMagic (created_file sample_create) backupMagic = Inr (sample_h0, 4)"
    using recoverByMagic_last [OF sample_file_facts(1) _ sample_file_facts(2,4) len]
    by (simp add: backupMagic_def)
  then have "\<exists>h. recoverBestHeader (created_file sample_create) = Inr h"
    by (auto simp: recoverBestHeader_def split: sum.split)
  then show ?thesis using recovered_headers_readable [OF len] by blast
qed

section \<open>Recovery by scanning\<close>

text \<open>
  C22: the block-wise scan for lost directories finds exactly the best of the directories that lie in
  the file whole: a magic number across the border of two blocks is not missed, only bytes that are the
  encoding of a directory count, and of these the one with the most readable entries wins, then the one
  with the fewest unreadable entries, then the newest, then the last in the file. (The documentation
  names the newest.) The header that is returned points to it.
\<close>

theorem scan_finds_best:
  assumes "36 \<le> length f" "length f < 2 ^ 63"
  shows "recoverHeaderFromDirectoryScan L f = Inr h \<longleftrightarrow>
    (\<exists>off bu es. lost_directory f off bu es \<and> h = lost_header off bu es \<and>
       (\<forall>off' bu' es'. lost_directory f off' bu' es' \<longrightarrow>
          directory_rank L f off' bu' es' \<le> directory_rank L f off bu es))"
  using assms by (rule scan_rank)

lemma stored_lost: "dir_stored f h bu es \<Longrightarrow> lost_directory f (unat (hDirOffset h)) bu es"
  by (simp add: dir_stored_def lost_directory_def unat_gt_0)

lemma sample_readable: "entryReadableAt sample_lib (content sample_d1) (norm_entry sample_file)"
proof -
  let ?f = "content sample_d1"
  have "map_of (entry_map_of sample_es1) [97] = Some (norm_entry sample_file)"
    by (simp add: entry_map_of_def sample_es1_def norm_entry_def sample_file_def)
  then obtain data where "reads_as sample_lib ?f (Chunks (norm_entry sample_file)) data"
    using sample_full(1) refinesD(2) unfolding represents_def by blast
  then obtain p where "chunk_payload sample_lib ?f True 0 sample_chunk = Inr p"
    by (auto simp: reads_as_def norm_entry_def sample_file_def list_all2_Cons1)
  then obtain rec where "readChunkRecordLimited sample_lib ?f (ChunkOffset sample_chunk) True
      (RawSize sample_chunk) (CompSize sample_chunk) = Inr rec" "kRawSize rec = RawSize sample_chunk"
    "kCompSize rec = CompSize sample_chunk" "kCRC32Raw rec = CRC32Raw sample_chunk"
    by (auto simp: chunk_payload_def inr_simps split: if_splits)
  then show ?thesis
    by (simp add: entryReadableAt_def norm_entry_def sample_file_def)
      (simp add: sample_chunk_def addUint64_def)
qed

theorem scan_finds_best_witness:
  "\<exists>off bu es. recoverHeaderFromDirectoryScan sample_lib (content sample_d1) = Inr (lost_header off bu es) \<and>
     lost_directory (content sample_d1) off bu es \<and>
     (\<exists>e \<in> set es. entryReadableAt sample_lib (content sample_d1) e)"
proof -
  let ?f = "content sample_d1" and ?L = "sample_lib"
  let ?good = "\<lambda>es. length (filter (entryReadableAt ?L ?f) es)"
  have len: "36 \<le> length ?f" "length ?f < 2 ^ 63" using sample_add_run(3) sample_valid(2) by simp_all
  have "stored ?f sample_h1 5 sample_es1" using sample_full(1) by (simp add: represents_def holds_def)
  then have l: "lost_directory ?f (unat (hDirOffset sample_h1)) 5 sample_es1"
    by (simp add: stored_def stored_lost)
  then obtain s where "candidate ?L ?f (unat (hDirOffset sample_h1)) (lost_header (unat (hDirOffset sample_h1)) 5 sample_es1) s"
    unfolding candidate_iff [OF len(2)] by blast
  then obtain h where h: "recoverHeaderFromDirectoryScan ?L ?f = Inr h" using scan_complete len by blast
  obtain off bu es where r: "lost_directory ?f off bu es" "h = lost_header off bu es"
    "directory_rank ?L ?f (unat (hDirOffset sample_h1)) 5 sample_es1 \<le> directory_rank ?L ?f off bu es"
    using h l unfolding scan_finds_best [OF len] by blast
  have "?good sample_es1 = 1" using sample_readable by (simp add: sample_es1_def)
  then have "1 \<le> ?good es" using r(3) by (auto simp: directory_rank_def less_eq_prod_def)
  then have "filter (entryReadableAt ?L ?f) es \<noteq> []" by auto
  then have "\<exists>e \<in> set es. entryReadableAt ?L ?f e" by (auto simp: filter_empty_conv)
  then show ?thesis using h r(1,2) by blast
qed

section \<open>Loading a catalogue\<close>

text \<open>
  C39: a catalogue that is loaded in full is one of well-formed entries with distinct paths whose
  chunks all lie within the file, under a header of the canonical layout; and a stored catalogue is
  loaded as it is, in full or as a lazy index.
\<close>

theorem catalogue_loading:
  assumes "length f < 2 ^ 63"
  shows "(loadSnapshotByHeader f h False = Inr snap \<longrightarrow>
      canonical_layout h \<and> (\<exists>m. sEntries snap = Some m \<and> entries_ok (length f) m)) \<and>
    (stored f h bu es \<longrightarrow>
      loadSnapshotByHeader f h False =
        Inr \<lparr>sEntries = Some (entry_map_of es), sDirBlob = [], sDirIndex = None\<rparr> \<and>
      loadSnapshotByHeader f h True = Inr \<lparr>sEntries = None, sDirBlob = dir_blob bu es,
        sDirIndex = Some (built_index bu es (hDirOffset h) (readHeaderGeneration h))\<rparr>)"
  using load_eager_sound [OF assms] load_stored_eager [OF _ assms] load_stored_lazy [OF _ assms] by blast

theorem catalogue_loading_witness:
  "loadSnapshotByHeader (created_file sample_create) sample_h0 False =
     Inr \<lparr>sEntries = Some [], sDirBlob = [], sDirIndex = None\<rparr> \<and> canonical_layout sample_h0"
proof -
  have f: "length (created_file sample_create) < 2 ^ 63" "stored (created_file sample_create) sample_h0 2 []"
    using sample_file_facts(3,5) by (simp_all add: holds_def)
  show ?thesis
    using catalogue_loading [OF f(1), of sample_h0 _ 2 "[]"] f(2) by (simp add: entry_map_of_def)
qed

section \<open>Paths\<close>

text \<open>
  C26: every normalised path is safe (relative, without empty, dot or dot-dot parts, backslashes or
  NUL bytes, valid UTF-8), and the safe paths are exactly the ones normalisation leaves alone; so
  it is idempotent and no stored path escapes the container.
\<close>

theorem normalized_paths_safe:
  "(normalize p = Inr q \<longrightarrow> path_safe q) \<and> (normalize q = Inr q \<longleftrightarrow> path_safe q)"
  using normalize_safe normalize_fixed by blast

theorem normalized_paths_safe_witness:
  "normalize [46, 47, 97] = Inr [97] \<and> path_safe [97] \<and> \<not> path_safe [46, 46]"
proof -
  have n: "normalize [46, 47, 97] = Inr [97]"
    by (simp add: normalize_def path_clean_def to_slash_def utf8_valid.simps Let_def bad_part_def)
  moreover have "normalize [46, 46] \<noteq> Inr [46, 46]"
    by (simp add: normalize_def path_clean_def to_slash_def utf8_valid.simps Let_def bad_part_def)
  ultimately show ?thesis
    using normalized_paths_safe [of "[46, 47, 97]" "[97]"] normalized_paths_safe [of "[46, 46]" "[46, 46]"]
    by blast
qed

section \<open>Contents of entries\<close>

text \<open>
  C23: however a client chooses its buffers, the reader of an entry delivers the same stream, the
  payloads of the chunks one after the other, and reports the error that ends it once everything
  before it has been delivered.
\<close>

theorem reader_stream:
  assumes "stream L f r = (s, e)" "\<forall>n \<in> set ns. 0 < n"
  shows "read_all L f r ns =
    (take (sum_list ns) s, if \<exists>k < length ns. length s \<le> sum_list (take k ns) then Some e else None)"
  using assms by (rule read_all_stream)

definition sample_reader :: entryReader where
  "sample_reader = \<lparr>erChunks = [sample_chunk\<lparr>ChunkOffset := 0\<rparr>], erIdx = 0, erCur = [], erCurRead = 0,
     erVerifyCRC = True, erMaxEntry = 0, erMaxChunk = 0, erReadTotal = 0\<rparr>"

lemma sample_stream: "stream sample_lib sample_record sample_reader = ([1, 2, 3], IoEOF)"
proof -
  have "readChunkRecordLimited sample_lib ([] @ sample_record @ []) 0 True 3 3 =
    Inr \<lparr>kCodec = CodecStore, kLevel = 0, kRawSize = 3, kCompSize = 3,
      kCRC32Raw = crc32 [1, 2, 3], kPayload = [1, 2, 3]\<rparr>"
    using read_encoded_chunk [OF sample_laws sample_encode [of sample_lib], of "[]" 0 "[]" 3 3 True]
    by (simp add: sample_record_length)
  then show ?thesis
    by (simp add: stream_def sample_reader_def rest_def chunk_payload_def sample_chunk_def)
qed

theorem reader_stream_witness:
  "read_all sample_lib sample_record sample_reader [2, 5, 1] = ([1, 2, 3], Some IoEOF)"
proof -
  have yes: "\<exists>k < length [2, 5, 1::nat]. length [1, 2, 3::u8] \<le> sum_list (take k [2, 5, 1])"
    by (intro exI [of _ 2]) simp
  show ?thesis
    using reader_stream [OF sample_stream, of "[2, 5, 1]"] by (simp only: yes if_True) simp
qed

text \<open>
  C21: the parallel writer of chunks (producer, workers, collector) always ends, and whatever the
  order in which the workers deliver, it leaves the same file and returns the same chunk map as the
  sequential writer, or both fail.
\<close>

theorem parallel_writer_equivalent:
  assumes "0 < cs" "scheduler order"
  shows "\<exists>r. writeChunksParallel order L codec level cs m d off src = Some r \<and>
    (r = writeChunksSequential L codec level cs m d off src \<or>
     (\<exists>e e'. fst r = Inl e \<and> fst (writeChunksSequential L codec level cs m d off src) = Inl e'))"
  using assms by (rule parallel_sequential)

theorem parallel_writer_equivalent_witness:
  "\<exists>d. writeChunksParallel rev sample_lib CodecStore 0 4194304 0 sample_d0 652 sample_data =
     Some (Inr ([sample_chunk], 3), d, 671)"
proof -
  have "scheduler rev" by (simp add: scheduler_def)
  then show ?thesis
    using parallel_writer_equivalent [of 4194304 rev sample_lib CodecStore 0 0 sample_d0 652 sample_data]
      sample_written by (auto simp: writeChunksSequential_def)
qed

end
