(* ===== verification/Locks.thy ===== *)
theory Locks
  imports PathNorm
begin

text \<open>
  The locks of the library and the calls that take them, as interleaved threads: the mutexes \<^verbatim>\<open>txMu\<close>
  and \<^verbatim>\<open>mu\<close> of each container, the lock of the process for each cleaned path (\<^verbatim>\<open>fbx/write_lock.go\<close>)
  and the lock on the file (\<^verbatim>\<open>fbx/file_lock_unix.go\<close>, a no-op elsewhere: \<^verbatim>\<open>fbx/file_lock_nonunix.go\<close>).
  Every lock and unlock of \<^verbatim>\<open>Begin\<close>, \<^verbatim>\<open>Commit\<close>, \<^verbatim>\<open>Rollback\<close>, \<^verbatim>\<open>Close\<close>, the reading calls and
  \<^verbatim>\<open>persistRecoveredHeader\<close> is a step of its own. A lock of Go belongs to no goroutine, so a thread of the
  model is one call, or one transaction from its \<^verbatim>\<open>Begin\<close> to its \<^verbatim>\<open>Commit\<close> or \<^verbatim>\<open>Rollback\<close>: a goroutine that
  makes calls while it has transactions open is several threads (see \<open>Goroutines\<close>). The lemmas show
  that nothing is leaked and that two transactions never have the same file.
\<close>

section \<open>Locks and program points\<close>

type_synonym handle = nat
type_synonym thread = nat

datatype lock = TxMu handle | Mu handle | PathLock bytes | FileLock nat

text \<open>Where the handles point: the path each was opened with and the file behind it.\<close>

record world =
  wPath :: "handle \<Rightarrow> bytes"
  wFile :: "handle \<Rightarrow> nat"
  wUnix :: bool

text \<open>One mutex for each cleaned path, made on demand and never removed.\<close>

definition acquireProcessWriteLock :: "world \<Rightarrow> handle \<Rightarrow> lock" where
  "acquireProcessWriteLock w h = PathLock (path_clean (wPath w h))"

datatype point =
    Outside
  \<comment> \<open>\<^verbatim>\<open>Begin\<close>\<close>
  | BeginTx handle | BeginCheck handle | BeginMu handle | BeginOpen handle | BeginPath handle
  | BeginTry handle | BeginFile handle | BeginLoad handle | BeginDone handle
  \<comment> \<open>its error exits\<close>
  | FailFile handle | FailPath handle | FailMu handle | FailTx handle
  \<comment> \<open>an open transaction, whose operations take no lock, \<^verbatim>\<open>Commit\<close> and \<^verbatim>\<open>release\<close>\<close>
  | InTx handle | CommitRead handle | CommitGot handle | CommitWrite handle
  | CommitPublish handle | CommitDone handle
  | ReleaseFile handle | ReleasePath handle | ReleaseTx handle
  \<comment> \<open>\<^verbatim>\<open>Close\<close>\<close>
  | CloseTry handle | CloseMu handle | CloseDone handle
  \<comment> \<open>\<^verbatim>\<open>List\<close> and \<^verbatim>\<open>Verify\<close>; \<^verbatim>\<open>Stat\<close> and \<^verbatim>\<open>OpenReader\<close>\<close>
  | ListMu handle | ListDone handle | StatMu handle | StatDone handle
  \<comment> \<open>\<^verbatim>\<open>persistRecoveredHeader\<close>\<close>
  | FixPath handle | FixTry handle | FixFile handle | FixDone handle | FixLeave handle

datatype instr =
    Goto "point set"
  | Acquire lock point
  | Release lock point
  | AcquireShared handle point
  | ReleaseShared handle point
  | TryAcquire lock point point

text \<open>\<^verbatim>\<open>lockFileExclusive\<close> and \<^verbatim>\<open>unlockFile\<close>, which do nothing where there are no file locks.\<close>

definition lock_file :: "world \<Rightarrow> handle \<Rightarrow> point \<Rightarrow> instr" where
  [simp]: "lock_file w h b = (if wUnix w then Acquire (FileLock (wFile w h)) b else Goto {b})"

definition unlock_file :: "world \<Rightarrow> handle \<Rightarrow> point \<Rightarrow> instr" where
  [simp]: "unlock_file w h b = (if wUnix w then Release (FileLock (wFile w h)) b else Goto {b})"

text \<open>Any thread may start any call on any handle.\<close>

definition calls :: "point set" where
  "calls = (\<Union>h. {BeginTx h, CloseTry h, ListMu h, StatMu h, FixPath h})"

fun code :: "world \<Rightarrow> point \<Rightarrow> instr" where
  "code w Outside = Goto calls"
| "code w (BeginTx h) = Acquire (TxMu h) (BeginCheck h)"
| "code w (BeginCheck h) = Goto {BeginMu h, FailTx h}"
| "code w (BeginMu h) = Acquire (Mu h) (BeginOpen h)"
| "code w (BeginOpen h) = Goto {BeginPath h, FailMu h}"
| "code w (BeginPath h) = Acquire (acquireProcessWriteLock w h) (BeginTry h)"
| "code w (BeginTry h) = Goto {BeginFile h, FailPath h}"
| "code w (BeginFile h) = lock_file w h (BeginLoad h)"
| "code w (BeginLoad h) = Goto {BeginDone h, FailFile h}"
| "code w (BeginDone h) = Release (Mu h) (InTx h)"
| "code w (FailFile h) = unlock_file w h (FailPath h)"
| "code w (FailPath h) = Release (acquireProcessWriteLock w h) (FailMu h)"
| "code w (FailMu h) = Release (Mu h) (FailTx h)"
| "code w (FailTx h) = Release (TxMu h) Outside"
| "code w (InTx h) = Goto {CommitRead h, ReleaseFile h}"
| "code w (CommitRead h) = AcquireShared h (CommitGot h)"
| "code w (CommitGot h) = ReleaseShared h (CommitWrite h)"
| "code w (CommitWrite h) = Goto {CommitPublish h, ReleaseFile h}"
| "code w (CommitPublish h) = Acquire (Mu h) (CommitDone h)"
| "code w (CommitDone h) = Release (Mu h) (ReleaseFile h)"
| "code w (ReleaseFile h) = unlock_file w h (ReleasePath h)"
| "code w (ReleasePath h) = Release (acquireProcessWriteLock w h) (ReleaseTx h)"
| "code w (ReleaseTx h) = Release (TxMu h) Outside"
| "code w (CloseTry h) = TryAcquire (TxMu h) (CloseMu h) Outside"
| "code w (CloseMu h) = Acquire (Mu h) (CloseDone h)"
| "code w (CloseDone h) = Release (Mu h) (FailTx h)"
| "code w (ListMu h) = Acquire (Mu h) (ListDone h)"
| "code w (ListDone h) = Release (Mu h) Outside"
| "code w (StatMu h) = AcquireShared h (StatDone h)"
| "code w (StatDone h) = ReleaseShared h Outside"
| "code w (FixPath h) = Acquire (acquireProcessWriteLock w h) (FixTry h)"
| "code w (FixTry h) = Goto {FixFile h, FixLeave h}"
| "code w (FixFile h) = lock_file w h (FixDone h)"
| "code w (FixDone h) = unlock_file w h (FixLeave h)"
| "code w (FixLeave h) = Release (acquireProcessWriteLock w h) Outside"

section \<open>Threads\<close>

record threads =
  tPoint :: "thread \<Rightarrow> point"
  tOwner :: "lock \<Rightarrow> thread option"
  tReaders :: "handle \<Rightarrow> thread set"

definition lock_free :: "threads \<Rightarrow> lock \<Rightarrow> bool" where
  "lock_free s l \<longleftrightarrow> tOwner s l = None \<and> (case l of Mu h \<Rightarrow> tReaders s h = {} | _ \<Rightarrow> True)"

text \<open>
  \<open>pref\<close>: a writer that waits for \<^verbatim>\<open>mu\<close> keeps new readers out, as \<^verbatim>\<open>sync.RWMutex\<close> does, or not; what
  is shown holds either way.
\<close>

definition writer_waits :: "world \<Rightarrow> threads \<Rightarrow> handle \<Rightarrow> bool" where
  "writer_waits w s h \<longleftrightarrow> (\<exists>u b. code w (tPoint s u) = Acquire (Mu h) b)"

inductive step :: "world \<Rightarrow> bool \<Rightarrow> thread \<Rightarrow> threads \<Rightarrow> threads \<Rightarrow> bool" for w pref where
  goto: "code w (tPoint s t) = Goto A \<Longrightarrow> b \<in> A \<Longrightarrow>
    step w pref t s (s\<lparr>tPoint := (tPoint s)(t := b)\<rparr>)"
| acquire: "code w (tPoint s t) = Acquire l b \<Longrightarrow> lock_free s l \<Longrightarrow>
    step w pref t s (s\<lparr>tPoint := (tPoint s)(t := b), tOwner := (tOwner s)(l \<mapsto> t)\<rparr>)"
| release: "code w (tPoint s t) = Release l b \<Longrightarrow>
    step w pref t s (s\<lparr>tPoint := (tPoint s)(t := b), tOwner := (tOwner s)(l := None)\<rparr>)"
| shared: "code w (tPoint s t) = AcquireShared h b \<Longrightarrow> tOwner s (Mu h) = None \<Longrightarrow>
    (pref \<Longrightarrow> \<not> writer_waits w s h) \<Longrightarrow>
    step w pref t s (s\<lparr>tPoint := (tPoint s)(t := b), tReaders := (tReaders s)(h := insert t (tReaders s h))\<rparr>)"
| unshared: "code w (tPoint s t) = ReleaseShared h b \<Longrightarrow>
    step w pref t s (s\<lparr>tPoint := (tPoint s)(t := b), tReaders := (tReaders s)(h := tReaders s h - {t})\<rparr>)"
| try_free: "code w (tPoint s t) = TryAcquire l b c \<Longrightarrow> lock_free s l \<Longrightarrow>
    step w pref t s (s\<lparr>tPoint := (tPoint s)(t := b), tOwner := (tOwner s)(l \<mapsto> t)\<rparr>)"
| try_taken: "code w (tPoint s t) = TryAcquire l b c \<Longrightarrow> \<not> lock_free s l \<Longrightarrow>
    step w pref t s (s\<lparr>tPoint := (tPoint s)(t := c)\<rparr>)"

text \<open>The steps as a function of the thread and the point it goes to, for runs that are computed.\<close>

fun move :: "world \<Rightarrow> thread \<times> point \<Rightarrow> threads \<Rightarrow> threads option" where
  "move w (t, b) s =
     (let s' = s\<lparr>tPoint := (tPoint s)(t := b)\<rparr> in
      case code w (tPoint s t) of
        Goto A \<Rightarrow> if b \<in> A then Some s' else None
      | Acquire l a \<Rightarrow> if a = b \<and> lock_free s l then Some (s'\<lparr>tOwner := (tOwner s)(l \<mapsto> t)\<rparr>) else None
      | Release l a \<Rightarrow> if a = b then Some (s'\<lparr>tOwner := (tOwner s)(l := None)\<rparr>) else None
      | _ \<Rightarrow> None)"

fun play :: "world \<Rightarrow> (thread \<times> point) list \<Rightarrow> threads \<Rightarrow> threads option" where
  "play w [] s = Some s"
| "play w (m # ms) s = Option.bind (move w m s) (play w ms)"

definition start :: threads where
  "start = \<lparr>tPoint = \<lambda>t. Outside, tOwner = \<lambda>l. None, tReaders = \<lambda>h. {}\<rparr>"

inductive reach :: "world \<Rightarrow> bool \<Rightarrow> threads \<Rightarrow> bool" for w pref where
  "reach w pref start"
| "reach w pref s \<Longrightarrow> step w pref t s s' \<Longrightarrow> reach w pref s'"

lemma move_step: "move w m s = Some s' \<Longrightarrow> \<exists>t. step w pref t s s'"
  by (cases m; cases "code w (tPoint s (fst m))")
    (auto simp: Let_def split: if_splits intro: step.intros)

lemma play_reach: "play w ms s = Some s' \<Longrightarrow> reach w pref s \<Longrightarrow> reach w pref s'"
  by (induction ms arbitrary: s)
    (auto simp: bind_eq_Some_conv simp del: move.simps dest!: move_step [where pref = pref] intro: reach.intros(2))

section \<open>What is held where\<close>

definition file_locks :: "world \<Rightarrow> handle \<Rightarrow> lock set" where
  "file_locks w h = (if wUnix w then {FileLock (wFile w h)} else {})"

fun held :: "world \<Rightarrow> point \<Rightarrow> lock set" where
  "held w (BeginCheck h) = {TxMu h}"
| "held w (BeginMu h) = {TxMu h}"
| "held w (BeginOpen h) = {TxMu h, Mu h}"
| "held w (BeginPath h) = {TxMu h, Mu h}"
| "held w (BeginTry h) = {TxMu h, Mu h, acquireProcessWriteLock w h}"
| "held w (BeginFile h) = {TxMu h, Mu h, acquireProcessWriteLock w h}"
| "held w (BeginLoad h) = {TxMu h, Mu h, acquireProcessWriteLock w h} \<union> file_locks w h"
| "held w (BeginDone h) = {TxMu h, Mu h, acquireProcessWriteLock w h} \<union> file_locks w h"
| "held w (FailFile h) = {TxMu h, Mu h, acquireProcessWriteLock w h} \<union> file_locks w h"
| "held w (FailPath h) = {TxMu h, Mu h, acquireProcessWriteLock w h}"
| "held w (FailMu h) = {TxMu h, Mu h}"
| "held w (FailTx h) = {TxMu h}"
| "held w (InTx h) = {TxMu h, acquireProcessWriteLock w h} \<union> file_locks w h"
| "held w (CommitRead h) = {TxMu h, acquireProcessWriteLock w h} \<union> file_locks w h"
| "held w (CommitGot h) = {TxMu h, acquireProcessWriteLock w h} \<union> file_locks w h"
| "held w (CommitWrite h) = {TxMu h, acquireProcessWriteLock w h} \<union> file_locks w h"
| "held w (CommitPublish h) = {TxMu h, acquireProcessWriteLock w h} \<union> file_locks w h"
| "held w (CommitDone h) = {TxMu h, Mu h, acquireProcessWriteLock w h} \<union> file_locks w h"
| "held w (ReleaseFile h) = {TxMu h, acquireProcessWriteLock w h} \<union> file_locks w h"
| "held w (ReleasePath h) = {TxMu h, acquireProcessWriteLock w h}"
| "held w (ReleaseTx h) = {TxMu h}"
| "held w (CloseMu h) = {TxMu h}"
| "held w (CloseDone h) = {TxMu h, Mu h}"
| "held w (ListDone h) = {Mu h}"
| "held w (FixTry h) = {acquireProcessWriteLock w h}"
| "held w (FixFile h) = {acquireProcessWriteLock w h}"
| "held w (FixDone h) = {acquireProcessWriteLock w h} \<union> file_locks w h"
| "held w (FixLeave h) = {acquireProcessWriteLock w h}"
| "held w _ = {}"

fun shared_by :: "point \<Rightarrow> handle set" where
  "shared_by (CommitGot h) = {h}"
| "shared_by (StatDone h) = {h}"
| "shared_by _ = {}"

text \<open>Every instruction takes and gives back what the program points say.\<close>

lemma code_held:
  "code w p = Goto A \<Longrightarrow> b \<in> A \<Longrightarrow> held w b = held w p \<and> shared_by b = {} \<and> shared_by p = {}"
  "code w p = Acquire l b \<Longrightarrow> held w b = insert l (held w p) \<and> l \<notin> held w p \<and> shared_by b = {} \<and> shared_by p = {}"
  "code w p = Release l b \<Longrightarrow> held w b = held w p - {l} \<and> l \<in> held w p \<and> shared_by b = {} \<and> shared_by p = {}"
  "code w p = AcquireShared h b \<Longrightarrow> held w b = held w p \<and> shared_by b = {h} \<and> shared_by p = {}"
  "code w p = ReleaseShared h b \<Longrightarrow> held w b = held w p \<and> shared_by b = {} \<and> shared_by p = {h}"
  "code w p = TryAcquire l b c \<Longrightarrow> held w b = insert l (held w p) \<and> l \<notin> held w p \<and> held w c = held w p \<and>
     shared_by b = {} \<and> shared_by c = {} \<and> shared_by p = {}"
  by (cases p; auto simp: calls_def acquireProcessWriteLock_def file_locks_def split: if_splits)+

definition consistent :: "world \<Rightarrow> threads \<Rightarrow> bool" where
  "consistent w s \<longleftrightarrow>
     (\<forall>l t. tOwner s l = Some t \<longleftrightarrow> l \<in> held w (tPoint s t)) \<and>
     (\<forall>h t. t \<in> tReaders s h \<longleftrightarrow> h \<in> shared_by (tPoint s t)) \<and>
     (\<forall>h. tReaders s h \<noteq> {} \<longrightarrow> tOwner s (Mu h) = None)"

lemma consistentD:
  assumes "consistent w s"
  shows "tOwner s l = Some t \<longleftrightarrow> l \<in> held w (tPoint s t)"
    "t \<in> tReaders s h \<longleftrightarrow> h \<in> shared_by (tPoint s t)"
    "tReaders s h \<noteq> {} \<Longrightarrow> tOwner s (Mu h) = None"
  using assms unfolding consistent_def by blast+

lemma consistent_start: "consistent w start"
  by (simp add: consistent_def start_def)

text \<open>A lock has one owner, so a lock that is taken was held by nobody.\<close>

lemma acquire_consistent:
  assumes c: "consistent w s" and l: "lock_free s l" and h: "held w b = insert l (held w (tPoint s t))"
    and sh: "shared_by b = {}" "shared_by (tPoint s t) = {}"
  shows "consistent w (s\<lparr>tPoint := (tPoint s)(t := b), tOwner := (tOwner s)(l \<mapsto> t)\<rparr>)"
proof -
  note d = consistentD [OF c]
  have none: "tOwner s l = None" and rd: "l = Mu k \<Longrightarrow> tReaders s k = {}" for k
    using l by (auto simp: lock_free_def)
  have "l \<notin> held w (tPoint s u)" for u using none d(1) [of l u] by auto
  then show ?thesis
    unfolding consistent_def using d h sh rd by (auto simp: fun_upd_apply)
qed

lemma step_consistent:
  assumes "step w pref t s s'" "consistent w s"
  shows "consistent w s'"
  using assms(1)
proof cases
  case (goto A b)
  then show ?thesis using assms(2) code_held(1) [OF goto(2,3)] by (auto simp: consistent_def)
next
  case (acquire l b)
  then show ?thesis using acquire_consistent [OF assms(2) acquire(3)] code_held(2) [OF acquire(2)] by simp
next
  case (release l b)
  note h = code_held(3) [OF release(2)] and d = consistentD [OF assms(2)]
  have own: "tOwner s l = Some t" using h d(1) by blast
  then have "l \<notin> held w (tPoint s u)" if "u \<noteq> t" for u using d(1) [of l u] that by auto
  then show ?thesis
    unfolding release(1) consistent_def using d h by (auto simp: fun_upd_apply)
next
  case (shared h b)
  note c = code_held(4) [OF shared(2)] and d = consistentD [OF assms(2)]
  show ?thesis
    unfolding shared(1) consistent_def using d c shared(3) by (auto simp: fun_upd_apply)
next
  case (unshared h b)
  note c = code_held(5) [OF unshared(2)] and d = consistentD [OF assms(2)]
  have own: "tOwner s l = Some u \<longleftrightarrow> l \<in> held w (((tPoint s)(t := b)) u)" for l u
    using d(1) c by (simp add: fun_upd_apply)
  have readers: "u \<in> ((tReaders s)(h := tReaders s h - {t})) k \<longleftrightarrow> k \<in> shared_by (((tPoint s)(t := b)) u)" for k u
    using d(2) c by (auto simp: fun_upd_apply)
  have "tReaders s k \<noteq> {}" if "((tReaders s)(h := tReaders s h - {t})) k \<noteq> {}" for k
    using that by (auto split: if_splits)
  then have "((tReaders s)(h := tReaders s h - {t})) k \<noteq> {} \<Longrightarrow> tOwner s (Mu k) = None" for k
    using d(3) by blast
  then show ?thesis
    using own readers unfolding unshared(1) consistent_def by (simp del: fun_upd_apply)
next
  case (try_free l b c)
  then show ?thesis using acquire_consistent [OF assms(2) try_free(3)] code_held(6) [OF try_free(2)] by simp
next
  case (try_taken l b c)
  then show ?thesis using assms(2) code_held(6) [OF try_taken(2)] by (auto simp: consistent_def)
qed

lemma reach_consistent: "reach w pref s \<Longrightarrow> consistent w s"
  by (induction rule: reach.induct) (auto intro: consistent_start step_consistent)

section \<open>Mutual exclusion and no leaks\<close>

text \<open>A transaction is open, or is being committed or released.\<close>

definition in_tx :: "point \<Rightarrow> handle \<Rightarrow> bool" where
  "in_tx p h \<longleftrightarrow> p \<in> {InTx h, CommitRead h, CommitGot h, CommitWrite h, CommitPublish h, CommitDone h, ReleaseFile h}"

lemma in_tx_held:
  "in_tx p h \<Longrightarrow> {TxMu h, acquireProcessWriteLock w h} \<union> file_locks w h \<subseteq> held w p"
  by (auto simp: in_tx_def)

lemma one_owner:
  assumes "reach w pref s" "l \<in> held w (tPoint s t)" "l \<in> held w (tPoint s u)"
  shows "t = u"
  using consistentD(1) [OF reach_consistent [OF assms(1)], of l] assms(2,3) by (metis option.inject)

text \<open>
  C14: mutual exclusion. Two transactions are never open, being committed or being released at the same
  time on one file, through one handle, through two handles opened with the same path, or (on systems
  with file locks) through paths that lead to the same file.
\<close>

theorem transactions_exclusive:
  assumes r: "reach w pref s" and t: "in_tx (tPoint s t) h" and u: "in_tx (tPoint s u) k"
    and shared: "wUnix w \<and> wFile w h = wFile w k \<or> path_clean (wPath w h) = path_clean (wPath w k)"
  shows "t = u \<and> h = k"
proof -
  have "\<exists>l. l \<in> held w (tPoint s t) \<and> l \<in> held w (tPoint s u)"
    using in_tx_held [OF t, of w] in_tx_held [OF u, of w] shared
    by (auto simp: file_locks_def acquireProcessWriteLock_def)
  then have eq: "t = u" using one_owner [OF r] by blast
  then have "h = k" using t u by (auto simp: in_tx_def)
  then show ?thesis using eq by blast
qed

lemma locks_returned:
  assumes "reach w pref s" "\<forall>t. tPoint s t = Outside"
  shows "s = start"
proof -
  note d = consistentD [OF reach_consistent [OF assms(1)]]
  have "tOwner s l = None" for l
  proof (cases "tOwner s l")
    case (Some t)
    then show ?thesis using d(1) [of l t] assms(2) by simp
  qed simp
  moreover have "tReaders s h = {}" for h using d(2) [of _ h] assms(2) by auto
  moreover have "tPoint s = (\<lambda>t. Outside)" using assms(2) by auto
  ultimately show ?thesis by (cases s) (auto simp: start_def)
qed

section \<open>An instance\<close>

text \<open>
  Two handles on one file, opened with two spellings of its path: thread 0 has a transaction of handle
  0, thread 1 is on its way into one of handle 1 and waits for the lock of the path.
\<close>

definition two_handles :: world where
  "two_handles = \<lparr>wPath = \<lambda>h. if h = 0 then [47, 97] else [47, 46, 47, 97], wFile = \<lambda>h. 0, wUnix = True\<rparr>"

definition two_moves :: "(thread \<times> point) list" where
  "two_moves = [(0, BeginTx 0), (0, BeginCheck 0), (1, BeginTx 1), (0, BeginMu 0), (0, BeginOpen 0),
     (1, BeginCheck 1), (0, BeginPath 0), (0, BeginTry 0), (0, BeginFile 0), (1, BeginMu 1), (1, BeginOpen 1),
     (0, BeginLoad 0), (0, BeginDone 0), (1, BeginPath 1), (0, InTx 0)]"

lemma call_points [simp]: "BeginTx h \<in> calls" by (simp add: calls_def)

lemma two_reach:
  "\<exists>s. reach two_handles pref s \<and> tPoint s 0 = InTx 0 \<and> tPoint s 1 = BeginPath 1 \<and>
     (\<nexists>s'. step two_handles pref 1 s s')"
proof -
  have "\<exists>s. play two_handles two_moves start = Some s \<and> tPoint s 0 = InTx 0 \<and> tPoint s 1 = BeginPath 1 \<and>
      tOwner s (acquireProcessWriteLock two_handles 1) \<noteq> None"
    by (simp add: two_moves_def two_handles_def start_def lock_free_def acquireProcessWriteLock_def
      path_clean_def)
  then obtain s where s: "play two_handles two_moves start = Some s" "tPoint s 0 = InTx 0"
    "tPoint s 1 = BeginPath 1" "tOwner s (acquireProcessWriteLock two_handles 1) \<noteq> None" by blast
  have "(\<nexists>s'. step two_handles pref 1 s s')"
    using s(3,4) by (auto simp: lock_free_def elim: step.cases)
  then show ?thesis using play_reach [OF s(1) reach.intros(1)] s(2,3) by blast
qed

theorem transactions_exclusive_witness:
  "\<exists>s. reach two_handles True s \<and> in_tx (tPoint s 0) 0 \<and> \<not> in_tx (tPoint s 1) 1"
proof -
  obtain s where s: "reach two_handles True s" "tPoint s 0 = InTx 0" using two_reach [of True] by blast
  have t: "in_tx (tPoint s 0) 0" using s(2) by (simp add: in_tx_def)
  have "\<not> in_tx (tPoint s 1) 1"
    using transactions_exclusive [OF s(1) t, of 1 1] by (auto simp: two_handles_def)
  then show ?thesis using s(1) t by blast
qed

end
