(* ===== verification/Goroutines.thy ===== *)
theory Goroutines
  imports Locks
begin

text \<open>
  Goroutines: the threads of \<open>Locks\<close> (calls and open transactions) belong to goroutines, which do one
  thing at a time. A transaction waits while its goroutine makes another call. The lemmas show when
  the locks lead to a deadlock: never as long as goroutines with an open transaction only read through
  its container, as the tool does, but with other calls a goroutine blocks itself, or two block each
  other.
\<close>

section \<open>Turns\<close>

type_synonym goroutine = nat

text \<open>Nothing is under way: no call, or a transaction that is only open.\<close>

definition idle :: "point \<Rightarrow> bool" where
  "idle p \<longleftrightarrow> p = Outside \<or> (\<exists>h. p = InTx h)"

text \<open>The goroutine of \<open>t\<close> does nothing else at the moment.\<close>

definition in_order :: "(thread \<Rightarrow> goroutine) \<Rightarrow> threads \<Rightarrow> thread \<Rightarrow> bool" where
  "in_order g s t \<longleftrightarrow> (\<forall>u. u \<noteq> t \<longrightarrow> g u = g t \<longrightarrow> idle (tPoint s u))"

text \<open>
  What a careful goroutine calls inside a transaction: \<^verbatim>\<open>List\<close>, \<^verbatim>\<open>Verify\<close>, \<^verbatim>\<open>Stat\<close>, \<^verbatim>\<open>OpenReader\<close> and \<^verbatim>\<open>Extract\<close> of
  the same container (\<^verbatim>\<open>runReplaceText\<close> calls \<^verbatim>\<open>List\<close> and \<^verbatim>\<open>Extract\<close>), and \<^verbatim>\<open>Close\<close>, which is refused.
\<close>

definition careful :: "(thread \<Rightarrow> goroutine) \<Rightarrow> threads \<Rightarrow> thread \<Rightarrow> point \<Rightarrow> bool" where
  "careful g s t b \<longleftrightarrow> (\<forall>u h. g u = g t \<longrightarrow> tPoint s u = InTx h \<longrightarrow> b \<in> {ListMu h, StatMu h, CloseTry h})"

text \<open>A step of a thread when it is its turn; with \<open>disc\<close>, new calls are careful.\<close>

definition turn :: "world \<Rightarrow> bool \<Rightarrow> bool \<Rightarrow> (thread \<Rightarrow> goroutine) \<Rightarrow> thread \<Rightarrow> threads \<Rightarrow> threads \<Rightarrow> bool" where
  "turn w pref disc g t s s' \<longleftrightarrow> step w pref t s s' \<and> in_order g s t \<and>
     (disc \<longrightarrow> tPoint s t = Outside \<longrightarrow> careful g s t (tPoint s' t))"

inductive turns :: "world \<Rightarrow> bool \<Rightarrow> bool \<Rightarrow> (thread \<Rightarrow> goroutine) \<Rightarrow> threads \<Rightarrow> bool" for w pref disc g where
  begin_turns: "turns w pref disc g start"
| next_turn: "turns w pref disc g s \<Longrightarrow> turn w pref disc g t s s' \<Longrightarrow> turns w pref disc g s'"

lemma turns_reach: "turns w pref disc g s \<Longrightarrow> reach w pref s"
  by (induction rule: turns.induct) (auto simp: turn_def intro: reach.intros)

lemma step_others: "step w pref t s s' \<Longrightarrow> u \<noteq> t \<Longrightarrow> tPoint s' u = tPoint s u"
  by (induction rule: step.induct) simp_all

section \<open>One thing at a time\<close>

text \<open>Of two threads of a goroutine one is idle, and beside an open transaction there are only careful calls.\<close>

definition beside :: "handle \<Rightarrow> point set" where
  "beside h = {Outside, ListMu h, ListDone h, StatMu h, StatDone h, CloseTry h}"

definition sequential :: "(thread \<Rightarrow> goroutine) \<Rightarrow> threads \<Rightarrow> bool" where
  "sequential g s \<longleftrightarrow>
     (\<forall>t u. t \<noteq> u \<longrightarrow> g t = g u \<longrightarrow> (idle (tPoint s t) \<or> idle (tPoint s u)) \<and>
        (\<forall>h. tPoint s u = InTx h \<longrightarrow> tPoint s t \<in> beside h))"

text \<open>A careful call stays beside the transaction; \<^verbatim>\<open>Close\<close> does not get past \<^verbatim>\<open>TryLock\<close>.\<close>

lemma beside_step:
  assumes "step w pref t s s'" "tPoint s t \<in> beside h" "tPoint s t \<noteq> Outside" "tOwner s (TxMu h) \<noteq> None"
  shows "tPoint s' t \<in> beside h"
  using assms by (cases rule: step.cases) (auto simp: beside_def lock_free_def)

text \<open>A transaction is opened by \<^verbatim>\<open>Begin\<close> only.\<close>

lemma opened_from: "step w pref t s s' \<Longrightarrow> tPoint s' t = InTx h \<Longrightarrow> tPoint s t = BeginDone h"
  by (erule step.cases; cases "tPoint s t"; auto simp: calls_def split: if_splits)

lemma turn_sequential:
  assumes tn: "turn w pref True g t s s'" and sq: "sequential g s" and cs: "consistent w s"
  shows "sequential g s'"
proof -
  have st: "step w pref t s s'" and io: "in_order g s t"
    and ca: "tPoint s t = Outside \<Longrightarrow> careful g s t (tPoint s' t)"
    using tn by (auto simp: turn_def)
  note same = step_others [OF st]
  have idle_others: "idle (tPoint s' u)" if "u \<noteq> t" "g u = g t" for u
    using io that same by (simp add: in_order_def)
  have mine: "tPoint s' t \<in> beside h" if u: "u \<noteq> t" "g u = g t" "tPoint s u = InTx h" for u h
  proof (cases "tPoint s t = Outside")
    case True
    then show ?thesis using ca u unfolding careful_def beside_def by blast
  next
    case False
    have "tPoint s t \<in> beside h" using sq u unfolding sequential_def by metis
    moreover have "tOwner s (TxMu h) = Some u" using consistentD(1) [OF cs, of "TxMu h" u] u(3) by simp
    ultimately show ?thesis using beside_step [OF st _ False] by simp
  qed
  have others: "tPoint s u \<in> beside h" if u: "u \<noteq> t" "g u = g t" "tPoint s' t = InTx h" for u h
  proof -
    have t: "tPoint s t = BeginDone h" using opened_from [OF st u(3)] .
    have "tPoint s u \<noteq> InTx k" for k
    proof
      assume "tPoint s u = InTx k"
      then have "tPoint s t \<in> beside k" using sq u(1,2) unfolding sequential_def by metis
      then show False using t by (simp add: beside_def)
    qed
    then have "tPoint s u = Outside" using io u by (auto simp: in_order_def idle_def)
    then show ?thesis by (simp add: beside_def)
  qed
  show ?thesis
    unfolding sequential_def
  proof (intro allI impI)
    fix v u assume vu: "v \<noteq> u" "g v = g u"
    consider "v = t" | "u = t" | "v \<noteq> t" "u \<noteq> t" by blast
    then show "(idle (tPoint s' v) \<or> idle (tPoint s' u)) \<and> (\<forall>h. tPoint s' u = InTx h \<longrightarrow> tPoint s' v \<in> beside h)"
    proof cases
      case 1
      then show ?thesis using idle_others [of u] mine [of u] same [of u] vu by auto
    next
      case 2
      then show ?thesis using idle_others [of v] others [of v] same [of v] vu by auto
    next
      case 3
      then show ?thesis using sq vu same by (auto simp: sequential_def)
    qed
  qed
qed

lemma turns_sequential: "turns w pref True g s \<Longrightarrow> sequential g s"
proof (induction rule: turns.induct)
  case begin_turns
  then show ?case by (simp add: sequential_def start_def idle_def beside_def)
next
  case (next_turn s t s')
  then show ?case using turn_sequential reach_consistent [OF turns_reach] by blast
qed

section \<open>Progress\<close>

text \<open>A thread that is in a call, or a transaction that is open, can make a step.\<close>

definition can_turn :: "world \<Rightarrow> bool \<Rightarrow> (thread \<Rightarrow> goroutine) \<Rightarrow> threads \<Rightarrow> thread \<Rightarrow> bool" where
  "can_turn w pref g s t \<longleftrightarrow> tPoint s t \<noteq> Outside \<and> (\<exists>s'. turn w pref True g t s s')"

lemma goto_nonempty: "code w p = Goto A \<Longrightarrow> A \<noteq> {}"
  by (cases p) (auto simp: calls_def split: if_splits)

text \<open>Where a thread can be stuck: at a lock that another one has.\<close>

lemma stuck_cases:
  assumes "\<nexists>s'. step w pref t s s'"
  obtains (excl) l b where "code w (tPoint s t) = Acquire l b" "\<not> lock_free s l"
  | (shared) h b where "code w (tPoint s t) = AcquireShared h b"
      "tOwner s (Mu h) \<noteq> None \<or> pref \<and> writer_waits w s h"
proof -
  have no: "\<not> step w pref t s s'" for s' using assms by blast
  show thesis
  proof (cases "code w (tPoint s t)")
    case (Goto A)
    then obtain b where "b \<in> A" using goto_nonempty by blast
    then show ?thesis using step.goto [OF Goto, of b pref] no by blast
  next
    case (Acquire l b)
    then show ?thesis using step.acquire [OF Acquire, of pref] no excl by blast
  next
    case (Release l b)
    then show ?thesis using step.release [OF Release, of pref] no by blast
  next
    case (AcquireShared h b)
    then show ?thesis using step.shared [OF AcquireShared, of pref] no shared by blast
  next
    case (ReleaseShared h b)
    then show ?thesis using step.unshared [OF ReleaseShared, of pref] no by blast
  next
    case (TryAcquire l b c)
    then show ?thesis
      using step.try_free [OF TryAcquire, of pref] step.try_taken [OF TryAcquire, of pref] no by blast
  qed
qed

definition waiting :: "world \<Rightarrow> point \<Rightarrow> bool" where
  "waiting w p \<longleftrightarrow> (\<exists>l b. code w p = Acquire l b) \<or> (\<exists>h b. code w p = AcquireShared h b)"

lemma waited_lock:
  "code w p = Acquire l b \<Longrightarrow>
     \<exists>h. l = TxMu h \<or> l = Mu h \<or> p \<in> {BeginPath h, BeginFile h, FixPath h, FixFile h}"
  by (cases p) (auto split: if_splits)

text \<open>What a waiting thread holds, by the lock it waits for.\<close>

lemma waiting_holds:
  assumes "waiting w p"
  shows "Mu h \<in> held w p \<Longrightarrow> TxMu h \<in> held w p \<and> p \<in> {BeginPath h, BeginFile h}"
    "FileLock n \<in> held w p \<Longrightarrow> \<exists>h. p \<in> {CommitRead h, CommitPublish h}"
    "PathLock k \<in> held w p \<Longrightarrow> \<exists>h. p \<in> {BeginFile h, FixFile h, CommitRead h, CommitPublish h}"
    "TxMu h \<in> held w p \<Longrightarrow>
       p \<in> {BeginMu h, BeginPath h, BeginFile h, CommitRead h, CommitPublish h, CloseMu h}"
    "shared_by p = {}"
  using assms
  by (cases p; auto simp: waiting_def acquireProcessWriteLock_def file_locks_def split: if_splits)+

text \<open>
  Why there is no deadlock. If nobody could go on, everybody in a call would wait, and every open
  transaction would belong to a goroutine that waits in a careful call. A committing thread waits for
  \<^verbatim>\<open>mu\<close> of its container, and so does a careful call; only a thread in \<^verbatim>\<open>Begin\<close> of the same container could
  hold it while it waits, but that one would hold \<^verbatim>\<open>txMu\<close> as well, which the transaction has. So there is
  no open transaction and nobody waits in a commit; then nobody waits for the lock of a file, then for
  that of a path, then for \<^verbatim>\<open>mu\<close>, and then for \<^verbatim>\<open>txMu\<close>.
\<close>

definition stuck :: "world \<Rightarrow> bool \<Rightarrow> (thread \<Rightarrow> goroutine) \<Rightarrow> threads \<Rightarrow> bool" where
  "stuck w pref g s \<longleftrightarrow> turns w pref True g s \<and> (\<nexists>u. can_turn w pref g s u)"

lemma stuck_consistent:
  "stuck w pref g s \<Longrightarrow> consistent w s" "stuck w pref g s \<Longrightarrow> reach w pref s"
  unfolding stuck_def using reach_consistent turns_reach by blast+

lemma stuck_still:
  assumes st: "stuck w pref g s" and u: "\<not> idle (tPoint s u)"
  shows "\<nexists>s'. step w pref u s s'"
proof -
  have "sequential g s" using st turns_sequential by (auto simp: stuck_def)
  then have "in_order g s u" using u unfolding sequential_def in_order_def by metis
  moreover have "tPoint s u \<noteq> Outside" using u by (auto simp: idle_def)
  ultimately show ?thesis using st by (auto simp: stuck_def can_turn_def turn_def)
qed

lemma stuck_waits:
  assumes "stuck w pref g s" "\<not> idle (tPoint s u)"
  shows "waiting w (tPoint s u)"
  by (rule stuck_cases [OF stuck_still [OF assms]]) (auto simp: waiting_def)

lemma not_idle: "code w p = Acquire l b \<Longrightarrow> \<not> idle p" "code w p = AcquireShared h b \<Longrightarrow> \<not> idle p"
  by (auto simp: idle_def)

lemma stuck_owner:
  assumes st: "stuck w pref g s" and u: "tOwner s l = Some u"
  shows "l \<in> held w (tPoint s u)" "waiting w (tPoint s u) \<or> (\<exists>h. tPoint s u = InTx h)"
proof -
  show l: "l \<in> held w (tPoint s u)" using consistentD(1) [OF stuck_consistent(1) [OF st]] u by blast
  then show "waiting w (tPoint s u) \<or> (\<exists>h. tPoint s u = InTx h)"
    using stuck_waits [OF st, of u] by (cases "tPoint s u = Outside") (auto simp: idle_def)
qed

lemma stuck_readers:
  assumes st: "stuck w pref g s"
  shows "tReaders s h = {}"
proof -
  have "u \<notin> tReaders s h" for u
    using consistentD(2) [OF stuck_consistent(1) [OF st], of u h] stuck_waits [OF st, of u]
      waiting_holds(5) [of w "tPoint s u"] by (cases "idle (tPoint s u)") (auto simp: idle_def)
  then show ?thesis by blast
qed

lemma stuck_taken:
  assumes st: "stuck w pref g s"
  shows "code w (tPoint s v) = Acquire l b \<Longrightarrow> \<exists>u. tOwner s l = Some u"
    "code w (tPoint s v) = AcquireShared h b \<Longrightarrow> \<exists>u. tOwner s (Mu h) = Some u"
proof -
  have excl: "\<exists>u. tOwner s l = Some u" if c: "code w (tPoint s v) = Acquire l b" for v l b
  proof -
    from stuck_cases [OF stuck_still [OF st not_idle(1) [OF c]]] c have "\<not> lock_free s l" by auto
    then show ?thesis by (cases l) (auto simp: lock_free_def stuck_readers [OF st])
  qed
  show "code w (tPoint s v) = Acquire l b \<Longrightarrow> \<exists>u. tOwner s l = Some u" by (rule excl)
  show "\<exists>u. tOwner s (Mu h) = Some u" if c: "code w (tPoint s v) = AcquireShared h b"
  proof -
    from stuck_cases [OF stuck_still [OF st not_idle(2) [OF c]]] c
    have "tOwner s (Mu h) \<noteq> None \<or> writer_waits w s h" by auto
    then show ?thesis using excl by (auto simp: writer_waits_def)
  qed
qed

lemma stuck_mu:
  assumes st: "stuck w pref g s" and u: "tOwner s (Mu h) = Some u"
  shows "TxMu h \<in> held w (tPoint s u) \<and> tPoint s u \<in> {BeginPath h, BeginFile h}"
proof -
  have "Mu h \<in> held w (tPoint s u)" "waiting w (tPoint s u)"
    using stuck_owner [OF st u] by (auto simp: acquireProcessWriteLock_def file_locks_def split: if_splits)
  then show ?thesis using waiting_holds(1) by blast
qed

text \<open>Who has \<^verbatim>\<open>txMu\<close> waits neither for \<^verbatim>\<open>mu\<close> nor inside a call of the transaction.\<close>

lemma stuck_tx_no_mu:
  assumes st: "stuck w pref g s" and v: "TxMu h \<in> held w (tPoint s v)" "tPoint s v \<notin> {BeginPath h, BeginFile h}"
  shows "tOwner s (Mu h) = None"
proof (cases "tOwner s (Mu h)")
  case (Some u)
  then have "u = v" using one_owner [OF stuck_consistent(2) [OF st]] stuck_mu [OF st Some] v(1) by blast
  then show ?thesis using stuck_mu [OF st Some] v(2) by simp
qed simp

lemma stuck_no_commit:
  assumes st: "stuck w pref g s"
  shows "tPoint s v \<notin> {CommitRead h, CommitPublish h}"
proof
  assume p: "tPoint s v \<in> {CommitRead h, CommitPublish h}"
  then have "\<exists>u. tOwner s (Mu h) = Some u"
    using stuck_taken(1) [OF st, of v "Mu h"] stuck_taken(2) [OF st, of v h] by fastforce
  moreover have "tOwner s (Mu h) = None" using p by (intro stuck_tx_no_mu [OF st, of _ v]) auto
  ultimately show False by simp
qed

lemma stuck_no_tx:
  assumes st: "stuck w pref g s"
  shows "tPoint s v \<noteq> InTx h"
proof
  assume p: "tPoint s v = InTx h"
  have "\<exists>s'. step w pref v s s'" using step.goto [of w s v _ "ReleaseFile h" pref] p by fastforce
  then have "\<not> in_order g s v" using st p by (auto simp: stuck_def can_turn_def turn_def)
  then obtain u where u: "u \<noteq> v" "g u = g v" "\<not> idle (tPoint s u)" by (auto simp: in_order_def)
  have "sequential g s" using st turns_sequential by (auto simp: stuck_def)
  then have "tPoint s u \<in> beside h" using u(1,2) p unfolding sequential_def by blast
  then have "tPoint s u \<in> {ListMu h, StatMu h}"
    using stuck_waits [OF st u(3)] by (auto simp: beside_def waiting_def)
  then have "\<exists>x. tOwner s (Mu h) = Some x"
    using stuck_taken(1) [OF st, of u "Mu h"] stuck_taken(2) [OF st, of u h] by fastforce
  moreover have "tOwner s (Mu h) = None" using p by (intro stuck_tx_no_mu [OF st, of _ v]) auto
  ultimately show False by simp
qed

lemma stuck_owner_waits: "stuck w pref g s \<Longrightarrow> tOwner s l = Some u \<Longrightarrow> waiting w (tPoint s u)"
  using stuck_owner(2) stuck_no_tx by metis

text \<open>Nobody waits for a file, nor for a path.\<close>

lemma stuck_no_file:
  assumes st: "stuck w pref g s"
  shows "tPoint s v \<notin> {BeginFile h, FixFile h}"
proof
  assume p: "tPoint s v \<in> {BeginFile h, FixFile h}"
  then have "\<not> idle (tPoint s v)" by (auto simp: idle_def)
  from stuck_waits [OF st this] have "\<exists>b. code w (tPoint s v) = Acquire (FileLock (wFile w h)) b"
    using p by (auto simp: waiting_def split: if_splits)
  then obtain u where u: "tOwner s (FileLock (wFile w h)) = Some u" using stuck_taken(1) [OF st] by blast
  from stuck_owner(1) [OF st u] stuck_owner_waits [OF st u] show False
    using waiting_holds(2) stuck_no_commit [OF st] by blast
qed

lemma stuck_no_path:
  assumes st: "stuck w pref g s"
  shows "tPoint s v \<notin> {BeginPath h, FixPath h}"
proof
  assume "tPoint s v \<in> {BeginPath h, FixPath h}"
  then have "\<exists>b. code w (tPoint s v) = Acquire (acquireProcessWriteLock w h) b" by auto
  then obtain u where u: "tOwner s (acquireProcessWriteLock w h) = Some u" using stuck_taken(1) [OF st] by blast
  from stuck_owner(1) [OF st u] stuck_owner_waits [OF st u] show False
    using waiting_holds(3) stuck_no_commit [OF st] stuck_no_file [OF st]
    unfolding acquireProcessWriteLock_def by blast
qed

text \<open>Nobody waits for \<open>mu\<close>, and then nobody for \<open>txMu\<close>.\<close>

lemma stuck_no_mutex:
  assumes st: "stuck w pref g s"
  shows "tOwner s (Mu h) = None" "tOwner s (TxMu h) = None"
proof -
  show mu: "tOwner s (Mu h) = None" for h
    using stuck_mu [OF st, of h] stuck_no_path [OF st] stuck_no_file [OF st] by (cases "tOwner s (Mu h)") auto
  show "tOwner s (TxMu h) = None"
  proof (cases "tOwner s (TxMu h)")
    case (Some u)
    then have "tPoint s u \<in> {BeginMu h, BeginPath h, BeginFile h, CommitRead h, CommitPublish h, CloseMu h}"
      using stuck_owner(1) [OF st Some] stuck_owner_waits [OF st Some] waiting_holds(4) by blast
    then have "\<exists>b. code w (tPoint s u) = Acquire (Mu h) b"
      using stuck_no_path [OF st, of u h] stuck_no_file [OF st, of u h] stuck_no_commit [OF st, of u h] by auto
    then show ?thesis using stuck_taken(1) [OF st] mu by fastforce
  qed simp
qed

text \<open>
  C15: no deadlock for careful goroutines. Goroutines run any calls on any handles, one at a time each,
  with transactions open across calls; inside a transaction they only read through its container. Then,
  whatever is under way, some call can go on, or some goroutine that is in no call can end its
  transaction, whether writers that wait for \<^verbatim>\<open>mu\<close> keep new readers out or not.
\<close>

theorem progress:
  assumes r: "turns w pref True g s" and busy: "tPoint s t \<noteq> Outside"
  shows "\<exists>u. can_turn w pref g s u"
proof (rule ccontr)
  assume "\<nexists>u. can_turn w pref g s u"
  then have st: "stuck w pref g s" using r by (simp add: stuck_def)
  have "\<not> idle (tPoint s t)" using busy stuck_no_tx [OF st] by (auto simp: idle_def)
  then consider l b where "code w (tPoint s t) = Acquire l b" | h b where "code w (tPoint s t) = AcquireShared h b"
    using stuck_waits [OF st] unfolding waiting_def by blast
  then show False
  proof cases
    case (1 l b)
    then obtain u where "tOwner s l = Some u" using stuck_taken(1) [OF st] by blast
    then show False
      using waited_lock [OF 1] stuck_no_path [OF st, of t] stuck_no_file [OF st, of t] stuck_no_mutex [OF st]
      by fastforce
  next
    case (2 h b)
    then show False using stuck_taken(2) [OF st] stuck_no_mutex(1) [OF st] by fastforce
  qed
qed

section \<open>Runs that are computed\<close>

text \<open>Moves of the first \<open>n\<close> threads, with the order of the goroutines and, if asked, their care checked.\<close>

fun play_turns :: "bool \<Rightarrow> nat \<Rightarrow> world \<Rightarrow> (thread \<Rightarrow> goroutine) \<Rightarrow> (thread \<times> point) list \<Rightarrow> threads \<Rightarrow> threads option" where
  "play_turns disc n w g [] s = Some s"
| "play_turns disc n w g ((t, b) # ms) s =
     (if t < n \<and> list_all (\<lambda>u. g u = g t \<longrightarrow> (u \<noteq> t \<longrightarrow> idle (tPoint s u)) \<and>
          (disc \<longrightarrow> tPoint s t = Outside \<longrightarrow>
             (case tPoint s u of InTx h \<Rightarrow> b \<in> {ListMu h, StatMu h, CloseTry h} | _ \<Rightarrow> True))) [0..<n]
      then Option.bind (move w (t, b) s) (play_turns disc n w g ms) else None)"

lemma move_of: "move w (t, b) s = Some s' \<Longrightarrow> step w pref t s s'"
  by (cases "code w (tPoint s t)") (auto simp: Let_def split: if_splits intro: step.intros)

lemma move_to: "move w (t, b) s = Some s' \<Longrightarrow> tPoint s' t = b"
  by (cases "code w (tPoint s t)") (auto simp: Let_def split: if_splits)

lemma play_turns_reach:
  assumes "play_turns disc n w g ms s = Some s'" "turns w pref disc g s" "\<forall>u \<ge> n. tPoint s u = Outside"
  shows "turns w pref disc g s' \<and> (\<forall>u \<ge> n. tPoint s' u = Outside)"
  using assms
proof (induction ms arbitrary: s)
  case (Cons m ms)
  obtain t b where m: "m = (t, b)" by fastforce
  obtain s1 where t: "t < n"
    and g: "\<And>u. u < n \<Longrightarrow> g u = g t \<Longrightarrow> (u \<noteq> t \<longrightarrow> idle (tPoint s u)) \<and> (disc \<longrightarrow> tPoint s t = Outside \<longrightarrow>
             (case tPoint s u of InTx h \<Rightarrow> b \<in> {ListMu h, StatMu h, CloseTry h} | _ \<Rightarrow> True))"
    and s1: "move w (t, b) s = Some s1" "play_turns disc n w g ms s1 = Some s'"
    using Cons.prems(1) m
    by (auto simp: bind_eq_Some_conv list_all_iff simp del: move.simps split: if_splits)
  have st: "step w pref t s s1" by (rule move_of [OF s1(1)])
  have late: "tPoint s u = Outside" if "\<not> u < n" for u using that Cons.prems(3) by simp
  have "in_order g s t"
    unfolding in_order_def using g late by (metis idle_def)
  moreover have "careful g s t (tPoint s1 t)" if "disc" "tPoint s t = Outside"
    unfolding careful_def move_to [OF s1(1)]
  proof (intro allI impI)
    fix u h assume u: "g u = g t" "tPoint s u = InTx h"
    then have "u < n" using late [of u] by auto
    then show "b \<in> {ListMu h, StatMu h, CloseTry h}" using g [of u] u that by simp
  qed
  ultimately have "turns w pref disc g s1"
    using st by (intro turns.next_turn [OF Cons.prems(2), of t]) (simp add: turn_def)
  moreover have "\<forall>u \<ge> n. tPoint s1 u = Outside" using step_others [OF st] Cons.prems(3) t by auto
  ultimately show ?case using Cons.IH [OF s1(2)] by blast
qed simp

section \<open>Deadlocks\<close>

definition begin_moves :: "thread \<Rightarrow> handle \<Rightarrow> (thread \<times> point) list" where
  "begin_moves t h = map (Pair t) [BeginTx h, BeginCheck h, BeginMu h, BeginOpen h, BeginPath h, BeginTry h,
     BeginFile h, BeginLoad h, BeginDone h, InTx h]"

lemma start_turns: "turns w pref disc g start" "tPoint start u = Outside"
  by (simp_all add: turns.intros(1)) (simp add: start_def)

text \<open>A goroutine begins a second transaction.\<close>

lemma begin_twice:
  "\<exists>s. turns w pref False (\<lambda>t. 0) s \<and> tPoint s 0 = InTx h \<and> tPoint s 1 = BeginTx h \<and>
     tOwner s (TxMu h) = Some 0"
proof -
  have "\<exists>s. play_turns False 2 w (\<lambda>t. 0) (begin_moves 0 h @ [(1, BeginTx h)]) start = Some s \<and>
      tPoint s 0 = InTx h \<and> tPoint s 1 = BeginTx h \<and> tOwner s (TxMu h) = Some 0"
    by (simp add: begin_moves_def start_def lock_free_def acquireProcessWriteLock_def idle_def calls_def upt_rec)
  then show ?thesis using play_turns_reach [of False 2 w "\<lambda>t. 0" _ start, OF _ start_turns(1)] start_turns(2) by blast
qed

text \<open>
  A goroutine that has a transaction looks at a second handle on the same file while another goroutine
  is beginning a transaction of that handle.
\<close>

definition two_goroutines :: "thread \<Rightarrow> goroutine" where
  "two_goroutines t = (if t = 1 then 1 else 0)"

lemma look_aside:
  assumes "h \<noteq> k" "path_clean (wPath w h) = path_clean (wPath w k)"
  shows "\<exists>s. turns w pref False two_goroutines s \<and> tPoint s 0 = InTx h \<and> tPoint s 1 = BeginPath k \<and>
     tPoint s 2 = StatMu k \<and> tOwner s (Mu k) = Some 1 \<and> tOwner s (acquireProcessWriteLock w k) = Some 0"
proof -
  have "\<exists>s. play_turns False 3 w two_goroutines (begin_moves 0 h @ take 5 (begin_moves 1 k) @ [(2, StatMu k)]) start = Some s \<and>
      tPoint s 0 = InTx h \<and> tPoint s 1 = BeginPath k \<and>
      tPoint s 2 = StatMu k \<and> tOwner s (Mu k) = Some 1 \<and> tOwner s (acquireProcessWriteLock w k) = Some 0"
    using assms
    by (simp add: begin_moves_def start_def lock_free_def acquireProcessWriteLock_def idle_def calls_def upt_rec
        two_goroutines_def)
  then show ?thesis
    using play_turns_reach [of False 3 w two_goroutines _ start, OF _ start_turns(1)] start_turns(2) by blast
qed

text \<open>
  C33: deadlocks of goroutines that are not careful. One that begins a second transaction on a handle
  blocks itself; and one that has a transaction and looks at an entry through a second handle on the
  same path blocks another that is beginning a transaction there, and itself. In both states no thread
  makes another step, ever.
\<close>

theorem careless_deadlock:
  "(\<exists>s. turns w pref False (\<lambda>t. 0) s \<and> tPoint s 0 = InTx h \<and> tPoint s 1 = BeginTx h \<and>
      (\<nexists>t s'. turn w pref False (\<lambda>t. 0) t s s')) \<and>
   (h \<noteq> k \<longrightarrow> path_clean (wPath w h) = path_clean (wPath w k) \<longrightarrow>
     (\<exists>s. turns w pref False two_goroutines s \<and> tPoint s 0 = InTx h \<and> tPoint s 1 = BeginPath k \<and>
        tPoint s 2 = StatMu k \<and> (\<nexists>t s'. turn w pref False two_goroutines t s s')))"
proof (intro conjI impI)
  obtain s where s: "turns w pref False (\<lambda>t. 0) s" "tPoint s 0 = InTx h" "tPoint s 1 = BeginTx h"
    "tOwner s (TxMu h) = Some 0" using begin_twice by blast
  have "\<not> turn w pref False (\<lambda>t. 0) t s s'" for t s'
  proof (cases "t = 1")
    case True
    then show ?thesis using s(3,4) by (auto simp: turn_def lock_free_def elim: step.cases)
  next
    case False
    then have "\<not> in_order (\<lambda>t. 0) s t" using s(3) by (auto simp: in_order_def idle_def intro!: exI [of _ 1])
    then show ?thesis by (simp add: turn_def)
  qed
  then show "\<exists>s. turns w pref False (\<lambda>t. 0) s \<and> tPoint s 0 = InTx h \<and> tPoint s 1 = BeginTx h \<and>
      (\<nexists>t s'. turn w pref False (\<lambda>t. 0) t s s')" using s(1-3) by blast
next
  assume a: "h \<noteq> k" "path_clean (wPath w h) = path_clean (wPath w k)"
  obtain s where s: "turns w pref False two_goroutines s" "tPoint s 0 = InTx h" "tPoint s 1 = BeginPath k"
     "tPoint s 2 = StatMu k" "tOwner s (Mu k) = Some 1" "tOwner s (acquireProcessWriteLock w k) = Some 0"
    using look_aside [OF a] by blast
  have "\<not> turn w pref False two_goroutines t s s'" for t s'
  proof -
    consider "t = 1" | "t = 2" | "t \<noteq> 1" "t \<noteq> 2" by blast
    then show ?thesis
    proof cases
      case 1
      then show ?thesis using s(3,6) by (auto simp: turn_def lock_free_def elim: step.cases)
    next
      case 2
      then show ?thesis using s(4,5) by (auto simp: turn_def elim: step.cases)
    next
      case 3
      then have "\<not> in_order two_goroutines s t"
        using s(4) by (auto simp: in_order_def idle_def two_goroutines_def intro!: exI [of _ 2])
      then show ?thesis by (simp add: turn_def)
    qed
  qed
  then show "\<exists>s. turns w pref False two_goroutines s \<and> tPoint s 0 = InTx h \<and> tPoint s 1 = BeginPath k \<and>
        tPoint s 2 = StatMu k \<and> (\<nexists>t s'. turn w pref False two_goroutines t s s')" using s(1-4) by blast
qed

theorem careless_deadlock_witness:
  "\<exists>s. turns two_handles True False two_goroutines s \<and> tPoint s 0 = InTx 0 \<and>
     (\<nexists>t s'. turn two_handles True False two_goroutines t s s')"
proof -
  have "path_clean (wPath two_handles 0) = path_clean (wPath two_handles 1)"
    by (simp add: two_handles_def path_clean_def)
  then show ?thesis using careless_deadlock [of two_handles True 0 1] by auto
qed

text \<open>
  A careful run: goroutine 0 has a transaction of handle 0 and looks at an entry, goroutine 1 waits for
  the lock of the path.
\<close>

lemma careful_run:
  "\<exists>s. turns two_handles True True two_goroutines s \<and> tPoint s 0 = InTx 0 \<and> tPoint s 1 = BeginPath 1 \<and>
     tPoint s 2 = StatMu 0 \<and> tOwner s (acquireProcessWriteLock two_handles 1) = Some 0"
proof -
  have "\<exists>s. play_turns True 3 two_handles two_goroutines
        (begin_moves 0 0 @ take 5 (begin_moves 1 1) @ [(2, StatMu 0)]) start = Some s \<and>
      tPoint s 0 = InTx 0 \<and> tPoint s 1 = BeginPath 1 \<and> tPoint s 2 = StatMu 0 \<and>
      tOwner s (acquireProcessWriteLock two_handles 1) = Some 0"
    by (simp add: begin_moves_def start_def lock_free_def acquireProcessWriteLock_def idle_def calls_def upt_rec
        two_goroutines_def two_handles_def path_clean_def)
  then show ?thesis
    using play_turns_reach [of True 3 two_handles two_goroutines _ start, OF _ start_turns(1)] start_turns(2) by blast
qed

theorem progress_witness:
  "\<exists>s u. turns two_handles True True two_goroutines s \<and> tPoint s 2 = StatMu 0 \<and>
     \<not> can_turn two_handles True two_goroutines s 1 \<and> can_turn two_handles True two_goroutines s u"
proof -
  obtain s where s: "turns two_handles True True two_goroutines s" "tPoint s 1 = BeginPath 1" "tPoint s 2 = StatMu 0"
    "tOwner s (acquireProcessWriteLock two_handles 1) = Some 0" using careful_run by blast
  have "\<not> can_turn two_handles True two_goroutines s 1"
    using s(2,4) by (auto simp: can_turn_def turn_def lock_free_def elim: step.cases)
  moreover obtain u where "can_turn two_handles True two_goroutines s u" using progress [OF s(1), of 1] s(2) by auto
  ultimately show ?thesis using s(1,3) by blast
qed

end
