(* ===== verification/MetaMany.thy ===== *)
theory MetaMany
  imports TxContract
begin

text \<open>
  \<^verbatim>\<open>Container.SetMetaMany\<close>: the metadata of many entries in one transaction, which is rolled back when
  nothing was changed. What it does to the table, the counts it reports, and what the file represents
  afterwards.
\<close>

section \<open>On the table\<close>

text \<open>The pairs are applied in the order in which the map of the call is visited.\<close>

fun meta_applied :: "(bytes \<times> bytes) list \<Rightarrow> store \<Rightarrow> store" where
  "meta_applied [] s = s"
| "meta_applied ((p, m) # ms) s =
     meta_applied ms
       (case normalize p of
          Inl _ \<Rightarrow> s
        | Inr q \<Rightarrow> (case s q of None \<Rightarrow> s | Some (data, old) \<Rightarrow> s(q \<mapsto> (data, m))))"

definition present :: "store \<Rightarrow> bytes \<times> bytes \<Rightarrow> bool" where
  "present s x \<longleftrightarrow> (\<exists>q. normalize (fst x) = Inr q \<and> s q \<noteq> None)"

lemma present_update: "s q \<noteq> None \<Longrightarrow> present (s(q \<mapsto> v)) = present s"
  by (auto simp: present_def fun_eq_iff)

text \<open>What a success reports is right; nothing but the table changes in any case.\<close>

lemma set_meta_many_outcome:
  assumes "tx_inv L lo f tx s" "set_meta_many ms ign u m tx = ((u', m', e), tx')"
  shows "tAppendOffset tx' = tAppendOffset tx \<and> tClosed tx' = tClosed tx \<and>
    (e = None \<longrightarrow> tx_inv L lo f tx' (meta_applied ms s) \<and> u' = u + length (filter (present s) ms) \<and>
       m' = m + length (filter (\<lambda>x. \<not> present s x) ms) \<and> (\<forall>x \<in> set ms. \<exists>q. normalize (fst x) = Inr q))"
  using assms
proof (induction ms arbitrary: u m tx s)
  case (Cons x ms)
  obtain p mt where x: "x = (p, mt)" by fastforce
  show ?case
  proof (cases "normalize p")
    case (Inl err)
    then show ?thesis using Cons.prems x by auto
  next
    case (Inr q)
    show ?thesis
    proof (cases "map_of (tEntries tx) q")
      case None
      then have s: "s q = None" using Cons.prems(1) refinesD(1) unfolding tx_inv_def by blast
      then show ?thesis
        using Cons.IH [of tx s u "m + 1"] Cons.prems x Inr None by (auto simp: present_def split: if_splits)
    next
      case (Some en)
      let ?tx = "tx\<lparr>tEntries := AList.update q (en\<lparr>Meta := mt\<rparr>) (tEntries tx)\<rparr>"
      obtain data where d: "s q = Some (data, Meta en)" "tx_inv L lo f ?tx (s(q \<mapsto> (data, mt)))"
        by (rule meta_inv [OF Cons.prems(1) Some])
      have pr: "present (s(q \<mapsto> (data, mt))) = present s" using d(1) by (intro present_update) simp
      have "present s x" using d(1) Inr x by (auto simp: present_def)
      then show ?thesis
        using Cons.IH [OF d(2), of "u + 1" m, unfolded pr] Cons.prems(2) x Inr Some d(1)
        by (auto simp del: fun_upd_apply)
    qed
  qed
qed simp

section \<open>As a transaction\<close>

text \<open>The code rolls back a change of nothing; the model of the run marks it with an error.\<close>

definition meta_unchanged :: error where "meta_unchanged = LibErr 6"

definition many_op ::
  "codec_lib \<times> (bytes \<times> bytes) list \<times> bool \<Rightarrow> Tx \<Rightarrow> disk \<Rightarrow> (unit result \<times> Tx \<times> disk) option" where
  "many_op p tx d =
     (case Tx_SetMetaMany (fst (snd p)) (snd (snd p)) tx of
        ((u, m, Some e), tx) \<Rightarrow> Some (Inl e, tx, d)
      | ((u, m, None), tx) \<Rightarrow> Some (if u = 0 then Inl meta_unchanged else Inr (), tx, d))"

definition many_effect :: "codec_lib \<times> (bytes \<times> bytes) list \<times> bool \<Rightarrow> store \<Rightarrow> store \<Rightarrow> bool" where
  "many_effect p s s' \<longleftrightarrow> s' = meta_applied (fst (snd p)) s"

lemma many_table:
  assumes "tx_inv L lo f tx s" "Tx_SetMetaMany ms ign tx = ((u, m, e), tx')"
  shows "tAppendOffset tx' = tAppendOffset tx \<and> tClosed tx' = tClosed tx \<and>
    (e = None \<longrightarrow> tx_inv L lo f tx' (meta_applied ms s) \<and> u = length (filter (present s) ms) \<and>
       m = length (filter (\<lambda>x. \<not> present s x) ms) \<and> (\<forall>x \<in> set ms. \<exists>q. normalize (fst x) = Inr q))"
  using set_meta_many_outcome [OF assms(1), of ms ign 0 0 u m e tx'] assms(2)
  by (auto simp: Tx_SetMetaMany_def split: if_splits)

interpretation many: tx_operation many_op fst "\<lambda>p. True" many_effect
proof
  show "\<exists>r. many_op p tx d = Some r" for p tx d
    by (auto simp: many_op_def split: prod.split option.split)
  fix p :: "codec_lib \<times> (bytes \<times> bytes) list \<times> bool" and lo and d :: disk and tx s u tx' and d' :: disk
  assume inv: "tx_inv (fst p) lo (content d) tx s"
  obtain a b e tx1 where t: "Tx_SetMetaMany (fst (snd p)) (snd (snd p)) tx = ((a, b, e), tx1)"
    by (metis surj_pair)
  note o = many_table [OF inv t]
  show "\<exists>s'. many_effect p s s' \<and> tx_inv (fst p) lo (content d') tx' s'"
    if "many_op p tx d = Some (Inr u, tx', d')"
    using that t o by (auto simp: many_op_def many_effect_def split: option.splits if_splits)
  show "same 0 (unat (tAppendOffset tx)) (content d) (content d') \<and>
      unat (tAppendOffset tx) \<le> unat (tAppendOffset tx') \<and> tClosed tx' = tClosed tx"
    if "many_op p tx d = Some (res, tx', d')" for res
    using that t o table_frame [OF inv] by (auto simp: many_op_def split: option.splits if_splits)
qed

lemma container_many:
  assumes "Container_SetMetaMany env ms ign c d = Some ((u, m, e), c', d')"
  shows "\<exists>res. run_tx env (many_op (L, ms, ign)) c d = Some (res, c', d') \<and>
    (res = Inr () \<longleftrightarrow> e = None \<and> u \<noteq> 0)"
proof -
  obtain br c1 d1 where b: "Begin c d = Some (br, c1, d1)"
    using assms by (auto simp: Container_SetMetaMany_def split: option.splits prod.splits)
  show ?thesis
  proof (cases br)
    case (Inl x)
    then show ?thesis using assms b by (auto simp: Container_SetMetaMany_def run_tx_def)
  next
    case (Inr tx)
    obtain a n x tx1 where t: "Tx_SetMetaMany ms ign tx = ((a, n, x), tx1)" by (metis surj_pair)
    obtain r tx2 c2 d2 where cm: "Commit env c1 tx1 d1 = (r, tx2, c2, d2)" by (metis surj_pair)
    show ?thesis
      using assms b Inr t cm
      by (cases x; cases r) (auto simp: Container_SetMetaMany_def run_tx_def many_op_def split: if_splits)
  qed
qed

text \<open>
  C17: \<^verbatim>\<open>Container.SetMetaMany\<close> is one transaction. A success reports how many of the paths given are
  there and how many are not; the file then represents the store with the metadata of those that are
  there replaced and every content kept, or, if none is, is the same file byte for byte. After an error
  the file represents the old store or, when the error came after the header was written, the new one.
\<close>

theorem set_meta_many_atomic:
  assumes rep: "represents L (content d) h bu es s" and c: "caches c h bu es"
    and fits: "run_fits env (many_op (L, ms, ign)) c d"
    and run: "Container_SetMetaMany env ms ign c d = Some ((u, m, e), c', d')"
    and len: "length (content d') < 2 ^ 63"
  shows "case e of
      None \<Rightarrow> u = length (filter (present s) ms) \<and> m = length (filter (\<lambda>x. \<not> present s x) ms) \<and>
        (if u = 0 then content d' = content d \<and> caches c' h bu es
         else \<exists>h' es'. represents L (content d') h' (mBuildTime env) es' (meta_applied ms s) \<and>
           caches c' h' (mBuildTime env) es')
    | Some err \<Rightarrow> ran L (\<lambda>s s'. s' = meta_applied ms s) h bu es s (mBuildTime env) (Inl err) c' (content d')"
proof -
  obtain res where r: "run_tx env (many_op (L, ms, ign)) c d = Some (res, c', d')"
    "res = Inr () \<longleftrightarrow> e = None \<and> u \<noteq> 0" using container_many [OF run] by blast
  have out: "ran L (\<lambda>s s'. s' = meta_applied ms s) h bu es s (mBuildTime env) res c' (content d')"
    using many.run_outcome [of "(L, ms, ign)" d h bu es s c env res c' d'] rep c fits r(1) len
    by (simp add: many_effect_def [abs_def])
  show ?thesis
  proof (cases e)
    case (Some err)
    then have "res \<noteq> Inr ()" using r(2) by simp
    then obtain x where "res = Inl x" by (cases res) auto
    then show ?thesis using out Some by (simp add: ran_def)
  next
    case None
    obtain br c1 d1 where b: "Begin c d = Some (br, c1, d1)"
      using run by (auto simp: Container_SetMetaMany_def split: option.splits prod.splits)
    note bo = begin_outcome [OF rep c, unfolded b]
    obtain tx where tx: "br = Inr tx" using run b None by (cases br) (auto simp: Container_SetMetaMany_def)
    have bn: "begun L c d tx c1 d1 s" "caches c1 h bu es" using bo tx by simp_all
    then have inv: "tx_inv L 256 (content d1) tx s" "content d1 = content d" "\<not> tClosed tx"
      by (simp_all add: begun_def)
    obtain a n x tx1 where t: "Tx_SetMetaMany ms ign tx = ((a, n, x), tx1)" by (metis surj_pair)
    have x: "x = None" "a = u" "n = m"
      using run b tx t None by (auto simp: Container_SetMetaMany_def split: option.splits if_splits prod.splits sum.splits)
    note o = many_table [OF inv(1) t]
    show ?thesis
    proof (cases "u = 0")
      case True
      then have "d' = d1" "c' = snd (Rollback tx1 c1)"
        using run b tx t x by (auto simp: Container_SetMetaMany_def)
      then show ?thesis
        using True None o x inv(2,3) rollback_keeps [of tx1 c1 h bu es] bn(2) by simp
    next
      case False
      then have "res = Inr ()" using r(2) None by simp
      then show ?thesis using out False None o x by (auto simp: ran_def)
    qed
  qed
qed

end
