(* ===== verification/Script.thy ===== *)
theory Script
  imports MetaMany Pack
begin

text \<open>
  Rules for what runs inside one transaction: a step keeps the contract of \<open>TxContract\<close> with an effect
  on the abstract container, and steps one after the other keep it with the composed effect. A whole
  script of steps is then atomic, whatever it consists of. The calls that run several operations in
  one transaction (\<^verbatim>\<open>ConvertZIPToFBX\<close>, the \<^verbatim>\<open>rm\<close> and \<^verbatim>\<open>replace-text\<close> commands) get their theorems from it.
\<close>

section \<open>Steps\<close>

text \<open>
  \<open>f0\<close> is the file the transaction began with: a step may rely on it still being the beginning of the
  file, as steps only append.
\<close>

definition begun_with :: "bytes \<Rightarrow> Tx \<Rightarrow> disk \<Rightarrow> bool" where
  "begun_with f0 tx d \<longleftrightarrow> length f0 \<le> unat (tAppendOffset tx) \<and> same 0 (length f0) f0 (content d)"

definition keeps ::
  "bytes \<Rightarrow> codec_lib \<Rightarrow> (Tx \<Rightarrow> disk \<Rightarrow> tx_result) \<Rightarrow> (store \<Rightarrow> store \<Rightarrow> bool) \<Rightarrow> bool" where
  "keeps f0 L oper eff \<longleftrightarrow>
     (\<forall>tx d. \<exists>r. oper tx d = Some r) \<and>
     (\<forall>tx d res tx' d'. oper tx d = Some (res, tx', d') \<longrightarrow> length (content d) \<le> length (content d')) \<and>
     (\<forall>lo tx d s res tx' d'. tx_inv L lo (content d) tx s \<longrightarrow> begun_with f0 tx d \<longrightarrow>
        oper tx d = Some (res, tx', d') \<longrightarrow> length (content d') < 2 ^ 63 \<longrightarrow>
          same 0 (unat (tAppendOffset tx)) (content d) (content d') \<and>
          unat (tAppendOffset tx) \<le> unat (tAppendOffset tx') \<and> tClosed tx' = tClosed tx \<and>
          (\<forall>u. res = Inr u \<longrightarrow> (\<exists>s'. eff s s' \<and> tx_inv L lo (content d') tx' s')))"

lemma keepsI:
  assumes "\<And>tx d. \<exists>r. oper tx d = Some r"
    and "\<And>tx d res tx' d'. oper tx d = Some (res, tx', d') \<Longrightarrow> length (content d) \<le> length (content d')"
    and "\<And>lo tx d s res tx' d'. tx_inv L lo (content d) tx s \<Longrightarrow> begun_with f0 tx d \<Longrightarrow>
      oper tx d = Some (res, tx', d') \<Longrightarrow> length (content d') < 2 ^ 63 \<Longrightarrow>
      same 0 (unat (tAppendOffset tx)) (content d) (content d') \<and>
      unat (tAppendOffset tx) \<le> unat (tAppendOffset tx') \<and> tClosed tx' = tClosed tx \<and>
      (\<forall>u. res = Inr u \<longrightarrow> (\<exists>s'. eff s s' \<and> tx_inv L lo (content d') tx' s'))"
  shows "keeps f0 L oper eff"
  using assms unfolding keeps_def by blast

lemma keepsD:
  assumes "keeps f0 L oper eff"
  shows "\<exists>r. oper tx d = Some r"
    and "oper tx d = Some (res, tx', d') \<Longrightarrow> length (content d) \<le> length (content d')"
    and "tx_inv L lo (content d) tx s \<Longrightarrow> begun_with f0 tx d \<Longrightarrow> oper tx d = Some (res, tx', d') \<Longrightarrow>
      length (content d') < 2 ^ 63 \<Longrightarrow>
      same 0 (unat (tAppendOffset tx)) (content d) (content d') \<and>
      unat (tAppendOffset tx) \<le> unat (tAppendOffset tx') \<and> tClosed tx' = tClosed tx \<and>
      (\<forall>u. res = Inr u \<longrightarrow> (\<exists>s'. eff s s' \<and> tx_inv L lo (content d') tx' s'))"
  using assms unfolding keeps_def by blast+

lemma begun_with_step:
  "begun_with f0 tx d \<Longrightarrow> same 0 (unat (tAppendOffset tx)) (content d) (content d') \<Longrightarrow>
   unat (tAppendOffset tx) \<le> unat (tAppendOffset tx') \<Longrightarrow> begun_with f0 tx' d'"
  unfolding begun_with_def using same_step by fastforce

text \<open>A step that is only tried on a file that begins as it should.\<close>

definition guarded :: "bytes \<Rightarrow> (Tx \<Rightarrow> disk \<Rightarrow> tx_result) \<Rightarrow> Tx \<Rightarrow> disk \<Rightarrow> tx_result" where
  "guarded f0 oper tx d = (if begun_with f0 tx d then oper tx d else Some (Inl IoEOF, tx, d))"

lemma inv_frame:
  "tx_inv L lo (content d) tx s \<Longrightarrow> same 0 (unat (tAppendOffset tx)) (content d) (content d)"
  by (simp add: tx_inv_def same_refl)

text \<open>A step that keeps the contract, in a transaction of its own.\<close>

interpretation script: tx_operation "\<lambda>(L, f0, oper, eff). guarded f0 oper" fst
    "\<lambda>(L, f0, oper, eff). keeps f0 L oper eff" "\<lambda>(L, f0, oper, eff). eff"
proof (unfold_locales; clarify)
  fix L f0 oper eff
  assume k: "keeps f0 L oper eff"
  show "\<exists>r. guarded f0 oper tx d = Some r" for tx d using keepsD(1) [OF k] by (simp add: guarded_def)
  show "\<exists>s'. eff s s' \<and> tx_inv (fst (L, f0, oper, eff)) lo (content d') tx' s'"
    if "tx_inv (fst (L, f0, oper, eff)) lo (content d) tx s" "guarded f0 oper tx d = Some (Inr u, tx', d')"
      "length (content d') < 2 ^ 63" for lo d tx s u tx' and d' :: disk
  proof -
    have "begun_with f0 tx d" "oper tx d = Some (Inr u, tx', d')"
      using that(2) by (auto simp: guarded_def split: if_splits)
    then show ?thesis using keepsD(3) [OF k _ _ _ that(3)] that(1) by simp
  qed
  show "same 0 (unat (tAppendOffset tx)) (content d) (content d') \<and>
      unat (tAppendOffset tx) \<le> unat (tAppendOffset tx') \<and> tClosed tx' = tClosed tx"
    if "tx_inv (fst (L, f0, oper, eff)) lo (content d) tx s" "guarded f0 oper tx d = Some (res, tx', d')"
      "length (content d') < 2 ^ 63" for lo d tx s res tx' and d' :: disk
  proof (cases "begun_with f0 tx d")
    case True
    then show ?thesis using keepsD(3) [OF k _ True _ that(3)] that(1,2) by (simp add: guarded_def)
  next
    case False
    then show ?thesis using that(1,2) inv_frame by (auto simp: guarded_def)
  qed
qed

lemma begin_begun:
  assumes "represents L (content d) h bu es s" "caches c h bu es" "Begin c d = Some (Inr tx, c1, d1)"
  shows "begun_with (content d) tx d1" "caches c1 h bu es" "content d1 = content d" "\<not> tClosed tx"
    "tx_inv L 256 (content d1) tx s" "unat (tAppendOffset tx) = length (content d)"
  using begin_outcome [OF assms(1,2), unfolded assms(3)]
  by (auto simp: begun_def begun_with_def same_refl tx_inv_def)

lemma script_outcome:
  assumes k: "keeps (content d) L oper eff" and rep: "represents L (content d) h bu es s" and c: "caches c h bu es"
    and fits: "run_fits env oper c d" and run: "run_tx env oper c d = Some (r, c', d')"
    and len: "length (content d') < 2 ^ 63"
  shows "ran L eff h bu es s (mBuildTime env) r c' (content d')"
proof -
  have same: "guarded (content d) oper tx d1 = oper tx d1" if "Begin c d = Some (Inr tx, c1, d1)" for tx c1 d1
    using begin_begun(1) [OF rep c that] by (simp add: guarded_def)
  have "run_tx env (guarded (content d) oper) c d = run_tx env oper c d"
    using same by (auto simp: run_tx_def split: option.split sum.split)
  moreover have "run_fits env (guarded (content d) oper) c d = run_fits env oper c d"
    using same by (auto simp: run_fits_def split: option.split sum.split)
  ultimately show ?thesis
    using script.run_outcome [of "(L, content d, oper, eff)" d h bu es s c env r c' d'] assms by simp
qed

section \<open>Rules\<close>

lemma keeps_skip: "keeps f0 L (\<lambda>tx d. Some (Inr (), tx, d)) (=)"
  by (rule keepsI) (auto intro: inv_frame)

lemma keeps_fail: "keeps f0 L (\<lambda>tx d. Some (Inl e, tx, d)) eff"
  by (rule keepsI) (auto intro: inv_frame)

lemma keeps_weaken: "keeps f0 L oper eff \<Longrightarrow> (\<And>s s'. eff s s' \<Longrightarrow> eff' s s') \<Longrightarrow> keeps f0 L oper eff'"
  unfolding keeps_def by blast

definition tx_then ::
  "(Tx \<Rightarrow> disk \<Rightarrow> tx_result) \<Rightarrow> (Tx \<Rightarrow> disk \<Rightarrow> tx_result) \<Rightarrow> Tx \<Rightarrow> disk \<Rightarrow> tx_result" where
  "tx_then f g tx d =
     (case f tx d of
        None \<Rightarrow> None
      | Some (Inl e, tx, d) \<Rightarrow> Some (Inl e, tx, d)
      | Some (Inr _, tx, d) \<Rightarrow> g tx d)"

lemma keeps_then:
  assumes f: "keeps f0 L f e1" and g: "keeps f0 L g e2"
  shows "keeps f0 L (tx_then f g) (e1 OO e2)"
proof (rule keepsI)
  fix tx d
  obtain r tx1 d1 where "f tx d = Some (r, tx1, d1)" using keepsD(1) [OF f, of tx d] by (metis prod_cases3)
  then show "\<exists>r. tx_then f g tx d = Some r"
    using keepsD(1) [OF g, of tx1 d1] by (auto simp: tx_then_def split: sum.split)
next
  show "length (content d) \<le> length (content d')" if "tx_then f g tx d = Some (res, tx', d')" for tx d res tx' and d' :: disk
  proof -
    obtain r tx1 d1 where r: "f tx d = Some (r, tx1, d1)" using keepsD(1) [OF f, of tx d] by (metis prod_cases3)
    show ?thesis
      using that r keepsD(2) [OF f r] keepsD(2) [OF g, of tx1 d1 res tx' d']
      by (cases r) (auto simp: tx_then_def)
  qed
next
  fix lo tx d s res tx' and d' :: disk
  assume inv: "tx_inv L lo (content d) tx s" and run: "tx_then f g tx d = Some (res, tx', d')"
    and len: "length (content d') < 2 ^ 63" and bw: "begun_with f0 tx d"
  obtain r tx1 d1 where r: "f tx d = Some (r, tx1, d1)" using keepsD(1) [OF f, of tx d] by (metis prod_cases3)
  note s1 = keepsD(3) [OF f inv bw r]
  show "same 0 (unat (tAppendOffset tx)) (content d) (content d') \<and>
      unat (tAppendOffset tx) \<le> unat (tAppendOffset tx') \<and> tClosed tx' = tClosed tx \<and>
      (\<forall>u. res = Inr u \<longrightarrow> (\<exists>s'. (e1 OO e2) s s' \<and> tx_inv L lo (content d') tx' s'))"
  proof (cases r)
    case (Inl e)
    then show ?thesis using run r s1 len by (auto simp: tx_then_def)
  next
    case (Inr u)
    have g1: "g tx1 d1 = Some (res, tx', d')" using run r Inr by (simp add: tx_then_def)
    then have small: "length (content d1) < 2 ^ 63" using keepsD(2) [OF g g1] len by simp
    obtain s2 where s2: "e1 s s2" "tx_inv L lo (content d1) tx1 s2" using s1 [OF small] Inr by blast
    have bw1: "begun_with f0 tx1 d1" using begun_with_step [OF bw] s1 [OF small] by blast
    note s3 = keepsD(3) [OF g s2(2) bw1 g1 len]
    have "same 0 (unat (tAppendOffset tx)) (content d) (content d')"
      using same_step [of "unat (tAppendOffset tx)" "content d" "content d1"] s1 [OF small] s3 by blast
    then show ?thesis using s1 [OF small] s3 s2(1) by auto
  qed
qed

text \<open>The steps that write, and those that only change the table.\<close>

lemma keeps_upsert:
  assumes "put_pre p" "nLib (aEnv p) = L"
  shows "keeps f0 L (upsert_op p) (put_effect (\<lambda>x. True) p)"
proof (rule keepsI)
  show "\<exists>r. upsert_op p tx d = Some r" for tx d using put_returns(2) [OF assms(1)] .
  show "length (content d) \<le> length (content d')" if "upsert_op p tx d = Some (res, tx', d')" for tx d res tx' and d' :: disk
    using upsert_grows that by (simp add: upsert_op_def)
  show "same 0 (unat (tAppendOffset tx)) (content d) (content d') \<and>
      unat (tAppendOffset tx) \<le> unat (tAppendOffset tx') \<and> tClosed tx' = tClosed tx \<and>
      (\<forall>u. res = Inr u \<longrightarrow> (\<exists>s'. put_effect (\<lambda>x. True) p s s' \<and> tx_inv L lo (content d') tx' s'))"
    if "tx_inv L lo (content d) tx s" "upsert_op p tx d = Some (res, tx', d')" "length (content d') < 2 ^ 63"
    for lo d tx s res tx' and d' :: disk
    using upsert.frame [OF assms(1) that(1) [folded assms(2)] that(2,3)]
      upsert.success [OF assms(1) that(1) [folded assms(2)] _ that(3)] that(2) assms(2) by blast
qed

definition table_step :: "(Tx \<Rightarrow> unit result \<times> Tx) \<Rightarrow> Tx \<Rightarrow> disk \<Rightarrow> tx_result" where
  "table_step f tx d = (case f tx of (r, tx) \<Rightarrow> Some (r, tx, d))"

lemma keeps_table:
  assumes "\<And>tx r tx'. f tx = (r, tx') \<Longrightarrow> tAppendOffset tx' = tAppendOffset tx \<and> tClosed tx' = tClosed tx"
    and "\<And>lo g tx s u tx'. tx_inv L lo g tx s \<Longrightarrow> f tx = (Inr u, tx') \<Longrightarrow> \<exists>s'. eff s s' \<and> tx_inv L lo g tx' s'"
  shows "keeps f0 L (table_step f) eff"
  by (rule keepsI)
    (auto simp: table_step_def split: prod.splits dest: assms intro: inv_frame)

end
