(* ===== verification/ImportZip.thy ===== *)
theory ImportZip
  imports Script Sniff
begin

text \<open>
  \<^verbatim>\<open>ConvertZIPToFBX\<close> of \<^verbatim>\<open>fbx/import_zip.go\<close>: the regular files of a ZIP archive become the entries of a
  new container, all in one transaction. The archive reader, the JSON library and the table of MIME
  types are parameters; the progress callback has no effect and is left out. The lemmas show that a
  success holds what could be read from the files of the archive, under the paths the names are
  normalized to, and that the container never holds only some of them. Where no file is cut off this is
  exactly what the archive holds.
\<close>

section \<open>Options and the data taken from outside\<close>

record ZIPImportOptions =
  zoIncludeMetadata :: bool
  zoMetaFile :: bytes
  zoPathPrefix :: bytes
  zoOverwrite :: bool
  zoContainerOptions :: "Options option"
  zoWriteOptions :: "WriteOptions option"

text \<open>The fields of \<^verbatim>\<open>zip.File\<close> that are used.\<close>

record zip_file =
  zfName :: bytes
  zfIsDir :: bool
  zfMethod :: u16
  zfCRC32 :: u32
  zfModified :: int
  zfCompressed :: u64
  zfUncompressed :: u64
  zfMode :: u32

text \<open>The values of the metadata map: strings, numbers, and values that come out of a JSON text.\<close>

datatype meta_value = MetaText bytes | MetaNumber int | MetaJson bytes

text \<open>
  \<open>jRaw\<close> and \<open>jObject\<close> are \<^verbatim>\<open>json.Unmarshal\<close> into \<^verbatim>\<open>map[string]json.RawMessage\<close> and \<^verbatim>\<open>map[string]any\<close>, \<open>jMarshal\<close> is
  \<^verbatim>\<open>json.Marshal\<close> of a map; \<open>jMime\<close> is \<^verbatim>\<open>mime.TypeByExtension\<close>.
\<close>

record json_lib =
  jRaw :: "bytes \<Rightarrow> (bytes \<times> bytes) list result"
  jObject :: "bytes \<Rightarrow> (bytes \<times> meta_value) list result"
  jMarshal :: "(bytes \<times> meta_value) list \<Rightarrow> bytes result"
  jMime :: "bytes \<Rightarrow> bytes"

text \<open>
  \<open>zeReader\<close> is \<^verbatim>\<open>zip.NewReader\<close> on the bytes of the archive and \<open>zeOpen\<close> is \<^verbatim>\<open>f.Open\<close>, with what can be read
  from it, on the bytes the archive has by then.
\<close>

record zip_env =
  zeLib :: codec_lib
  zeProcs :: int
  zeJson :: json_lib
  zeReader :: "bytes \<Rightarrow> zip_file list result"
  zeOpen :: "zip_file \<Rightarrow> bytes \<Rightarrow> source result"
  zeCreate :: create_env
  zeCommit :: commit_env
  zeEntry :: "nat \<Rightarrow> env"
  zePlan :: "outcome list"
  zeStat :: "error option"

definition outputExists :: error where "outputExists = LibErr 7"

section \<open>Metadata\<close>

definition loadMetaFile :: "json_lib \<Rightarrow> bytes \<Rightarrow> files \<Rightarrow> (bytes \<times> bytes) list result" where
  "loadMetaFile jl path fs =
     (if path = [] then Inr []
      else case fs path of
        None \<Rightarrow> Inl osNotExist
      | Some b \<Rightarrow> jRaw jl b)"

definition auto_metadata :: "json_lib \<Rightarrow> bytes \<Rightarrow> zip_file \<Rightarrow> (bytes \<times> meta_value) list" where
  "auto_metadata jl zipPath zf =
     (let data =
        [(ascii ''source'', MetaText zipPath),
         (ascii ''zip_name'', MetaText (zfName zf)),
         (ascii ''zip_method'', MetaNumber (uint (zfMethod zf))),
         (ascii ''zip_crc32'', MetaNumber (uint (zfCRC32 zf))),
         (ascii ''zip_modified_unix'', MetaNumber (zfModified zf)),
         (ascii ''zip_compressed'', MetaNumber (uint (zfCompressed zf))),
         (ascii ''zip_uncompressed'', MetaNumber (uint (zfUncompressed zf)))];
        ext = to_lower (path_ext (zfName zf));
        typ = jMime jl ext
      in if ext \<noteq> [] \<and> typ \<noteq> [] then data @ [(ascii ''mime'', MetaText typ)] else data)"

definition buildEntryMetadata ::
  "json_lib \<Rightarrow> bytes \<Rightarrow> zip_file \<Rightarrow> bytes \<Rightarrow> bool \<Rightarrow> (bytes \<times> bytes) list \<Rightarrow> bytes result" where
  "buildEntryMetadata jl zipPath zf entryPath includeAuto sidecar =
     (let data = (if includeAuto then Some (auto_metadata jl zipPath zf) else None);
          raw = (case map_of sidecar entryPath of
                   Some raw \<Rightarrow> raw
                 | None \<Rightarrow> (case map_of sidecar (zfName zf) of Some raw \<Rightarrow> raw | None \<Rightarrow> []))
      in case data of
           None \<Rightarrow> Inr raw
         | Some m \<Rightarrow>
             (case (if raw = [] then Inr [] else jObject jl raw) of
                Inl e \<Rightarrow> Inl e
              | Inr overlay \<Rightarrow>
                  let m = fold (\<lambda>(k, v) m. AList.update k v m) overlay m
                  in if m = [] then Inr [] else jMarshal jl m))"

section \<open>The files of the archive\<close>

definition withWriteOptsTime :: "WriteOptions option \<Rightarrow> u64 \<Rightarrow> u32 \<Rightarrow> WriteOptions" where
  "withWriteOptsTime base mtime mode =
     (case base of
        None \<Rightarrow> \<lparr>wCodec = CodecStore, wLevel = 0, wChunkSize = 0, wMTimeUnix = mtime, wMode = mode, wFlags = 0\<rparr>
      | Some out \<Rightarrow>
          let out = (if wMTimeUnix out = 0 then out\<lparr>wMTimeUnix := mtime\<rparr> else out)
          in if wMode out = 0 then out\<lparr>wMode := mode\<rparr> else out)"

text \<open>The number of regular files and the sum of their sizes, which wraps.\<close>

fun zipTotals :: "zip_file list \<Rightarrow> nat \<times> u64" where
  "zipTotals [] = (0, 0)"
| "zipTotals (f # fs) =
     (case zipTotals fs of (n, b) \<Rightarrow> if zfIsDir f then (n, b) else (Suc n, zfUncompressed f + b))"

definition target_path :: "ZIPImportOptions \<Rightarrow> zip_file \<Rightarrow> bytes" where
  "target_path cfg f =
     (if zoPathPrefix cfg = [] then zfName f
      else (let slash = (\<lambda>c. c = 47) in
            rev (dropWhile slash (rev (dropWhile slash (zoPathPrefix cfg)))) @ [47] @
            dropWhile slash (zfName f)))"

text \<open>One file of the archive, and all of them; \<open>view\<close> gives the bytes of the archive at the moment.\<close>

definition import_file ::
  "zip_env \<Rightarrow> ZIPImportOptions \<Rightarrow> bytes \<Rightarrow> (bytes \<times> bytes) list \<Rightarrow> Options \<Rightarrow> (disk \<Rightarrow> bytes) \<Rightarrow> nat \<Rightarrow>
     zip_file \<Rightarrow> Tx \<Rightarrow> disk \<Rightarrow> tx_result" where
  "import_file ze cfg zipPath metaMap opts view i f tx d =
     (case normalize (target_path cfg f) of
        Inl e \<Rightarrow> Some (Inl e, tx, d)
      | Inr norm \<Rightarrow>
      (case buildEntryMetadata (zeJson ze) zipPath f norm (zoIncludeMetadata cfg) metaMap of
        Inl e \<Rightarrow> Some (Inl e, tx, d)
      | Inr meta \<Rightarrow>
      (case zeOpen ze f (view d) of
        Inl e \<Rightarrow> Some (Inl e, tx, d)
      | Inr rc \<Rightarrow>
          Tx_Upsert (zeEntry ze i) opts norm (Some rc) meta
            (Some (withWriteOptsTime (zoWriteOptions cfg) (word_of_int (zfModified f)) (zfMode f))) tx d)))"

fun import_files ::
  "zip_env \<Rightarrow> ZIPImportOptions \<Rightarrow> bytes \<Rightarrow> (bytes \<times> bytes) list \<Rightarrow> Options \<Rightarrow> (disk \<Rightarrow> bytes) \<Rightarrow> nat \<Rightarrow>
     zip_file list \<Rightarrow> Tx \<Rightarrow> disk \<Rightarrow> tx_result" where
  "import_files ze cfg zipPath metaMap opts view i [] tx d = Some (Inr (), tx, d)"
| "import_files ze cfg zipPath metaMap opts view i (f # fs) tx d =
     (if zfIsDir f then import_files ze cfg zipPath metaMap opts view i fs tx d
      else case import_file ze cfg zipPath metaMap opts view i f tx d of
        None \<Rightarrow> None
      | Some (Inl e, tx, d) \<Rightarrow> Some (Inl e, tx, d)
      | Some (Inr _, tx, d) \<Rightarrow> import_files ze cfg zipPath metaMap opts view (i + 1) fs tx d)"

definition zip_config :: "ZIPImportOptions option \<Rightarrow> ZIPImportOptions" where
  "zip_config opts =
     (case opts of
        None \<Rightarrow> \<lparr>zoIncludeMetadata = True, zoMetaFile = [], zoPathPrefix = [], zoOverwrite = False,
          zoContainerOptions = None, zoWriteOptions = None\<rparr>
      | Some o' \<Rightarrow> o')"

text \<open>
  The whole conversion. The deferred close of the container changes nothing any more; the first
  \<^verbatim>\<open>os.Stat\<close> can fail with an error of its own (\<open>zeStat\<close>).
\<close>

definition ConvertZIPToFBX ::
  "zip_env \<Rightarrow> bytes \<Rightarrow> bytes \<Rightarrow> ZIPImportOptions option \<Rightarrow> files \<Rightarrow> (unit result \<times> files) option" where
  "ConvertZIPToFBX ze zipPath fbxPath opts fs =
     (let cfg = zip_config opts in
      if \<not> zoOverwrite cfg \<and> zeStat ze \<noteq> None then Some (Inl (the (zeStat ze)), fs)
      else if \<not> zoOverwrite cfg \<and> fs fbxPath \<noteq> None then Some (Inl outputExists, fs)
      else case loadMetaFile (zeJson ze) (zoMetaFile cfg) fs of
        Inl e \<Rightarrow> Some (Inl e, fs)
      | Inr metaMap \<Rightarrow>
      (case fs zipPath of
        None \<Rightarrow> Some (Inl osNotExist, fs)
      | Some z \<Rightarrow>
      (case zeReader ze z of
        Inl e \<Rightarrow> Some (Inl e, fs)
      | Inr zfiles \<Rightarrow>
          let view = (if zipPath = fbxPath then content else (\<lambda>_. z)) in
          (case Create (zeProcs ze) (zeCreate ze) (zoContainerOptions cfg)
                  \<lparr>content = [], plan = zePlan ze\<rparr> of
             (Inl e, d) \<Rightarrow> Some (Inl e, fs(fbxPath \<mapsto> content d))
           | (Inr c, d) \<Rightarrow>
               (case run_tx (zeCommit ze) (import_files ze cfg zipPath metaMap (cOpts c) view 0 zfiles) c d of
                  None \<Rightarrow> None
                | Some (r, c, d) \<Rightarrow> Some (r, fs(fbxPath \<mapsto> content d)))))))"

section \<open>What is imported\<close>

text \<open>
  The entry a file becomes: its normalized path, its bytes up to the end of the file, and its metadata.
  \<open>taken\<close> is what the code lets through as well: a file that is cut off, for which \<^verbatim>\<open>archive/zip\<close> reports
  \<^verbatim>\<open>io.ErrUnexpectedEOF\<close>, is taken for one that has ended (\<open>truncated_source\<close> in \<open>TxOps\<close>).
\<close>

definition imported ::
  "zip_env \<Rightarrow> ZIPImportOptions \<Rightarrow> bytes \<Rightarrow> (bytes \<times> bytes) list \<Rightarrow> bytes \<Rightarrow> zip_file \<Rightarrow>
     bytes \<times> bytes \<times> bytes \<Rightarrow> bool" where
  "imported ze cfg zipPath metaMap z f item \<longleftrightarrow>
     (case item of (q, data, meta) \<Rightarrow>
        normalize (target_path cfg f) = Inr q \<and>
        buildEntryMetadata (zeJson ze) zipPath f q (zoIncludeMetadata cfg) metaMap = Inr meta \<and>
        zeOpen ze f z = Inr (data, IoEOF))"

definition taken ::
  "zip_env \<Rightarrow> ZIPImportOptions \<Rightarrow> bytes \<Rightarrow> (bytes \<times> bytes) list \<Rightarrow> bytes \<Rightarrow> zip_file \<Rightarrow>
     bytes \<times> bytes \<times> bytes \<Rightarrow> bool" where
  "taken ze cfg zipPath metaMap z f item \<longleftrightarrow>
     (case item of (q, data, meta) \<Rightarrow>
        normalize (target_path cfg f) = Inr q \<and>
        buildEntryMetadata (zeJson ze) zipPath f q (zoIncludeMetadata cfg) metaMap = Inr meta \<and>
        (\<exists>x. zeOpen ze f z = Inr (data, x) \<and> read_to_end (data, x)))"

text \<open>No regular file of the archive is cut off.\<close>

definition intact :: "zip_env \<Rightarrow> bytes \<Rightarrow> zip_file list \<Rightarrow> bool" where
  "intact ze z zfiles \<longleftrightarrow>
     (\<forall>f \<in> set zfiles. \<not> zfIsDir f \<longrightarrow> (\<forall>data. zeOpen ze f z \<noteq> Inr (data, IoUnexpectedEOF)))"

definition import_effect ::
  "(zip_file \<Rightarrow> bytes \<times> bytes \<times> bytes \<Rightarrow> bool) \<Rightarrow> zip_file list \<Rightarrow> store \<Rightarrow> store \<Rightarrow> bool" where
  "import_effect entry fs s s' \<longleftrightarrow>
     (\<exists>items. list_all2 entry (filter (\<lambda>f. \<not> zfIsDir f) fs) items \<and> s' = s ++ map_of (rev items))"

lemma intact_imported:
  assumes "intact ze z fs" "import_effect (taken ze cfg zipPath metaMap z) fs s s'"
  shows "import_effect (imported ze cfg zipPath metaMap z) fs s s'"
proof -
  obtain items where i: "list_all2 (taken ze cfg zipPath metaMap z) (filter (\<lambda>f. \<not> zfIsDir f) fs) items"
    "s' = s ++ map_of (rev items)" using assms(2) by (auto simp: import_effect_def)
  have "imported ze cfg zipPath metaMap z f item"
    if "f \<in> set (filter (\<lambda>f. \<not> zfIsDir f) fs)" "taken ze cfg zipPath metaMap z f item" for f item
    using that assms(1) by (auto simp: intact_def taken_def imported_def read_to_end_def)
  then have "list_all2 (imported ze cfg zipPath metaMap z) (filter (\<lambda>f. \<not> zfIsDir f) fs) items"
    using list.rel_mono_strong [OF i(1)] by blast
  then show ?thesis using i(2) unfolding import_effect_def by blast
qed

definition zip_ok :: "zip_env \<Rightarrow> ZIPImportOptions \<Rightarrow> Options \<Rightarrow> bool" where
  "zip_ok ze cfg opts \<longleftrightarrow>
     (\<forall>i. nLib (zeEntry ze i) = zeLib ze \<and>
       (\<forall>mtime mode. env_ok (zeEntry ze i) opts (Some (withWriteOptsTime (zoWriteOptions cfg) mtime mode))))"

lemma keeps_import_file:
  assumes "zip_ok ze cfg opts"
  shows "keeps f0 (zeLib ze) (import_file ze cfg zipPath metaMap opts (\<lambda>_. z) i f)
    (\<lambda>s s'. \<exists>q v. taken ze cfg zipPath metaMap z f (q, v) \<and> s' = s(q \<mapsto> v))"
proof (cases "normalize (target_path cfg f)")
  case (Inl e)
  then show ?thesis by (simp add: import_file_def [abs_def] keeps_fail)
next
  case norm: (Inr q)
  show ?thesis
  proof (cases "buildEntryMetadata (zeJson ze) zipPath f q (zoIncludeMetadata cfg) metaMap")
    case (Inl e)
    then show ?thesis by (simp add: import_file_def [abs_def] norm keeps_fail)
  next
    case meta: (Inr meta)
    show ?thesis
    proof (cases "zeOpen ze f z")
      case (Inl e)
      then show ?thesis by (simp add: import_file_def [abs_def] norm meta keeps_fail)
    next
      case src: (Inr rc)
      let ?w = "withWriteOptsTime (zoWriteOptions cfg) (word_of_int (zfModified f)) (zfMode f)"
      let ?p = "\<lparr>aEnv = zeEntry ze i, aOpts = opts, aPath = q, aSource = Some rc, aMeta = meta, aWrite = Some ?w\<rparr>"
      have pre: "put_pre ?p" "nLib (aEnv ?p) = zeLib ze" using assms by (simp_all add: zip_ok_def put_pre_def)
      have q: "normalize q = Inr q" using normalize_fixed [OF normalize_safe [OF norm]] .
      have eq: "import_file ze cfg zipPath metaMap opts (\<lambda>_. z) i f = upsert_op ?p"
        by (intro ext) (simp add: import_file_def norm meta src upsert_op_def)
      show ?thesis
        unfolding eq
      proof (rule keeps_weaken [OF keeps_upsert [OF pre]])
        fix s s' assume "put_effect (\<lambda>x. True) ?p s s'"
        then show "\<exists>q v. taken ze cfg zipPath metaMap z f (q, v) \<and> s' = s(q \<mapsto> v)"
          by (cases rc) (auto simp: put_effect_def taken_def norm meta src q)
      qed
    qed
  qed
qed

lemma keeps_import_files:
  assumes "zip_ok ze cfg opts"
  shows "keeps f0 (zeLib ze) (import_files ze cfg zipPath metaMap opts (\<lambda>_. z) i fs)
    (import_effect (taken ze cfg zipPath metaMap z) fs)"
proof (induction fs arbitrary: i)
  case Nil
  have eq: "import_files ze cfg zipPath metaMap opts (\<lambda>_. z) i [] = (\<lambda>tx d. Some (Inr (), tx, d))"
    by (intro ext) simp
  show ?case
    unfolding eq by (rule keeps_weaken [OF keeps_skip]) (simp add: import_effect_def)
next
  case (Cons f fs)
  let ?step = "import_file ze cfg zipPath metaMap opts (\<lambda>_. z)"
  show ?case
  proof (cases "zfIsDir f")
    case True
    then have "import_files ze cfg zipPath metaMap opts (\<lambda>_. z) i (f # fs) =
        import_files ze cfg zipPath metaMap opts (\<lambda>_. z) i fs" by (intro ext) simp
    moreover have "import_effect (taken ze cfg zipPath metaMap z) (f # fs) = import_effect (taken ze cfg zipPath metaMap z) fs"
      using True by (intro ext) (simp add: import_effect_def)
    ultimately show ?thesis using Cons.IH [of i] by simp
  next
    case False
    then have "import_files ze cfg zipPath metaMap opts (\<lambda>_. z) i (f # fs) =
        tx_then (?step i f) (import_files ze cfg zipPath metaMap opts (\<lambda>_. z) (i + 1) fs)"
      by (intro ext) (simp only: import_files.simps tx_then_def if_False)
    moreover have "keeps f0 (zeLib ze)
        (tx_then (?step i f) (import_files ze cfg zipPath metaMap opts (\<lambda>_. z) (i + 1) fs))
        (import_effect (taken ze cfg zipPath metaMap z) (f # fs))"
    proof (rule keeps_weaken [OF keeps_then [OF keeps_import_file [OF assms] Cons.IH]])
      fix s s'
      assume "((\<lambda>s s'. \<exists>q v. taken ze cfg zipPath metaMap z f (q, v) \<and> s' = s(q \<mapsto> v)) OO
        import_effect (taken ze cfg zipPath metaMap z) fs) s s'"
      then obtain q v items where i: "taken ze cfg zipPath metaMap z f (q, v)"
        "list_all2 (taken ze cfg zipPath metaMap z) (filter (\<lambda>f. \<not> zfIsDir f) fs) items"
        "s' = s(q \<mapsto> v) ++ map_of (rev items)" by (auto simp: import_effect_def)
      then have "list_all2 (taken ze cfg zipPath metaMap z) (filter (\<lambda>f. \<not> zfIsDir f) (f # fs)) ((q, v) # items)"
        using False by simp
      moreover have "s' = s ++ map_of (rev ((q, v) # items))" using i(3) by (simp add: map_add_def fun_eq_iff split: option.split)
      ultimately show "import_effect (taken ze cfg zipPath metaMap z) (f # fs) s s'" unfolding import_effect_def by blast
    qed
    ultimately show ?thesis by simp
  qed
qed

section \<open>The conversion\<close>

text \<open>What is asked of the world: the inputs of the library calls and a commit within the limits.\<close>

definition zip_fits :: "zip_env \<Rightarrow> ZIPImportOptions \<Rightarrow> bytes \<Rightarrow> bytes \<Rightarrow> files \<Rightarrow> bool" where
  "zip_fits ze cfg zipPath z fs \<longleftrightarrow>
     zip_ok ze cfg (effectiveOptions (zeProcs ze) (zoContainerOptions cfg)) \<and> create_fits (zeCreate ze) \<and>
     (\<forall>metaMap zfiles c d. loadMetaFile (zeJson ze) (zoMetaFile cfg) fs = Inr metaMap \<longrightarrow>
        zeReader ze z = Inr zfiles \<longrightarrow>
        Create (zeProcs ze) (zeCreate ze) (zoContainerOptions cfg) \<lparr>content = [], plan = zePlan ze\<rparr> = (Inr c, d) \<longrightarrow>
        run_fits (zeCommit ze) (import_files ze cfg zipPath metaMap (cOpts c) (\<lambda>_. z) 0 zfiles) c d)"

text \<open>The output after the creation: nothing, everything, or everything in the backup slot.\<close>

definition zip_output :: "zip_env \<Rightarrow> (store \<Rightarrow> store \<Rightarrow> bool) \<Rightarrow> unit result \<Rightarrow> bytes \<Rightarrow> bool" where
  "zip_output ze eff r g \<longleftrightarrow>
     (let full = (\<exists>h es s. eff Map.empty s \<and> represents (zeLib ze) g h (mBuildTime (zeCommit ze)) es s) in
      case r of
        Inr _ \<Rightarrow> full
      | Inl _ \<Rightarrow> full \<or>
          (\<exists>h. represents (zeLib ze) g h (ceBuildTime (zeCreate ze)) [] Map.empty) \<or>
          (\<exists>h h' es s. eff Map.empty s \<and> torn g h h' (mBuildTime (zeCommit ze)) es))"

lemma zip_run:
  assumes fits: "zip_fits ze cfg zipPath z fs" and other: "zipPath \<noteq> fbxPath"
    and "loadMetaFile (zeJson ze) (zoMetaFile cfg) fs = Inr metaMap" "zeReader ze z = Inr zfiles"
    and c: "Create (zeProcs ze) (zeCreate ze) (zoContainerOptions cfg) \<lparr>content = [], plan = zePlan ze\<rparr> = (Inr c, d)"
    and run: "run_tx (zeCommit ze) (import_files ze cfg zipPath metaMap (cOpts c) (\<lambda>_. z) 0 zfiles) c d =
      Some (r, c', d')" and len: "length (content d') < 2 ^ 63"
  shows "zip_output ze (import_effect (taken ze cfg zipPath metaMap z) zfiles) r (content d')"
proof -
  let ?L = "zeLib ze" and ?eff = "import_effect (taken ze cfg zipPath metaMap z) zfiles"
  have f: "create_fits (zeCreate ze)" "zip_ok ze cfg (effectiveOptions (zeProcs ze) (zoContainerOptions cfg))"
    "run_fits (zeCommit ze) (import_files ze cfg zipPath metaMap (cOpts c) (\<lambda>_. z) 0 zfiles) c d"
    using fits assms(3-5) by (auto simp: zip_fits_def)
  note cr = create_outcome(1) [OF f(1) c, of ?L] create_outcome(2-4) [OF f(1) c]
  have "keeps (content d) ?L (import_files ze cfg zipPath metaMap (cOpts c) (\<lambda>_. z) 0 zfiles) ?eff"
    using keeps_import_files f(2) cr(4) by simp
  from script_outcome [OF this cr(1,2) f(3) run len] show ?thesis
    by (cases r) (fastforce simp: ran_def zip_output_def Let_def)+
qed

lemma zip_output_mono:
  "zip_output ze eff r g \<Longrightarrow> (\<And>s s'. eff s s' \<Longrightarrow> eff' s s') \<Longrightarrow> zip_output ze eff' r g"
  unfolding zip_output_def Let_def by (cases r) (auto, blast+)

text \<open>How the conversion can go.\<close>

lemma convert_cases:
  assumes run: "ConvertZIPToFBX ze zipPath fbxPath opts fs = Some (r, fs')"
    and z: "zipPath \<noteq> fbxPath" "fs zipPath = Some z"
  defines "cfg \<equiv> zip_config opts"
  defines "cr \<equiv> Create (zeProcs ze) (zeCreate ze) (zoContainerOptions cfg) \<lparr>content = [], plan = zePlan ze\<rparr>"
  obtains (early) e where "r = Inl e" "fs' = fs"
  | (create) e d where "cr = (Inl e, d)" "r = Inl e" "fs' = fs(fbxPath \<mapsto> content d)"
      "zoOverwrite cfg \<or> fs fbxPath = None"
  | (ran) metaMap zfiles c d c' d' where "loadMetaFile (zeJson ze) (zoMetaFile cfg) fs = Inr metaMap"
      "zeReader ze z = Inr zfiles" "cr = (Inr c, d)" "zoOverwrite cfg \<or> fs fbxPath = None"
      "run_tx (zeCommit ze) (import_files ze cfg zipPath metaMap (cOpts c) (\<lambda>_. z) 0 zfiles) c d =
         Some (r, c', d')" "fs' = fs(fbxPath \<mapsto> content d')"
proof -
  note conv = run [unfolded ConvertZIPToFBX_def Let_def, folded cfg_def]
  show thesis
  proof (cases "\<not> zoOverwrite cfg \<and> (zeStat ze \<noteq> None \<or> fs fbxPath \<noteq> None)")
    case True
    then show ?thesis using conv early by (auto split: if_splits)
  next
    case free: False
    note conv1 = conv [unfolded z(2), simplified if_not_P [OF z(1)]]
    show ?thesis
    proof (cases "loadMetaFile (zeJson ze) (zoMetaFile cfg) fs")
      case (Inl e)
      then show ?thesis using conv1 free early by (auto split: if_splits)
    next
      case meta: (Inr metaMap)
      show ?thesis
      proof (cases "zeReader ze z")
        case (Inl e)
        then show ?thesis using conv1 free meta early by (auto split: if_splits)
      next
        case files: (Inr zfiles)
        obtain q d where cr: "cr = (q, d)" by fastforce
        show ?thesis
        proof (cases q)
          case (Inl e)
          then show ?thesis
            using conv1 free meta files create [of e d] cr by (auto simp: cr_def split: if_splits)
        next
          case (Inr c)
          have "\<exists>c' d'. run_tx (zeCommit ze) (import_files ze cfg zipPath metaMap (cOpts c) (\<lambda>_. z) 0 zfiles) c d =
              Some (r, c', d') \<and> fs' = fs(fbxPath \<mapsto> content d')"
            using conv1 free meta files cr Inr z(1)
            by (auto simp: cr_def split: if_splits option.splits)
          then show ?thesis using ran [OF meta files] free cr Inr by auto
        qed
      qed
    qed
  qed
qed

text \<open>
  C10: \<^verbatim>\<open>ConvertZIPToFBX\<close> is all or nothing, for an output that is not the archive itself and an archive
  none of whose files is cut off. A success leaves a container with one entry for each regular file of
  the archive, under its normalized path, with all its bytes and the metadata built for it, later files
  winning over earlier ones, and nothing else. After a failure no other file is touched, an existing
  output is untouched unless it was to be overwritten, and where an output was written it holds the
  empty container, the whole import, or a torn header with the whole import in the backup slot, but
  never a part of the archive; or \<^verbatim>\<open>Create\<close> itself failed.
\<close>

theorem zip_import_atomic:
  assumes "zipPath \<noteq> fbxPath" "fs zipPath = Some z" "zip_fits ze (zip_config opts) zipPath z fs"
    and whole: "\<And>zfiles. zeReader ze z = Inr zfiles \<Longrightarrow> intact ze z zfiles"
    and run: "ConvertZIPToFBX ze zipPath fbxPath opts fs = Some (r, fs')"
    and len: "\<And>g. fs' fbxPath = Some g \<Longrightarrow> length g < 2 ^ 63"
  shows "(\<forall>p. p \<noteq> fbxPath \<longrightarrow> fs' p = fs p) \<and>
    (fs fbxPath \<noteq> None \<and> \<not> zoOverwrite (zip_config opts) \<longrightarrow> (\<exists>e. r = Inl e) \<and> fs' = fs) \<and>
    (fs' = fs \<and> (\<exists>e. r = Inl e) \<or>
     (\<exists>e d. Create (zeProcs ze) (zeCreate ze) (zoContainerOptions (zip_config opts))
          \<lparr>content = [], plan = zePlan ze\<rparr> = (Inl e, d) \<and> r = Inl e \<and> fs' = fs(fbxPath \<mapsto> content d)) \<or>
     (\<exists>metaMap zfiles g. loadMetaFile (zeJson ze) (zoMetaFile (zip_config opts)) fs = Inr metaMap \<and>
        zeReader ze z = Inr zfiles \<and> fs' = fs(fbxPath \<mapsto> g) \<and>
        zip_output ze (import_effect (imported ze (zip_config opts) zipPath metaMap z) zfiles) r g))"
proof -
  let ?cfg = "zip_config opts"
  let ?cr = "Create (zeProcs ze) (zeCreate ze) (zoContainerOptions ?cfg) \<lparr>content = [], plan = zePlan ze\<rparr>"
  show ?thesis
    using run assms(1,2)
  proof (cases rule: convert_cases)
    case (ran metaMap zfiles c d c' d')
    have "length (content d') < 2 ^ 63" using len ran(6) by simp
    from zip_output_mono [OF zip_run [OF assms(3,1) ran(1-3,5) this] intact_imported [OF whole [OF ran(2)]]]
    show ?thesis using ran(1,2,4,6) by auto
  qed auto
qed

end
