(* ===== verification/SampleZip.thy ===== *)
theory SampleZip
  imports Samples ImportZip
begin

text \<open>
  The conversion on the samples: an archive with a directory and one file, with metadata for the file
  from a side file.
\<close>

definition zip_member :: zip_file where
  "zip_member = \<lparr>zfName = [97], zfIsDir = False, zfMethod = 0, zfCRC32 = 0, zfModified = 9,
     zfCompressed = 3, zfUncompressed = 3, zfMode = 0\<rparr>"

definition zip_dir :: zip_file where "zip_dir = zip_member\<lparr>zfName := [97, 47], zfIsDir := True\<rparr>"

definition sample_zip :: zip_env where
  "sample_zip = \<lparr>zeLib = sample_lib, zeProcs = 1,
     zeJson = \<lparr>jRaw = \<lambda>b. Inr [([97], [5])], jObject = \<lambda>b. Inr [], jMarshal = \<lambda>m. Inr [], jMime = \<lambda>e. []\<rparr>,
     zeReader = \<lambda>z. Inr [zip_dir, zip_member], zeOpen = \<lambda>f z. Inr ([1, 2, 3], IoEOF),
     zeCreate = sample_create, zeCommit = sample_commit, zeEntry = \<lambda>i. sample_env, zePlan = [], zeStat = None\<rparr>"

definition sample_zip_options :: ZIPImportOptions where
  "sample_zip_options = \<lparr>zoIncludeMetadata = False, zoMetaFile = [109], zoPathPrefix = [], zoOverwrite = False,
     zoContainerOptions = None, zoWriteOptions = None\<rparr>"

definition sample_zip_files :: files where "sample_zip_files = [[122] \<mapsto> [0], [109] \<mapsto> [1]]"

lemma member_params:
  "write_entry_params sample_env (defaultOptions 1) [97] [1, 2, 3] (Some (withWriteOptsTime None 9 0)) =
   write_entry_params sample_env (defaultOptions 1) [97] [1, 2, 3] None"
  by (simp add: write_entry_params_def withWriteOptsTime_def sample_env_def defaultOptions_def)

lemma member_entry:
  "Tx_Upsert sample_env (defaultOptions 1) [97] (Some ([1, 2, 3], IoEOF)) [5]
     (Some (withWriteOptsTime None 9 0)) sample_tx d = upsert_op sample_args sample_tx d"
proof -
  have "oMaxEntrySize (defaultOptions 1) = 0" "nLib sample_env = sample_lib"
    by (simp_all add: defaultOptions_def sample_env_def)
  moreover have "writeEntry sample_env (defaultOptions 1) [97] (Some ([1, 2, 3], IoEOF)) [5]
      (Some (withWriteOptsTime None 9 0)) sample_tx d =
    writeEntry sample_env (defaultOptions 1) [97] (Some sample_data) [5] None sample_tx d"
    using calculation
    by (simp add: writeEntry_def member_params sample_params sample_data_def writeChunks_def
        writeChunksSequential_def sample_tx_def)
  ultimately show ?thesis
    by (simp add: upsert_op_def sample_args_def Tx_Upsert_def write_and_put_def sample_path)
      (simp add: sample_tx_def)
qed

lemma zip_files_run:
  "import_files sample_zip sample_zip_options [122] [([97], [5])] (defaultOptions 1) (\<lambda>_. z) 0
     [zip_dir, zip_member] sample_tx d = upsert_op sample_args sample_tx d"
proof -
  have t: "target_path sample_zip_options zip_member = [97]"
    by (simp add: target_path_def sample_zip_options_def zip_member_def)
  have "import_file sample_zip sample_zip_options [122] [([97], [5])] (defaultOptions 1) (\<lambda>_. z) 0 zip_member
      sample_tx d = upsert_op sample_args sample_tx d"
    unfolding import_file_def t
    by (simp add: sample_path buildEntryMetadata_def member_entry [symmetric])
      (simp add: sample_zip_def sample_zip_options_def zip_member_def)
  then show ?thesis
    using put_returns(2) [OF sample_pre, of sample_tx d]
    by (auto simp: zip_dir_def zip_member_def split: sum.split)
qed

lemma zip_env_ok: "env_ok sample_env (defaultOptions 1) (Some (withWriteOptsTime None mtime mode))"
  unfolding env_ok_def using sample_laws sample_scheduler
  by (auto simp: defaultOptions_def sample_env_def withWriteOptsTime_def intro!: exI [of _ 4194304] sample_records)

lemma zip_run_sample:
  "run_tx sample_commit (import_files sample_zip sample_zip_options [122] [([97], [5])] (defaultOptions 1) (\<lambda>_. z) 0
     [zip_dir, zip_member]) sample_c0 sample_d0 = Some (Inr (), sample_c1, sample_d1)"
  "run_fits sample_commit (import_files sample_zip sample_zip_options [122] [([97], [5])] (defaultOptions 1) (\<lambda>_. z) 0
     [zip_dir, zip_member]) sample_c0 sample_d0"
  using sample_upsert_run
  by (simp_all add: run_tx_def run_fits_def sample_begin zip_files_run container_ops sample_args_def
      del: import_files.simps)

lemma zip_sample_parts:
  "loadMetaFile (zeJson sample_zip) (zoMetaFile sample_zip_options) sample_zip_files = Inr [([97], [5])]"
  "zeReader sample_zip z = Inr [zip_dir, zip_member]"
  "Create (zeProcs sample_zip) (zeCreate sample_zip) (zoContainerOptions sample_zip_options)
     \<lparr>content = [], plan = zePlan sample_zip\<rparr> = (Inr sample_c0, sample_d0)"
  "zeCommit sample_zip = sample_commit" "zeLib sample_zip = sample_lib"
  using sample_created(1)
  by (simp_all add: loadMetaFile_def sample_zip_def sample_zip_options_def sample_zip_files_def sample_start_def)

lemma zip_sample_fits: "zip_fits sample_zip sample_zip_options [122] z sample_zip_files"
proof -
  have "zip_ok sample_zip sample_zip_options (effectiveOptions 1 None)"
    using zip_env_ok by (simp add: zip_ok_def sample_zip_def sample_zip_options_def effectiveOptions_def) (simp add: sample_env_def)
  then show ?thesis
    unfolding zip_fits_def using zip_sample_parts sample_fits zip_run_sample(2)
    by (simp add: sample_zip_def sample_zip_options_def)
qed

lemma zip_sample_convert:
  "ConvertZIPToFBX sample_zip [122] [102] (Some sample_zip_options) sample_zip_files =
     Some (Inr (), sample_zip_files([102] \<mapsto> content sample_d1))"
proof -
  have "zip_config (Some sample_zip_options) = sample_zip_options" "\<not> zoOverwrite sample_zip_options"
    "zeStat sample_zip = None" "sample_zip_files [102] = None" "sample_zip_files [122] = Some [0]"
    by (simp_all add: zip_config_def sample_zip_options_def sample_zip_def sample_zip_files_def)
  then show ?thesis
    by (simp add: ConvertZIPToFBX_def zip_sample_parts zip_run_sample(1))
qed

theorem zip_import_atomic_witness:
  "\<exists>fs h es s. ConvertZIPToFBX sample_zip [122] [102] (Some sample_zip_options) sample_zip_files = Some (Inr (), fs) \<and>
     fs [102] = Some (content sample_d1) \<and> represents sample_lib (content sample_d1) h 5 es s \<and>
     s [97] = Some ([1, 2, 3], [5]) \<and> dom s = {[97]}"
proof -
  have cfg: "zip_config (Some sample_zip_options) = sample_zip_options" by (simp add: zip_config_def)
  have z: "sample_zip_files [122] = Some [0]" "sample_zip_files [102] = None" by (simp_all add: sample_zip_files_def)
  have len: "(sample_zip_files([102] \<mapsto> content sample_d1)) [102] = Some g \<Longrightarrow> length g < 2 ^ 63" for g
    using sample_add_run(3) by auto
  have ne: "[122] \<noteq> ([102] :: bytes)" by simp
  have fits: "zip_fits sample_zip (zip_config (Some sample_zip_options)) [122] [0] sample_zip_files"
    unfolding cfg by (rule zip_sample_fits)
  have whole: "zeReader sample_zip [0] = Inr zfiles \<Longrightarrow> intact sample_zip [0] zfiles" for zfiles
    by (auto simp: intact_def sample_zip_def)
  note main = zip_import_atomic [where fs' = "sample_zip_files([102] \<mapsto> content sample_d1)" and fbxPath = "[102]",
    OF ne z(1) fits whole zip_sample_convert len, unfolded cfg]
  obtain mm zfs g where r: "loadMetaFile (zeJson sample_zip) (zoMetaFile sample_zip_options) sample_zip_files = Inr mm"
    "zeReader sample_zip [0] = Inr zfs" "sample_zip_files([102] \<mapsto> content sample_d1) = sample_zip_files([102] \<mapsto> g)"
    "zip_output sample_zip (import_effect (imported sample_zip sample_zip_options [122] mm [0]) zfs) (Inr ()) g"
    using main Inr_not_Inl by blast
  have g: "g = content sample_d1" using fun_cong [OF r(3), of "[102]"] by simp
  obtain h es s where s: "import_effect (imported sample_zip sample_zip_options [122] [([97], [5])] [0]) [zip_dir, zip_member] Map.empty s"
    "represents sample_lib (content sample_d1) h 5 es s"
    using r(1,2,4) unfolding zip_sample_parts g
    by (auto simp: zip_output_def Let_def zip_sample_parts) (simp add: sample_commit_def)
  obtain item where i: "imported sample_zip sample_zip_options [122] [([97], [5])] [0] zip_member item" "s = [fst item \<mapsto> snd item]"
    using s(1) by (auto simp: import_effect_def zip_dir_def zip_member_def list_all2_Cons1)
  have "target_path sample_zip_options zip_member = [97]"
    by (simp add: target_path_def sample_zip_options_def zip_member_def)
  then have "item = ([97], [1, 2, 3], [5])"
    using i(1) sample_path
    by (auto simp: imported_def buildEntryMetadata_def sample_zip_def sample_zip_options_def)
  then have "s [97] = Some ([1, 2, 3], [5])" "dom s = {[97]}" using i(2) by auto
  then show ?thesis using s(2) zip_sample_convert
    by (intro exI [of _ "sample_zip_files([102] \<mapsto> content sample_d1)"] exI [of _ h] exI [of _ es] exI [of _ s]) simp
qed

end
