(* ===== verification/Stale.thy ===== *)
theory Stale
  imports TxContract
begin

text \<open>
  Two handles on one file. \<^verbatim>\<open>Begin\<close> takes the entries a container has cached and does not read the file
  again, so a transaction of a handle that has fallen behind starts from what the file held when the
  handle last read it, and its commit undoes what was committed through other handles since: the lost
  update, in general and for two additions. The locks do not help, as they are free in between.
\<close>

section \<open>What a run leaves alone\<close>

context tx_operation begin

text \<open>A run never touches the bytes between the header slots and the end of the file.\<close>

lemma run_keeps:
  assumes pre: "pre p" and rep: "represents (lib p) (content d) h bu es s" and c: "caches c h bu es"
    and fits: "run_fits env (oper p) c d"
    and run: "run_tx env (oper p) c d = Some (r, c', d')" and len: "length (content d') < 2 ^ 63"
  shows "same 256 (length (content d)) (content d) (content d')"
proof -
  have held: "\<not> cTxHeld c" using run by (auto simp: run_tx_def Begin_def)
  note b = begin_outcome [OF rep c]
  obtain br c1 d1 where bg: "Begin c d = Some (br, c1, d1)"
    using held begin_returns [of c d] by (cases "Begin c d") auto
  have refl: "same 256 (length (content d)) (content d) (content d)" by (simp add: same_refl)
  show ?thesis
  proof (cases br)
    case (Inl e)
    then show ?thesis using b bg run refl by (auto simp: run_tx_def)
  next
    case (Inr tx)
    then have bn: "begun (lib p) c d tx c1 d1 s" "caches c1 h bu es" using b bg by simp_all
    then have inv: "tx_inv (lib p) 256 (content d1) tx s" and d1: "content d1 = content d"
      and nc: "\<not> tClosed tx" and off: "unat (tAppendOffset tx) = length (content d)"
      by (simp_all add: begun_def)
    obtain or tx1 d2 where o1: "oper p tx d1 = Some (or, tx1, d2)"
      using returns [OF pre, of tx d1] by (metis prod_cases3)
    have fr: "same 256 (length (content d)) (content d) (content d2)" "\<not> tClosed tx1"
      "length (content d) \<le> unat (tAppendOffset tx1)" if "length (content d2) < 2 ^ 63"
      using frame [OF pre inv o1 that] d1 off nc by (auto elim: same_weaken)
    show ?thesis
    proof (cases or)
      case (Inl e)
      then have "d' = d2" using run bg \<open>br = Inr tx\<close> o1 by (auto simp: run_tx_def)
      then show ?thesis using fr len by simp
    next
      case (Inr u)
      obtain tx2 where cm: "Commit env c1 tx1 d2 = (r, tx2, c', d')"
        using run bg \<open>br = Inr tx\<close> o1 Inr by (auto simp: run_tx_def split: prod.splits)
      have fit: "commit_fits c1 tx1 (mBuildTime env)"
        using fits bg \<open>br = Inr tx\<close> o1 Inr by (simp add: run_fits_def)
      have cases: "d' = d2 \<or> (\<exists>cr. commit_file env c1 tx1 d2 = (cr, d'))"
        using cm by (auto simp: Commit_def Let_def split: if_splits sum.splits prod.splits)
      then have "length (content d2) \<le> length (content d')"
        using commit_file_grows by (auto simp: grows_def)
      then have len2: "length (content d2) < 2 ^ 63" using len by simp
      obtain s' where s': "tx_inv (lib p) 256 (content d2) tx1 s'"
        using success [OF pre inv o1 [unfolded Inr] len2] by blast
      then have t: "table_ok 256 (unat (tAppendOffset tx1)) (tEntries tx1)"
        "unat (tAppendOffset tx1) \<le> length (content d2)" by (simp_all add: tx_inv_def)
      have hv: "header_valid (cHeader c1)" using bn(2) rep by (auto simp: caches_def represents_def holds_def)
      show ?thesis
        using cases
      proof
        assume "\<exists>cr. commit_file env c1 tx1 d2 = (cr, d')"
        then obtain cr where cf: "commit_file env c1 tx1 d2 = (cr, d')" by blast
        have "same 256 (length (content d)) (content d2) (content d')"
          using fr(3) [OF len2] by (intro same_weaken [OF commit_file_frame [OF hv fit t cf len]]) simp_all
        then show ?thesis using same_trans [OF fr(1) [OF len2]] by blast
      qed (use fr len2 in simp)
    qed
  qed
qed

end

section \<open>A handle that has fallen behind\<close>

lemma ensure_length:
  assumes "caches c h bu es" "length g = length f"
  shows "ensureEntriesLoaded c g = ensureEntriesLoaded c f"
proof -
  have "file_size g = file_size f" using assms(2) by (simp add: file_size_def)
  then show ?thesis using assms(1) by (auto simp: ensureEntriesLoaded_def caches_def)
qed

text \<open>The old contents under the old header.\<close>

lemma represents_rewound:
  assumes rep: "represents L f h bu es s" and sm: "same 256 (length f) f g" and len: "length g < 2 ^ 63"
  shows "represents L (take 256 f @ drop 256 g) h bu es s"
proof -
  let ?k = "take 256 f @ drop 256 g"
  have h: "holds f h bu es" "beyond_slots h" using rep by (auto simp: represents_def)
  then have n: "256 \<le> length f" using stored_length by (auto simp: holds_def)
  have l: "length ?k = length g" "length f \<le> length g" using n same_length [OF sm] by simp_all
  have s1: "same 256 (length f) f ?k"
    using sm l n by (auto simp: same_def nth_append)
  have "same 0 256 f ?k" using n l by (auto simp: same_def nth_append)
  then have s0: "same 0 128 f ?k" by (rule same_weaken) simp_all
  have "holds ?k h bu es" using holds_same [OF h s0 s1] len l by simp
  then show ?thesis by (rule represents_same [OF rep s1])
qed

lemma begin_stale:
  assumes rep: "represents L f h bu es s" and c: "caches c h bu es"
    and sm: "same 256 (length f) f (content d)" and len: "length (content d) < 2 ^ 63"
    and b: "Begin c d = Some (Inr tx, c1, d1)"
  shows "begun L c d tx c1 d1 s" "caches c1 h bu es"
proof -
  let ?k = "take 256 f @ drop 256 (content d)"
  have n: "256 \<le> length f" using rep stored_length by (auto simp: represents_def holds_def)
  have lk: "length ?k = length (content d)" using n same_length [OF sm] by simp
  obtain c' m where e: "ensureEntriesLoaded c ?k = (Inr (), c')" "cEntries c' = Some m"
    "stands_for m es" "caches c' h bu es"
    "cOpts c' = cOpts c" "cTxHeld c' = cTxHeld c" "cHeader c' = h" "cFile c'"
    by (rule ensure_loaded [OF represents_rewound [OF rep sm len] c])
  obtain r d2 where l: "lockFileExclusive d = (r, d2)" by fastforce
  have d2: "content d2 = content d" by (rule lock_cases [OF l])
  have el: "ensureEntriesLoaded c (content d2) = (Inr (), c')"
    using ensure_length [OF c lk] e(1) d2 by simp
  have tx: "tx = \<lparr>tEntries = m, tAppendOffset = file_size (content d), tDeadBytes = 0, tChurnOps = 0,
      tClosed = False, tFileLocked = True, tPathLocked = True\<rparr>" "c1 = c'\<lparr>cTxHeld := True\<rparr>" "d1 = d2"
    using b l el e(2) d2 by (auto simp: Begin_def split: if_splits sum.splits)
  note inv = represents_inv [OF rep e(3)]
  have t: "table_ok 256 (length (content d)) m"
    using table_ok_mono [OF inv(1)] same_length [OF sm] by simp
  have "refines L (content d) m s" by (rule refines_same [OF inv(2,1) sm])
  moreover have "256 \<le> length (content d)" using n same_length [OF sm] by simp
  moreover have "cHeader c = h" using c by (simp add: caches_def)
  ultimately show "begun L c d tx c1 d1 s"
    using t len d2 e by (simp add: begun_def tx tx_inv_def unat_file_size counters_new)
  show "caches c1 h bu es" using e(4) by (simp add: tx caches_def)
qed

context tx_operation begin

text \<open>The commit of a stale handle: the operation is applied to the old contents.\<close>

lemma stale_run:
  assumes pre: "pre p" and rep: "represents (lib p) f h bu es s" and c: "caches c h bu es"
    and sm: "same 256 (length f) f (content d)" and fits: "run_fits env (oper p) c d"
    and run: "run_tx env (oper p) c d = Some (Inr u, c', d')" and len: "length (content d') < 2 ^ 63"
    and len0: "length (content d) < 2 ^ 63"
  shows "\<exists>h' es' s'. effect p s s' \<and> represents (lib p) (content d') h' (mBuildTime env) es' s'"
proof -
  obtain tx c1 d1 tx1 d2 tx2 where bg: "Begin c d = Some (Inr tx, c1, d1)"
    and o1: "\<exists>v. oper p tx d1 = Some (Inr v, tx1, d2)" and cm: "Commit env c1 tx1 d2 = (Inr u, tx2, c', d')"
    using run by (auto simp: run_tx_def split: option.splits sum.splits prod.splits)
  obtain v where o1: "oper p tx d1 = Some (Inr v, tx1, d2)" using o1 by blast
  note bn = begin_stale [OF rep c sm len0 bg]
  then have inv: "tx_inv (lib p) 256 (content d1) tx s" and nc: "\<not> tClosed tx" by (simp_all add: begun_def)
  obtain h' where cf: "commit_file env c1 tx1 d2 = (Inr h', d')"
    using cm by (auto simp: Commit_def Let_def split: if_splits sum.splits prod.splits)
  then have "length (content d2) \<le> length (content d')" using commit_file_grows by (auto simp: grows_def)
  then have len2: "length (content d2) < 2 ^ 63" using len by simp
  obtain s' where s': "effect p s s'" "tx_inv (lib p) 256 (content d2) tx1 s'"
    using success [OF pre inv o1 len2] by blast
  then have t: "table_ok 256 (unat (tAppendOffset tx1)) (tEntries tx1)"
    "unat (tAppendOffset tx1) \<le> length (content d2)" "refines (lib p) (content d2) (tEntries tx1) s'"
    by (simp_all add: tx_inv_def)
  have hv: "header_valid (cHeader c1)" using bn(2) rep by (auto simp: caches_def represents_def holds_def)
  have fit: "commit_fits c1 tx1 (mBuildTime env)" using fits bg o1 by (simp add: run_fits_def)
  note ok = commit_file_success [OF hv fit t(1,2) cf len]
  have "refines (lib p) (content d') (tEntries tx1) s'"
    by (rule refines_same [OF t(3) t(1) ok(5)])
  moreover have "unat (tAppendOffset tx1) \<le> length (content d')" using same_length [OF ok(5)] by simp
  ultimately show ?thesis using commit_represents(1) [OF ok(2,3) t(1)] s'(1) by blast
qed

end

section \<open>The lost update\<close>

definition stale_args :: "Container \<Rightarrow> env \<Rightarrow> bytes \<Rightarrow> source option \<Rightarrow> bytes \<Rightarrow> WriteOptions option \<Rightarrow> put_args" where
  "stale_args c env path src meta wopts = \<lparr>aEnv = env, aOpts = cOpts c, aPath = path, aSource = src,
     aMeta = meta, aWrite = wopts\<rparr>"

text \<open>
  C16: the lost update. Two handles have read the same file; each adds an entry of its own, one after
  the other, and both are told that it worked. Afterwards the file, intact as it is, holds the second
  entry and not the first.
\<close>

theorem lost_update:
  assumes rep: "represents L (content d) h bu es s" and a: "caches a h bu es" and b: "caches b h bu es"
    and lib: "nLib enva = L" "nLib envb = L" and env: "env_ok enva (cOpts a) wa" "env_ok envb (cOpts b) wb"
    and fits: "run_fits cenva (Tx_Add enva (cOpts a) pa xa ma wa) a d"
      "run_fits cenvb (Tx_Add envb (cOpts b) pb xb mb wb) b d1"
    and runa: "Container_Add cenva enva pa xa ma wa a d = Some (Inr (), a', d1)"
    and runb: "Container_Add cenvb envb pb xb mb wb b d1 = Some (Inr (), b', d2)"
    and q: "normalize pa = Inr qa" "normalize pb = Inr qb" "qa \<noteq> qb"
    and len: "length (content d1) < 2 ^ 63" "length (content d2) < 2 ^ 63"
  shows "\<exists>h' es' s'. represents L (content d2) h' (mBuildTime cenvb) es' s' \<and> s' qa = None \<and>
    (\<exists>src. xb = Some src \<and> s' qb = Some (fst src, mb))"
proof -
  let ?a = "stale_args a enva pa xa ma wa" and ?b = "stale_args b envb pb xb mb wb"
  have pre: "put_pre ?a" "put_pre ?b" using env by (simp_all add: put_pre_def stale_args_def)
  have la: "nLib (aEnv ?a) = L" "nLib (aEnv ?b) = L" using lib by (simp_all add: stale_args_def)
  have ra: "run_tx cenva (add_op ?a) a d = Some (Inr (), a', d1)"
    and rb: "run_tx cenvb (add_op ?b) b d1 = Some (Inr (), b', d2)"
    using runa runb by (simp_all add: container_ops stale_args_def)
  have fa: "run_fits cenva (add_op ?a) a d" and fb: "run_fits cenvb (add_op ?b) b d1"
    using fits by (simp_all add: add_op_def stale_args_def)
  have absent: "s qa = None"
    using add.run_outcome [OF pre(1) _ a fa ra len(1), unfolded la, OF rep] q(1)
    by (auto simp: ran_def put_effect_def stale_args_def)
  have sm: "same 256 (length (content d)) (content d) (content d1)"
    using add.run_keeps [OF pre(1) _ a fa ra len(1), unfolded la, OF rep] .
  obtain h' es' s' where s': "put_effect (\<lambda>x. x = None) ?b s s'"
    "represents L (content d2) h' (mBuildTime cenvb) es' s'"
    using add.stale_run [OF pre(2) _ b sm fb rb len(2,1), unfolded la, OF rep] by blast
  then have "s' qa = None \<and> (\<exists>src. xb = Some src \<and> s' qb = Some (fst src, mb))"
    using absent q by (auto simp: put_effect_def stale_args_def)
  then show ?thesis using s'(2) by blast
qed

end
