(* ===== verification/Glob.thy ===== *)
theory Glob
  imports TxOps
begin

text \<open>
  \<^verbatim>\<open>path.Match\<close> of the Go library and \<^verbatim>\<open>Tx.RemoveGlob\<close> of \<^verbatim>\<open>fbx/tx.go\<close>, which is built on it. Patterns
  are checked chunk by chunk; the lemmas show that whether a pattern is malformed does not depend on
  the name, that what matches is in the language of the pattern, and hence what \<^verbatim>\<open>RemoveGlob\<close> removes.
\<close>

section \<open>Runes\<close>

text \<open>\<^verbatim>\<open>utf8.DecodeRuneInString\<close>: the first rune and its width; 65533 is \<^verbatim>\<open>utf8.RuneError\<close>.\<close>

definition runeError :: nat where "runeError = 65533"

abbreviation low6 :: "u8 \<Rightarrow> nat" where "low6 b \<equiv> unat b mod 64"

abbreviation bad_rune :: "nat \<times> nat" where "bad_rune \<equiv> (runeError, 1)"

fun rune2 :: "u8 \<Rightarrow> bytes \<Rightarrow> nat \<times> nat" where
  "rune2 a (b # _) = (if cont b then ((unat a mod 32) * 64 + low6 b, 2) else bad_rune)"
| "rune2 a _ = bad_rune"

fun rune3 :: "u8 \<Rightarrow> bytes \<Rightarrow> nat \<times> nat" where
  "rune3 a (b # c # _) =
     (if (if a = 0xE0 then 0xA0 \<le> b \<and> b \<le> 0xBF
          else if a = 0xED then 0x80 \<le> b \<and> b \<le> 0x9F else cont b) \<and> cont c
      then ((unat a mod 16) * 4096 + low6 b * 64 + low6 c, 3) else bad_rune)"
| "rune3 a _ = bad_rune"

fun rune4 :: "u8 \<Rightarrow> bytes \<Rightarrow> nat \<times> nat" where
  "rune4 a (b # c # d # _) =
     (if (if a = 0xF0 then 0x90 \<le> b \<and> b \<le> 0xBF
          else if a = 0xF4 then 0x80 \<le> b \<and> b \<le> 0x8F else cont b) \<and> cont c \<and> cont d
      then ((unat a mod 8) * 262144 + low6 b * 4096 + low6 c * 64 + low6 d, 4) else bad_rune)"
| "rune4 a _ = bad_rune"

fun decode_rune :: "bytes \<Rightarrow> nat \<times> nat" where
  "decode_rune [] = (runeError, 0)"
| "decode_rune (a # s) =
     (if a < 0x80 then (unat a, 1)
      else if 0xC2 \<le> a \<and> a \<le> 0xDF then rune2 a s
      else if 0xE0 \<le> a \<and> a \<le> 0xEF then rune3 a s
      else if 0xF0 \<le> a \<and> a \<le> 0xF4 then rune4 a s
      else bad_rune)"

lemma rune_width:
  "rune2 a s = (r, n) \<Longrightarrow> 0 < n \<and> n \<le> Suc (length s)"
  "rune3 a s = (r, n) \<Longrightarrow> 0 < n \<and> n \<le> Suc (length s)"
  "rune4 a s = (r, n) \<Longrightarrow> 0 < n \<and> n \<le> Suc (length s)"
proof -
  show "rune2 a s = (r, n) \<Longrightarrow> 0 < n \<and> n \<le> Suc (length s)"
    by (cases "(a, s)" rule: rune2.cases) (simp_all only: rune2.simps prod.inject split: if_split_asm, auto)
  show "rune3 a s = (r, n) \<Longrightarrow> 0 < n \<and> n \<le> Suc (length s)"
    by (cases "(a, s)" rule: rune3.cases) (simp_all only: rune3.simps prod.inject split: if_split_asm, auto)
  show "rune4 a s = (r, n) \<Longrightarrow> 0 < n \<and> n \<le> Suc (length s)"
    by (cases "(a, s)" rule: rune4.cases) (simp_all only: rune4.simps prod.inject split: if_split_asm, auto)
qed

lemma rune_append:
  "rune2 a s = (r, n) \<Longrightarrow> (r, n) \<noteq> bad_rune \<Longrightarrow> rune2 a (s @ t) = (r, n)"
  "rune3 a s = (r, n) \<Longrightarrow> (r, n) \<noteq> bad_rune \<Longrightarrow> rune3 a (s @ t) = (r, n)"
  "rune4 a s = (r, n) \<Longrightarrow> (r, n) \<noteq> bad_rune \<Longrightarrow> rune4 a (s @ t) = (r, n)"
proof -
  show "rune2 a s = (r, n) \<Longrightarrow> (r, n) \<noteq> bad_rune \<Longrightarrow> rune2 a (s @ t) = (r, n)"
    by (cases "(a, s)" rule: rune2.cases) (auto simp only: prod.inject append_Cons append_Nil rune2.simps)
  show "rune3 a s = (r, n) \<Longrightarrow> (r, n) \<noteq> bad_rune \<Longrightarrow> rune3 a (s @ t) = (r, n)"
    by (cases "(a, s)" rule: rune3.cases) (auto simp only: prod.inject append_Cons append_Nil rune3.simps)
  show "rune4 a s = (r, n) \<Longrightarrow> (r, n) \<noteq> bad_rune \<Longrightarrow> rune4 a (s @ t) = (r, n)"
    by (cases "(a, s)" rule: rune4.cases) (auto simp only: prod.inject append_Cons append_Nil rune4.simps)
qed

text \<open>The cases of \<open>decode_rune\<close>, for proofs.\<close>

lemma decode_rune_cases:
  assumes "decode_rune (a # s) = (r, n)"
  obtains (one) "a < 0x80" "(r, n) = (unat a, 1)"
  | (two) "\<not> a < 0x80" "0xC2 \<le> a \<and> a \<le> 0xDF" "rune2 a s = (r, n)"
  | (three) "\<not> a < 0x80" "\<not> (0xC2 \<le> a \<and> a \<le> 0xDF)" "0xE0 \<le> a \<and> a \<le> 0xEF" "rune3 a s = (r, n)"
  | (four) "\<not> a < 0x80" "\<not> (0xC2 \<le> a \<and> a \<le> 0xDF)" "\<not> (0xE0 \<le> a \<and> a \<le> 0xEF)"
      "0xF0 \<le> a \<and> a \<le> 0xF4" "rune4 a s = (r, n)"
  | (bad) "(r, n) = bad_rune"
  using assms unfolding decode_rune.simps by (metis (mono_tags))

lemma decode_width: 
  assumes "s \<noteq> []"
  shows "0 < snd (decode_rune s) \<and> snd (decode_rune s) \<le> length s"
proof -
  obtain a x where s: "s = a # x" using assms by (cases s) auto
  obtain r n where d: "decode_rune (a # x) = (r, n)" by fastforce
  then have "0 < n \<and> n \<le> Suc (length x)"
    by (cases rule: decode_rune_cases) (use rune_width [of a x r n] in auto)
  then show ?thesis unfolding s d by simp
qed

text \<open>A rune that was decoded does not depend on what follows it.\<close>

lemma decode_append:
  assumes "decode_rune s = (r, n)" "s \<noteq> []" "(r, n) \<noteq> bad_rune"
  shows "decode_rune (s @ t) = (r, n)"
proof -
  obtain a x where s: "s = a # x" using assms(2) by (cases s) auto
  from assms(1) [unfolded s] show ?thesis
    unfolding s append_Cons
  proof (cases rule: decode_rune_cases)
    case one
    then show "decode_rune (a # x @ t) = (r, n)" by (simp only: decode_rune.simps if_True)
  next
    case two
    then show "decode_rune (a # x @ t) = (r, n)"
      using rune_append(1) [OF two(3) assms(3)] by (simp only: decode_rune.simps if_True if_False simp_thms)
  next
    case three
    then show "decode_rune (a # x @ t) = (r, n)"
      using rune_append(2) [OF three(4) assms(3)] by (simp only: decode_rune.simps if_True if_False simp_thms)
  next
    case four
    then show "decode_rune (a # x @ t) = (r, n)"
      using rune_append(3) [OF four(5) assms(3)] by (simp only: decode_rune.simps if_True if_False simp_thms)
  next
    case bad
    then show "decode_rune (a # x @ t) = (r, n)" using assms(3) by blast
  qed
qed

declare decode_rune.simps [simp del]

section \<open>Matching one chunk\<close>

text \<open>\<^verbatim>\<open>path.ErrBadPattern\<close>\<close>

definition errBadPattern :: error where "errBadPattern = LibErr 5"

text \<open>\<^verbatim>\<open>getEsc\<close>: a character of a class, possibly escaped; 45, 92 and 93 are \<^verbatim>\<open>-\<close>, \<^verbatim>\<open>\\<close> and \<^verbatim>\<open>]\<close>.\<close>

definition get_esc :: "bytes \<Rightarrow> (nat \<times> bytes) option" where
  "get_esc chunk =
     (if chunk = [] \<or> hd chunk = 45 \<or> hd chunk = 93 then None
      else let b = (if hd chunk = 92 then tl chunk else chunk) in
      if b = [] then None
      else let (r, n) = decode_rune b in
      if (r, n) = bad_rune then None
      else if drop n b = [] then None else Some (r, drop n b))"

lemma get_esc_shrinks: "get_esc chunk = Some (r, tail) \<Longrightarrow> length tail < length chunk \<and> tail \<noteq> []"
  using decode_width [of "if hd chunk = 92 then tl chunk else chunk"]
  by (auto simp: get_esc_def Let_def split: list.splits if_splits prod.splits)

text \<open>The ranges of a class up to the closing bracket, with the rune to compare.\<close>

function class_loop :: "nat \<Rightarrow> bool \<Rightarrow> bool \<Rightarrow> bytes \<Rightarrow> (bool \<times> bytes) option" where
  "class_loop r matched later chunk =
     (if chunk \<noteq> [] \<and> hd chunk = 93 \<and> later then Some (matched, tl chunk)
      else case get_esc chunk of
        None \<Rightarrow> None
      | Some (lo, chunk) \<Rightarrow>
          (case (if hd chunk = 45 then get_esc (tl chunk) else Some (lo, chunk)) of
             None \<Rightarrow> None
           | Some (hi, chunk) \<Rightarrow> class_loop r (matched \<or> lo \<le> r \<and> r \<le> hi) True chunk))"
  by pat_completeness auto
termination
  by (relation "measure (\<lambda>(r, m, l, chunk). length chunk)")
    (auto dest!: get_esc_shrinks split: if_splits)

declare class_loop.simps [simp del]

text \<open>One round of the loop.\<close>

lemma class_loop_end: "later \<Longrightarrow> class_loop r m later (93 # cs) = Some (m, cs)"
  by (subst class_loop.simps) simp

definition class_range :: "bytes \<Rightarrow> (nat \<times> nat \<times> bytes) option" where
  "class_range chunk =
     (case get_esc chunk of
        None \<Rightarrow> None
      | Some (lo, chunk) \<Rightarrow>
          (case (if hd chunk = 45 then get_esc (tl chunk) else Some (lo, chunk)) of
             None \<Rightarrow> None
           | Some (hi, chunk) \<Rightarrow> Some (lo, hi, chunk)))"

lemma class_loop_round:
  "\<not> (chunk \<noteq> [] \<and> hd chunk = 93 \<and> later) \<Longrightarrow>
   class_loop r m later chunk =
     (case class_range chunk of
        None \<Rightarrow> None
      | Some (lo, hi, chunk) \<Rightarrow> class_loop r (m \<or> lo \<le> r \<and> r \<le> hi) True chunk)"
  by (subst class_loop.simps) (auto simp: class_range_def split: option.split)

lemma class_range_shrinks: "class_range chunk = Some (lo, hi, tail) \<Longrightarrow> length tail < length chunk \<and> tail \<noteq> []"
  by (auto simp: class_range_def dest!: get_esc_shrinks split: option.splits if_splits)

lemma class_loop_induct [case_names ending step]:
  assumes "\<And>r m cs. P r m True (93 # cs)"
    and "\<And>r m later chunk. \<not> (chunk \<noteq> [] \<and> hd chunk = 93 \<and> later) \<Longrightarrow>
      (\<And>lo hi tail. class_range chunk = Some (lo, hi, tail) \<Longrightarrow> P r (m \<or> lo \<le> r \<and> r \<le> hi) True tail) \<Longrightarrow>
      P r m later chunk"
  shows "P r m later chunk"
proof (induction chunk arbitrary: m later rule: length_induct)
  case (1 chunk)
  show ?case
  proof (cases "chunk \<noteq> [] \<and> hd chunk = 93 \<and> later")
    case True
    then show ?thesis using assms(1) by (cases chunk) auto
  next
    case False
    show ?thesis by (rule assms(2) [OF False]) (use 1 class_range_shrinks in blast)
  qed
qed

lemma class_loop_shrinks: "class_loop r m l chunk = Some (x, tail) \<Longrightarrow> length tail < length chunk"
proof (induction r m l chunk rule: class_loop_induct)
  case (ending r m cs)
  then show ?case by (simp add: class_loop_end)
next
  case (step r m later chunk)
  from step.hyps step.prems obtain lo hi post where c: "class_range chunk = Some (lo, hi, post)"
    "class_loop r (m \<or> lo \<le> r \<and> r \<le> hi) True post = Some (x, tail)"
    by (auto simp: class_loop_round split: option.splits)
  then show ?case using step.IH [OF c] class_range_shrinks [OF c(1)] by simp
qed

text \<open>
  \<^verbatim>\<open>matchChunk\<close>: after a mismatch (\<open>failed\<close>) the rest of the chunk is still checked for its syntax.
  63, 91 and 94 are \<^verbatim>\<open>?\<close>, \<^verbatim>\<open>[\<close> and \<^verbatim>\<open>^\<close>.
\<close>

definition negated :: "bytes \<Rightarrow> bool" where "negated cs \<longleftrightarrow> cs \<noteq> [] \<and> hd cs = 94"

definition class_body :: "bytes \<Rightarrow> bytes" where "class_body cs = (if negated cs then tl cs else cs)"

definition skip_rune :: "bytes \<Rightarrow> bytes" where "skip_rune s = drop (snd (decode_rune s)) s"

lemma class_body_le: "length (class_body cs) \<le> length cs"
  by (simp add: class_body_def)

lemma class_end_le:
  "class_loop r m l (class_body cs) = Some (x, ds) \<Longrightarrow> length ds \<le> length cs"
  using class_loop_shrinks [of r m l "class_body cs" x ds] class_body_le [of cs] by simp

function match_chunk :: "bool \<Rightarrow> bytes \<Rightarrow> bytes \<Rightarrow> bytes option result" where
  "match_chunk failed [] s = Inr (if failed then None else Some s)"
| "match_chunk failed (c # cs) s =
     (let failed = (failed \<or> s = []) in
      if c = 91 then
        (let r = (if failed then 0 else fst (decode_rune s));
             s = (if failed then s else skip_rune s) in
         case class_loop r False False (class_body cs) of
           None \<Rightarrow> Inl errBadPattern
         | Some (matched, ds) \<Rightarrow> match_chunk (failed \<or> matched = negated cs) ds s)
      else if c = 63 then
        (if failed then match_chunk True cs s else match_chunk (hd s = 47) cs (skip_rune s))
      else if c = 92 then
        (case cs of
           [] \<Rightarrow> Inl errBadPattern
         | d # cs \<Rightarrow> match_chunk (failed \<or> d \<noteq> hd s) cs (if failed then s else tl s))
      else match_chunk (failed \<or> c \<noteq> hd s) cs (if failed then s else tl s))"
  by pat_completeness auto
termination
  by (relation "measure (\<lambda>(f, chunk, s). length chunk)") (auto dest!: class_end_le)

declare match_chunk.simps(2) [simp del]

text \<open>The cases of one step.\<close>

lemma match_class:
  "match_chunk f (91 # cs) s =
     (case class_loop (if f \<or> s = [] then 0 else fst (decode_rune s)) False False (class_body cs) of
        None \<Rightarrow> Inl errBadPattern
      | Some (matched, ds) \<Rightarrow>
          match_chunk (f \<or> s = [] \<or> matched = negated cs) ds (if f \<or> s = [] then s else skip_rune s))"
  unfolding match_chunk.simps Let_def disj_assoc by (simp only: if_True simp_thms)

lemma match_any:
  "match_chunk f (63 # cs) s =
     (if f \<or> s = [] then match_chunk True cs s else match_chunk (hd s = 47) cs (skip_rune s))"
  by (simp add: match_chunk.simps Let_def)

lemma match_escaped:
  "match_chunk f [92] s = Inl errBadPattern"
  "match_chunk f (92 # d # cs) s =
     match_chunk (f \<or> s = [] \<or> d \<noteq> hd s) cs (if f \<or> s = [] then s else tl s)"
  by (simp_all add: match_chunk.simps Let_def)

lemma match_literal:
  "c \<noteq> 91 \<Longrightarrow> c \<noteq> 63 \<Longrightarrow> c \<noteq> 92 \<Longrightarrow>
   match_chunk f (c # cs) s = match_chunk (f \<or> s = [] \<or> c \<noteq> hd s) cs (if f \<or> s = [] then s else tl s)"
  by (simp add: match_chunk.simps Let_def)

lemmas match_steps = match_class match_any match_escaped match_literal

text \<open>Induction along a chunk.\<close>

lemma chunk_induct [case_names nil cls any escend escaped literal]:
  assumes "P []"
    and "\<And>cs. (\<And>r m l x ds. class_loop r m l (class_body cs) = Some (x, ds) \<Longrightarrow> P ds) \<Longrightarrow> P (91 # cs)"
    and "\<And>cs. P cs \<Longrightarrow> P (63 # cs)" and "P [92]" and "\<And>d cs. P cs \<Longrightarrow> P (92 # d # cs)"
    and "\<And>c cs. c \<noteq> 91 \<Longrightarrow> c \<noteq> 63 \<Longrightarrow> c \<noteq> 92 \<Longrightarrow> P cs \<Longrightarrow> P (c # cs)"
  shows "P chunk"
proof (induction chunk rule: length_induct)
  case (1 chunk)
  show ?case
  proof (cases chunk)
    case Nil
    then show ?thesis using assms(1) by simp
  next
    case (Cons c cs)
    have P: "P ds" if "length ds \<le> length cs" for ds using 1 Cons that by simp
    consider "c = 91" | "c = 63" | "c = 92" | "c \<noteq> 91" "c \<noteq> 63" "c \<noteq> 92" by blast
    then show ?thesis
    proof cases
      case 1
      then show ?thesis using assms(2) [of cs] P class_end_le Cons by blast
    next
      case 2
      then show ?thesis using assms(3) P Cons by blast
    next
      case 3
      then show ?thesis using assms(4,5) P Cons by (cases cs) auto
    next
      case 4
      then show ?thesis using assms(6) P Cons by blast
    qed
  qed
qed

section \<open>Matching a pattern\<close>

text \<open>\<^verbatim>\<open>scanChunk\<close>: leading stars, then everything up to the next star outside a class.\<close>

fun scan_part :: "bool \<Rightarrow> bytes \<Rightarrow> bytes \<times> bytes" where
  "scan_part inrange [] = ([], [])"
| "scan_part inrange (c # p) =
     (if c = 92 then
        (case p of
           [] \<Rightarrow> ([c], [])
         | d # p \<Rightarrow> (let (x, y) = scan_part inrange p in (c # d # x, y)))
      else if c = 42 \<and> \<not> inrange then ([], c # p)
      else (let (x, y) = scan_part (c = 91 \<or> c \<noteq> 93 \<and> inrange) p in (c # x, y)))"

definition scan_chunk :: "bytes \<Rightarrow> bool \<times> bytes \<times> bytes" where
  "scan_chunk pattern =
     (pattern \<noteq> [] \<and> hd pattern = 42, scan_part False (dropWhile (\<lambda>c. c = 42) pattern))"

lemma scan_part_append: "scan_part i p = (x, y) \<Longrightarrow> p = x @ y"
  by (induction i p arbitrary: x y rule: scan_part.induct)
    (auto split: if_splits list.splits prod.splits)

lemma scan_part_first: "scan_part False p = (x, y) \<Longrightarrow> p \<noteq> [] \<Longrightarrow> hd p \<noteq> 42 \<Longrightarrow> x \<noteq> []"
  by (cases p) (auto split: if_splits list.splits prod.splits)

lemma scan_chunk_shrinks:
  assumes "scan_chunk p = (star, chunk, tail)" "p \<noteq> []"
  shows "length tail < length p" "star \<longleftrightarrow> hd p = 42" "chunk = [] \<Longrightarrow> tail = [] \<and> star"
proof -
  let ?q = "dropWhile (\<lambda>c. c = 42) p"
  have sp: "scan_part False ?q = (chunk, tail)" and st: "star \<longleftrightarrow> hd p = 42"
    using assms by (simp_all add: scan_chunk_def)
  have q: "?q \<noteq> [] \<Longrightarrow> hd ?q \<noteq> 42" using hd_dropWhile [of "\<lambda>c. c = 42" p] by blast
  have eq: "?q = chunk @ tail" by (rule scan_part_append [OF sp])
  have len: "length ?q \<le> length p" by (rule length_dropWhile_le)
  show "star \<longleftrightarrow> hd p = 42" by (rule st)
  have c: "chunk \<noteq> []" if "?q \<noteq> []" using scan_part_first [OF sp that] q [OF that] by blast
  show "length tail < length p"
  proof (cases "?q = []")
    case True
    then show ?thesis using eq assms(2) by simp
  next
    case False
    then have "length tail < length ?q" using c eq by (metis append_Nil length_append length_greater_0_conv less_add_same_cancel2)
    then show ?thesis using len by simp
  qed
  show "chunk = [] \<Longrightarrow> tail = [] \<and> star"
    using c eq st assms(2) by (cases p) (auto split: if_splits)
qed

text \<open>The search for a match of the chunk further on, which cannot skip a slash.\<close>

fun skip_match :: "bytes \<Rightarrow> bool \<Rightarrow> bytes \<Rightarrow> bytes option result" where
  "skip_match chunk last_chunk [] = Inr None"
| "skip_match chunk last_chunk (c # name) =
     (if c = 47 then Inr None
      else case match_chunk False chunk name of
        Inl e \<Rightarrow> Inl e
      | Inr None \<Rightarrow> skip_match chunk last_chunk name
      | Inr (Some t) \<Rightarrow> if last_chunk \<and> t \<noteq> [] then skip_match chunk last_chunk name else Inr (Some t))"

text \<open>The check of the syntax of what is left of the pattern.\<close>

function check_rest :: "bytes \<Rightarrow> bool result" where
  "check_rest pattern =
     (if pattern = [] then Inr False
      else case scan_chunk pattern of
        (star, chunk, tail) \<Rightarrow>
          (case match_chunk False chunk [] of Inl e \<Rightarrow> Inl e | Inr _ \<Rightarrow> check_rest tail))"
  by pat_completeness auto
termination
  by (relation "measure length") (auto dest!: scan_chunk_shrinks(1) [OF sym])

function path_match :: "bytes \<Rightarrow> bytes \<Rightarrow> bool result" where
  "path_match pattern name =
     (if pattern = [] then Inr (name = [])
      else case scan_chunk pattern of
        (star, chunk, tail) \<Rightarrow>
          if star \<and> chunk = [] then Inr (47 \<notin> set name)
          else (case match_chunk False chunk name of
            Inl e \<Rightarrow> Inl e
          | Inr m \<Rightarrow>
              (case (case m of
                       Some t \<Rightarrow> if t = [] \<or> tail \<noteq> [] then Inr m
                                 else if star then skip_match chunk (tail = []) name else Inr None
                     | None \<Rightarrow> if star then skip_match chunk (tail = []) name else Inr None) of
                 Inl e \<Rightarrow> Inl e
               | Inr (Some t) \<Rightarrow> path_match tail t
               | Inr None \<Rightarrow> check_rest tail)))"
  by pat_completeness auto
termination
  by (relation "measure (\<lambda>(p, n). length p)") (auto dest!: scan_chunk_shrinks(1) [OF sym])

declare check_rest.simps [simp del] path_match.simps [simp del]

section \<open>Malformed patterns\<close>

text \<open>Where a class ends does not depend on the rune it is compared with.\<close>

lemma class_loop_syntax: "map_option snd (class_loop r m l chunk) = map_option snd (class_loop r' m' l chunk)"
proof (induction r m l chunk arbitrary: r' m' rule: class_loop_induct)
  case (ending r m cs)
  then show ?case by (simp add: class_loop_end)
next
  case (step r m later chunk)
  show ?case
  proof (cases "class_range chunk")
    case None
    show ?thesis unfolding class_loop_round [OF step.hyps] None by simp
  next
    case (Some p)
    obtain lo hi post where p: "class_range chunk = Some (lo, hi, post)" using Some by (cases p) auto
    show ?thesis
      unfolding class_loop_round [OF step.hyps] p option.case prod.case by (rule step.IH [OF p])
  qed
qed

lemma class_loop_None: "class_loop r m l chunk = None \<longleftrightarrow> class_loop r' m' l chunk = None"
  using class_loop_syntax [of r m l chunk r' m'] by (cases "class_loop r m l chunk"; cases "class_loop r' m' l chunk") auto

lemma class_loop_rest:
  "class_loop r m l chunk = Some (x, y) \<Longrightarrow> class_loop r' m' l chunk = Some (x', y') \<Longrightarrow> y = y'"
  using class_loop_syntax [of r m l chunk r' m'] by simp

lemma match_chunk_syntax: "isl (match_chunk f chunk s) \<longleftrightarrow> isl (match_chunk f' chunk s')"
proof (induction chunk arbitrary: f s f' s' rule: chunk_induct)
  case (cls cs)
  show ?case
  proof (cases "class_loop 0 False False (class_body cs)")
    case None
    then have "class_loop r False False (class_body cs) = None" for r
      using class_loop_None by blast
    then show ?thesis by (simp add: match_class)
  next
    case (Some p)
    obtain x ds where p: "class_loop 0 False False (class_body cs) = Some (x, ds)"
      using Some by (cases p) auto
    have "\<exists>y. class_loop r False False (class_body cs) = Some (y, ds)" for r
    proof -
      have "class_loop r False False (class_body cs) \<noteq> None"
        using class_loop_None [of r False False "class_body cs" 0 False] p by (simp only: option.simps) simp
      then obtain y es where y: "class_loop r False False (class_body cs) = Some (y, es)" by fast
      then show ?thesis using class_loop_rest [OF p y] by blast
    qed
    then obtain y where y: "\<And>r. class_loop r False False (class_body cs) = Some (y r, ds)" by metis
    show ?thesis unfolding match_class y option.case prod.case by (rule cls.IH [OF p])
  qed
next
  case (any cs)
  then show ?case by (simp add: match_any)
next
  case (escaped d cs)
  then show ?case unfolding match_escaped by blast
next
  case (literal c cs)
  show ?case unfolding match_literal [OF literal.hyps] by (rule literal.IH)
qed (simp_all add: match_escaped)

lemma skip_match_syntax: "isl (skip_match chunk l name) \<Longrightarrow> isl (match_chunk f chunk s)"
proof (induction name)
  case (Cons c name)
  show ?case
  proof (cases "match_chunk False chunk name")
    case (Inl e)
    then show ?thesis using match_chunk_syntax [of False chunk name f s] by simp
  next
    case (Inr m)
    then show ?thesis using Cons by (cases m) (auto split: if_splits)
  qed
qed simp

text \<open>Whether a pattern is malformed does not depend on the name.\<close>

lemma check_rest_Nil [simp]: "check_rest [] = Inr False"
  by (subst check_rest.simps) simp

lemma check_rest_step:
  "p \<noteq> [] \<Longrightarrow> scan_chunk p = (star, chunk, tail) \<Longrightarrow>
   isl (check_rest p) \<longleftrightarrow> isl (match_chunk False chunk []) \<or> isl (check_rest tail)"
  by (subst check_rest.simps) (auto split: sum.split)

lemma path_match_syntax: "isl (path_match p n) \<longleftrightarrow> isl (check_rest p)"
proof (induction p arbitrary: n rule: length_induct)
  case (1 p)
  show ?case
  proof (cases "p = []")
    case True
    then show ?thesis by (subst path_match.simps) simp
  next
    case False
    obtain star chunk tail where sc: "scan_chunk p = (star, chunk, tail)" by (metis prod_cases3)
    note sh = scan_chunk_shrinks [OF sc False]
    note ck = check_rest_step [OF False sc]
    have IH: "isl (path_match tail t) \<longleftrightarrow> isl (check_rest tail)" for t using 1 sh(1) by blast
    have sy: "isl (match_chunk False chunk n) \<longleftrightarrow> isl (match_chunk False chunk [])"
      by (rule match_chunk_syntax)
    have sk: "isl (skip_match chunk l n) \<Longrightarrow> isl (match_chunk False chunk [])" for l
      by (rule skip_match_syntax)
    show ?thesis
    proof (cases "star \<and> chunk = []")
      case True
      then show ?thesis using sh(3) ck sc False by (subst path_match.simps) simp
    next
      case nt: False
      show ?thesis
      proof (cases "match_chunk False chunk n")
        case (Inl e)
        then show ?thesis using sy ck nt sc False by (subst path_match.simps) simp
      next
        case (Inr m)
        then have no: "\<not> isl (match_chunk False chunk [])" using sy by simp
        have "\<exists>y. skip_match chunk l n = Inr y" for l
          using sk [of l] no by (cases "skip_match chunk l n") auto
        then obtain x where x: "\<And>l. skip_match chunk l n = Inr (x l)" by metis
        show ?thesis
          using no ck nt sc False Inr IH by (subst path_match.simps) (auto simp: x split: option.split)
      qed
    qed
  qed
qed

section \<open>The language of a pattern\<close>

text \<open>
  What a pattern stands for: a star is any string without a slash, a question mark any rune but a
  slash, a class one rune that is in it, or not in it, and everything else stands for itself.
\<close>

inductive in_glob :: "bytes \<Rightarrow> bytes \<Rightarrow> bool" where
  "in_glob [] []"
| "47 \<notin> set u \<Longrightarrow> in_glob p n \<Longrightarrow> in_glob (42 # p) (u @ n)"
| "s \<noteq> [] \<Longrightarrow> hd s \<noteq> 47 \<Longrightarrow> in_glob p (skip_rune s) \<Longrightarrow> in_glob (63 # p) s"
| "s \<noteq> [] \<Longrightarrow> class_loop (fst (decode_rune s)) False False (class_body cs) = Some (m, p) \<Longrightarrow>
   m \<noteq> negated cs \<Longrightarrow> in_glob p (skip_rune s) \<Longrightarrow> in_glob (91 # cs) s"
| "in_glob p n \<Longrightarrow> in_glob (92 # d # p) (d # n)"
| "c \<notin> {42, 63, 91, 92} \<Longrightarrow> in_glob p n \<Longrightarrow> in_glob (c # p) (c # n)"

lemma in_glob_one: "c \<notin> {63, 91, 92} \<Longrightarrow> in_glob p n \<Longrightarrow> in_glob (c # p) (c # n)"
  using in_glob.intros(2) [of "[42]" p n] in_glob.intros(6) [of c p n] by (cases "c = 42") auto

lemma get_esc_append:
  assumes "get_esc chunk = Some (r, ds)"
  shows "get_esc (chunk @ p) = Some (r, ds @ p)"
proof -
  define b where "b = (if hd chunk = 92 then tl chunk else chunk)"
  obtain x n where d: "decode_rune b = (x, n)" by fastforce
  have f: "chunk \<noteq> []" "hd chunk \<noteq> 45" "hd chunk \<noteq> 93" "b \<noteq> []" "(x, n) \<noteq> bad_rune" "drop n b \<noteq> []"
    "r = x" "ds = drop n b"
    using assms d unfolding get_esc_def b_def [symmetric] Let_def by (auto split: if_splits)
  have b: "(if hd (chunk @ p) = 92 then tl (chunk @ p) else chunk @ p) = b @ p"
    using f(1) by (simp add: b_def)
  have "decode_rune (b @ p) = (x, n)" by (rule decode_append [OF d f(4,5)])
  moreover have "n \<le> length b" using f(6) by simp
  ultimately show ?thesis
    unfolding get_esc_def b Let_def using f by simp
qed

lemma class_range_append:
  assumes "class_range chunk = Some (lo, hi, ds)"
  shows "class_range (chunk @ p) = Some (lo, hi, ds @ p)"
proof -
  obtain post where g: "get_esc chunk = Some (lo, post)" using assms by (auto simp: class_range_def split: option.splits)
  have ne: "post \<noteq> []" using get_esc_shrinks [OF g] by blast
  have h: "hd (post @ p) = hd post" "tl (post @ p) = tl post @ p" using ne by simp_all
  have r: "(if hd post = 45 then get_esc (tl post) else Some (lo, post)) = Some (hi, ds)"
    using assms unfolding class_range_def g by (auto split: option.splits)
  then have "(if hd post = 45 then get_esc (tl post @ p) else Some (lo, post @ p)) = Some (hi, ds @ p)"
    using get_esc_append [of "tl post" hi ds p] by (cases "hd post = 45") simp_all
  then show ?thesis unfolding class_range_def get_esc_append [OF g] option.case prod.case h by simp
qed

lemma class_loop_append:
  "class_loop r m l chunk = Some (x, ds) \<Longrightarrow> class_loop r m l (chunk @ p) = Some (x, ds @ p)"
proof (induction r m l chunk rule: class_loop_induct)
  case (ending r m cs)
  then show ?case by (simp add: class_loop_end)
next
  case (step r m later chunk)
  from step.prems obtain lo hi post where c: "class_range chunk = Some (lo, hi, post)"
    "class_loop r (m \<or> lo \<le> r \<and> r \<le> hi) True post = Some (x, ds)"
    unfolding class_loop_round [OF step.hyps] by (auto split: option.splits)
  have ne: "chunk \<noteq> []" using c(1) by (auto simp: class_range_def get_esc_def)
  then have h: "\<not> (chunk @ p \<noteq> [] \<and> hd (chunk @ p) = 93 \<and> later)" using step.hyps by simp
  show ?case
    unfolding class_loop_round [OF h] class_range_append [OF c(1)] using step.IH [OF c(1,2)] by simp
qed

lemma match_failed: "match_chunk True chunk s \<noteq> Inr (Some t)"
proof (induction chunk arbitrary: s rule: chunk_induct)
  case (cls cs)
  then show ?case by (simp add: match_class split: option.split)
next
  case (literal c cs)
  then show ?case unfolding match_literal [OF literal.hyps] by simp
qed (simp_all add: match_any match_escaped)

lemma match_chunk_sound:
  "match_chunk f chunk s = Inr (Some t) \<Longrightarrow> in_glob p t \<Longrightarrow> in_glob (chunk @ p) s"
proof (induction chunk arbitrary: f s rule: chunk_induct)
  case nil
  then show ?case by (simp split: if_splits)
next
  case (cls cs)
  from cls.prems(1) obtain m ds where c:
    "class_loop (if f \<or> s = [] then 0 else fst (decode_rune s)) False False (class_body cs) = Some (m, ds)"
    "match_chunk (f \<or> s = [] \<or> m = negated cs) ds (if f \<or> s = [] then s else skip_rune s) = Inr (Some t)"
    unfolding match_class by (auto split: option.splits)
  then have ok: "\<not> f" "s \<noteq> []" "m \<noteq> negated cs" using match_failed by (cases "f \<or> s = [] \<or> m = negated cs"; auto)+
  have ne: "cs \<noteq> []" using c(1) by (auto simp: class_body_def negated_def class_loop.simps get_esc_def)
  then have body: "class_body (cs @ p) = class_body cs @ p" "negated (cs @ p) = negated cs"
    by (simp_all add: class_body_def negated_def)
  have "in_glob (ds @ p) (skip_rune s)"
    using cls.IH [OF c(1) _ cls.prems(2)] c(2) ok by simp
  moreover have "class_loop (fst (decode_rune s)) False False (class_body (cs @ p)) = Some (m, ds @ p)"
    unfolding body using class_loop_append [OF c(1)] ok by simp
  ultimately show ?case using in_glob.intros(4) [of s "cs @ p" m "ds @ p"] ok body(2) by simp
next
  case (any cs)
  have ok: "\<not> f" "s \<noteq> []" "match_chunk (hd s = 47) cs (skip_rune s) = Inr (Some t)"
    using any.prems(1) match_failed by (auto simp: match_any split: if_splits)
  then have "hd s \<noteq> 47" using match_failed by (cases "hd s = 47") auto
  then show ?case using ok any.IH [OF ok(3) any.prems(2)] in_glob.intros(3) [of s "cs @ p"] by simp
next
  case (escaped d cs)
  have ok: "\<not> f" "s \<noteq> []" "d = hd s"
    using escaped.prems(1) match_failed unfolding match_escaped by (cases "f \<or> s = [] \<or> d \<noteq> hd s"; auto)+
  then show ?case
    using escaped.IH [of False "tl s"] escaped.prems in_glob.intros(5) [of "cs @ p" "tl s" d]
    unfolding match_escaped by (cases s) auto
next
  case (literal c cs)
  have ok: "\<not> f" "s \<noteq> []" "c = hd s"
    using literal.prems(1) match_failed unfolding match_literal [OF literal.hyps]
    by (cases "f \<or> s = [] \<or> c \<noteq> hd s"; auto)+
  then show ?case
    using literal.IH [of False "tl s"] literal.prems in_glob_one [of c "cs @ p" "tl s"] literal.hyps
    unfolding match_literal [OF literal.hyps] by (cases s) auto
qed (simp add: match_escaped)

lemma skip_match_sound:
  "skip_match chunk l name = Inr (Some t) \<Longrightarrow>
   \<exists>u v. name = u @ v \<and> 47 \<notin> set u \<and> match_chunk False chunk v = Inr (Some t) \<and> (l \<longrightarrow> t = [])"
proof (induction name)
  case (Cons c name)
  have c: "c \<noteq> 47" using Cons.prems by (auto split: if_splits)
  show ?case
  proof (cases "match_chunk False chunk name = Inr (Some t) \<and> (l \<longrightarrow> t = [])")
    case True
    then show ?thesis using c by (intro exI [of _ "[c]"] exI [of _ name]) simp
  next
    case False
    then have "skip_match chunk l name = Inr (Some t)"
      using Cons.prems c by (auto split: sum.splits option.splits if_splits)
    from Cons.IH [OF this] show ?thesis using c by (metis append_Cons set_ConsD)
  qed
qed simp

lemma in_glob_stars:
  "\<forall>c \<in> set st. c = 42 \<Longrightarrow> st \<noteq> [] \<Longrightarrow> 47 \<notin> set u \<Longrightarrow> in_glob q n \<Longrightarrow> in_glob (st @ q) (u @ n)"
proof (induction st arbitrary: u)
  case (Cons c st)
  show ?case
  proof (cases "st = []")
    case True
    then show ?thesis using Cons.prems in_glob.intros(2) [of u q n] by simp
  next
    case False
    then have "in_glob (st @ q) ([] @ n)" using Cons.IH [of "[]"] Cons.prems by simp
    then show ?thesis using Cons.prems in_glob.intros(2) [of u "st @ q" n] by simp
  qed
qed simp

lemma check_rest_false: "check_rest p \<noteq> Inr True"
proof (induction p rule: length_induct)
  case (1 p)
  show ?case
  proof (cases "p = []")
    case False
    obtain star chunk tail where sc: "scan_chunk p = (star, chunk, tail)" by (metis prod_cases3)
    have "check_rest tail \<noteq> Inr True" using 1 scan_chunk_shrinks(1) [OF sc False] by blast
    then show ?thesis using False sc by (subst check_rest.simps) (auto split: sum.split)
  qed simp
qed

theorem path_match_sound: "path_match p n = Inr True \<Longrightarrow> in_glob p n"
proof (induction p arbitrary: n rule: length_induct)
  case (1 p)
  show ?case
  proof (cases "p = []")
    case True
    then show ?thesis using 1(2) in_glob.intros(1) by (subst (asm) path_match.simps) simp
  next
    case False
    obtain star chunk tail where sc: "scan_chunk p = (star, chunk, tail)" by (metis prod_cases3)
    let ?st = "takeWhile (\<lambda>c. c = 42) p"
    have p: "p = ?st @ chunk @ tail"
      using sc scan_part_append [of False "dropWhile (\<lambda>c. c = 42) p" chunk tail]
        takeWhile_dropWhile_id [of "\<lambda>c. c = 42" p]
      by (simp add: scan_chunk_def)
    have st: "\<forall>c \<in> set ?st. c = 42" "star \<longleftrightarrow> ?st \<noteq> []"
      using sc False by (auto simp: scan_chunk_def dest: set_takeWhileD) (cases p; simp)+
    have IH: "path_match tail t = Inr True \<Longrightarrow> in_glob tail t" for t
      using 1(1) scan_chunk_shrinks(1) [OF sc False] by blast
    have trail: "47 \<notin> set n" if "star" "chunk = []"
      using 1(2) False sc that by (subst (asm) path_match.simps) simp
    have found: "\<exists>t. path_match tail t = Inr True \<and>
        (match_chunk False chunk n = Inr (Some t) \<or> star \<and> skip_match chunk (tail = []) n = Inr (Some t))"
      if "\<not> (star \<and> chunk = [])"
      using 1(2) sc False check_rest_false [of tail] that
      by (subst (asm) path_match.simps) (auto split: sum.splits option.splits if_splits)
    show ?thesis
    proof (cases "star \<and> chunk = []")
      case True
      then have "47 \<notin> set n" "tail = []" using trail scan_chunk_shrinks(3) [OF sc False] by auto
      then show ?thesis
        using in_glob_stars [OF st(1), of n "[]" "[]"] in_glob.intros(1) st(2) True p by simp
    next
      case nt: False
      then obtain t where t: "in_glob tail t"
        "match_chunk False chunk n = Inr (Some t) \<or> star \<and> skip_match chunk (tail = []) n = Inr (Some t)"
        using found IH by blast
      obtain u v where uv: "n = u @ v" "47 \<notin> set u" "match_chunk False chunk v = Inr (Some t)" "u = [] \<or> star"
        using t(2) skip_match_sound [of chunk "tail = []" n t] by fastforce
      have g: "in_glob (chunk @ tail) v" by (rule match_chunk_sound [OF uv(3) t(1)])
      show ?thesis
      proof (cases star)
        case True
        then show ?thesis using in_glob_stars [OF st(1) _ uv(2) g] st(2) uv(1) p by simp
      next
        case False
        then show ?thesis using g uv st(2) p by simp
      qed
    qed
  qed
qed

section \<open>RemoveGlob\<close>

definition glob_pattern :: "bytes \<Rightarrow> bytes" where
  "glob_pattern glob = dropWhile (\<lambda>c. c = 47) (to_slash glob)"

definition Tx_RemoveGlob :: "bytes \<Rightarrow> Tx \<Rightarrow> (nat \<times> error option) \<times> Tx" where
  "Tx_RemoveGlob glob tx =
     (if tClosed tx then ((0, Some IoErrClosedPipe), tx) else
      let glob = glob_pattern glob in
      if glob = [] then ((0, Some ErrPathInvalid), tx) else
      case path_match glob [120] of
        Inl _ \<Rightarrow> ((0, Some ErrPathInvalid), tx)
      | Inr _ \<Rightarrow>
          remove_selected
            (\<lambda>(p, e). case path_match glob p of Inl _ \<Rightarrow> Inl ErrPathInvalid | Inr ok \<Rightarrow> Inr ok)
            (tEntries tx) 0 tx)"

text \<open>
  A malformed pattern removes nothing; a well-formed one is never found malformed on the way, and
  removes what it matches, which is in its language.
\<close>

theorem removeGlob_outcome:
  assumes inv: "tx_inv L lo f tx s" and run: "Tx_RemoveGlob glob tx = ((removed, err), tx')"
    and nc: "\<not> tClosed tx"
  defines "g \<equiv> glob_pattern glob"
  shows "if g = [] \<or> isl (check_rest g) then removed = 0 \<and> err = Some ErrPathInvalid \<and> tx' = tx
    else tx_inv L lo f tx' (s |` (- {p. path_match g p = Inr True})) \<and>
      removed = card {p \<in> dom s. path_match g p = Inr True} \<and> err = None"
proof (cases "g = [] \<or> isl (check_rest g)")
  case True
  then have "g = [] \<or> isl (path_match g [120])" by (simp add: path_match_syntax)
  then show ?thesis
    using run nc True by (auto simp: Tx_RemoveGlob_def Let_def g_def [symmetric] isl_def split: if_splits)
next
  case False
  let ?sel = "\<lambda>(p, e :: EntryV1). path_match g p = Inr True"
  have ok: "\<exists>b. path_match g p = Inr b" for p
    using False path_match_syntax [of g p] by (cases "path_match g p") auto
  have "(\<lambda>(p, e :: EntryV1). case path_match g p of Inl _ \<Rightarrow> Inl ErrPathInvalid | Inr ok \<Rightarrow> Inr ok) =
      (\<lambda>x. Inr (?sel x))"
  proof
    fix x :: "bytes \<times> EntryV1"
    obtain p e where x: "x = (p, e)" by fastforce
    obtain b where "path_match g p = Inr b" using ok by blast
    then show "(case x of (p, e) \<Rightarrow> case path_match g p of Inl _ \<Rightarrow> Inl ErrPathInvalid | Inr ok \<Rightarrow> Inr ok) =
        Inr (?sel x)" by (simp add: x)
  qed
  then have r: "remove_selected (\<lambda>x. Inr (?sel x)) (tEntries tx) 0 tx = ((removed, err), tx')"
    using run nc False ok [of "[120]"] by (auto simp: Tx_RemoveGlob_def Let_def g_def [symmetric] split: if_splits)
  have ch: "chosen ?sel (tEntries tx) = dom s \<inter> {p. path_match g p = Inr True}"
    unfolding dom_table [OF inv] by (force simp: chosen_def)
  have "s |` (- (dom s \<inter> {p. path_match g p = Inr True})) = s |` (- {p. path_match g p = Inr True})"
    by (rule ext) (simp add: restrict_map_def domIff del: not_None_eq)
  moreover have "dom s \<inter> {p. path_match g p = Inr True} = {p \<in> dom s. path_match g p = Inr True}" by blast
  ultimately show ?thesis using False remove_selected_outcome [OF inv r, unfolded ch] by simp
qed

text \<open>
  C18: \<^verbatim>\<open>Tx.RemoveGlob\<close> with an empty or malformed pattern removes nothing and reports the pattern,
  whatever entries there are. With any other pattern it removes exactly the entries whose path
  \<^verbatim>\<open>path.Match\<close> accepts, all of them in the language of the pattern, in which no wildcard crosses a
  slash, and reports how many they were; all other entries keep their bytes and metadata.
\<close>

theorem remove_glob:
  assumes "tx_inv L lo f tx s" "\<not> tClosed tx" "Tx_RemoveGlob glob tx = ((removed, err), tx')"
  shows "if glob_pattern glob = [] \<or> isl (check_rest (glob_pattern glob))
    then removed = 0 \<and> err = Some ErrPathInvalid \<and> tx' = tx
    else err = None \<and>
      (\<exists>sel. sel = {p \<in> dom s. path_match (glob_pattern glob) p = Inr True} \<and> removed = card sel \<and>
        tx_inv L lo f tx' (s |` (- sel)) \<and> (\<forall>p \<in> sel. in_glob (glob_pattern glob) p))"
proof -
  let ?g = "glob_pattern glob"
  let ?sel = "{p \<in> dom s. path_match ?g p = Inr True}"
  have "s |` (- {p. path_match ?g p = Inr True}) = s |` (- ?sel)"
    by (rule ext) (simp add: restrict_map_def domIff del: not_None_eq)
  then show ?thesis
    using removeGlob_outcome [OF assms(1,3,2)] path_match_sound [of ?g] by auto
qed

end
