(* ===== verification/SampleStale.thy ===== *)
theory SampleStale
  imports Samples Stale MetaMany Glob
begin

text \<open>
  The lost update on the samples: a handle that has read the empty container adds \<^verbatim>\<open>b\<close> after another
  one has added \<^verbatim>\<open>a\<close>.
\<close>

definition stale_tx :: Tx where
  "stale_tx = \<lparr>tEntries = [], tAppendOffset = file_size (content sample_d1), tDeadBytes = 0, tChurnOps = 0,
     tClosed = False, tFileLocked = True, tPathLocked = True\<rparr>"

lemma stale_begin:
  "Begin sample_c0 sample_d1 = Some (Inr stale_tx, sample_c0\<lparr>cTxHeld := True\<rparr>, sample_d1)"
  using lock_quiet [OF sample_add_run(2)]
  by (simp add: Begin_def sample_c0_eq ensureEntriesLoaded_def stale_tx_def)

lemma stale_path: "normalize [98] = Inr [98]"
  by (rule normalize_fixed) (simp add: path_safe_def bad_part_def utf8_valid.simps)

lemma stale_index_crc:
  assumes "length (enc_entry e) = 46" "Path e = [98]"
  shows "crc32 (index_blob (built_index bu [e] off gen)) \<noteq> 0"
proof (rule index_crc_rest)
  have hash: "FNV1a64 [98] = 0xAF63DF4C8601F1A5" by (simp add: FNV1a64_def fnv64Offset_def fnv64Prime_def)
  have rows: "rows_of 20 [e] = [\<lparr>xDirEntryOffset = 20, xDirEntrySize = 46,
      xPathHash64 = 0xAF63DF4C8601F1A5, xPathOffset = 65, xPathSize = 1\<rparr>]"
    by (simp only: rows_of.simps assms) (simp add: hash)
  show "foldl crc_byte 0xDEBB20E3 (concat (map enc_index_row (iEntries (built_index bu [e] off gen))) @
      concat (map enc_hash_range (iHashRanges (built_index bu [e] off gen)))) \<noteq> 0xFFFFFFFF"
    unfolding one_row [OF rows]
    by (simp add: enc_index_row_def enc_hash_range_def put_u64_def put_u32_def le_put_numeral crc_eval)
qed

text \<open>Writing an entry of no bytes touches nothing.\<close>

lemma write_empty:
  "\<exists>e. writeEntry sample_env (defaultOptions 1) path (Some ([], IoEOF)) meta None tx d = Some (Inr e, tx, d) \<and>
     length (enc_entry (norm_entry e)) = 44 + length meta + length path \<and> Path (norm_entry e) = path \<and>
     Path e = path \<and> Chunks e = [] \<and> FileSize e = 0"
proof -
  obtain p where p: "write_entry_params sample_env (defaultOptions 1) path [] None = Inr p" "wpWorkers p \<le> 1"
    "0 < nat (wpChunkSize p)"
    by (cases "detectText path []")
      (auto simp: write_entry_params_def classify_def pick_chunk_size_def defaultOptions_def)
  have w: "writeChunks ord L codec level (nat (wpChunkSize p)) (wpWorkers p) m d off ([], IoEOF) =
      Some (Inr ([], 0), d, off)" for ord L codec level m d off
    using p(2,3) by (simp add: writeChunks_def writeChunksSequential_def write_nothing)
  show ?thesis by (simp add: writeEntry_def p(1) w norm_entry_def)
qed

lemma stale_added:
  "\<exists>c d. Container_Add sample_commit sample_env [98] (Some ([], IoEOF)) [5] None sample_c0 sample_d1 =
     Some (Inr (), c, d) \<and> length (content d) < 2 ^ 63"
  "run_fits sample_commit (Tx_Add sample_env (cOpts sample_c0) [98] (Some ([], IoEOF)) [5] None)
     sample_c0 sample_d1"
proof -
  let ?op = "Tx_Add sample_env (cOpts sample_c0) [98] (Some ([], IoEOF)) [5] None"
  let ?c = "sample_c0\<lparr>cTxHeld := True\<rparr>"
  obtain e where e: "writeEntry sample_env (defaultOptions 1) [98] (Some ([], IoEOF)) [5] None stale_tx sample_d1 =
      Some (Inr e, stale_tx, sample_d1)" "length (enc_entry (norm_entry e)) = 46" "Path (norm_entry e) = [98]"
    "Path e = [98]" "Chunks e = []" "FileSize e = 0"
    using write_empty [of "[98]" "[5]" stale_tx sample_d1] by auto
  let ?tx = "stale_tx\<lparr>tEntries := [([98], e)]\<rparr>"
  have op: "?op stale_tx sample_d1 = Some (Inr (), ?tx, sample_d1)"
    by (simp add: Tx_Add_def write_and_put_def stale_path e(1)) (simp add: stale_tx_def)
  have off: "unat (tAppendOffset ?tx) = length (content sample_d1)"
    using sample_add_run(3) by (simp add: stale_tx_def unat_file_size)
  have es: "commit_entries ?tx = [norm_entry e]" by (simp add: commit_entries_def)
  have "crc32 (index_blob (commit_index ?c ?tx 5)) \<noteq> 0"
    unfolding commit_index_def es by (rule stale_index_crc [OF e(2,3)])
  moreover have "length (dir_blob 5 [norm_entry e]) \<le> 2 ^ 30" using e(2) by simp
  ultimately have fit: "commit_fits ?c ?tx (mBuildTime sample_commit)"
    using off sample_valid(2) by (simp add: commit_fits_def sample_commit_def es)
  then show "run_fits sample_commit ?op sample_c0 sample_d1"
    using stale_begin op by (simp add: run_fits_def)
  have b: "unat (tAppendOffset ?tx) + 2 ^ 32 < 2 ^ 63" using off sample_add_run(3) by simp
  have hv: "header_valid (cHeader ?c)" using sample_empty(1) by (simp add: represents_def holds_def sample_c0_eq)
  have "Chunks (norm_entry e) = []" using e(5) by (simp add: norm_entry_def)
  then have t: "table_ok 256 1000 (tEntries ?tx)"
    using e(4-6) by (simp add: table_ok_def shape_ok_def)
  obtain c' d' where r: "run_tx sample_commit ?op sample_c0 sample_d1 = Some (Inr (), c', d')"
    "length (content d') \<le> max (length (content sample_d1)) (unat (tAppendOffset ?tx) + 2 ^ 32)"
    using run_quiet [where oper = ?op, OF stale_begin op sample_add_run(2) hv fit t b] by (auto simp: stale_tx_def)
  have "length (content d') < 2 ^ 63" using r(2) b sample_add_run(3) by simp
  then show "\<exists>c d. Container_Add sample_commit sample_env [98] (Some ([], IoEOF)) [5] None sample_c0 sample_d1 =
     Some (Inr (), c, d) \<and> length (content d) < 2 ^ 63"
    using r(1) by (auto simp: Container_Add_def)
qed

text \<open>Metadata for two paths of which one is there.\<close>

lemma sample_many:
  "\<exists>c d. Container_SetMetaMany sample_commit [([97], [6]), ([98], [7])] True sample_c1 sample_d1 =
     Some ((1, 1, None), c, d) \<and> length (content d) < 2 ^ 63"
  "run_fits sample_commit (many_op (sample_lib, [([97], [6]), ([98], [7])], True)) sample_c1 sample_d1"
proof -
  let ?ms = "[([97], [6]), ([98], [7])] :: (bytes \<times> bytes) list"
  let ?tx = "sample_tx2\<lparr>tEntries := [([97], sample_file\<lparr>Meta := [6]\<rparr>)]\<rparr>"
  have t: "Tx_SetMetaMany ?ms True sample_tx2 = ((1, 1, None), ?tx)"
    by (simp add: Tx_SetMetaMany_def sample_path stale_path sample_tx2_def)
  then have op: "many_op (sample_lib, ?ms, True) sample_tx2 sample_d1 = Some (Inr (), ?tx, sample_d1)"
    by (simp add: many_op_def)
  obtain s' where inv: "tx_inv sample_lib 256 (content sample_d1) ?tx s'"
    using many.success [of "(sample_lib, ?ms, True)", OF _ _ op] sample_inv1 sample_add_run(3) by force
  have f: "\<not> tClosed ?tx" "tAppendOffset ?tx = tAppendOffset sample_tx2"
    "\<exists>e. commit_entries ?tx = [e] \<and> length (enc_entry e) = 78 \<and> Path e = [97]"
    by (simp_all add: sample_tx2_def commit_entries_def sample_file_def norm_entry_def)
  note r = sample_run [where oper = "many_op (sample_lib, ?ms, True)", OF op inv f(1,2) disjI2 [OF f(3)]]
  show "run_fits sample_commit (many_op (sample_lib, ?ms, True)) sample_c1 sample_d1" by (rule r(2))
  obtain c d where run: "run_tx sample_commit (many_op (sample_lib, ?ms, True)) sample_c1 sample_d1 =
      Some (Inr (), c, d)" "length (content d) < 2 ^ 63" using r(1) by blast
  obtain res tx2 c2 d2 where cm: "Commit sample_commit (sample_c1\<lparr>cTxHeld := True\<rparr>) ?tx sample_d1 = (res, tx2, c2, d2)"
    by (metis surj_pair)
  have "Container_SetMetaMany sample_commit ?ms True sample_c1 sample_d1 = Some ((1, 1, None), c, d)"
    using run(1) t op cm by (simp add: Container_SetMetaMany_def run_tx_def sample_begin1)
  then show "\<exists>c d. Container_SetMetaMany sample_commit ?ms True sample_c1 sample_d1 =
     Some ((1, 1, None), c, d) \<and> length (content d) < 2 ^ 63" using run(2) by blast
qed

section \<open>The properties on the samples\<close>

theorem lost_update_witness:
  "\<exists>a c d1 d2. Container_Add sample_commit sample_env [97] (Some sample_data) [5] None sample_c0 sample_d0 =
       Some (Inr (), a, d1) \<and>
     Container_Add sample_commit sample_env [98] (Some ([], IoEOF)) [5] None sample_c0 d1 =
       Some (Inr (), c, d2) \<and>
     (\<exists>h es s. represents sample_lib (content d2) h 5 es s \<and> s [97] = None \<and> s [98] = Some ([], [5]))"
proof -
  obtain c d2 where b: "Container_Add sample_commit sample_env [98] (Some ([], IoEOF)) [5] None sample_c0 sample_d1 =
      Some (Inr (), c, d2)" "length (content d2) < 2 ^ 63" using stale_added(1) by blast
  have lib: "nLib sample_env = sample_lib" "mBuildTime sample_commit = 5"
    by (simp_all add: sample_env_def sample_commit_def)
  have pre: "env_ok sample_env (cOpts sample_c0) None" "length (content sample_d1) < 2 ^ 63"
    "run_fits sample_commit (Tx_Add sample_env (cOpts sample_c0) [97] (Some sample_data) [5] None) sample_c0 sample_d0"
    using sample_env_ok sample_add_run(3) sample_run_fits by (simp_all add: add_op_def sample_args_def)
  have "\<exists>h' es' s'. represents sample_lib (content d2) h' (mBuildTime sample_commit) es' s' \<and> s' [97] = None \<and>
      (\<exists>src. Some ([], IoEOF) = Some src \<and> s' [98] = Some (fst src, [5]))"
    by (rule lost_update [OF sample_empty(1,2,2) lib(1,1) pre(1,1,3) stale_added(2) sample_add_run(1) b(1)
      sample_path stale_path _ pre(2) b(2)]) simp
  then show ?thesis using b(1) sample_add_run(1) lib(2) by auto
qed

theorem set_meta_many_atomic_witness:
  "\<exists>c d h es. Container_SetMetaMany sample_commit [([97], [6]), ([98], [7])] True sample_c1 sample_d1 =
       Some ((1, 1, None), c, d) \<and>
     represents sample_lib (content d) h 5 es [[97] \<mapsto> ([1, 2, 3], [6])]"
proof -
  obtain c d where r: "Container_SetMetaMany sample_commit [([97], [6]), ([98], [7])] True sample_c1 sample_d1 =
      Some ((1, 1, None), c, d)" "length (content d) < 2 ^ 63" using sample_many(1) by blast
  have "meta_applied [([97], [6]), ([98], [7])] sample_store = [[97] \<mapsto> ([1, 2, 3], [6])]"
    by (simp add: sample_store_def sample_path stale_path)
  then show ?thesis
    using set_meta_many_atomic [OF sample_full(1,2) sample_many(2) r] r(1) by (auto simp: sample_commit_def)
qed

theorem remove_glob_witness:
  "\<exists>tx. Tx_RemoveGlob [47, 42] sample_tx2 = ((1, None), tx) \<and>
     tx_inv sample_lib 256 (content sample_d1) tx Map.empty \<and> in_glob [42] [97]"
proof -
  obtain n err tx where r: "Tx_RemoveGlob [47, 42] sample_tx2 = ((n, err), tx)" by (metis surj_pair)
  have g: "glob_pattern [47, 42] = [42]" by (simp add: glob_pattern_def to_slash_def)
  have m: "path_match [42] [97] = Inr True" "\<not> isl (check_rest [42])"
    by (simp_all add: path_match.simps check_rest.simps scan_chunk_def)
  have d: "dom sample_store = {[97]}" "sample_store |` (- {[97]}) = Map.empty"
    by (auto simp: sample_store_def restrict_map_def)
  have "{p \<in> dom sample_store. path_match [42] p = Inr True} = {[97]}" using m(1) d(1) by auto
  then show ?thesis
    using remove_glob [OF sample_inv1 _ r] m(2) g r d(2) by (simp add: sample_tx2_def)
qed

end
