(* ===== verification/SamplePack.thy ===== *)
theory SamplePack
  imports Samples
begin

text \<open>
  The empty container of the samples packed in place, without faults: the pack succeeds.
\<close>

definition pack_sample_env :: pack_env where
  "pack_sample_env = \<lparr>peLib = sample_lib, peProcs = 1, peCreate = sample_create, peCommit = sample_commit,
     peEntry = (\<lambda>i. sample_env), peCloseSrc = Inr (), peCloseDst = Inr ()\<rparr>"

definition sample_os :: pack_os where
  "sample_os = \<lparr>pkEnv = pack_sample_env, pkAbs = Inr, pkSuffix = [46], pkRename = Inr (), pkRemoves = True,
     pkPlan = []\<rparr>"

lemma no_entries:
  assumes "refines L f m Map.empty" shows "m = []"
proof -
  have "map_of m (fst x) = None" for x using refinesD(2) [OF assms, of "fst x"] by (cases "map_of m (fst x)") auto
  from this [of "hd m"] show ?thesis by (cases m) auto
qed

lemma empty_fits:
  assumes "commit_entries tx = []" "256 \<le> unat (tAppendOffset tx)"
  shows "commit_fits c tx bu"
proof -
  have "crc32 (index_blob (commit_index c tx bu)) \<noteq> 0"
    using crc32_appended [of "index_head (commit_index c tx bu)"] assms(1)
    by (simp add: index_blob_def commit_index_def built_index_def build_ranges_eq hash_order_def)
  then show ?thesis using assms by (simp add: commit_fits_def)
qed

lemma pack_fill_empty:
  assumes "plan d = []"
  obtains tx dst d' where "pack_fill pack_sample_env po src f [] d = Some (Inr (tx, dst), d')" "plan d' = []"
    "commit_fits dst tx 5" "table_ok 256 652 (tEntries tx)" "unat (tAppendOffset tx) = 652" "\<not> tClosed tx"
    "header_valid (cHeader dst)" "length (content d') = 652"
proof -
  let ?o = "Some (pack_out_options 1 po)"
  obtain c d1 where c: "Create 1 sample_create ?o d = (Inr c, d1)" "plan d1 = []"
    using create_quiet [OF assms sample_fits] by blast
  note r = create_outcome(1) [OF sample_fits c(1), of sample_lib] create_outcome(2-3) [OF sample_fits c(1)]
  have len: "length (content d1) = 652"
    using create_content(1) [OF sample_fits c(1)] created_regions(5) [OF sample_fits] by simp
  obtain tx c1 where b: "Begin c d1 = Some (Inr tx, c1, d1)" "begun sample_lib c d1 tx c1 d1 Map.empty"
    "caches c1 (cHeader c) (ceBuildTime sample_create) []"
    by (rule begin_quiet [OF r c(2)])
  have e: "tEntries tx = []" "unat (tAppendOffset tx) = 652" "\<not> tClosed tx"
    using b(2) no_entries len by (auto simp: begun_def tx_inv_def)
  have "pack_fill pack_sample_env po src f [] d = Some (Inr (tx, c1), d1)"
    using c(1) b(1) by (simp add: pack_fill_def pack_sample_env_def)
  moreover have "commit_fits c1 tx 5" using e by (intro empty_fits) (simp_all add: commit_entries_def)
  moreover have "table_ok 256 652 (tEntries tx)" using e(1) by (simp add: table_ok_def)
  moreover have "header_valid (cHeader c1)"
    using b(3) r(1) by (auto simp: caches_def represents_def holds_def)
  ultimately show thesis using that c(2) e(2,3) len by blast
qed

lemma ensure_not_held: "ensureEntriesLoaded c f = (r, c') \<Longrightarrow> cTxHeld c' = cTxHeld c"
  by (auto simp: ensureEntriesLoaded_def split: if_splits sum.splits option.splits)

lemma verify_not_held: "Verify L c f m = (r, c') \<Longrightarrow> cTxHeld c' = cTxHeld c"
  by (auto simp: Verify_def Let_def dest!: ensure_not_held split: prod.splits sum.splits option.splits if_splits)

lemma list_not_held: "container_List c f = (r, c') \<Longrightarrow> cTxHeld c' = cTxHeld c"
  by (auto simp: container_List_def dest!: ensure_not_held split: prod.splits sum.splits if_splits)

lemma pack_scan_empty:
  assumes rep: "represents sample_lib (content d) h bu es Map.empty"
  obtains src where "pack_scan pack_sample_env defaultPackOptions d = (Inr (src, []), d)" "\<not> cTxHeld src"
proof -
  obtain c where c: "Open sample_lib 1 (Some (pack_in_options defaultPackOptions)) d = (Inr c, d)" "caches c h bu es"
    "\<not> cTxHeld c" "cOpts c = effectiveOptions 1 (Some (pack_in_options defaultPackOptions))"
    using open_outcome [OF rep] by blast
  have mc: "oMaxChunkSize (cOpts c) = 0"
    unfolding c(4)
    by (simp add: effectiveOptions_def mergeOptions_def pack_in_options_def zeroOptions_def
        defaultOptions_def defaultPackOptions_def Let_def)
  obtain report c1 where v: "Verify sample_lib c (content d) (Some VerifyAllChunks) = ((report, False), c1)"
    "caches c1 h bu es" using verify_represented [OF rep c(2) mc] by blast
  obtain vs c2 where l: "container_List c1 (content d) = (newSliceIterator vs None, c2)"
    "\<And>q. info_view vs q = None" using list_outcome [OF rep v(2)] by (metis option.map_disc_iff)
  have "vs = []" using l(2) [of "iPath (hd vs)"] by (cases vs) (simp_all add: info_view_def)
  then have "pack_scan pack_sample_env defaultPackOptions d = (Inr (c2, []), d)"
    using c(1) v(1) l(1)
    by (simp add: pack_scan_def pack_sample_env_def newSliceIterator_def)
      (simp add: defaultPackOptions_def itNext_def)
  moreover have "\<not> cTxHeld c2" using c(3) verify_not_held [OF v(1)] list_not_held [OF l(1)] by simp
  ultimately show thesis using that by blast
qed

lemma sample_pack:
  "\<exists>g. Pack sample_os [105] [105] None [[105] \<mapsto> created_file sample_create] =
      Some (Inr (), [[105] \<mapsto> g]) \<and> length g < 2 ^ 63"
  "pack_inputs sample_os (pack_config None) (created_file sample_create)"
proof -
  let ?d = "\<lparr>content = created_file sample_create, plan = []\<rparr>" and ?po = defaultPackOptions
  let ?e = "\<lparr>content = [], plan = []\<rparr> :: disk"
  have rep: "represents sample_lib (content ?d) sample_h0 2 [] Map.empty"
    using sample_empty(1) by (simp add: sample_d0_eq)
  obtain src where s: "pack_scan pack_sample_env ?po ?d = (Inr (src, []), ?d)" "\<not> cTxHeld src"
    by (rule pack_scan_empty [OF rep])
  obtain tx dst d1 where f: "pack_fill pack_sample_env ?po src (content ?d) [] ?e = Some (Inr (tx, dst), d1)"
    "plan d1 = []" "commit_fits dst tx 5" "table_ok 256 652 (tEntries tx)" "unat (tAppendOffset tx) = 652"
    "\<not> tClosed tx" "header_valid (cHeader dst)" "length (content d1) = 652"
    by (rule pack_fill_empty [where d = ?e]) simp_all
  have bt: "mBuildTime sample_commit = 5" by (simp add: sample_commit_def)
  have off: "unat (tAppendOffset tx) + 2 ^ 32 < 2 ^ 63" using f(5) by simp
  from commit_quiet [OF f(2,7) f(3) [folded bt] f(4) off f(6)]
  obtain tx' c' d' where cm: "Commit sample_commit dst tx d1 = (Inr (), tx', c', d')"
    "length (content d') \<le> max (length (content d1)) (unat (tAppendOffset tx) + 2 ^ 32)" by blast
  have held: "\<not> cTxHeld c'"
    using cm(1) by (auto simp: Commit_def release_def Let_def split: if_splits sum.splits prod.splits)
  have "packInto pack_sample_env ?po ?d = Some (Inr (), ?d, Some d')"
    using s f(1) cm(1) held
    by (simp add: packInto_def pack_output_def keep_err_def close_def)
      (simp add: pack_sample_env_def close_def keep_err_def)
  then have "pack_files sample_os ?po [105] [105, 46] [[105] \<mapsto> created_file sample_create] =
      Some (Inr (), [[105] \<mapsto> created_file sample_create, [105, 46] \<mapsto> content d'])"
    by (simp add: pack_files_def sample_os_def)
  then have "Pack sample_os [105] [105] None [[105] \<mapsto> created_file sample_create] =
      Some (Inr (), [[105] \<mapsto> content d'])"
    by (simp add: Pack_def Let_def pack_config_def sample_os_def fun_upd_def) (auto simp: fun_eq_iff)
  moreover have "length (content d') < 2 ^ 63" using cm(2) f(5,8) by simp
  ultimately show "\<exists>g. Pack sample_os [105] [105] None [[105] \<mapsto> created_file sample_create] =
      Some (Inr (), [[105] \<mapsto> g]) \<and> length g < 2 ^ 63" by blast
  have "pack_ok pack_sample_env (effectiveOptions 1 (Some (pack_out_options 1 ?po))) ?po"
    using sample_laws sample_scheduler
    by (auto simp: pack_ok_def env_ok_def pack_sample_env_def effectiveOptions_def mergeOptions_def
        pack_out_options_def defaultOptions_def defaultPackOptions_def pack_write_options_def
        pickChunkSize_def sample_env_def Let_def intro!: exI [of _ 4194304] sample_records)
  then show "pack_inputs sample_os (pack_config None) (created_file sample_create)"
    using s f(1,3) sample_fits
    by (simp add: pack_inputs_def pack_config_def sample_os_def packInto_fits_def pack_fits_def)
      (simp add: pack_sample_env_def bt)
qed

end
