(* ===== verification/Inspect.thy ===== *)
theory Inspect
  imports Pack Sniff
begin

text \<open>
  The inspection of a container by the command line tool, \<^verbatim>\<open>cmd/fbx/main.go\<close>: \<^verbatim>\<open>inspectContainerCodecs\<close> and
  what it calls, which read the header, the directory and the head of every chunk record by themselves,
  and \<^verbatim>\<open>containerMatchesPackParams\<close>, by which \<^verbatim>\<open>pack\<close> and \<^verbatim>\<open>pack-many\<close> skip a file. The lemmas show that
  the report counts the records of a container exactly and that a file is skipped only if packing
  would encode every chunk the way it is.
\<close>

section \<open>Numbers as strings\<close>

text \<open>\<^verbatim>\<open>strconv.Itoa\<close> and \<^verbatim>\<open>strconv.Atoi\<close>.\<close>

fun digits :: "nat \<Rightarrow> bytes" where
  "digits n = (if n < 10 then [48 + of_nat n] else digits (n div 10) @ [48 + of_nat (n mod 10)])"

declare digits.simps [simp del]

definition itoa :: "int \<Rightarrow> bytes" where
  "itoa i = (if i < 0 then 45 # digits (nat (- i)) else digits (nat i))"

definition digits_value :: "bytes \<Rightarrow> nat" where
  "digits_value s = foldl (\<lambda>n c. 10 * n + unat (c - 48)) 0 s"

definition atoi :: "bytes \<Rightarrow> int option" where
  "atoi s =
     (let ds = (if s \<noteq> [] \<and> (hd s = 43 \<or> hd s = 45) then tl s else s);
          v = int (digits_value ds);
          i = (if s \<noteq> [] \<and> hd s = 45 then - v else v)
      in if ds = [] \<or> (\<exists>c \<in> set ds. c < 48 \<or> 57 < c) then None
         else if i < - (2 ^ 63) \<or> 2 ^ 63 \<le> i then None
         else Some i)"

section \<open>Reading the file\<close>

definition maxInspectDirectoryBlobSize :: u64 where "maxInspectDirectoryBlobSize = 2 ^ 30"

definition regionWithinFileCli :: "u64 \<Rightarrow> u64 \<Rightarrow> u64 \<Rightarrow> bool" where
  "regionWithinFileCli offset sz fileSize = (if offset > fileSize then False else sz \<le> fileSize - offset)"

definition addUint64Checked :: "u64 \<Rightarrow> u64 \<Rightarrow> u64 option" where
  "addUint64Checked a b = (if a > NOT 0 - b then None else Some (a + b))"

definition inspect_ref_ok :: "u64 \<Rightarrow> ChunkRefV1 \<Rightarrow> bool" where
  "inspect_ref_ok fileSize ref \<longleftrightarrow>
     (case addUint64Checked (ChunkOffset ref) 16 of
        None \<Rightarrow> False
      | Some e \<Rightarrow>
          (case addUint64Checked e (ucast (CompSize ref)) of
             None \<Rightarrow> False
           | Some e \<Rightarrow> \<not> e > fileSize))"

definition validateInspectChunkRefs :: "DirectoryV1 \<Rightarrow> u64 \<Rightarrow> unit result" where
  "validateInspectChunkRefs dir fileSize =
     (if \<exists>e \<in> set (dEntries dir). \<exists>ref \<in> set (Chunks e). \<not> inspect_ref_ok fileSize ref
      then Inl ErrInvalidFormat else Inr ())"

definition readHeaderAndDirectoryForInspect :: "bytes \<Rightarrow> u64 \<Rightarrow> (HeaderV1 \<times> DirectoryV1) result" where
  "readHeaderAndDirectoryForInspect f fileSize =
     rbind (readAt f 0 HeaderSize) (\<lambda>headBuf.
     rbind (unmarshalHeader headBuf) (\<lambda>h.
     if hDirOffset h = 0 \<or> hDirSize h = 0 \<or> \<not> regionWithinFileCli (hDirOffset h) (hDirSize h) fileSize
     then Inl ErrInvalidFormat
     else if hDirSize h > maxInspectDirectoryBlobSize then Inl ErrLimitExceeded
     else if hDirSize h > maxInt then Inl ErrLimitExceeded else
     rbind (readAt f (hDirOffset h) (unat (hDirSize h))) (\<lambda>dirBlob.
     rbind (decodeDirectory dirBlob (hDirCRC32 h) (hDirSize h)) (\<lambda>dir.
     rbind (validateInspectChunkRefs dir fileSize) (\<lambda>_.
     Inr (h, dir))))))"

text \<open>\<^verbatim>\<open>readChunkHeaderAt\<close> of \<^verbatim>\<open>main.go\<close>, which reads four bytes only.\<close>

definition inspectChunkHeaderAt :: "bytes \<Rightarrow> u64 \<Rightarrow> (u8 \<times> u8) result" where
  "inspectChunkHeaderAt f off =
     rbind (readAt f off 4) (\<lambda>head.
     if head ! 0 \<noteq> MagicChunk ! 0 \<or> head ! 1 \<noteq> MagicChunk ! 1 then Inl ErrInvalidFormat
     else Inr (head ! 2, head ! 3))"

section \<open>The report\<close>

definition codecName :: "u8 \<Rightarrow> bytes" where
  "codecName c =
     (if c = CodecStore then ascii ''store''
      else if c = CodecZstd then ascii ''zstd''
      else if c = CodecLZ4 then ascii ''lz4''
      else ascii ''unknown_'' @ itoa (uint c))"

type_synonym counts = "(bytes \<times> nat) list"

definition count_of :: "bytes \<Rightarrow> counts \<Rightarrow> nat" where
  "count_of k m = (case map_of m k of Some n \<Rightarrow> n | None \<Rightarrow> 0)"

definition increment :: "bytes \<Rightarrow> counts \<Rightarrow> counts" where
  "increment k m = AList.update k (count_of k m + 1) m"

fun count_refs ::
  "bytes \<Rightarrow> ChunkRefV1 list \<Rightarrow> counts \<times> counts \<times> nat \<Rightarrow> (counts \<times> counts \<times> nat) result" where
  "count_refs f [] st = Inr st"
| "count_refs f (ref # refs) (codecs, levels, n) =
     rbind (inspectChunkHeaderAt f (ChunkOffset ref)) (\<lambda>(codec, level).
     count_refs f refs (increment (codecName codec) codecs, increment (itoa (uint level)) levels, n + 1))"

fun count_entries ::
  "bytes \<Rightarrow> EntryV1 list \<Rightarrow> counts \<times> counts \<times> nat \<Rightarrow> (counts \<times> counts \<times> nat) result" where
  "count_entries f [] st = Inr st"
| "count_entries f (e # es) st = rbind (count_refs f (Chunks e) st) (count_entries f es)"

fun join_with :: "bytes \<Rightarrow> bytes list \<Rightarrow> bytes" where
  "join_with sep [] = []"
| "join_with sep [x] = x"
| "join_with sep (x # xs) = x @ sep @ join_with sep xs"

definition summary :: "bytes list \<Rightarrow> bytes" where
  "summary used =
     (if length used = 1 then hd used
      else if length used > 1 then ascii ''mixed('' @ join_with (ascii '','') used @ ascii '')''
      else ascii ''none'')"

definition sortedLevelCountKeys :: "counts \<Rightarrow> bytes list" where
  "sortedLevelCountKeys m = map itoa (sort (List.map_filter (\<lambda>(k, n). atoi k) m))"

record codecReport =
  crEntriesTotal :: nat
  crChunksTotal :: nat
  crChunkCounts :: counts
  crCodec :: bytes
  crLevel :: bytes
  crLevelCounts :: counts
  crDeadBytes :: u64
  crChurnOps :: u64
  crFileSize :: u64

definition formatMismatch :: error where "formatMismatch = LibErr 8"

definition inspectContainerCodecs :: "bytes \<Rightarrow> bytes \<Rightarrow> codecReport result" where
  "inspectContainerCodecs f formatReq =
     (let fileSize = file_size f in
      if formatReq \<noteq> ascii ''auto'' \<and> formatReq \<noteq> ascii ''v1'' then Inl formatMismatch else
      rbind (readHeaderAndDirectoryForInspect f fileSize) (\<lambda>(h, dir).
      let deadBytes = get_u64 (sub_bytes (hReserved h) 8 16);
          churnOps = get_u64 (sub_bytes (hReserved h) 16 24) in
      rbind (count_entries f (dEntries dir)
        ([(ascii ''store'', 0), (ascii ''zstd'', 0), (ascii ''lz4'', 0)], [], 0)) (\<lambda>(codecs, levels, n).
      Inr \<lparr>crEntriesTotal = length (dEntries dir), crChunksTotal = n, crChunkCounts = codecs,
        crCodec = summary (sort (map fst (filter (\<lambda>(k, c). c > 0) codecs))),
        crLevel = summary (sortedLevelCountKeys levels), crLevelCounts = levels,
        crDeadBytes = deadBytes, crChurnOps = churnOps, crFileSize = fileSize\<rparr>)))"

definition containerMatchesPackParams :: "bytes \<Rightarrow> u8 \<Rightarrow> int \<Rightarrow> bool result" where
  "containerMatchesPackParams f codec level =
     rbind (inspectContainerCodecs f (ascii ''auto'')) (\<lambda>report.
     Inr (if crDeadBytes report > 0 then False
          else if count_of (codecName codec) (crChunkCounts report) \<noteq> crChunksTotal report then False
          else if count_of (itoa level) (crLevelCounts report) \<noteq> crChunksTotal report then False
          else True))"

section \<open>Numbers and names are read back\<close>

lemma digit_range:
  "n < 10 \<Longrightarrow> 48 \<le> (48 + of_nat n :: u8) \<and> (48 + of_nat n :: u8) \<le> 57 \<and> unat ((48 + of_nat n :: u8) - 48) = n"
proof -
  assume n: "n < 10"
  have "n = 0 \<or> n = 1 \<or> n = 2 \<or> n = 3 \<or> n = 4 \<or> n = 5 \<or> n = 6 \<or> n = 7 \<or> n = 8 \<or> n = 9"
    using n by presburger
  then show ?thesis by (elim disjE) simp_all
qed

lemma digits_set: "\<forall>c \<in> set (digits n). 48 \<le> c \<and> c \<le> 57"
proof (induction n rule: digits.induct)
  case (1 n)
  then show ?case
    using digit_range [of n] digit_range [of "n mod 10"] by (subst digits.simps) auto
qed

lemma digits_nonempty: "digits n \<noteq> []"
  by (subst digits.simps) simp

lemma digits_value_digits: "digits_value (digits n) = n"
proof (induction n rule: digits.induct)
  case (1 n)
  show ?case
  proof (cases "n < 10")
    case True
    then show ?thesis using digit_range [of n] by (subst digits.simps) (simp add: digits_value_def)
  next
    case False
    then have "digits_value (digits (n div 10)) = n div 10" by (rule 1)
    then show ?thesis using False digit_range [of "n mod 10"]
      by (subst digits.simps) (simp add: digits_value_def)
  qed
qed

lemma atoi_itoa:
  assumes "- (2 ^ 63) \<le> i" "i < 2 ^ 63"
  shows "atoi (itoa i) = Some i"
proof -
  have d: "48 \<le> c" "c \<le> 57" if "c \<in> set (digits n)" for c n using that digits_set by auto
  then have hd: "48 \<le> hd (digits n)" for n using hd_in_set [OF digits_nonempty] by blast
  have ok: "(\<exists>c \<in> set (digits n). c < 48 \<or> 57 < c) = False" for n
    using d by (auto simp: not_less [symmetric])
  show ?thesis
  proof (cases "i < 0")
    case True
    then show ?thesis
      using assms by (simp add: atoi_def itoa_def Let_def digits_nonempty ok digits_value_digits)
  next
    case False
    have "hd (digits (nat i)) \<noteq> 43" "hd (digits (nat i)) \<noteq> 45" using hd [of "nat i"] by auto
    then show ?thesis
      using False assms by (simp add: atoi_def itoa_def Let_def digits_nonempty ok digits_value_digits)
  qed
qed

lemma itoa_inj:
  assumes "itoa i = itoa j" shows "i = j"
proof -
  have hd: "hd (digits n) \<noteq> 45" for n
    using digits_set [of n] hd_in_set [OF digits_nonempty, of n] by fastforce
  have inj: "digits m = digits n \<Longrightarrow> m = n" for m n by (metis digits_value_digits)
  show ?thesis
  proof (cases "i < 0"; cases "j < 0")
    assume n: "i < 0" "j < 0"
    then have "digits (nat (- i)) = digits (nat (- j))" using assms by (simp add: itoa_def)
    then have "nat (- i) = nat (- j)" by (rule inj)
    then show ?thesis using n by simp
  next
    assume n: "i < 0" "\<not> j < 0"
    then have "45 # digits (nat (- i)) = digits (nat j)" using assms by (simp add: itoa_def)
    then show ?thesis using hd [of "nat j"] by (metis list.sel(1))
  next
    assume n: "\<not> i < 0" "j < 0"
    then have "digits (nat i) = 45 # digits (nat (- j))" using assms by (simp add: itoa_def)
    then show ?thesis using hd [of "nat i"] by simp
  next
    assume n: "\<not> i < 0" "\<not> j < 0"
    then have "digits (nat i) = digits (nat j)" using assms by (simp add: itoa_def)
    then have "nat i = nat j" by (rule inj)
    then show ?thesis using n by simp
  qed
qed

lemma codecName_inj: "codecName a = codecName b \<longleftrightarrow> a = b"
proof -
  have "x = y" if "itoa (uint x) = itoa (uint y)" for x y :: u8 using itoa_inj [OF that] by (simp only: word_uint_eq_iff)
  then show ?thesis by (auto simp: codecName_def ascii_def)
qed

section \<open>The counts\<close>

definition rec_codec :: "bytes \<Rightarrow> ChunkRefV1 \<Rightarrow> u8" where "rec_codec f ref = f ! (unat (ChunkOffset ref) + 2)"

definition rec_level :: "bytes \<Rightarrow> ChunkRefV1 \<Rightarrow> u8" where "rec_level f ref = f ! (unat (ChunkOffset ref) + 3)"

lemma count_of_increment: "count_of k (increment j m) = count_of k m + (if k = j then 1 else 0)"
  by (auto simp: count_of_def increment_def update_conv')

definition counted ::
  "bytes \<Rightarrow> ChunkRefV1 list \<Rightarrow> counts \<times> counts \<times> nat \<Rightarrow> counts \<times> counts \<times> nat \<Rightarrow> bool" where
  "counted f refs st st' \<longleftrightarrow>
     (case (st, st') of ((cs, ls, n), (cs', ls', n')) \<Rightarrow>
        n' = n + length refs \<and>
        (\<forall>c. count_of (codecName c) cs' = count_of (codecName c) cs + length (filter (\<lambda>r. rec_codec f r = c) refs)) \<and>
        (\<forall>l. count_of (itoa l) ls' = count_of (itoa l) ls + length (filter (\<lambda>r. uint (rec_level f r) = l) refs)))"

lemma counted_nil: "counted f [] st st" by (cases st) (simp add: counted_def)

lemma counted_append: "counted f xs a b \<Longrightarrow> counted f ys b c \<Longrightarrow> counted f (xs @ ys) a c"
  by (cases a; cases b; cases c) (simp add: counted_def)

lemma filter_True_length_iff: "length (filter P xs) = length xs \<longleftrightarrow> (\<forall>x \<in> set xs. P x)"
  using filter_True [of xs P] length_filter_less [of _ xs P] by (metis less_irrefl)

lemma itoa_eq: "itoa i = itoa j \<longleftrightarrow> i = j" using itoa_inj by blast

lemma count_refs_good:
  assumes "\<forall>ref \<in> set refs. inspectChunkHeaderAt f (ChunkOffset ref) = Inr (rec_codec f ref, rec_level f ref)"
  shows "\<exists>st'. count_refs f refs st = Inr st' \<and> counted f refs st st'"
  using assms
proof (induction refs arbitrary: st)
  case (Cons ref refs)
  obtain cs ls n where st: "st = (cs, ls, n)" by (cases st)
  let ?st = "(increment (codecName (rec_codec f ref)) cs, increment (itoa (uint (rec_level f ref))) ls, n + 1)"
  obtain st' where r: "count_refs f refs ?st = Inr st'" "counted f refs ?st st'"
    using Cons.IH [of ?st] Cons.prems by auto
  have "counted f [ref] st ?st"
    by (auto simp: st counted_def count_of_increment codecName_inj itoa_eq)
  then have "counted f (ref # refs) st st'" using counted_append [of f "[ref]" st ?st refs st'] r(2) by simp
  then show ?case using r(1) Cons.prems by (simp add: st)
qed (simp add: counted_nil)

lemma count_entries_good:
  assumes "\<forall>e \<in> set es. \<forall>ref \<in> set (Chunks e).
    inspectChunkHeaderAt f (ChunkOffset ref) = Inr (rec_codec f ref, rec_level f ref)"
  shows "\<exists>st'. count_entries f es st = Inr st' \<and> counted f (concat (map Chunks es)) st st'"
  using assms
proof (induction es arbitrary: st)
  case (Cons e es)
  obtain st1 where "count_refs f (Chunks e) st = Inr st1" "counted f (Chunks e) st st1"
    using count_refs_good [of "Chunks e" f st] Cons.prems by auto
  moreover obtain st2 where "count_entries f es st1 = Inr st2" "counted f (concat (map Chunks es)) st1 st2"
    using Cons.IH [of st1] Cons.prems by auto
  ultimately show ?case using counted_append by fastforce
qed (simp add: counted_nil)

text \<open>A chunk that can be read has a good head.\<close>

lemma payload_head:
  assumes "chunk_payload L f v m ref = Inr p"
  shows "inspectChunkHeaderAt f (ChunkOffset ref) = Inr (rec_codec f ref, rec_level f ref)"
proof -
  obtain head where h: "readChunkHeaderAt f (ChunkOffset ref) = Inr head"
    using assms
    by (auto simp: chunk_payload_def readChunkRecordLimited_def inr_simps split: if_splits)
  then have r: "readAt f (ChunkOffset ref) 16 =
      Inr (sub_bytes f (unat (ChunkOffset ref)) (unat (ChunkOffset ref) + 16))"
    "\<not> maxInt < ChunkOffset ref" "unat (ChunkOffset ref) + 16 \<le> length f"
    by (auto simp: readChunkHeaderAt_def readAt_def inr_simps split: if_splits)
  have nth: "sub_bytes f a b ! k = f ! (a + k)" if "k < b - a" "b \<le> length f" "a \<le> b" for a b k
    using that by (simp add: sub_bytes_def)
  have magic: "f ! unat (ChunkOffset ref) = MagicChunk ! 0" "f ! (unat (ChunkOffset ref) + 1) = MagicChunk ! 1"
    using h r nth [of 0 "unat (ChunkOffset ref) + 16" "unat (ChunkOffset ref)"]
      nth [of 1 "unat (ChunkOffset ref) + 16" "unat (ChunkOffset ref)"]
    by (auto simp: readChunkHeaderAt_def inr_simps split: if_splits)
  have "readAt f (ChunkOffset ref) 4 = Inr (sub_bytes f (unat (ChunkOffset ref)) (unat (ChunkOffset ref) + 4))"
    using r by (simp add: readAt_def)
  then show ?thesis
    using r(3) magic nth [of _ "unat (ChunkOffset ref) + 4" "unat (ChunkOffset ref)"]
    by (simp add: inspectChunkHeaderAt_def rec_codec_def rec_level_def)
qed

section \<open>Containers\<close>

lemma checked_add: "addUint64Checked = addUint64"
  by (intro ext) (simp add: addUint64Checked_def addUint64_def)

lemma inspect_ref_iff: "inspect_ref_ok fs ref \<longleftrightarrow> unat (ChunkOffset ref) + 16 + unat (CompSize ref) \<le> unat fs"
  unfolding chunk_in_file_iff [symmetric]
  by (auto simp: inspect_ref_ok_def chunk_in_file_def checked_add not_less split: option.split)

lemma inspect_header:
  assumes "holds f h bu es"
  shows "readHeaderAndDirectoryForInspect f (file_size f) = Inr (h, decoded bu es)"
proof -
  have hv: "header_valid h" and st: "dir_stored f h bu es" and len: "length f < 2 ^ 63"
    using assms by (simp_all add: holds_def stored_def)
  have fs: "unat (file_size f) = length f" using len by (simp add: unat_file_size)
  have inside: "chunks_inside (length f) es" using st by (simp add: dir_stored_def)
  have a: "hDirOffset h \<noteq> 0" "hDirSize h \<noteq> 0" "regionWithinFileCli (hDirOffset h) (hDirSize h) (file_size f)"
    "\<not> hDirSize h > maxInspectDirectoryBlobSize" "\<not> hDirSize h > maxInt"
    "readAt f (hDirOffset h) (unat (hDirSize h)) = Inr (dir_blob bu es)"
    using read_dir_stored [OF st len]
    by (auto simp: readDirectoryBlobByHeader_def regionWithinFileCli_def regionWithinFile_def
        maxInspectDirectoryBlobSize_def maxDirectoryBlobSize_def split: if_splits)
  have "validateInspectChunkRefs (decoded bu es) (file_size f) = Inr ()"
    using inside by (auto simp: validateInspectChunkRefs_def inspect_ref_iff fs chunks_inside_def decoded_def)
  then show ?thesis
    using read_header_at_start [OF assms] unmarshal_header_bytes [OF hv] decode_dir_stored [OF st] a
    by (simp add: readHeaderAndDirectoryForInspect_def)
qed

lemma represents_heads:
  assumes "represents L f h bu es s"
  shows "\<forall>e \<in> set es. \<forall>ref \<in> set (Chunks e).
    inspectChunkHeaderAt f (ChunkOffset ref) = Inr (rec_codec f ref, rec_level f ref)"
proof (intro ballI)
  fix e ref assume e: "e \<in> set es" "ref \<in> set (Chunks e)"
  have "map_of (entry_map_of es) (Path e) = Some e"
    using represents_table(3) [OF assms] e(1) by (auto simp: entry_map_of_def comp_def intro!: map_of_is_SomeI)
  then obtain data where "reads_as L f (Chunks e) data"
    using assms refinesD(2) unfolding represents_def by blast
  then obtain p where "chunk_payload L f False 0 ref = Inr p"
    using e(2) by (auto simp: reads_as_def list_all2_conv_all_nth in_set_conv_nth)
  then show "inspectChunkHeaderAt f (ChunkOffset ref) = Inr (rec_codec f ref, rec_level f ref)"
    by (rule payload_head)
qed

lemma represents_dom:
  assumes "represents L f h bu es s"
  shows "dom s = Path ` set es" "card (dom s) = length es"
proof -
  have "s k \<noteq> None \<longleftrightarrow> k \<in> Path ` set es" for k
  proof -
    have "cell L f (map_of (entry_map_of es) k) (s k)" using assms by (simp add: represents_def refines_def)
    then have "s k = None \<longleftrightarrow> map_of (entry_map_of es) k = None" by (cases "map_of (entry_map_of es) k") auto
    also have "\<dots> \<longleftrightarrow> k \<notin> Path ` set es" by (auto simp: map_of_eq_None_iff entry_map_of_def image_iff)
    finally show ?thesis by argo
  qed
  then show d: "dom s = Path ` set es" unfolding dom_def by blast
  show "card (dom s) = length es"
    unfolding d using represents_table(3) [OF assms] by (metis distinct_card length_map set_map)
qed

lemma inspect_report:
  assumes "represents L f h bu es s" "fmt = ascii ''auto'' \<or> fmt = ascii ''v1''"
  defines "refs \<equiv> concat (map Chunks es)"
  shows "\<exists>r. inspectContainerCodecs f fmt = Inr r \<and> crEntriesTotal r = card (dom s) \<and>
    crChunksTotal r = length refs \<and>
    (\<forall>c. count_of (codecName c) (crChunkCounts r) = length (filter (\<lambda>ref. rec_codec f ref = c) refs)) \<and>
    (\<forall>l. count_of (itoa l) (crLevelCounts r) = length (filter (\<lambda>ref. uint (rec_level f ref) = l) refs)) \<and>
    (crDeadBytes r, crChurnOps r) = readCompactionStatsFromHeader h \<and> crFileSize r = file_size f"
proof -
  let ?st = "([(ascii ''store'', 0), (ascii ''zstd'', 0), (ascii ''lz4'', 0)], [], 0) :: counts \<times> counts \<times> nat"
  obtain cs ls n where c: "count_entries f es ?st = Inr (cs, ls, n)" "counted f refs ?st (cs, ls, n)"
    using count_entries_good [OF represents_heads [OF assms(1)], of ?st] unfolding refs_def by (metis prod_cases3)
  have "count_of k (fst ?st) = 0" "count_of k (fst (snd ?st)) = 0" for k by (simp_all add: count_of_def)
  then have counts: "n = length refs"
    "\<forall>c. count_of (codecName c) cs = length (filter (\<lambda>ref. rec_codec f ref = c) refs)"
    "\<forall>l. count_of (itoa l) ls = length (filter (\<lambda>ref. uint (rec_level f ref) = l) refs)"
    using c(2) by (simp_all add: counted_def)
  have "readHeaderAndDirectoryForInspect f (file_size f) = Inr (h, decoded bu es)"
    using assms(1) by (intro inspect_header) (simp add: represents_def)
  then show ?thesis
    using c(1) counts assms(2) represents_dom(2) [OF assms(1)]
    by (auto simp: inspectContainerCodecs_def Let_def decoded_def readCompactionStatsFromHeader_def)
qed

text \<open>
  \<^verbatim>\<open>fbx info\<close> reports the truth. On a file that represents a container the inspection succeeds; it
  reports the number of entries and of chunks, for every codec and every level the exact number of
  chunk records that have it, and the dead bytes and operations of the header.
\<close>

theorem inspect_counts:
  assumes "represents L f h bu es s" "fmt = ascii ''auto'' \<or> fmt = ascii ''v1''"
  defines "refs \<equiv> concat (map Chunks es)"
  shows "\<exists>r. inspectContainerCodecs f fmt = Inr r \<and> crEntriesTotal r = card (dom s) \<and>
    crChunksTotal r = length refs \<and>
    (\<forall>c. count_of (codecName c) (crChunkCounts r) = length (filter (\<lambda>ref. rec_codec f ref = c) refs)) \<and>
    (\<forall>l. count_of (itoa l) (crLevelCounts r) = length (filter (\<lambda>ref. uint (rec_level f ref) = l) refs)) \<and>
    (crDeadBytes r, crChurnOps r) = readCompactionStatsFromHeader h \<and> crFileSize r = file_size f"
  unfolding refs_def by (rule inspect_report [OF assms(1,2)])

lemma matches_exactly:
  assumes "represents L f h bu es s"
  shows "containerMatchesPackParams f codec level = Inr
    (fst (readCompactionStatsFromHeader h) = 0 \<and>
     (\<forall>e \<in> set es. \<forall>ref \<in> set (Chunks e). rec_codec f ref = codec \<and> uint (rec_level f ref) = level))"
proof -
  let ?refs = "concat (map Chunks es)"
  have all: "length (filter P ?refs) = length ?refs \<longleftrightarrow> (\<forall>e \<in> set es. \<forall>ref \<in> set (Chunks e). P ref)" for P
    by (subst filter_True_length_iff) auto
  obtain r where r: "inspectContainerCodecs f (ascii ''auto'') = Inr r" "crChunksTotal r = length ?refs"
    "count_of (codecName codec) (crChunkCounts r) = length (filter (\<lambda>ref. rec_codec f ref = codec) ?refs)"
    "count_of (itoa level) (crLevelCounts r) = length (filter (\<lambda>ref. uint (rec_level f ref) = level) ?refs)"
    "(crDeadBytes r, crChurnOps r) = readCompactionStatsFromHeader h"
    using inspect_report [OF assms, of "ascii ''auto''"] by blast
  have "crDeadBytes r > 0 \<longleftrightarrow> fst (readCompactionStatsFromHeader h) \<noteq> 0"
    using arg_cong [OF r(5), of fst] by (simp add: word_neq_0_conv [symmetric])
  then show ?thesis
    using r(1-4) all by (simp add: containerMatchesPackParams_def) blast
qed

end
