(* ===== verification/SampleCli.thy ===== *)
theory SampleCli
  imports Samples Inspect
begin

text \<open>The command line tool on the containers of the samples.\<close>

theorem inspect_counts_witness:
  "\<exists>r. inspectContainerCodecs (content sample_d1) (ascii ''auto'') = Inr r \<and> crEntriesTotal r = 1 \<and>
     crChunksTotal r = 1 \<and> crFileSize r = file_size (content sample_d1)"
  using inspect_counts [OF sample_full(1), of "ascii ''auto''"]
  by (auto simp: sample_store_def sample_es1_def sample_file_def)

lemma sample_h0_stats: "fst (readCompactionStatsFromHeader sample_h0) = 0"
proof -
  let ?bu = "ceBuildTime sample_create"
  let ?z = "zeroHeader\<lparr>hMagic := MagicHeader, hVersion := VersionV1,
    hHeaderSize := of_nat HeaderSize, hCreatedUnix := ceHeaderTime sample_create\<rparr>"
  let ?m = "(set_flags ((markHeaderV1ExtensionLayout ?z)\<lparr>hUUID := ceUUID sample_create, hDirOffset := 256,
      hDirSize := 36, hDirCRC32 := crc32 (dir_body ?bu [])\<rparr>))
      \<lparr>hJournalOffset := 356, hJournalSize := of_nat journalRecordSize\<rparr>"
  let ?p = "\<lparr>pOffset = 292, pSize = 64, pCrc32 = crc32 (index_blob (new_index ?bu))\<rparr>"
  have z: "header_shape ?z" by (simp add: header_shape_def zeroHeader_def MagicHeader_def)
  then have sh: "header_shape ?m"
    using sample_fits mark_shape [OF z] by (simp add: header_shape_def create_fits_def)
  have h: "sample_h0 = seal ?m 1 ?p"
    by (simp add: sample_h0_def created_header_def create_header_def seal_def Let_def new_lengths HeaderSize_def
        del: length_dir_blob length_index_blob)
  have "readCompactionStatsFromHeader sample_h0 = readCompactionStatsFromHeader ?z"
    unfolding h seal_reads(5) [OF sh]
    by (simp add: readCompactionStatsFromHeader_def markHeaderV1ExtensionLayout_def sub_bytes_def drop_mark)
  then show ?thesis
    by (simp add: readCompactionStatsFromHeader_def zeroHeader_def sub_bytes_def get_u64_def)
      (simp add: numeral_eq_Suc)
qed

end
