(* ===== verification/Cli.thy ===== *)
theory Cli
  imports Inspect ImportZip Glob
begin

text \<open>
  The commands of the tool \<^verbatim>\<open>fbx\<close>, \<^verbatim>\<open>cmd/fbx/main.go\<close>, from the point where the flags are parsed and
  the container file is there: what each does to the container, the exit code and what it prints (as
  values, not as text). A missing container makes every command end with code 1 and is left out.
\<close>

section \<open>Strings\<close>

text \<open>\<^verbatim>\<open>strings.HasPrefix\<close>, \<^verbatim>\<open>strings.Contains\<close>, \<^verbatim>\<open>bytes.Count\<close> and \<^verbatim>\<open>bytes.ReplaceAll\<close> for a non-empty search text.\<close>

definition has_prefix :: "bytes \<Rightarrow> bytes \<Rightarrow> bool" where
  "has_prefix s p \<longleftrightarrow> take (length p) s = p"

fun contains_text :: "bytes \<Rightarrow> bytes \<Rightarrow> bool" where
  "contains_text [] sub \<longleftrightarrow> sub = []"
| "contains_text (c # s) sub \<longleftrightarrow> has_prefix (c # s) sub \<or> contains_text s sub"

function count_text :: "bytes \<Rightarrow> bytes \<Rightarrow> nat" where
  "count_text s old =
     (if old = [] \<or> s = [] then 0
      else if has_prefix s old then Suc (count_text (drop (length old) s) old)
      else count_text (tl s) old)"
  by pat_completeness auto
termination
  by (relation "measure (\<lambda>(s, old). length s)") auto

function replace_text :: "bytes \<Rightarrow> bytes \<Rightarrow> bytes \<Rightarrow> bytes" where
  "replace_text s old new =
     (if old = [] \<or> s = [] then s
      else if has_prefix s old then new @ replace_text (drop (length old) s) old new
      else hd s # replace_text (tl s) old new)"
  by pat_completeness auto
termination
  by (relation "measure (\<lambda>(s, old, new). length s)") auto

declare count_text.simps [simp del] replace_text.simps [simp del]

text \<open>\<^verbatim>\<open>filepath.Base\<close>.\<close>

definition path_base :: "bytes \<Rightarrow> bytes" where
  "path_base p =
     (if p = [] then [46]
      else let slash = (\<lambda>c. c = 47); q = rev (dropWhile slash (rev p));
               b = rev (takeWhile (\<lambda>c. c \<noteq> 47) (rev q))
           in if b = [] then [47] else b)"

section \<open>Flags\<close>

definition cli_error :: error where "cli_error = LibErr 9"

definition parseCodec :: "bytes \<Rightarrow> u8 result" where
  "parseCodec v =
     (if v = ascii ''store'' then Inr CodecStore
      else if v = ascii ''zstd'' then Inr CodecZstd
      else if v = ascii ''lz4'' then Inr CodecLZ4
      else Inl cli_error)"

definition parseVerifyModeFlag :: "bytes \<Rightarrow> VerifyMode result" where
  "parseVerifyModeFlag raw =
     (if raw = ascii ''dir'' then Inr VerifyDirectoryOnly
      else if raw = ascii ''sample'' then Inr VerifySampledChunks
      else if raw = ascii ''all'' then Inr VerifyAllChunks
      else Inl cli_error)"

definition buildLimitOptions :: "u64 \<Rightarrow> u64 \<Rightarrow> Options option result" where
  "buildLimitOptions maxEntrySize maxChunkSize =
     (if maxChunkSize > 0xFFFFFFFF then Inl cli_error
      else if maxEntrySize = 0 \<and> maxChunkSize = 0 then Inr None
      else Inr (Some (zeroOptions\<lparr>oDetectText := True, oStoreIfAlreadyCompressed := True,
        oSyncOnCommit := True, oStrictVerify := True, oMaxEntrySize := maxEntrySize,
        oMaxChunkSize := ucast maxChunkSize\<rparr>)))"

text \<open>
  From outside: the codecs, the clocks, the scheduler at each entry that is written, \<^verbatim>\<open>json.Valid\<close>,
  \<^verbatim>\<open>json.Unmarshal\<close> into a map of raw messages, and the other files.
\<close>

record cli_env =
  cvLib :: codec_lib
  cvProcs :: int
  cvCommit :: commit_env
  cvEntry :: "nat \<Rightarrow> env"
  cvValid :: "bytes \<Rightarrow> bool"
  cvRawMap :: "bytes \<Rightarrow> (bytes \<times> bytes) list result"
  cvReadFile :: "bytes \<Rightarrow> bytes result"

definition loadMeta :: "cli_env \<Rightarrow> bytes \<Rightarrow> bytes \<Rightarrow> bytes result" where
  "loadMeta ce metaJSON metaFile =
     (if metaJSON \<noteq> [] \<and> metaFile \<noteq> [] then Inl cli_error
      else if metaJSON \<noteq> [] then (if cvValid ce metaJSON then Inr metaJSON else Inl cli_error)
      else if metaFile \<noteq> [] then
        rbind (cvReadFile ce metaFile) (\<lambda>b. if cvValid ce b then Inr b else Inl cli_error)
      else Inr [])"

definition loadMetaMap :: "cli_env \<Rightarrow> bytes \<Rightarrow> (bytes \<times> bytes) list result" where
  "loadMetaMap ce metaFile =
     rbind (cvReadFile ce metaFile) (\<lambda>b.
     rbind (cvRawMap ce b) (\<lambda>raw.
     if \<exists>x \<in> set raw. snd x = [] \<or> \<not> cvValid ce (snd x) then Inl cli_error else Inr raw))"

section \<open>Writing one entry: \<^verbatim>\<open>add\<close>, \<^verbatim>\<open>upsert\<close>, \<^verbatim>\<open>replace\<close>, \<^verbatim>\<open>set-meta\<close>\<close>

record put_flags =
  pfAs :: bytes
  pfMetaJSON :: bytes
  pfMetaFile :: bytes
  pfKeepMeta :: bool
  pfCodec :: bytes
  pfLevel :: int
  pfChunkSize :: int
  pfMaxEntry :: u64
  pfMaxChunk :: u64

definition entry_name :: "put_flags \<Rightarrow> bytes \<Rightarrow> bytes" where
  "entry_name fl sourcePath =
     dropWhile (\<lambda>c. c = 47) (to_slash (if pfAs fl = [] then path_base sourcePath else pfAs fl))"

definition put_write_options :: "put_flags \<Rightarrow> u8 \<Rightarrow> u64 \<Rightarrow> u32 \<Rightarrow> u32 \<Rightarrow> WriteOptions" where
  "put_write_options fl codec mtime mode flags =
     \<lparr>wCodec = codec, wLevel = pfLevel fl, wChunkSize = pfChunkSize fl, wMTimeUnix = mtime, wMode = mode,
      wFlags = flags\<rparr>"

text \<open>The metadata to write: those of the present entry if none are given and they are to be kept.\<close>

definition upsert_meta :: "put_flags \<Rightarrow> bool \<Rightarrow> Container \<Rightarrow> bytes \<Rightarrow> bytes \<Rightarrow> bytes result" where
  "upsert_meta fl isUpsert c entryPath meta =
     (if isUpsert \<and> meta = [] \<and> pfKeepMeta fl then
        (case Stat c entryPath of
           Inr info \<Rightarrow> Inr (iMeta info)
         | Inl e \<Rightarrow> if e \<noteq> ErrNotFound then Inl e else Inr meta)
      else Inr meta)"

definition replace_meta :: "put_flags \<Rightarrow> Container \<Rightarrow> bytes \<Rightarrow> bytes \<Rightarrow> bytes result" where
  "replace_meta fl c entryPath meta =
     (if meta = [] \<and> pfKeepMeta fl then rbind (Stat c entryPath) (\<lambda>info. Inr (iMeta info))
      else Inr meta)"

text \<open>The call of the library at the end, as an exit code.\<close>

definition exit_code :: "(unit result \<times> Container \<times> disk) option \<Rightarrow> (nat \<times> disk) option" where
  "exit_code r =
     (case r of
        None \<Rightarrow> None
      | Some (Inl _, c, d) \<Rightarrow> Some (1, d)
      | Some (Inr _, c, d) \<Rightarrow> Some (0, d))"

definition runAddLike ::
  "cli_env \<Rightarrow> put_flags \<Rightarrow> bool \<Rightarrow> bytes \<Rightarrow> (source \<times> u64 \<times> u32) result \<Rightarrow> disk \<Rightarrow> (nat \<times> disk) option" where
  "runAddLike ce fl isUpsert sourcePath sourceFile d =
     (case parseCodec (pfCodec fl) of Inl _ \<Rightarrow> Some (2, d) | Inr codec \<Rightarrow>
     (case loadMeta ce (pfMetaJSON fl) (pfMetaFile fl) of Inl _ \<Rightarrow> Some (2, d) | Inr meta \<Rightarrow>
     (case sourceFile of Inl _ \<Rightarrow> Some (1, d) | Inr (src, mtime, mode) \<Rightarrow>
     (case buildLimitOptions (pfMaxEntry fl) (pfMaxChunk fl) of Inl _ \<Rightarrow> Some (2, d) | Inr copts \<Rightarrow>
     (case Open (cvLib ce) (cvProcs ce) copts d of (Inl _, d) \<Rightarrow> Some (1, d) | (Inr c, d) \<Rightarrow>
     let entryPath = entry_name fl sourcePath in
     (case upsert_meta fl isUpsert c entryPath meta of Inl _ \<Rightarrow> Some (1, d) | Inr meta \<Rightarrow>
     let wopts = put_write_options fl codec mtime mode 0 in
     exit_code
       (if isUpsert then Container_Upsert (cvCommit ce) (cvEntry ce 0) entryPath (Some src) meta (Some wopts) c d
        else Container_Add (cvCommit ce) (cvEntry ce 0) entryPath (Some src) meta (Some wopts) c d)))))))"

definition runReplace ::
  "cli_env \<Rightarrow> put_flags \<Rightarrow> bytes \<Rightarrow> (source \<times> u64 \<times> u32) result \<Rightarrow> disk \<Rightarrow> (nat \<times> disk) option" where
  "runReplace ce fl sourcePath sourceFile d =
     (case parseCodec (pfCodec fl) of Inl _ \<Rightarrow> Some (2, d) | Inr codec \<Rightarrow>
     (case loadMeta ce (pfMetaJSON fl) (pfMetaFile fl) of Inl _ \<Rightarrow> Some (2, d) | Inr meta \<Rightarrow>
     (case sourceFile of Inl _ \<Rightarrow> Some (1, d) | Inr (src, mtime, mode) \<Rightarrow>
     (case buildLimitOptions (pfMaxEntry fl) (pfMaxChunk fl) of Inl _ \<Rightarrow> Some (2, d) | Inr copts \<Rightarrow>
     (case Open (cvLib ce) (cvProcs ce) copts d of (Inl _, d) \<Rightarrow> Some (1, d) | (Inr c, d) \<Rightarrow>
     let entryPath = entry_name fl sourcePath in
     (case replace_meta fl c entryPath meta of Inl _ \<Rightarrow> Some (1, d) | Inr meta \<Rightarrow>
     let wopts = put_write_options fl codec mtime mode 0 in
     exit_code
       (Container_Replace (cvCommit ce) (cvEntry ce 0) entryPath (Some src) meta (Some wopts) c d)))))))"

text \<open>
  \<^verbatim>\<open>set-meta\<close> writes the entry again with its own contents as the source. The reader is handed to \<^verbatim>\<open>Upsert\<close>
  and reads while the transaction appends; what it reads lies before the append offset
  (\<open>stream_unmoved\<close>), so the source is what the file gives when the transaction begins.
\<close>

definition runSetMeta :: "cli_env \<Rightarrow> put_flags \<Rightarrow> bytes \<Rightarrow> disk \<Rightarrow> (nat \<times> disk) option" where
  "runSetMeta ce fl entryPath d =
     (case loadMeta ce (pfMetaJSON fl) (pfMetaFile fl) of Inl _ \<Rightarrow> Some (2, d) | Inr meta \<Rightarrow>
     if meta = [] then Some (2, d) else
     (case parseCodec (pfCodec fl) of Inl _ \<Rightarrow> Some (2, d) | Inr codec \<Rightarrow>
     (case buildLimitOptions (pfMaxEntry fl) (pfMaxChunk fl) of Inl _ \<Rightarrow> Some (2, d) | Inr copts \<Rightarrow>
     (case Open (cvLib ce) (cvProcs ce) copts d of (Inl _, d) \<Rightarrow> Some (1, d) | (Inr c, d) \<Rightarrow>
     (case Stat c entryPath of Inl _ \<Rightarrow> Some (1, d) | Inr info \<Rightarrow>
     (case OpenReader c entryPath of Inl _ \<Rightarrow> Some (1, d) | Inr r \<Rightarrow>
     let wopts = put_write_options fl codec (iMTimeUnix info) (iMode info) (iEntryFlags info) in
     exit_code
       (Container_Upsert (cvCommit ce) (cvEntry ce 0) entryPath (Some (stream (cvLib ce) (content d) r)) meta
          (Some wopts) c d)))))))"

definition runSetMetaMany ::
  "cli_env \<Rightarrow> bytes \<Rightarrow> bool \<Rightarrow> u64 \<Rightarrow> u64 \<Rightarrow> disk \<Rightarrow> ((nat \<times> (nat \<times> nat) option) \<times> disk) option" where
  "runSetMetaMany ce metaFile ignoreMissing maxEntry maxChunk d =
     (if metaFile = [] then Some ((2, None), d) else
      case loadMetaMap ce metaFile of Inl _ \<Rightarrow> Some ((2, None), d) | Inr metaByPath \<Rightarrow>
     if metaByPath = [] then Some ((2, None), d) else
     (case buildLimitOptions maxEntry maxChunk of Inl _ \<Rightarrow> Some ((2, None), d) | Inr copts \<Rightarrow>
     (case Open (cvLib ce) (cvProcs ce) copts d of (Inl _, d) \<Rightarrow> Some ((1, None), d) | (Inr c, d) \<Rightarrow>
     (case Container_SetMetaMany (cvCommit ce) metaByPath ignoreMissing c d of
        None \<Rightarrow> None
      | Some ((updated, missing, None), c, d) \<Rightarrow> Some ((0, Some (updated, missing)), d)
      | Some ((updated, missing, Some _), c, d) \<Rightarrow> Some ((1, None), d)))))"

section \<open>Removing: \<^verbatim>\<open>rm\<close>\<close>

record rm_flags =
  rfPrefix :: bytes
  rfGlob :: bytes
  rfContains :: bytes
  rfMinSize :: u64
  rfMaxSize :: u64

definition rm_selects :: "rm_flags \<Rightarrow> EntryInfo \<Rightarrow> bool" where
  "rm_selects fl e \<longleftrightarrow>
     \<not> (rfContains fl \<noteq> [] \<and> \<not> contains_text (iPath e) (rfContains fl)) \<and>
     \<not> (rfMinSize fl > 0 \<and> iSize e < rfMinSize fl) \<and>
     \<not> (rfMaxSize fl > 0 \<and> iSize e > rfMaxSize fl)"

text \<open>One \<^verbatim>\<open>if\<close> of the command: the removal is done if its flag is set and adds to the count.\<close>

definition rm_step ::
  "bool \<Rightarrow> (Tx \<Rightarrow> (nat \<times> error option) \<times> Tx) \<Rightarrow> (nat \<times> error option) \<times> Tx \<Rightarrow>
     (nat \<times> error option) \<times> Tx" where
  "rm_step given oper st =
     (case st of
        ((removed, Some e), tx) \<Rightarrow> ((removed, Some e), tx)
      | ((removed, None), tx) \<Rightarrow>
          if given then
            (case oper tx of
               ((n, Some e), tx) \<Rightarrow> ((removed, Some e), tx)
             | ((n, None), tx) \<Rightarrow> ((removed + n, None), tx))
          else ((removed, None), tx))"

definition rm_steps :: "rm_flags \<Rightarrow> bytes list \<Rightarrow> Tx \<Rightarrow> (nat \<times> error option) \<times> Tx" where
  "rm_steps fl paths tx =
     rm_step (rfContains fl \<noteq> [] \<or> rfMinSize fl > 0 \<or> rfMaxSize fl > 0) (Tx_RemoveWhere (Some (rm_selects fl)))
       (rm_step (paths \<noteq> []) (Tx_RemoveMany paths)
         (rm_step (rfGlob fl \<noteq> []) (Tx_RemoveGlob (rfGlob fl))
           (rm_step (rfPrefix fl \<noteq> []) (Tx_RemovePrefix (rfPrefix fl)) ((0, None), tx))))"

definition runRm :: "cli_env \<Rightarrow> rm_flags \<Rightarrow> bytes list \<Rightarrow> disk \<Rightarrow> ((nat \<times> nat option) \<times> disk) option" where
  "runRm ce fl paths d =
     (if rfPrefix fl = [] \<and> rfGlob fl = [] \<and> rfContains fl = [] \<and> rfMinSize fl = 0 \<and> rfMaxSize fl = 0 \<and> paths = []
      then Some ((2, None), d) else
      case Open (cvLib ce) (cvProcs ce) None d of (Inl _, d) \<Rightarrow> Some ((1, None), d) | (Inr c, d) \<Rightarrow>
      (case Begin c d of
         None \<Rightarrow> None
       | Some (Inl _, c, d) \<Rightarrow> Some ((1, None), d)
       | Some (Inr tx, c, d) \<Rightarrow>
           (case rm_steps fl paths tx of
              ((removed, Some _), tx) \<Rightarrow> Some ((1, None), d)
            | ((removed, None), tx) \<Rightarrow>
                if removed = 0 then Some ((0, Some 0), d)
                else (case Commit (cvCommit ce) c tx d of
                        (Inl _, tx, c, d) \<Rightarrow> Some ((1, None), d)
                      | (Inr _, tx, c, d) \<Rightarrow> Some ((0, Some removed), d)))))"

section \<open>Reading: \<^verbatim>\<open>list\<close>, \<^verbatim>\<open>find\<close>, \<^verbatim>\<open>stat\<close>, \<^verbatim>\<open>extract\<close>, \<^verbatim>\<open>verify\<close>\<close>

text \<open>\<^verbatim>\<open>for it.Next() { e := it.Value(); ... }\<close>\<close>

definition listed :: "EntryInfo sliceIterator \<Rightarrow> EntryInfo list" where
  "listed it = map the (iterate (Suc (length (itValues it))) it)"

definition runList :: "cli_env \<Rightarrow> disk \<Rightarrow> (nat \<times> (u64 \<times> bytes) list) \<times> disk" where
  "runList ce d =
     (case Open (cvLib ce) (cvProcs ce) None d of (Inl _, d) \<Rightarrow> ((1, []), d) | (Inr c, d) \<Rightarrow>
      (case container_List c (content d) of (it, c) \<Rightarrow>
         ((if itErr it = None then 0 else 1, map (\<lambda>e. (iSize e, iPath e)) (listed it)), d)))"

record find_flags =
  ffPrefix :: bytes
  ffGlob :: bytes
  ffContains :: bytes

definition find_selects :: "find_flags \<Rightarrow> bytes \<Rightarrow> bool" where
  "find_selects fl p \<longleftrightarrow>
     \<not> (ffPrefix fl \<noteq> [] \<and> \<not> has_prefix p (ffPrefix fl)) \<and>
     \<not> (ffContains fl \<noteq> [] \<and> \<not> contains_text p (ffContains fl)) \<and>
     \<not> (ffGlob fl \<noteq> [] \<and> path_match (ffGlob fl) p \<noteq> Inr True)"

definition runFind :: "cli_env \<Rightarrow> find_flags \<Rightarrow> disk \<Rightarrow> (nat \<times> bytes list) \<times> disk" where
  "runFind ce fl d =
     (if ffGlob fl \<noteq> [] \<and> isl (path_match (ffGlob fl) [120]) then ((2, []), d) else
      case Open (cvLib ce) (cvProcs ce) None d of (Inl _, d) \<Rightarrow> ((1, []), d) | (Inr c, d) \<Rightarrow>
      (case container_List c (content d) of (it, c) \<Rightarrow>
         ((if itErr it = None then 0 else 1, filter (find_selects fl) (map iPath (listed it))), d)))"

definition runStat :: "cli_env \<Rightarrow> u64 \<Rightarrow> u64 \<Rightarrow> bytes \<Rightarrow> disk \<Rightarrow> (nat \<times> EntryInfo option) \<times> disk" where
  "runStat ce maxEntry maxChunk path d =
     (case buildLimitOptions maxEntry maxChunk of Inl _ \<Rightarrow> ((2, None), d) | Inr copts \<Rightarrow>
     (case Open (cvLib ce) (cvProcs ce) copts d of (Inl _, d) \<Rightarrow> ((1, None), d) | (Inr c, d) \<Rightarrow>
     (case Stat c path of Inl _ \<Rightarrow> ((1, None), d) | Inr info \<Rightarrow> ((0, Some info), d))))"

text \<open>\<open>created\<close> is \<^verbatim>\<open>os.Create\<close> of the output, a file that is not the container; \<open>Inr ()\<close> for the standard output.\<close>

definition runExtract ::
  "cli_env \<Rightarrow> u64 \<Rightarrow> u64 \<Rightarrow> bytes \<Rightarrow> unit result \<Rightarrow> disk \<Rightarrow> ((nat \<times> bytes) \<times> disk) option" where
  "runExtract ce maxEntry maxChunk path created d =
     (case buildLimitOptions maxEntry maxChunk of Inl _ \<Rightarrow> Some ((2, []), d) | Inr copts \<Rightarrow>
     (case Open (cvLib ce) (cvProcs ce) copts d of (Inl _, d) \<Rightarrow> Some ((1, []), d) | (Inr c, d) \<Rightarrow>
     (case created of Inl _ \<Rightarrow> Some ((1, []), d) | Inr _ \<Rightarrow>
     (case Extract (cvLib ce) c (content d) path of
        None \<Rightarrow> None
      | Some (out, Inl _) \<Rightarrow> Some ((1, out), d)
      | Some (out, Inr _) \<Rightarrow> Some ((0, out), d)))))"

text \<open>\<^verbatim>\<open>strings.TrimSpace\<close> and \<^verbatim>\<open>strings.ToLower\<close> on ASCII; other white space of Unicode is not trimmed here.\<close>

definition parseFormatRequest :: "bytes \<Rightarrow> bytes result" where
  "parseFormatRequest raw =
     (let space = (\<lambda>c. c = 32 \<or> 9 \<le> c \<and> c \<le> 13);
          v = to_lower (rev (dropWhile space (rev (dropWhile space raw)))) in
      if v = [] \<or> v = ascii ''auto'' then Inr (ascii ''auto'')
      else if v = ascii ''v1'' then Inr (ascii ''v1'')
      else Inl cli_error)"

definition runVerify ::
  "cli_env \<Rightarrow> bytes \<Rightarrow> bytes \<Rightarrow> disk \<Rightarrow> (nat \<times> (u64 \<times> u64 \<times> nat) option) \<times> disk" where
  "runVerify ce mode formatReq d =
     (case parseFormatRequest formatReq of Inl _ \<Rightarrow> ((2, None), d) | Inr req \<Rightarrow>
     if req \<noteq> ascii ''auto'' \<and> req \<noteq> ascii ''v1'' then ((1, None), d) else
     (case Open (cvLib ce) (cvProcs ce) None d of (Inl _, d) \<Rightarrow> ((1, None), d) | (Inr c, d) \<Rightarrow>
     (case parseVerifyModeFlag mode of Inl _ \<Rightarrow> ((2, None), d) | Inr vmode \<Rightarrow>
     (case Verify (cvLib ce) c (content d) (Some vmode) of ((report, failed), c) \<Rightarrow>
        ((if failed then 1 else 0,
          Some (vEntriesChecked report, vChunksChecked report, length (vErrors report))), d)))))"

definition runInfo :: "bytes \<Rightarrow> bytes \<Rightarrow> nat \<times> codecReport option" where
  "runInfo formatReq f =
     (case parseFormatRequest formatReq of Inl _ \<Rightarrow> (2, None) | Inr req \<Rightarrow>
     (case inspectContainerCodecs f req of Inl _ \<Rightarrow> (1, None) | Inr report \<Rightarrow> (0, Some report)))"

section \<open>Replacing text in many entries: \<^verbatim>\<open>replace-text\<close>\<close>

record text_flags =
  tfFind :: bytes
  tfReplace :: bytes
  tfPrefix :: bytes
  tfGlob :: bytes
  tfDryRun :: bool
  tfPut :: put_flags

definition text_selects :: "text_flags \<Rightarrow> bytes \<Rightarrow> bool" where
  "text_selects fl p \<longleftrightarrow>
     \<not> (tfPrefix fl \<noteq> [] \<and> \<not> has_prefix p (tfPrefix fl)) \<and>
     \<not> (tfGlob fl \<noteq> [] \<and> path_match (tfGlob fl) p \<noteq> Inr True)"

text \<open>
  The loop over the listed entries. The contents are read from the file as it is by then, with the
  entries the container had when it was opened; \<open>None\<close> as the transaction is a dry run.
\<close>

fun text_loop ::
  "cli_env \<Rightarrow> text_flags \<Rightarrow> u8 \<Rightarrow> Container \<Rightarrow> nat \<Rightarrow> EntryInfo list \<Rightarrow> nat \<times> nat \<Rightarrow> Tx option \<Rightarrow> disk \<Rightarrow>
     ((nat \<times> nat) result \<times> Tx option \<times> disk) option" where
  "text_loop ce fl codec c i [] (changed, hits) tx d = Some (Inr (changed, hits), tx, d)"
| "text_loop ce fl codec c i (e # es) (changed, hits) tx d =
     (if \<not> text_selects fl (iPath e) then text_loop ce fl codec c i es (changed, hits) tx d
      else case Extract (cvLib ce) c (content d) (iPath e) of
        None \<Rightarrow> None
      | Some (_, Inl err) \<Rightarrow> Some (Inl err, tx, d)
      | Some (src, Inr _) \<Rightarrow>
          let n = count_text src (tfFind fl) in
          if n = 0 then text_loop ce fl codec c i es (changed, hits) tx d
          else case tx of
            None \<Rightarrow> text_loop ce fl codec c i es (changed + 1, hits + n) None d
          | Some tx \<Rightarrow>
              let dst = replace_text src (tfFind fl) (tfReplace fl);
                  wopts = put_write_options (tfPut fl) codec (iMTimeUnix e) (iMode e) (iEntryFlags e) in
              (case Tx_Upsert (cvEntry ce i) (cOpts c) (iPath e) (Some (dst, IoEOF)) (iMeta e) (Some wopts) tx d of
                 None \<Rightarrow> None
               | Some (Inl err, tx, d) \<Rightarrow> Some (Inl err, Some tx, d)
               | Some (Inr _, tx, d) \<Rightarrow>
                   text_loop ce fl codec c (i + 1) es (changed + 1, hits + n) (Some tx) d))"

text \<open>The list, the loop and the end of the transaction, if there is one.\<close>

definition text_run ::
  "cli_env \<Rightarrow> text_flags \<Rightarrow> u8 \<Rightarrow> Container \<Rightarrow> Tx option \<Rightarrow> disk \<Rightarrow> ((nat \<times> (nat \<times> nat) option) \<times> disk) option" where
  "text_run ce fl codec c tx d =
     (case container_List c (content d) of (it, c) \<Rightarrow>
     (case text_loop ce fl codec c 0 (listed it) (0, 0) tx d of
        None \<Rightarrow> None
      | Some (Inl _, tx, d) \<Rightarrow> Some ((1, None), d)
      | Some (Inr (changed, hits), tx, d) \<Rightarrow>
          if itErr it \<noteq> None then Some ((1, None), d)
          else (case tx of
            None \<Rightarrow> Some ((0, Some (changed, hits)), d)
          | Some tx \<Rightarrow>
              if changed = 0 then Some ((0, Some (changed, hits)), d)
              else (case Commit (cvCommit ce) c tx d of
                      (Inl _, tx, c, d) \<Rightarrow> Some ((1, None), d)
                    | (Inr _, tx, c, d) \<Rightarrow> Some ((0, Some (changed, hits)), d)))))"

definition runReplaceText ::
  "cli_env \<Rightarrow> text_flags \<Rightarrow> disk \<Rightarrow> ((nat \<times> (nat \<times> nat) option) \<times> disk) option" where
  "runReplaceText ce fl d =
     (if tfFind fl = [] then Some ((2, None), d)
      else if tfGlob fl \<noteq> [] \<and> isl (path_match (tfGlob fl) [120]) then Some ((2, None), d) else
      case parseCodec (pfCodec (tfPut fl)) of Inl _ \<Rightarrow> Some ((2, None), d) | Inr codec \<Rightarrow>
     (case buildLimitOptions (pfMaxEntry (tfPut fl)) (pfMaxChunk (tfPut fl)) of
        Inl _ \<Rightarrow> Some ((2, None), d) | Inr copts \<Rightarrow>
     (case Open (cvLib ce) (cvProcs ce) copts d of (Inl _, d) \<Rightarrow> Some ((1, None), d) | (Inr c, d) \<Rightarrow>
     if tfDryRun fl then text_run ce fl codec c None d
     else (case Begin c d of
        None \<Rightarrow> None
      | Some (Inl _, c, d) \<Rightarrow> Some ((1, None), d)
      | Some (Inr tx, c, d) \<Rightarrow> text_run ce fl codec c (Some tx) d))))"

section \<open>Packing: \<^verbatim>\<open>pack\<close> and \<^verbatim>\<open>pack-many\<close>\<close>

record pack_flags =
  kfCodec :: bytes
  kfMaxChunk :: u64
  kfOptions :: PackOptions

text \<open>A container is only inspected, and possibly skipped, if nothing but codec and level is asked for.\<close>

definition pack_inspects :: "PackOptions \<Rightarrow> bool" where
  "pack_inspects po \<longleftrightarrow> poChunkText po = 0 \<and> poChunkBin po = 0 \<and> \<not> poClearMeta po"

definition pack_matches :: "PackOptions \<Rightarrow> bytes \<Rightarrow> files \<Rightarrow> bool result" where
  "pack_matches po input fs =
     (case fs input of
        None \<Rightarrow> Inl osNotExist
      | Some f \<Rightarrow> containerMatchesPackParams f (poCodec po) (poLevel po))"

definition pack_flag_options :: "pack_flags \<Rightarrow> PackOptions result" where
  "pack_flag_options fl =
     (if kfMaxChunk fl > 0xFFFFFFFF then Inl cli_error
      else rbind (parseCodec (kfCodec fl)) (\<lambda>codec.
        Inr ((kfOptions fl)\<lparr>poMaxChunkSize := ucast (kfMaxChunk fl), poCodec := codec\<rparr>)))"

definition runPack :: "pack_os \<Rightarrow> pack_flags \<Rightarrow> bytes \<Rightarrow> bytes \<Rightarrow> files \<Rightarrow> (nat \<times> files) option" where
  "runPack os fl input out fs =
     (let output = (if out = [] then input else out) in
      case pack_flag_options fl of Inl _ \<Rightarrow> Some (2, fs) | Inr po \<Rightarrow>
     (case (if output = input \<and> pack_inspects po then pack_matches po input fs else Inr False) of
        Inl _ \<Rightarrow> Some (1, fs)
      | Inr True \<Rightarrow> Some (0, fs)
      | Inr False \<Rightarrow>
          (case Pack os input output (Some po) fs of
             None \<Rightarrow> None
           | Some (Inl _, fs) \<Rightarrow> Some (1, fs)
           | Some (Inr _, fs) \<Rightarrow> Some (0, fs))))"

section \<open>Importing: \<^verbatim>\<open>convert-zip\<close>\<close>

record zip_flags =
  gfMeta :: bytes
  gfMetaFile :: bytes
  gfPrefix :: bytes
  gfCodec :: bytes
  gfLevel :: int
  gfOverwrite :: bool
  gfMaxEntry :: u64
  gfMaxChunk :: u64

definition zip_flag_options :: "zip_flags \<Rightarrow> ZIPImportOptions result" where
  "zip_flag_options fl =
     (if gfMeta fl \<noteq> ascii ''none'' \<and> gfMeta fl \<noteq> ascii ''auto'' then Inl cli_error
      else rbind (parseCodec (gfCodec fl)) (\<lambda>codec.
        rbind (buildLimitOptions (gfMaxEntry fl) (gfMaxChunk fl)) (\<lambda>copts.
        Inr \<lparr>zoIncludeMetadata = (gfMeta fl \<noteq> ascii ''none''), zoMetaFile = gfMetaFile fl,
          zoPathPrefix = gfPrefix fl, zoOverwrite = gfOverwrite fl, zoContainerOptions = copts,
          zoWriteOptions = Some \<lparr>wCodec = codec, wLevel = gfLevel fl, wChunkSize = 0, wMTimeUnix = 0,
            wMode = 0, wFlags = 0\<rparr>\<rparr>)))"

definition runConvertZip :: "zip_env \<Rightarrow> zip_flags \<Rightarrow> bytes \<Rightarrow> bytes \<Rightarrow> files \<Rightarrow> (nat \<times> files) option" where
  "runConvertZip ze fl input output fs =
     (case zip_flag_options fl of Inl _ \<Rightarrow> Some (2, fs) | Inr opts \<Rightarrow>
     (case ConvertZIPToFBX ze input output (Some opts) fs of
        None \<Rightarrow> None
      | Some (Inl _, fs) \<Rightarrow> Some (1, fs)
      | Some (Inr _, fs) \<Rightarrow> Some (0, fs)))"

section \<open>Lists of paths\<close>

definition uniqueSortedStrings :: "bytes list \<Rightarrow> bytes list" where
  "uniqueSortedStrings xs = sort (remdups (filter (\<lambda>s. s \<noteq> []) xs))"

end
