(* ===== verification/CliSpec.thy ===== *)
theory CliSpec
  imports Cli
begin

text \<open>
  What the commands of the tool do: \<^verbatim>\<open>rm\<close>, \<^verbatim>\<open>find\<close> and \<^verbatim>\<open>set-meta\<close> on what the file represents, and the
  replacement of a text by another as a decomposition of it.
\<close>

section \<open>Strings\<close>

lemma has_prefix_iff: "has_prefix s p \<longleftrightarrow> (\<exists>t. s = p @ t)"
  unfolding has_prefix_def by (metis append_eq_conv_conj append_take_drop_id)

lemma contains_length: "contains_text s sub \<Longrightarrow> length sub \<le> length s"
proof (induction s)
  case (Cons c s)
  have "length sub \<le> length (c # s)" if "has_prefix (c # s) sub"
    using that unfolding has_prefix_iff by (metis length_append le_add1)
  then show ?case using Cons by auto
qed simp

lemma contains_iff: "contains_text s sub \<longleftrightarrow> (\<exists>t u. s = t @ sub @ u)"
proof (induction s)
  case (Cons c s)
  have "(\<exists>t u. c # s = t @ sub @ u) \<longleftrightarrow> (\<exists>u. c # s = sub @ u) \<or> (\<exists>t u. s = t @ sub @ u)"
    by (metis append_Cons append_Nil list.inject neq_Nil_conv)
  then show ?case using Cons.IH by (simp add: has_prefix_iff)
qed simp

text \<open>
  The pieces between the occurrences that are replaced: each occurrence is the first one behind the
  piece before it, and nothing is left in the last piece.
\<close>

definition pieces :: "bytes \<Rightarrow> bytes list \<Rightarrow> bool" where
  "pieces old ps \<longleftrightarrow>
     ps \<noteq> [] \<and> (\<forall>p \<in> set (butlast ps). \<not> contains_text (p @ butlast old) old) \<and> \<not> contains_text (last ps) old"

lemma join_with_Cons: "ps \<noteq> [] \<Longrightarrow> join_with sep (p # ps) = p @ sep @ join_with sep ps"
  by (cases ps) simp_all

lemma join_with_first: "join_with sep ((c # p) # ps) = c # join_with sep (p # ps)"
  by (cases ps) simp_all

text \<open>One step of the replacement: an occurrence starts a new piece, any other byte goes into the first.\<close>

definition cut :: "bytes \<Rightarrow> bytes \<Rightarrow> bytes \<Rightarrow> bytes list \<Rightarrow> bool" where
  "cut s old new ps \<longleftrightarrow> s = join_with old ps \<and> replace_text s old new = join_with new ps \<and>
     length ps = Suc (count_text s old) \<and> pieces old ps"

lemma cut_pieces: "cut s old new ps \<Longrightarrow> ps \<noteq> []"
  unfolding cut_def pieces_def by blast

lemma cut_hit:
  assumes old: "old \<noteq> []" and hit: "has_prefix s old" and ps: "cut (drop (length old) s) old new ps"
  shows "cut s old new ([] # ps)"
  unfolding cut_def
proof (intro conjI)
  have ne: "ps \<noteq> []" using ps by (rule cut_pieces)
  have r: "replace_text (drop (length old) s) old new = join_with new ps" using ps unfolding cut_def by blast
  have "s = old @ drop (length old) s" using hit by (auto simp: has_prefix_iff)
  then show "s = join_with old ([] # ps)" using ps ne by (simp add: cut_def join_with_Cons)
  have s: "s \<noteq> []" using hit old by (auto simp: has_prefix_iff)
  then show "replace_text s old new = join_with new ([] # ps)"
    using r ne hit old by (subst replace_text.simps) (simp add: join_with_Cons)
  show "length ([] # ps) = Suc (count_text s old)"
    using ps hit old s by (subst count_text.simps) (simp add: cut_def)
  show "pieces old ([] # ps)"
    using ps contains_length [of "butlast old" old] contains_length [of "[]" old] old
    by (cases old) (auto simp: cut_def pieces_def)
qed

lemma cut_miss:
  assumes old: "old \<noteq> []" and miss: "\<not> has_prefix (c # s) old" and ps: "cut s old new (p # qs)"
  shows "cut (c # s) old new ((c # p) # qs)"
  unfolding cut_def
proof (intro conjI)
  have r: "replace_text s old new = join_with new (p # qs)" using ps unfolding cut_def by blast
  show eq: "c # s = join_with old ((c # p) # qs)" using ps by (simp add: cut_def join_with_first)
  show "replace_text (c # s) old new = join_with new ((c # p) # qs)"
    using r miss old by (subst replace_text.simps) (simp add: join_with_first)
  show "length ((c # p) # qs) = Suc (count_text (c # s) old)"
    using ps miss old by (subst count_text.simps) (simp add: cut_def)
  have "\<not> has_prefix (c # p @ butlast old) old" if "qs \<noteq> []"
  proof
    assume "has_prefix (c # p @ butlast old) old"
    then obtain t where "c # p @ butlast old = old @ t" by (auto simp: has_prefix_iff)
    then have "c # s = old @ t @ [last old] @ join_with old qs"
      using eq old join_with_Cons [OF that] by (metis append_Cons append_assoc append_butlast_last_id)
    then show False using miss has_prefix_iff by blast
  qed
  then show "pieces old ((c # p) # qs)" using ps miss eq by (auto simp: cut_def pieces_def)
qed

text \<open>
  The lemma on texts behind the command: \<^verbatim>\<open>bytes.ReplaceAll\<close>, as \<^verbatim>\<open>replace-text\<close> uses it, cuts the text at the
  occurrences of the old string from left to right, without overlap, and puts it together again with the
  new one; \<^verbatim>\<open>bytes.Count\<close> gives the number of the cuts.
\<close>

theorem replace_text_pieces:
  assumes "old \<noteq> []"
  shows "\<exists>ps. s = join_with old ps \<and> replace_text s old new = join_with new ps \<and>
    length ps = Suc (count_text s old) \<and> pieces old ps"
  using assms unfolding cut_def [symmetric]
proof (induction s old new rule: replace_text.induct)
  case (1 s old new)
  show ?case
  proof (cases s)
    case Nil
    then show ?thesis using 1(3)
      by (intro exI [of _ "[[]]"]) (auto simp: cut_def pieces_def replace_text.simps count_text.simps)
  next
    case (Cons c s')
    show ?thesis
    proof (cases "has_prefix s old")
      case True
      obtain ps where "cut (drop (length old) s) old new ps" using 1(1) [OF _ True 1(3)] 1(3) Cons by auto
      then show ?thesis using cut_hit [OF 1(3) True] by blast
    next
      case False
      obtain ps where ps: "cut s' old new ps" using 1(2) [OF _ False 1(3)] 1(3) Cons by auto
      then obtain p qs where "ps = p # qs" using cut_pieces list.exhaust by metis
      then show ?thesis using cut_miss [OF 1(3)] False Cons ps by blast
    qed
  qed
qed

section \<open>\<^verbatim>\<open>rm\<close>\<close>

text \<open>
  A removal of the set \<open>X\<close>, on the table alone: what is left, and what is counted. \<open>s0\<close> is the store the
  transaction began with, of which the steps before have left a part.
\<close>

definition removes :: "codec_lib \<Rightarrow> store \<Rightarrow> (Tx \<Rightarrow> (nat \<times> error option) \<times> Tx) \<Rightarrow> bytes set \<Rightarrow> bool" where
  "removes L s0 oper X \<longleftrightarrow>
     (\<forall>tx n e tx'. oper tx = ((n, e), tx') \<longrightarrow>
        tAppendOffset tx' = tAppendOffset tx \<and> tClosed tx' = tClosed tx \<and>
        (\<forall>lo f s. tx_inv L lo f tx s \<longrightarrow> s \<subseteq>\<^sub>m s0 \<longrightarrow> e = None \<longrightarrow>
           tx_inv L lo f tx' (s |` (- X)) \<and> n = card (dom s \<inter> X)))"

lemma removesI:
  assumes "\<And>tx n e tx'. oper tx = ((n, e), tx') \<Longrightarrow> tAppendOffset tx' = tAppendOffset tx \<and> tClosed tx' = tClosed tx"
    and "\<And>tx n tx' lo f s. oper tx = ((n, None), tx') \<Longrightarrow> tx_inv L lo f tx s \<Longrightarrow> s \<subseteq>\<^sub>m s0 \<Longrightarrow>
      tx_inv L lo f tx' (s |` (- X)) \<and> n = card (dom s \<inter> X)"
  shows "removes L s0 oper X"
  using assms unfolding removes_def by blast

lemma removesD:
  assumes "removes L s0 oper X" "oper tx = ((n, e), tx')"
  shows "tAppendOffset tx' = tAppendOffset tx" "tClosed tx' = tClosed tx"
    and "tx_inv L lo f tx s \<Longrightarrow> s \<subseteq>\<^sub>m s0 \<Longrightarrow> e = None \<Longrightarrow> tx_inv L lo f tx' (s |` (- X))"
    and "tx_inv L lo f tx s \<Longrightarrow> s \<subseteq>\<^sub>m s0 \<Longrightarrow> e = None \<Longrightarrow> n = card (dom s \<inter> X)"
  using assms unfolding removes_def by blast+

lemma removes_start: "removes L s0 (\<lambda>tx. ((0, None), tx)) {}"
  by (rule removesI) (auto simp: restrict_map_def)

lemma finite_store: "tx_inv L lo f tx s \<Longrightarrow> finite (dom s)"
  by (simp add: dom_table)

lemma removes_step:
  assumes f: "removes L s0 f X" and g: "b \<Longrightarrow> removes L s0 g Y"
  shows "removes L s0 (\<lambda>tx. rm_step b g (f tx)) (X \<union> (if b then Y else {}))"
proof (rule removesI)
  fix tx n e tx'
  assume r: "rm_step b g (f tx) = ((n, e), tx')"
  obtain n1 e1 tx1 where 1: "f tx = ((n1, e1), tx1)" by (metis surj_pair)
  obtain n2 e2 tx2 where 2: "g tx1 = ((n2, e2), tx2)" by (metis surj_pair)
  show "tAppendOffset tx' = tAppendOffset tx \<and> tClosed tx' = tClosed tx"
    using r removesD(1,2) [OF f 1] removesD(1,2) [OF g 2]
    by (auto simp: rm_step_def 1 2 split: option.splits if_splits)
next
  fix tx n tx' lo and h :: bytes and s
  assume r: "rm_step b g (f tx) = ((n, None), tx')" and inv: "tx_inv L lo h tx s" and sub: "s \<subseteq>\<^sub>m s0"
  obtain n1 e1 tx1 where 1: "f tx = ((n1, e1), tx1)" by (metis surj_pair)
  have e1: "e1 = None" using r 1 by (cases e1) (auto simp: rm_step_def)
  have i1: "tx_inv L lo h tx1 (s |` (- X))" "n1 = card (dom s \<inter> X)"
    using removesD(3,4) [OF f 1 inv sub e1] .
  show "tx_inv L lo h tx' (s |` (- (X \<union> (if b then Y else {})))) \<and> n = card (dom s \<inter> (X \<union> (if b then Y else {})))"
  proof (cases b)
    case False
    then show ?thesis using r 1 e1 i1 by (simp add: rm_step_def)
  next
    case True
    obtain n2 where 2: "g tx1 = ((n2, None), tx')" "n = n1 + n2"
      using r 1 e1 True by (auto simp: rm_step_def split: option.splits prod.splits)
    have "s |` (- X) \<subseteq>\<^sub>m s0" using sub by (auto simp: map_le_def restrict_map_def)
    note i2 = removesD(3,4) [OF g [OF True] 2(1) i1(1) this refl]
    have "s |` (- X) |` (- Y) = s |` (- (X \<union> Y))" by (auto simp: restrict_map_def fun_eq_iff)
    moreover have "dom s \<inter> (X \<union> Y) = (dom s \<inter> X) \<union> (dom (s |` (- X)) \<inter> Y)"
      "(dom s \<inter> X) \<inter> (dom (s |` (- X)) \<inter> Y) = {}" by (auto simp: restrict_map_def split: if_splits)
    moreover have "finite (dom s \<inter> X)" "finite (dom (s |` (- X)) \<inter> Y)" using finite_store [OF inv] by simp_all
    ultimately show ?thesis using i1 i2 2(2) True by (simp add: card_Un_disjoint)
  qed
qed

lemma drop_entry_only [simp]:
  "tAppendOffset (drop_entry p e tx) = tAppendOffset tx" "tClosed (drop_entry p e tx) = tClosed tx"
  by (simp_all add: drop_entry_def markObsolete_def)

lemma remove_selected_only:
  "remove_selected sel es n tx = (r, tx') \<Longrightarrow> tAppendOffset tx' = tAppendOffset tx \<and> tClosed tx' = tClosed tx"
  by (induction sel es n tx rule: remove_selected.induct) (auto split: sum.splits bool.splits)

lemma remove_many_only:
  "remove_many ps n tx = (r, tx') \<Longrightarrow> tAppendOffset tx' = tAppendOffset tx \<and> tClosed tx' = tClosed tx"
  by (induction ps n tx rule: remove_many.induct) (auto split: sum.splits option.splits)

lemma removals_only:
  "Tx_RemovePrefix p tx = (r, tx') \<Longrightarrow> tAppendOffset tx' = tAppendOffset tx \<and> tClosed tx' = tClosed tx"
  "Tx_RemoveGlob p tx = (r, tx') \<Longrightarrow> tAppendOffset tx' = tAppendOffset tx \<and> tClosed tx' = tClosed tx"
  "Tx_RemoveMany ps tx = (r, tx') \<Longrightarrow> tAppendOffset tx' = tAppendOffset tx \<and> tClosed tx' = tClosed tx"
  "Tx_RemoveWhere sel tx = (r, tx') \<Longrightarrow> tAppendOffset tx' = tAppendOffset tx \<and> tClosed tx' = tClosed tx"
  by (auto simp: Tx_RemovePrefix_def Tx_RemoveGlob_def Tx_RemoveMany_def Tx_RemoveWhere_def Let_def
      dest: remove_selected_only remove_many_only split: if_splits sum.splits option.splits)

lemma removes_prefix:
  "removes L s0 (Tx_RemovePrefix prefix) {p. \<exists>q. normalizePrefix prefix = Inr q \<and> under q p}"
proof (rule removesI)
  show "tAppendOffset tx' = tAppendOffset tx \<and> tClosed tx' = tClosed tx"
    if "Tx_RemovePrefix prefix tx = ((n, e), tx')" for tx n e tx' using removals_only(1) [OF that] .
  fix tx n tx' lo and f :: bytes and s
  assume r: "Tx_RemovePrefix prefix tx = ((n, None), tx')" and inv: "tx_inv L lo f tx s"
  obtain q where "\<not> tClosed tx" "normalizePrefix prefix = Inr q"
    using r by (auto simp: Tx_RemovePrefix_def split: if_splits sum.splits)
  then show "tx_inv L lo f tx' (s |` (- {p. \<exists>q. normalizePrefix prefix = Inr q \<and> under q p})) \<and>
      n = card (dom s \<inter> {p. \<exists>q. normalizePrefix prefix = Inr q \<and> under q p})"
    using removePrefix_outcome [OF inv r] by (simp add: Collect_conv_if)
qed

lemma removes_glob: "removes L s0 (Tx_RemoveGlob glob) {p. path_match (glob_pattern glob) p = Inr True}"
proof (rule removesI)
  show "tAppendOffset tx' = tAppendOffset tx \<and> tClosed tx' = tClosed tx"
    if "Tx_RemoveGlob glob tx = ((n, e), tx')" for tx n e tx' using removals_only(2) [OF that] .
  fix tx n tx' lo and f :: bytes and s
  assume r: "Tx_RemoveGlob glob tx = ((n, None), tx')" and inv: "tx_inv L lo f tx s"
  have "\<not> tClosed tx" using r by (auto simp: Tx_RemoveGlob_def)
  moreover have "{p \<in> dom s. path_match (glob_pattern glob) p = Inr True} =
      dom s \<inter> {p. path_match (glob_pattern glob) p = Inr True}" by blast
  ultimately show "tx_inv L lo f tx' (s |` (- {p. path_match (glob_pattern glob) p = Inr True})) \<and>
      n = card (dom s \<inter> {p. path_match (glob_pattern glob) p = Inr True})"
    using removeGlob_outcome [OF inv r] by (auto split: if_splits)
qed

lemma removes_many: "removes L s0 (Tx_RemoveMany paths) (set (normal_paths paths))"
proof (rule removesI)
  show "tAppendOffset tx' = tAppendOffset tx \<and> tClosed tx' = tClosed tx"
    if "Tx_RemoveMany paths tx = ((n, e), tx')" for tx n e tx' using removals_only(3) [OF that] .
  fix tx n tx' lo and f :: bytes and s
  assume r: "Tx_RemoveMany paths tx = ((n, None), tx')" and inv: "tx_inv L lo f tx s"
  then have "remove_many paths 0 tx = ((n, None), tx')"
    by (auto simp: Tx_RemoveMany_def split: if_splits)
  from remove_many_outcome [OF inv this]
  show "tx_inv L lo f tx' (s |` (- set (normal_paths paths))) \<and> n = card (dom s \<inter> set (normal_paths paths))"
    by simp
qed

text \<open>What \<^verbatim>\<open>--contains\<close>, \<^verbatim>\<open>--min-size\<close> and \<^verbatim>\<open>--max-size\<close> ask of a path and the length of its contents.\<close>

definition rm_admits :: "rm_flags \<Rightarrow> bytes \<Rightarrow> nat \<Rightarrow> bool" where
  "rm_admits fl p n \<longleftrightarrow>
     (rfContains fl \<noteq> [] \<longrightarrow> contains_text p (rfContains fl)) \<and>
     (rfMinSize fl \<noteq> 0 \<longrightarrow> unat (rfMinSize fl) \<le> n) \<and> (rfMaxSize fl \<noteq> 0 \<longrightarrow> n \<le> unat (rfMaxSize fl))"

lemma rm_selects_admits:
  "rm_selects fl (entryInfo e) \<longleftrightarrow> rm_admits fl (Path e) (unat (FileSize e))"
  by (auto simp: rm_selects_def rm_admits_def entryInfo_def word_le_nat_alt word_less_nat_alt word_neq_0_conv)

lemma restrict_dom: "s |` (- (dom s \<inter> X)) = s |` (- X)" for s :: store
  by (rule ext) (simp add: restrict_map_def domIff del: not_None_eq)

lemma removes_where:
  "removes L s0 (Tx_RemoveWhere (Some (rm_selects fl))) {p. \<exists>data m. s0 p = Some (data, m) \<and> rm_admits fl p (length data)}"
  (is "removes L s0 _ ?X")
proof (rule removesI)
  show "tAppendOffset tx' = tAppendOffset tx \<and> tClosed tx' = tClosed tx"
    if "Tx_RemoveWhere (Some (rm_selects fl)) tx = ((n, e), tx')" for tx n e tx' using removals_only(4) [OF that] .
  fix tx n tx' lo and f :: bytes and s
  assume r: "Tx_RemoveWhere (Some (rm_selects fl)) tx = ((n, None), tx')" and inv: "tx_inv L lo f tx s"
    and sub: "s \<subseteq>\<^sub>m s0"
  let ?sel = "\<lambda>(p, e). rm_selects fl (entryInfo e)"
  have "(\<lambda>(p, e). Inr (rm_selects fl (entryInfo e))) = (\<lambda>x :: bytes \<times> EntryV1. Inr (?sel x) :: bool result)"
    by (auto simp: fun_eq_iff)
  then have r': "remove_selected (\<lambda>x. Inr (?sel x)) (tEntries tx) 0 tx = ((n, None), tx')"
    using r by (simp add: Tx_RemoveWhere_def split: if_splits)
  have t: "table_ok lo (unat (tAppendOffset tx)) (tEntries tx)" "refines L f (tEntries tx) s"
    using inv by (simp_all add: tx_inv_def)
  have iff: "?sel (k, e) \<longleftrightarrow> k \<in> ?X" if "(k, e) \<in> set (tEntries tx)" for k e
  proof -
    have m: "map_of (tEntries tx) k = Some e" using that table_ok_distinct [OF t(1)] by simp
    obtain data where "s k = Some (data, Meta e)" "unat (FileSize e) = length data"
      using refinesD(2) [OF t(2) m] by blast
    moreover have "s0 k = s k" using sub calculation(1) by (metis domI map_le_def)
    ultimately show ?thesis using table_okD(1) [OF t(1) m] by (simp add: rm_selects_admits)
  qed
  have ch: "chosen ?sel (tEntries tx) = dom s \<inter> ?X"
    unfolding dom_table [OF inv] using iff by (force simp: chosen_def)
  show "tx_inv L lo f tx' (s |` (- ?X)) \<and> n = card (dom s \<inter> ?X)"
    using remove_selected_outcome [OF inv r', unfolded ch restrict_dom] by simp
qed

text \<open>All the steps of the command.\<close>

definition rm_gone :: "rm_flags \<Rightarrow> bytes list \<Rightarrow> store \<Rightarrow> bytes set" where
  "rm_gone fl paths s =
     {p. rfPrefix fl \<noteq> [] \<and> (\<exists>q. normalizePrefix (rfPrefix fl) = Inr q \<and> under q p)} \<union>
     {p. rfGlob fl \<noteq> [] \<and> path_match (glob_pattern (rfGlob fl)) p = Inr True} \<union>
     set (normal_paths paths) \<union>
     {p. (rfContains fl \<noteq> [] \<or> rfMinSize fl \<noteq> 0 \<or> rfMaxSize fl \<noteq> 0) \<and>
        (\<exists>data m. s p = Some (data, m) \<and> rm_admits fl p (length data))}"

lemma removes_all: "removes L s0 (rm_steps fl paths) (rm_gone fl paths s0)"
proof -
  have "rm_gone fl paths s0 =
      {} \<union> (if rfPrefix fl \<noteq> [] then {p. \<exists>q. normalizePrefix (rfPrefix fl) = Inr q \<and> under q p} else {}) \<union>
      (if rfGlob fl \<noteq> [] then {p. path_match (glob_pattern (rfGlob fl)) p = Inr True} else {}) \<union>
      (if paths \<noteq> [] then set (normal_paths paths) else {}) \<union>
      (if rfContains fl \<noteq> [] \<or> rfMinSize fl > 0 \<or> rfMaxSize fl > 0
       then {p. \<exists>data m. s0 p = Some (data, m) \<and> rm_admits fl p (length data)} else {})"
    by (auto simp: rm_gone_def word_neq_0_conv)
  then show ?thesis
    unfolding rm_steps_def [abs_def]
    by (simp only:) (intro removes_step removes_start removes_prefix removes_glob removes_many removes_where)
qed

text \<open>
  The steps as one operation of a transaction. The command rolls back when there was nothing to
  remove; the model of the run marks that with an error.
\<close>

definition nothing_done :: error where "nothing_done = LibErr 10"

definition rm_op :: "rm_flags \<Rightarrow> bytes list \<Rightarrow> Tx \<Rightarrow> disk \<Rightarrow> tx_result" where
  "rm_op fl paths tx d =
     (case rm_steps fl paths tx of
        ((n, Some e), tx) \<Rightarrow> Some (Inl e, tx, d)
      | ((n, None), tx) \<Rightarrow> Some (if n = 0 then Inl nothing_done else Inr (), tx, d))"

lemma keeps_rm: "keeps f0 L (rm_op fl paths) (\<lambda>s s'. s' = s |` (- rm_gone fl paths s))"
proof (rule keepsI)
  show "\<exists>r. rm_op fl paths tx d = Some r" for tx d by (auto simp: rm_op_def split: prod.split option.split)
  show "length (content d) \<le> length (content d')" if "rm_op fl paths tx d = Some (res, tx', d')"
    for tx d res tx' and d' :: disk
    using that by (auto simp: rm_op_def split: prod.splits option.splits)
  fix lo tx and d :: disk and s res tx' and d' :: disk
  assume inv: "tx_inv L lo (content d) tx s" and r: "rm_op fl paths tx d = Some (res, tx', d')"
  obtain n e tx1 where st: "rm_steps fl paths tx = ((n, e), tx1)" by (metis surj_pair)
  note o = removesD [OF removes_all [of L s] st]
  have "tx' = tx1" "d' = d" "res = Inr u \<Longrightarrow> e = None" for u
    using r st by (auto simp: rm_op_def split: option.splits if_splits)
  then show "same 0 (unat (tAppendOffset tx)) (content d) (content d') \<and>
      unat (tAppendOffset tx) \<le> unat (tAppendOffset tx') \<and> tClosed tx' = tClosed tx \<and>
      (\<forall>u. res = Inr u \<longrightarrow> (\<exists>s'. s' = s |` (- rm_gone fl paths s) \<and> tx_inv L lo (content d') tx' s'))"
    using o(1,2) o(3) [OF inv map_le_refl] inv_frame [OF inv] by simp
qed

text \<open>What the command does is that operation in a transaction of its own.\<close>

lemma rm_run:
  assumes run: "runRm ce fl paths d = Some ((code, removed), d')"
    and opn: "Open (cvLib ce) (cvProcs ce) None d = (Inr c, d)"
    and rep: "represents L (content d) h bu es s" "caches c h bu es"
  shows "code = 2 \<and> removed = None \<and> d' = d \<or>
    (\<exists>res c'. run_tx (cvCommit ce) (rm_op fl paths) c d = Some (res, c', d') \<and>
      (case removed of
         None \<Rightarrow> code = 1 \<and> isl res
       | Some n \<Rightarrow> code = 0 \<and> n = card (dom s \<inter> rm_gone fl paths s) \<and>
           (if n = 0 then content d' = content d else res = Inr ())))"
proof (cases "rfPrefix fl = [] \<and> rfGlob fl = [] \<and> rfContains fl = [] \<and> rfMinSize fl = 0 \<and> rfMaxSize fl = 0 \<and> paths = []")
  case True
  then show ?thesis using run by (auto simp: runRm_def)
next
  case False
  then have r: "(case Begin c d of
         None \<Rightarrow> None
       | Some (Inl _, c, d) \<Rightarrow> Some ((1, None), d)
       | Some (Inr tx, c, d) \<Rightarrow>
           (case rm_steps fl paths tx of
              ((removed, Some _), tx) \<Rightarrow> Some ((1, None), d)
            | ((removed, None), tx) \<Rightarrow>
                if removed = 0 then Some ((0, Some 0), d)
                else (case Commit (cvCommit ce) c tx d of
                        (Inl _, tx, c, d) \<Rightarrow> Some ((1, None), d)
                      | (Inr _, tx, c, d) \<Rightarrow> Some ((0, Some removed), d)))) = Some ((code, removed), d')"
    using run unfolding runRm_def if_not_P [OF False] opn by simp
  obtain br c1 d1 where b: "Begin c d = Some (br, c1, d1)"
    using r by (auto split: option.splits prod.splits)
  show ?thesis
  proof (cases br)
    case (Inl e)
    then show ?thesis using r b by (simp add: run_tx_def)
  next
    case (Inr tx)
    have bb: "Begin c d = Some (Inr tx, c1, d1)" using b Inr by simp
    note bg = begin_begun [OF rep bb]
    obtain n e tx1 where st: "rm_steps fl paths tx = ((n, e), tx1)" by (metis surj_pair)
    obtain res tx2 c2 d2 where cm: "Commit (cvCommit ce) c1 tx1 d1 = (res, tx2, c2, d2)" by (metis surj_pair)
    show ?thesis
    proof (cases e)
      case (Some x)
      then show ?thesis using r bb st by (simp add: run_tx_def rm_op_def)
    next
      case None
      then have n: "n = card (dom s \<inter> rm_gone fl paths s)"
        using removesD(4) [OF removes_all [of L s] st bg(5) map_le_refl] by simp
      show ?thesis
        using r bb st None bg(3) cm n [symmetric] by (cases res) (auto simp: run_tx_def rm_op_def split: if_splits)
    qed
  qed
qed

text \<open>
  C12: the command \<^verbatim>\<open>rm\<close> is one transaction, whatever its flags combine. When it reports a number, that
  is how many of the entries are selected by at least one of the flags, each counted once, and the
  file represents the store without exactly those, or is unchanged if there are none. With a non-zero
  exit code the file represents the old store or, when the error came after the header was written,
  the new one.
\<close>

theorem rm_command:
  assumes rep: "represents (cvLib ce) (content d) h bu es s"
    and fits: "\<And>c. Open (cvLib ce) (cvProcs ce) None d = (Inr c, d) \<Longrightarrow> run_fits (cvCommit ce) (rm_op fl paths) c d"
    and run: "runRm ce fl paths d = Some ((code, removed), d')" and len: "length (content d') < 2 ^ 63"
  defines "s' \<equiv> s |` (- rm_gone fl paths s)"
  shows "case removed of
      Some n \<Rightarrow> code = 0 \<and> n = card (dom s \<inter> rm_gone fl paths s) \<and>
        (if n = 0 then content d' = content d
         else \<exists>h' es'. represents (cvLib ce) (content d') h' (mBuildTime (cvCommit ce)) es' s')
    | None \<Rightarrow> code \<noteq> 0 \<and>
        (represents (cvLib ce) (content d') h bu es s \<or>
         (\<exists>h' es'. represents (cvLib ce) (content d') h' (mBuildTime (cvCommit ce)) es' s' \<or>
            torn (content d') h h' (mBuildTime (cvCommit ce)) es'))"
proof -
  obtain c where c: "Open (cvLib ce) (cvProcs ce) None d = (Inr c, d)" "caches c h bu es"
    using open_outcome [OF rep] by blast
  consider "code = 2" "removed = None" "d' = d" | res c' where
      "run_tx (cvCommit ce) (rm_op fl paths) c d = Some (res, c', d')"
      "case removed of
         None \<Rightarrow> code = 1 \<and> isl res
       | Some n \<Rightarrow> code = 0 \<and> n = card (dom s \<inter> rm_gone fl paths s) \<and>
           (if n = 0 then content d' = content d else res = Inr ())"
    using rm_run [OF run c(1) rep c(2)] by blast
  then show ?thesis
  proof cases
    case 2
    note out = script_outcome [OF keeps_rm rep c(2) fits [OF c(1)] 2(1) len]
    show ?thesis
    proof (cases removed)
      case None
      then obtain x where "res = Inl x" "code = 1" using 2(2) by (auto simp: isl_def)
      then show ?thesis using out None by (auto simp: ran_def s'_def)
    next
      case (Some n)
      then show ?thesis using out 2(2) by (auto simp: ran_def s'_def split: if_splits)
    qed
  qed (use rep in simp)
qed

section \<open>\<^verbatim>\<open>list\<close> and \<^verbatim>\<open>find\<close>\<close>

lemma listed_all [simp]: "listed (newSliceIterator vs None) = vs"
proof -
  have "map the (map Some vs) = vs" by (simp add: comp_def)
  moreover have "iterate (Suc (length vs)) (newSliceIterator vs None) = map Some vs" by (rule iterate_all) simp
  ultimately show ?thesis by (simp only: listed_def) (simp add: newSliceIterator_def)
qed

lemma no_error [simp]: "itErr (newSliceIterator vs e) = e"
  by (simp add: newSliceIterator_def)

lemma listed_store:
  assumes rep: "represents L f h bu es s" and c: "caches c h bu es"
  obtains vs c' where "container_List c f = (newSliceIterator vs None, c')" "caches c' h bu es"
    "sorted (map iPath vs)" "distinct (map iPath vs)" "iPath ` set vs = dom s"
    "\<forall>e \<in> set vs. \<exists>data. s (iPath e) = Some (data, iMeta e) \<and> unat (iSize e) = length data"
proof -
  obtain vs c' where l: "container_List c f = (newSliceIterator vs None, c')" "caches c' h bu es"
    "sorted (map iPath vs)" "distinct (map iPath vs)"
    "\<And>q. info_view vs q = map_option (\<lambda>(data, meta). (length data, meta)) (s q)"
    using list_outcome [OF rep c] by metis
  have row: "\<exists>data. s (iPath e) = Some (data, iMeta e) \<and> unat (iSize e) = length data" if "e \<in> set vs" for e
  proof -
    have "distinct (map fst (map (\<lambda>i. (iPath i, unat (iSize i), iMeta i)) vs))"
      using l(4) by (simp add: comp_def)
    then have "info_view vs (iPath e) = Some (unat (iSize e), iMeta e)"
      unfolding info_view_def using that by (intro map_of_is_SomeI) auto
    then show ?thesis using l(5) [of "iPath e"] by auto
  qed
  have "q \<in> dom s \<longleftrightarrow> q \<in> iPath ` set vs" for q
  proof -
    have "q \<in> dom s \<longleftrightarrow> info_view vs q \<noteq> None" by (simp add: l(5) domIff)
    also have "\<dots> \<longleftrightarrow> q \<in> iPath ` set vs"
      by (simp add: info_view_def map_of_eq_None_iff image_image del: not_None_eq)
    finally show ?thesis .
  qed
  then show thesis using that [OF l(1-4)] row by blast
qed

text \<open>
  C32: the command \<^verbatim>\<open>find\<close> rejects a malformed glob pattern whatever the container holds; otherwise it
  prints, in order and without repetition, exactly the stored paths that have the prefix, contain the
  text and match the pattern, as far as these are given. The file is not touched.
\<close>

theorem find_command:
  assumes "represents (cvLib ce) (content d) h bu es s"
  shows "if ffGlob fl \<noteq> [] \<and> isl (check_rest (ffGlob fl)) then runFind ce fl d = ((2, []), d)
    else \<exists>ps. runFind ce fl d = ((0, ps), d) \<and> sorted ps \<and> distinct ps \<and>
      set ps = {p \<in> dom s. (\<exists>t. p = ffPrefix fl @ t) \<and> (\<exists>t u. p = t @ ffContains fl @ u) \<and>
        (ffGlob fl \<noteq> [] \<longrightarrow> path_match (ffGlob fl) p = Inr True)}"
proof (cases "ffGlob fl \<noteq> [] \<and> isl (check_rest (ffGlob fl))")
  case True
  then show ?thesis by (simp add: runFind_def path_match_syntax)
next
  case False
  obtain c where c: "Open (cvLib ce) (cvProcs ce) None d = (Inr c, d)" "caches c h bu es"
    using open_outcome [OF assms] by blast
  obtain vs c' where l: "container_List c (content d) = (newSliceIterator vs None, c')" "caches c' h bu es"
    "sorted (map iPath vs)" "distinct (map iPath vs)" "iPath ` set vs = dom s"
    by (rule listed_store [OF assms c(2)])
  let ?ps = "filter (find_selects fl) (map iPath vs)"
  have run: "runFind ce fl d = ((0, ?ps), d)"
    using False c(1) l(1) by (simp add: runFind_def path_match_syntax)
  have "find_selects fl p \<longleftrightarrow> (\<exists>t. p = ffPrefix fl @ t) \<and> (\<exists>t u. p = t @ ffContains fl @ u) \<and>
      (ffGlob fl \<noteq> [] \<longrightarrow> path_match (ffGlob fl) p = Inr True)" for p
    by (auto simp: find_selects_def has_prefix_iff contains_iff intro: exI [of _ "[]"])
  moreover have "set ?ps = {p \<in> dom s. find_selects fl p}" using l(5) by auto
  moreover have "sorted ?ps" "distinct ?ps" using l(3,4) by (auto intro: sorted_wrt_filter)
  ultimately show ?thesis using run False by auto
qed

section \<open>\<^verbatim>\<open>set-meta\<close>\<close>

text \<open>
  The reader that is handed to \<^verbatim>\<open>Upsert\<close> reads while the transaction appends to the file; it gives the
  bytes it would have given before.
\<close>

lemma stream_from_same:
  assumes "reads_as L f cs data" "chunks_in lo hi cs" "same lo hi f g"
  shows "stream_from L g v me mc sofar cs = stream_from L f v me mc sofar cs"
proof -
  obtain ps where "list_all2 (\<lambda>c p. \<forall>v. chunk_payload L f v 0 c = Inr p) cs ps" "chunks_in lo hi cs"
    using assms(1,2) by (auto simp: reads_as_def)
  then show ?thesis
  proof (induction cs ps arbitrary: sofar rule: list_all2_induct)
    case (Cons c cs p ps)
    have "chunk_payload L g v 0 c = chunk_payload L f v 0 c"
      using same_chunk_payload [OF _ assms(3), of L v 0 c p] Cons.hyps(1) Cons.prems by simp
    then have "chunk_payload L g v mc c = chunk_payload L f v mc c" by (auto simp: chunk_payload_def)
    then show ?case using Cons.IH Cons.prems by (cases "chunk_payload L f v mc c") simp_all
  qed simp
qed

lemma stream_unmoved:
  assumes rep: "represents L f h bu es s" and c: "caches c h bu es" and r: "OpenReader c path = Inr r"
    and same: "same 0 (length f) f g"
  shows "stream L g r = stream L f r"
proof -
  obtain q where q: "normalize path = Inr q"
    using r by (auto simp: OpenReader_def split: if_splits sum.splits)
  obtain oe where oe: "lookup_entry c q = Inr oe" "map_option norm_entry oe = path_lookup q es"
    by (rule lookup_stands_for [OF rep c])
  obtain e where e: "oe = Some e"
    using r q oe(1) c by (cases oe) (auto simp: OpenReader_def caches_def or_err_def)
  have r': "stream L x r = stream_from L x (oStrictVerify (cOpts c)) (oMaxEntrySize (cOpts c))
      (oMaxChunkSize (cOpts c)) 0 (Chunks e)" for x
    using r oe(1) e c q
    by (auto simp: OpenReader_def caches_def or_err_def Let_def stream_def rest_def split: if_splits prod.splits)
  have "find (\<lambda>e. Path e = q) es = Some (norm_entry e)" using oe(2) e by (simp add: path_lookup_def)
  then have "norm_entry e \<in> set es" unfolding find_Some_iff by (metis nth_mem)
  moreover have "\<forall>e \<in> set es. chunks_in 256 (length f) (Chunks e)" using rep by (simp add: represents_def)
  ultimately have "chunks_in 256 (length f) (Chunks (norm_entry e))" by blast
  then have in_f: "chunks_in 0 (length f) (Chunks e)" by (auto simp: norm_entry_def intro: chunks_in_mono)
  have "map_of (entry_map_of es) q = Some (norm_entry e)" using oe(2) e by (simp add: map_of_entry_map)
  then obtain data where "reads_as L f (Chunks (norm_entry e)) data"
    using rep refinesD(2) [of L f "entry_map_of es" s q "norm_entry e"] by (auto simp: represents_def)
  then have "reads_as L f (Chunks e) data" by (simp add: norm_entry_def)
  from stream_from_same [OF this in_f same] show ?thesis by (simp add: r')
qed

text \<open>The call of \<^verbatim>\<open>Upsert\<close> at the end, with the arguments it has when everything before succeeded.\<close>

definition set_meta_call :: "cli_env \<Rightarrow> put_flags \<Rightarrow> bytes \<Rightarrow> disk \<Rightarrow> (Container \<times> put_args) option" where
  "set_meta_call ce fl entryPath d =
     (case (loadMeta ce (pfMetaJSON fl) (pfMetaFile fl), parseCodec (pfCodec fl),
            buildLimitOptions (pfMaxEntry fl) (pfMaxChunk fl)) of
        (Inr meta, Inr codec, Inr copts) \<Rightarrow>
          (case Open (cvLib ce) (cvProcs ce) copts d of
             (Inr c, d) \<Rightarrow>
               (case (Stat c entryPath, OpenReader c entryPath) of
                  (Inr info, Inr r) \<Rightarrow>
                    if meta = [] then None
                    else Some (c, \<lparr>aEnv = cvEntry ce 0, aOpts = cOpts c, aPath = entryPath,
                      aSource = Some (stream (cvLib ce) (content d) r), aMeta = meta,
                      aWrite = Some (put_write_options fl codec (iMTimeUnix info) (iMode info) (iEntryFlags info))\<rparr>)
                | _ \<Rightarrow> None)
           | _ \<Rightarrow> None)
      | _ \<Rightarrow> None)"

lemma set_meta_calls:
  assumes "represents (cvLib ce) (content d) h bu es s"
  shows "runSetMeta ce fl path d = (case set_meta_call ce fl path d of
       Some (c, p) \<Rightarrow> exit_code (run_tx (cvCommit ce) (upsert_op p) c d)
     | None \<Rightarrow> runSetMeta ce fl path d) \<and>
    (set_meta_call ce fl path d = None \<longrightarrow> (\<exists>code. runSetMeta ce fl path d = Some (code, d) \<and> code \<noteq> 0))"
proof -
  have "\<exists>c. Open (cvLib ce) (cvProcs ce) copts d = (Inr c, d)" for copts using open_outcome [OF assms] by blast
  then obtain cc where cc: "Open (cvLib ce) (cvProcs ce) copts d = (Inr (cc copts), d)" for copts by metis
  show ?thesis
    by (cases "loadMeta ce (pfMetaJSON fl) (pfMetaFile fl)"; cases "parseCodec (pfCodec fl)";
        cases "buildLimitOptions (pfMaxEntry fl) (pfMaxChunk fl)")
      (auto simp: runSetMeta_def set_meta_call_def cc container_ops Let_def split: sum.split)
qed

lemma set_meta_called:
  assumes rep: "represents (cvLib ce) (content d) h bu es s" and call: "set_meta_call ce fl path d = Some (c, p)"
  obtains copts r meta codec and info :: EntryInfo where "Open (cvLib ce) (cvProcs ce) copts d = (Inr c, d)"
    "OpenReader c path = Inr r" "loadMeta ce (pfMetaJSON fl) (pfMetaFile fl) = Inr meta"
    "p = \<lparr>aEnv = cvEntry ce 0, aOpts = cOpts c, aPath = path, aSource = Some (stream (cvLib ce) (content d) r),
       aMeta = meta, aWrite = Some (put_write_options fl codec (iMTimeUnix info) (iMode info) (iEntryFlags info))\<rparr>"
proof -
  obtain meta codec copts where 1: "loadMeta ce (pfMetaJSON fl) (pfMetaFile fl) = Inr meta"
    "parseCodec (pfCodec fl) = Inr codec" "buildLimitOptions (pfMaxEntry fl) (pfMaxChunk fl) = Inr copts"
    using call by (auto simp: set_meta_call_def split: sum.splits)
  obtain c' where 2: "Open (cvLib ce) (cvProcs ce) copts d = (Inr c', d)" using open_outcome [OF rep] by blast
  obtain info r where 3: "Stat c' path = Inr info" "OpenReader c' path = Inr r"
    using call 1 2 by (auto simp: set_meta_call_def split: sum.splits)
  have c': "c' = c" and p: "p = \<lparr>aEnv = cvEntry ce 0, aOpts = cOpts c, aPath = path, aSource = Some (stream (cvLib ce) (content d) r),
       aMeta = meta, aWrite = Some (put_write_options fl codec (iMTimeUnix info) (iMode info) (iEntryFlags info))\<rparr>"
    using call 1 2 3 by (auto simp: set_meta_call_def split: if_splits)
  show thesis by (rule that [OF 2 [unfolded c'] 3(2) [unfolded c'] 1(1) p])
qed

text \<open>
  C31: the command \<^verbatim>\<open>set-meta\<close> rewrites the entry from itself: with exit code 0 the file represents the
  store in which the path, which was there, has the metadata given on the command line and the contents
  it had. With a non-zero exit code the file represents the old store or, when the error came after the
  header was written, that new one.
\<close>

theorem set_meta_command:
  assumes rep: "represents (cvLib ce) (content d) h bu es s"
    and lib: "nLib (cvEntry ce 0) = cvLib ce"
    and fits: "\<And>c p. set_meta_call ce fl path d = Some (c, p) \<Longrightarrow>
      env_ok (cvEntry ce 0) (cOpts c) (aWrite p) \<and> run_fits (cvCommit ce) (upsert_op p) c d"
    and run: "runSetMeta ce fl path d = Some (code, d')" and len: "length (content d') < 2 ^ 63"
  defines "new \<equiv> (\<lambda>s'. \<exists>q data old meta. normalize path = Inr q \<and> s q = Some (data, old) \<and>
    loadMeta ce (pfMetaJSON fl) (pfMetaFile fl) = Inr meta \<and> s' = s(q \<mapsto> (data, meta)))"
  shows "if code = 0 then \<exists>h' es' s'. new s' \<and> represents (cvLib ce) (content d') h' (mBuildTime (cvCommit ce)) es' s'
    else represents (cvLib ce) (content d') h bu es s \<or>
      (\<exists>h' es' s'. new s' \<and> (represents (cvLib ce) (content d') h' (mBuildTime (cvCommit ce)) es' s' \<or>
         torn (content d') h h' (mBuildTime (cvCommit ce)) es'))"
proof (cases "set_meta_call ce fl path d")
  case None
  then show ?thesis using set_meta_calls [OF rep, of fl path] run rep by auto
next
  case (Some x)
  obtain c p where x: "x = (c, p)" by fastforce
  have call: "set_meta_call ce fl path d = Some (c, p)" using Some x by simp
  have "exit_code (run_tx (cvCommit ce) (upsert_op p) c d) = Some (code, d')"
    using set_meta_calls [OF rep, of fl path] run call by simp
  then obtain res c' where rt: "run_tx (cvCommit ce) (upsert_op p) c d = Some (res, c', d')" "code = 0 \<longleftrightarrow> \<not> isl res"
    by (auto simp: exit_code_def split: option.splits sum.splits prod.splits)
  obtain copts r meta codec and info :: EntryInfo where o: "Open (cvLib ce) (cvProcs ce) copts d = (Inr c, d)"
    "OpenReader c path = Inr r" "loadMeta ce (pfMetaJSON fl) (pfMetaFile fl) = Inr meta"
    "p = \<lparr>aEnv = cvEntry ce 0, aOpts = cOpts c, aPath = path, aSource = Some (stream (cvLib ce) (content d) r),
       aMeta = meta, aWrite = Some (put_write_options fl codec (iMTimeUnix info) (iMode info) (iEntryFlags info))\<rparr>"
    using call by (rule set_meta_called [OF rep])
  have c: "caches c h bu es" using open_outcome [OF rep, of "cvProcs ce" copts] o(1) by auto
  have pre: "put_pre p" using fits [OF call] o(4) by (simp add: put_pre_def)
  have lib': "nLib (aEnv p) = cvLib ce" using lib o(4) by simp
  note out = upsert.run_outcome [OF pre rep [folded lib'] c _ rt(1) len, unfolded lib']
  have "new s'" if eff: "put_effect (\<lambda>x. True) p s s'" for s'
  proof -
    let ?src = "stream (cvLib ce) (content d) r"
    have "\<exists>q. normalize path = Inr q \<and> read_to_end ?src \<and> s' = s(q \<mapsto> (fst ?src, meta))"
      using eff o(4) by (auto simp: put_effect_def)
    then obtain q where e: "normalize path = Inr q" "read_to_end ?src" "s' = s(q \<mapsto> (fst ?src, meta))" by blast
    obtain data old where sq: "s q = Some (data, old)"
      using rep c
    proof (cases rule: lookup_cell [where q = q])
      case absent
      then show ?thesis using o(2) e(1) c by (simp add: OpenReader_def caches_def or_err_def)
    qed
    have "?src = (data, IoEOF)" by (rule reader_source [OF rep c e(1) sq o(2) e(2)])
    then show ?thesis using e(1,3) sq o(3) by (auto simp: new_def)
  qed
  then show ?thesis using out fits [OF call] rt(2) by (cases res) (auto simp: ran_def)
qed

end
