(* ===== verification/TextSpec.thy ===== *)
theory TextSpec
  imports CliSpec
begin

text \<open>
  The command \<^verbatim>\<open>replace-text\<close> (\<^verbatim>\<open>runReplaceText\<close> of \<^verbatim>\<open>cmd/fbx/main.go\<close>): entries are read and written in the
  same file within one transaction, so what it reads has to be what was there when it began.
\<close>

section \<open>\<^verbatim>\<open>replace-text\<close>\<close>

text \<open>What the command does to the store: the entries it changes, and the contents it gives them.\<close>

definition text_hits :: "text_flags \<Rightarrow> store \<Rightarrow> bytes \<Rightarrow> nat" where
  "text_hits fl s p =
     (case s p of
        Some (data, _) \<Rightarrow> if text_selects fl p then count_text data (tfFind fl) else 0
      | None \<Rightarrow> 0)"

definition texted :: "text_flags \<Rightarrow> store \<Rightarrow> bytes set \<Rightarrow> store \<Rightarrow> store" where
  "texted fl s P t =
     (\<lambda>p. if p \<in> P \<and> text_hits fl s p \<noteq> 0
          then map_option (\<lambda>(data, m). (replace_text data (tfFind fl) (tfReplace fl), m)) (s p) else t p)"

definition text_env :: "cli_env \<Rightarrow> text_flags \<Rightarrow> Options \<Rightarrow> bool" where
  "text_env ce fl opts \<longleftrightarrow>
     (\<forall>i. nLib (cvEntry ce i) = cvLib ce \<and>
       (\<forall>codec m x y. env_ok (cvEntry ce i) opts (Some (put_write_options (tfPut fl) codec m x y))))"

lemma extract_returns: "\<exists>r. Extract L c f path = Some r"
proof -
  have "\<exists>r. copy_all L f 32768 er [] = Some r" for er
    using copy_all_stream [of L f er "fst (stream L f er)" "snd (stream L f er)" 32768 "[]"] by simp
  then show ?thesis by (auto simp: Extract_def split: sum.split simp del: copy_all.simps)
qed

lemma text_loop_returns:
  assumes env: "text_env ce fl (cOpts c)"
  shows "\<exists>r. text_loop ce fl codec c i es n tx d = Some r"
proof (induction es arbitrary: i n tx d)
  case Nil
  show ?case by (cases n) simp
next
  case (Cons e es)
  obtain ch h where n: "n = (ch, h)" by fastforce
  obtain out r where x: "Extract (cvLib ce) c (content d) (iPath e) = Some (out, r)"
    using extract_returns by (metis surj_pair)
  have up: "\<exists>y. Tx_Upsert (cvEntry ce i) (cOpts c) (iPath e) src m (Some (put_write_options (tfPut fl) codec a b w)) tx d = Some y"
    for src m a b w tx d
    using env by (intro put_operations_total) (simp add: text_env_def env_ok_def)
  show ?case
  proof (cases tx)
    case None
    then show ?thesis using Cons.IH x n by (cases r) (simp_all add: Let_def)
  next
    case (Some tx1)
    obtain ur tx2 d2 where "Tx_Upsert (cvEntry ce i) (cOpts c) (iPath e)
        (Some (replace_text out (tfFind fl) (tfReplace fl), IoEOF)) (iMeta e)
        (Some (put_write_options (tfPut fl) codec (iMTimeUnix e) (iMode e) (iEntryFlags e))) tx1 d = Some (ur, tx2, d2)"
      using up by (metis prod_cases3)
    then show ?thesis using Some Cons.IH x n by (cases r; cases ur) (simp_all add: Let_def)
  qed
qed

lemma text_loop_grows:
  "text_loop ce fl codec c i es n tx d = Some (r, tx', d') \<Longrightarrow> length (content d) \<le> length (content d')"
proof (induction es arbitrary: i n tx d)
  case Nil
  then show ?case by (cases n) simp
next
  case (Cons e es)
  obtain ch h where n: "n = (ch, h)" by fastforce
  show ?case
    using Cons.prems unfolding n
    by (auto simp: Let_def split: if_splits option.splits sum.splits prod.splits dest!: Cons.IH upsert_grows)
qed

text \<open>One entry that is written: what \<^verbatim>\<open>Upsert\<close> does to the invariant of the loop.\<close>

lemma text_loop_put:
  assumes ev: "env_ok env opts (Some w)" and inv: "tx_inv (nLib env) lo (content d) tx t" and bw: "begun_with f0 tx d"
    and p: "normalize p = Inr p" "s p = Some (data, m)" and k: "text_hits fl s p \<noteq> 0" and src: "dst = replace_text data (tfFind fl) (tfReplace fl)"
    and up: "Tx_Upsert env opts p (Some (dst, IoEOF)) m (Some w) tx d = Some (Inr v, tx2, d2)"
    and len: "length (content d2) < 2 ^ 63"
  obtains t2 where "tx_inv (nLib env) lo (content d2) tx2 t2" "begun_with f0 tx2 d2"
    "\<And>X. texted fl s X t2 = texted fl s (insert p X) t"
    "same 0 (unat (tAppendOffset tx)) (content d) (content d2)"
    "unat (tAppendOffset tx) \<le> unat (tAppendOffset tx2)" "tClosed tx2 = tClosed tx"
proof -
  have uo: "tx_inv (nLib env) lo (content d2) tx2 (t(p \<mapsto> (dst, m)))"
    "same 0 (unat (tAppendOffset tx)) (content d) (content d2)"
    "unat (tAppendOffset tx) \<le> unat (tAppendOffset tx2)" "tClosed tx2 = tClosed tx"
    using upsert_outcome [OF ev inv up len] p(1) by (auto simp: put_outcome_def)
  have "texted fl s X (t(p \<mapsto> (dst, m))) = texted fl s (insert p X) t" for X
    using k p(2) src by (auto simp: texted_def fun_eq_iff)
  then show thesis using that [OF uo(1) begun_with_step [OF bw uo(2,3)] _ uo(2-4)] by blast
qed

lemma text_loop_outcome:
  assumes rep: "represents (cvLib ce) f0 h bu es0 s" and c: "caches c h bu es0" and env: "text_env ce fl (cOpts c)"
    and infos: "\<forall>e \<in> set es. path_safe (iPath e) \<and> (\<exists>data. s (iPath e) = Some (data, iMeta e))"
    and inv: "tx_inv (cvLib ce) lo (content d) tx t" and bw: "begun_with f0 tx d"
    and run: "text_loop ce fl codec c i es (ch, n) (Some tx) d = Some (res, tx', d')"
    and len: "length (content d') < 2 ^ 63"
  shows "\<exists>tx1. tx' = Some tx1 \<and> same 0 (unat (tAppendOffset tx)) (content d) (content d') \<and>
    unat (tAppendOffset tx) \<le> unat (tAppendOffset tx1) \<and> tClosed tx1 = tClosed tx \<and>
    (\<forall>ch' n'. res = Inr (ch', n') \<longrightarrow>
       tx_inv (cvLib ce) lo (content d') tx1 (texted fl s (iPath ` set es) t) \<and>
       ch' = ch + length (filter (\<lambda>e. text_hits fl s (iPath e) \<noteq> 0) es) \<and>
       n' = n + (\<Sum>e\<leftarrow>es. text_hits fl s (iPath e)) \<and> (ch' = ch \<longrightarrow> d' = d))"
  using infos inv bw run
proof (induction es arbitrary: i ch n tx d t)
  case Nil
  then show ?case using inv_frame by (auto simp: texted_def)
next
  case (Cons e es)
  let ?L = "cvLib ce" and ?p = "iPath e"
  have infos: "\<forall>e \<in> set es. path_safe (iPath e) \<and> (\<exists>data. s (iPath e) = Some (data, iMeta e))"
    using Cons.prems(1) by simp
  obtain data where p: "normalize ?p = Inr ?p" "s ?p = Some (data, iMeta e)"
    using Cons.prems(1) normalize_fixed by auto
  have skip: ?case if hit: "text_hits fl s ?p = 0"
    and run: "text_loop ce fl codec c i es (ch, n) (Some tx) d = Some (res, tx', d')"
  proof -
    have "texted fl s (iPath ` set (e # es)) t = texted fl s (iPath ` set es) t"
      using hit by (auto simp: texted_def fun_eq_iff)
    then show ?thesis using Cons.IH [OF infos Cons.prems(2,3) run] hit by simp
  qed
  show ?case
  proof (cases "text_selects fl ?p")
    case False
    then show ?thesis using Cons.prems(4) p(2) by (intro skip) (simp_all add: text_hits_def)
  next
    case True
    obtain out r where x: "Extract ?L c (content d) ?p = Some (out, r)"
      using extract_returns by (metis surj_pair)
    have same: "same 0 (length f0) f0 (content d)" using Cons.prems(3) by (simp add: begun_with_def)
    have small: "length (content d) < 2 ^ 63" using text_loop_grows [OF Cons.prems(4)] len by simp
    note ex = extract_outcome [OF represents_append [OF rep same small] c p(1), unfolded p(2)]
    show ?thesis
    proof (cases r)
      case (Inl err)
      then have "res = Inl err" "tx' = Some tx" "d' = d" using Cons.prems(4) True x by simp_all
      then show ?thesis using inv_frame [OF Cons.prems(2)] by simp
    next
      case (Inr u)
      then have out: "out = data" using ex x by auto
      define k where "k = count_text data (tfFind fl)"
      have k: "text_hits fl s ?p = k" using True p(2) by (simp add: text_hits_def k_def)
      show ?thesis
      proof (cases "k = 0")
        case True
        then show ?thesis using Cons.prems(4) \<open>text_selects fl ?p\<close> x Inr out k
          by (intro skip) (simp_all add: k_def)
      next
        case False
        let ?dst = "replace_text data (tfFind fl) (tfReplace fl)"
        let ?w = "put_write_options (tfPut fl) codec (iMTimeUnix e) (iMode e) (iEntryFlags e)"
        obtain ur tx2 d2 where up: "Tx_Upsert (cvEntry ce i) (cOpts c) ?p (Some (?dst, IoEOF)) (iMeta e) (Some ?w) tx d =
            Some (ur, tx2, d2)"
          using Cons.prems(4) True x Inr out False by (auto simp: Let_def k_def split: option.splits prod.splits)
        have ev: "env_ok (cvEntry ce i) (cOpts c) (Some ?w)" "nLib (cvEntry ce i) = ?L"
          using env by (simp_all add: text_env_def)
        show ?thesis
        proof (cases ur)
          case (Inl err)
          then have r: "res = Inl err" "tx' = Some tx2" "d' = d2"
            using Cons.prems(4) True x \<open>r = Inr u\<close> out False up by (simp_all add: Let_def k_def)
          then show ?thesis
            using upsert_outcome [OF ev(1) Cons.prems(2) [folded ev(2)] up] len by (simp add: put_outcome_def)
        next
          case (Inr v)
          then have rec: "text_loop ce fl codec c (i + 1) es (ch + 1, n + k) (Some tx2) d2 = Some (res, tx', d')"
            using Cons.prems(4) True x \<open>r = Inr u\<close> out False up by (simp add: Let_def k_def)
          have len2: "length (content d2) < 2 ^ 63" using text_loop_grows [OF rec] len by simp
          have hit: "text_hits fl s ?p \<noteq> 0" using k False by simp
          obtain t2 where t2: "tx_inv ?L lo (content d2) tx2 t2" "begun_with f0 tx2 d2"
            "\<And>X. texted fl s X t2 = texted fl s (insert ?p X) t"
            and fr: "same 0 (unat (tAppendOffset tx)) (content d) (content d2)"
              "unat (tAppendOffset tx) \<le> unat (tAppendOffset tx2)" "tClosed tx2 = tClosed tx"
            using text_loop_put [where s = s and p = ?p, OF ev(1) Cons.prems(2) [folded ev(2)] Cons.prems(3)
                  p hit refl up [unfolded Inr] len2, unfolded ev(2)] by blast
          obtain tx1 where tx1: "tx' = Some tx1" "same 0 (unat (tAppendOffset tx2)) (content d2) (content d')"
            "unat (tAppendOffset tx2) \<le> unat (tAppendOffset tx1)" "tClosed tx1 = tClosed tx2"
            "\<And>ch' n'. res = Inr (ch', n') \<Longrightarrow>
               tx_inv ?L lo (content d') tx1 (texted fl s (iPath ` set (e # es)) t) \<and>
               ch' = ch + 1 + length (filter (\<lambda>e. text_hits fl s (iPath e) \<noteq> 0) es) \<and>
               n' = n + k + (\<Sum>e\<leftarrow>es. text_hits fl s (iPath e))"
            using Cons.IH [OF infos t2(1,2) rec] t2(3) by auto
          have "same 0 (unat (tAppendOffset tx)) (content d) (content d')" by (rule same_step [OF fr(1) tx1(2) fr(2)])
          moreover have "unat (tAppendOffset tx) \<le> unat (tAppendOffset tx1)" "tClosed tx1 = tClosed tx"
            using tx1(3,4) fr(2,3) by simp_all
          moreover have "tx_inv ?L lo (content d') tx1 (texted fl s (iPath ` set (e # es)) t) \<and>
               ch' = ch + length (filter (\<lambda>e. text_hits fl s (iPath e) \<noteq> 0) (e # es)) \<and>
               n' = n + (\<Sum>e\<leftarrow>e # es. text_hits fl s (iPath e)) \<and> (ch' = ch \<longrightarrow> d' = d)"
            if "res = Inr (ch', n')" for ch' n'
            using tx1(5) [OF that] k False by simp
          ultimately show ?thesis using tx1(1) by blast
        qed
      qed
    qed
  qed
qed

text \<open>A dry run counts the same and leaves the file alone.\<close>

lemma text_loop_dry:
  assumes rep: "represents (cvLib ce) (content d) h bu es0 s" and c: "caches c h bu es0"
    and infos: "\<forall>e \<in> set es. path_safe (iPath e) \<and> (\<exists>data. s (iPath e) = Some (data, iMeta e))"
    and run: "text_loop ce fl codec c i es (ch, n) None d = Some (res, tx', d')"
  shows "tx' = None \<and> d' = d \<and> (\<forall>ch' n'. res = Inr (ch', n') \<longrightarrow>
    ch' = ch + length (filter (\<lambda>e. text_hits fl s (iPath e) \<noteq> 0) es) \<and>
    n' = n + (\<Sum>e\<leftarrow>es. text_hits fl s (iPath e)))"
  using infos run
proof (induction es arbitrary: i ch n)
  case (Cons e es)
  obtain data where p: "normalize (iPath e) = Inr (iPath e)" "s (iPath e) = Some (data, iMeta e)"
    using Cons.prems(1) normalize_fixed by auto
  obtain out r where x: "Extract (cvLib ce) c (content d) (iPath e) = Some (out, r)"
    using extract_returns by (metis surj_pair)
  have out: "out = data" if "r = Inr ()"
    using extract_outcome [OF rep c p(1), unfolded p(2)] x that by auto
  show ?case
    using Cons.IH [of i ch n] Cons.IH [of i "ch + 1" "n + count_text data (tfFind fl)"] Cons.prems p(2) x out
    by (cases r) (auto simp: text_hits_def Let_def split: if_splits)
qed auto

text \<open>The loop as one operation of a transaction.\<close>

definition text_op :: "cli_env \<Rightarrow> text_flags \<Rightarrow> u8 \<Rightarrow> Container \<Rightarrow> EntryInfo list \<Rightarrow> Tx \<Rightarrow> disk \<Rightarrow> tx_result" where
  "text_op ce fl codec c es tx d =
     (case text_loop ce fl codec c 0 es (0, 0) (Some tx) d of
        None \<Rightarrow> None
      | Some (Inl e, tx, d) \<Rightarrow> Some (Inl e, the tx, d)
      | Some (Inr (changed, hits), tx, d) \<Rightarrow> Some (if changed = 0 then Inl nothing_done else Inr (), the tx, d))"

lemma keeps_text:
  assumes rep: "represents (cvLib ce) f0 h bu es0 s" and c: "caches c h bu es0" and env: "text_env ce fl (cOpts c)"
    and infos: "\<forall>e \<in> set es. path_safe (iPath e) \<and> (\<exists>data. s (iPath e) = Some (data, iMeta e))"
  shows "keeps f0 (cvLib ce) (text_op ce fl codec c es) (\<lambda>t t'. t' = texted fl s (iPath ` set es) t)"
proof (rule keepsI)
  show "\<exists>r. text_op ce fl codec c es tx d = Some r" for tx d
    using text_loop_returns [OF env, of codec 0 es "(0, 0)" "Some tx" d]
    by (auto simp: text_op_def split: sum.split)
  show "length (content d) \<le> length (content d')" if "text_op ce fl codec c es tx d = Some (res, tx', d')"
    for tx d res tx' and d' :: disk
    using that by (auto simp: text_op_def dest!: text_loop_grows split: option.splits prod.splits sum.splits)
  fix lo tx and d :: disk and t res tx' and d' :: disk
  assume a: "tx_inv (cvLib ce) lo (content d) tx t" "begun_with f0 tx d" and len: "length (content d') < 2 ^ 63"
    and run: "text_op ce fl codec c es tx d = Some (res, tx', d')"
  obtain r txo where l: "text_loop ce fl codec c 0 es (0, 0) (Some tx) d = Some (r, txo, d')" "tx' = the txo"
    and u: "res = Inr u \<Longrightarrow> \<exists>x. r = Inr x" for u
    using run by (auto simp: text_op_def split: option.splits prod.splits sum.splits)
  obtain tx1 where o: "txo = Some tx1" "same 0 (unat (tAppendOffset tx)) (content d) (content d')"
    "unat (tAppendOffset tx) \<le> unat (tAppendOffset tx1)" "tClosed tx1 = tClosed tx"
    "\<And>ch' n'. r = Inr (ch', n') \<Longrightarrow> tx_inv (cvLib ce) lo (content d') tx1 (texted fl s (iPath ` set es) t)"
    using text_loop_outcome [OF rep c env infos a l(1) len] by blast
  then show "same 0 (unat (tAppendOffset tx)) (content d) (content d') \<and>
      unat (tAppendOffset tx) \<le> unat (tAppendOffset tx') \<and> tClosed tx' = tClosed tx \<and>
      (\<forall>u. res = Inr u \<longrightarrow>
        (\<exists>s'. s' = texted fl s (iPath ` set es) t \<and> tx_inv (cvLib ce) lo (content d') tx' s'))"
    using l(2) u by auto
qed

text \<open>The catalogue is loaded by \<^verbatim>\<open>Begin\<close>, so the list does not change the container.\<close>

lemma ensure_caches: "ensureEntriesLoaded c f = (Inr u, c') \<Longrightarrow> cEntries c' \<noteq> None"
  by (auto simp: ensureEntriesLoaded_def split: if_splits option.splits sum.splits)

lemma begin_loads:
  assumes "Begin c d = Some (Inr tx, c1, d1)"
  shows "snd (container_List c1 f) = c1"
proof -
  have "cEntries c1 \<noteq> None"
    using assms by (auto simp: Begin_def Let_def dest: ensure_caches split: if_splits sum.splits prod.splits)
  then show ?thesis by (simp add: container_List_def ensureEntriesLoaded_def)
qed

lemma text_counts:
  assumes "distinct (map iPath vs)" "iPath ` set vs = dom s"
  shows "length (filter (\<lambda>e. text_hits fl s (iPath e) \<noteq> 0) vs) = card {p. text_hits fl s p \<noteq> 0}"
    "(\<Sum>e\<leftarrow>vs. text_hits fl s (iPath e)) = (\<Sum>p\<in>dom s. text_hits fl s p)"
proof -
  have "length (filter (\<lambda>e. text_hits fl s (iPath e) \<noteq> 0) vs) =
      length (filter (\<lambda>p. text_hits fl s p \<noteq> 0) (map iPath vs))"
    by (simp add: filter_map comp_def)
  also have "\<dots> = card (set (filter (\<lambda>p. text_hits fl s p \<noteq> 0) (map iPath vs)))"
    using assms(1) by (intro distinct_card [symmetric] distinct_filter)
  also have "set (filter (\<lambda>p. text_hits fl s p \<noteq> 0) (map iPath vs)) = {p. text_hits fl s p \<noteq> 0}"
    using assms(2) by (auto simp: text_hits_def split: option.splits if_splits)
  finally show "length (filter (\<lambda>e. text_hits fl s (iPath e) \<noteq> 0) vs) = card {p. text_hits fl s p \<noteq> 0}" .
  show "(\<Sum>e\<leftarrow>vs. text_hits fl s (iPath e)) = (\<Sum>p\<in>dom s. text_hits fl s p)"
    using sum_list_distinct_conv_sum_set [OF assms(1), of "text_hits fl s"] assms(2) by (simp add: comp_def)
qed

text \<open>The commit at the end stays within the limits of the format.\<close>

definition text_fits :: "cli_env \<Rightarrow> text_flags \<Rightarrow> disk \<Rightarrow> bool" where
  "text_fits ce fl d =
     (case parseCodec (pfCodec (tfPut fl)) of Inl _ \<Rightarrow> True | Inr codec \<Rightarrow>
     (case buildLimitOptions (pfMaxEntry (tfPut fl)) (pfMaxChunk (tfPut fl)) of Inl _ \<Rightarrow> True | Inr copts \<Rightarrow>
     (case Open (cvLib ce) (cvProcs ce) copts d of (Inl _, d) \<Rightarrow> True | (Inr c, d) \<Rightarrow>
     (case Begin c d of
        Some (Inr tx, c1, d1) \<Rightarrow>
          run_fits (cvCommit ce) (text_op ce fl codec c1 (listed (fst (container_List c1 (content d1))))) c d
      | _ \<Rightarrow> True))))"

text \<open>What the end of the command does is the end of a transaction.\<close>

lemma text_run_tx:
  assumes b: "Begin c d = Some (Inr tx, c1, d1)" and l: "container_List c1 (content d1) = (newSliceIterator vs None, c1)"
    and run: "text_run ce fl codec c1 (Some tx) d1 = Some ((code, counts), d')"
    and loop: "text_loop ce fl codec c1 0 vs (0, 0) (Some tx) d1 = Some (r, Some tx1, d2)"
  shows "\<exists>res c'. run_tx (cvCommit ce) (text_op ce fl codec c1 vs) c d = Some (res, c', d') \<and>
    (case counts of
       None \<Rightarrow> code = 1 \<and> isl res
     | Some (changed, hits) \<Rightarrow> code = 0 \<and> r = Inr (changed, hits) \<and> (if changed = 0 then d' = d2 else res = Inr ()))"
proof -
  obtain cr tx2 c2 d3 where cm: "Commit (cvCommit ce) c1 tx1 d2 = (cr, tx2, c2, d3)" by (metis surj_pair)
  show ?thesis
  proof (cases r)
    case (Inl e)
    then show ?thesis using run b l loop by (simp add: text_run_def run_tx_def text_op_def)
  next
    case (Inr x)
    obtain ch n where x: "x = (ch, n)" by fastforce
    show ?thesis
      using run b l loop Inr x cm
      by (cases cr) (auto simp: text_run_def run_tx_def text_op_def split: if_splits)
  qed
qed

lemma text_store:
  "texted fl s (dom s) s = (\<lambda>p. if text_hits fl s p \<noteq> 0
     then map_option (\<lambda>(data, m). (replace_text data (tfFind fl) (tfReplace fl), m)) (s p) else s p)"
  by (auto simp: texted_def fun_eq_iff text_hits_def split: option.split)

lemma text_dry:
  assumes rep: "represents (cvLib ce) (content d) h bu es s" and c: "caches c h bu es"
    and safe: "\<forall>q \<in> dom s. path_safe q" and run: "text_run ce fl codec c None d = Some ((code, counts), d')"
  shows "d' = d \<and> (case counts of None \<Rightarrow> code \<noteq> 0 | Some (changed, hits) \<Rightarrow>
    code = 0 \<and> changed = card {p. text_hits fl s p \<noteq> 0} \<and> hits = (\<Sum>p\<in>dom s. text_hits fl s p))"
proof -
  obtain vs c' where l: "container_List c (content d) = (newSliceIterator vs None, c')" "caches c' h bu es"
    "sorted (map iPath vs)" "distinct (map iPath vs)" "iPath ` set vs = dom s"
    "\<forall>e \<in> set vs. \<exists>data. s (iPath e) = Some (data, iMeta e) \<and> unat (iSize e) = length data"
    by (rule listed_store [OF rep c])
  have infos: "\<forall>e \<in> set vs. path_safe (iPath e) \<and> (\<exists>data. s (iPath e) = Some (data, iMeta e))"
    using safe l(5,6) by blast
  obtain r tx2 d2 where t: "text_loop ce fl codec c' 0 vs (0, 0) None d = Some (r, tx2, d2)"
    using run l(1) by (auto simp: text_run_def split: option.splits)
  note o = text_loop_dry [OF rep l(2) infos t]
  show ?thesis
    using run l(1) t o text_counts [OF l(4,5), of fl]
    by (cases r) (auto simp: text_run_def split: prod.splits)
qed

lemma text_live:
  assumes rep: "represents (cvLib ce) (content d) h bu es s" and c: "caches c h bu es"
    and safe: "\<forall>q \<in> dom s. path_safe q" and env: "text_env ce fl (cOpts c)"
    and b: "Begin c d = Some (Inr tx, c1, d1)"
    and fits: "run_fits (cvCommit ce) (text_op ce fl codec c1 (listed (fst (container_List c1 (content d1))))) c d"
    and run: "text_run ce fl codec c1 (Some tx) d1 = Some ((code, counts), d')" and len: "length (content d') < 2 ^ 63"
  shows "case counts of
      Some (changed, hits) \<Rightarrow> code = 0 \<and> changed = card {p. text_hits fl s p \<noteq> 0} \<and>
        hits = (\<Sum>p\<in>dom s. text_hits fl s p) \<and>
        (if changed = 0 then content d' = content d
         else \<exists>h' es'. represents (cvLib ce) (content d') h' (mBuildTime (cvCommit ce)) es' (texted fl s (dom s) s))
    | None \<Rightarrow> code \<noteq> 0 \<and>
        (represents (cvLib ce) (content d') h bu es s \<or>
         (\<exists>h' es'. represents (cvLib ce) (content d') h' (mBuildTime (cvCommit ce)) es' (texted fl s (dom s) s) \<or>
            torn (content d') h h' (mBuildTime (cvCommit ce)) es'))"
proof -
  let ?L = "cvLib ce"
  note bg = begin_begun [OF rep c b]
  have opts: "cOpts c1 = cOpts c" using begin_outcome [OF rep c] b by (simp add: begun_def)
  have rep1: "represents ?L (content d1) h bu es s" using rep bg(3) by simp
  obtain vs c2 where l: "container_List c1 (content d1) = (newSliceIterator vs None, c2)" "caches c2 h bu es"
    "sorted (map iPath vs)" "distinct (map iPath vs)" "iPath ` set vs = dom s"
    "\<forall>e \<in> set vs. \<exists>data. s (iPath e) = Some (data, iMeta e) \<and> unat (iSize e) = length data"
    by (rule listed_store [OF rep1 bg(2)])
  have l1: "container_List c1 (content d1) = (newSliceIterator vs None, c1)"
    using begin_loads [OF b, of "content d1"] l(1) by simp
  have infos: "\<forall>e \<in> set vs. path_safe (iPath e) \<and> (\<exists>data. s (iPath e) = Some (data, iMeta e))"
    using safe l(5,6) by blast
  have te: "text_env ce fl (cOpts c1)" using env opts by simp
  obtain r txo d2 where t: "text_loop ce fl codec c1 0 vs (0, 0) (Some tx) d1 = Some (r, txo, d2)"
    using run l1 by (auto simp: text_run_def split: option.splits)
  have len2: "length (content d2) < 2 ^ 63"
  proof -
    have "length (content d2) \<le> length (content d')"
      using run l1 t by (auto simp: text_run_def split: option.splits prod.splits sum.splits if_splits dest!: commit_grows)
    then show ?thesis using len by simp
  qed
  obtain tx1 where o: "txo = Some tx1" "\<And>ch' n'. r = Inr (ch', n') \<Longrightarrow>
      ch' = card {p. text_hits fl s p \<noteq> 0} \<and> n' = (\<Sum>p\<in>dom s. text_hits fl s p) \<and> (ch' = 0 \<longrightarrow> d2 = d1)"
    using text_loop_outcome [OF rep bg(2) te infos bg(5,1) t len2] unfolding text_counts [OF l(4,5), of fl] by auto
  obtain res c' where rt: "run_tx (cvCommit ce) (text_op ce fl codec c1 vs) c d = Some (res, c', d')"
    "case counts of
       None \<Rightarrow> code = 1 \<and> isl res
     | Some (changed, hits) \<Rightarrow> code = 0 \<and> r = Inr (changed, hits) \<and> (if changed = 0 then d' = d2 else res = Inr ())"
    using text_run_tx [OF b l1 run t [unfolded o(1)]] by blast
  have fits1: "run_fits (cvCommit ce) (text_op ce fl codec c1 vs) c d" using fits l1 by simp
  note out = script_outcome [OF keeps_text [OF rep bg(2) te infos] rep c fits1 rt(1) len, unfolded l(5)]
  show ?thesis
  proof (cases counts)
    case None
    then obtain x where "res = Inl x" "code = 1" using rt(2) by (auto simp: isl_def)
    then show ?thesis using out None by (auto simp: ran_def)
  next
    case (Some x)
    then show ?thesis using out rt(2) o(2) bg(3) by (cases x) (auto simp: ran_def split: if_splits)
  qed
qed

text \<open>The command after the flags and after \<^verbatim>\<open>Open\<close>.\<close>

definition text_opened :: "cli_env \<Rightarrow> text_flags \<Rightarrow> u8 \<Rightarrow> Container \<Rightarrow> disk \<Rightarrow> ((nat \<times> (nat \<times> nat) option) \<times> disk) option" where
  "text_opened ce fl codec c d =
     (if tfDryRun fl then text_run ce fl codec c None d
      else (case Begin c d of
         None \<Rightarrow> None
       | Some (Inl _, c, d) \<Rightarrow> Some ((1, None), d)
       | Some (Inr tx, c, d) \<Rightarrow> text_run ce fl codec c (Some tx) d))"

lemma text_stages:
  assumes run: "runReplaceText ce fl d = Some ((code, counts), d')" and rep: "represents (cvLib ce) (content d) h bu es s"
  obtains (flags) "counts = None" "code \<noteq> 0" "d' = d"
  | (opened) codec copts c where
      "parseCodec (pfCodec (tfPut fl)) = Inr codec"
      "buildLimitOptions (pfMaxEntry (tfPut fl)) (pfMaxChunk (tfPut fl)) = Inr copts"
      "Open (cvLib ce) (cvProcs ce) copts d = (Inr c, d)" "caches c h bu es"
      "cOpts c = effectiveOptions (cvProcs ce) copts" "text_opened ce fl codec c d = Some ((code, counts), d')"
proof (cases "parseCodec (pfCodec (tfPut fl))")
  case (Inl e)
  then show thesis using run flags by (auto simp: runReplaceText_def split: if_splits)
next
  case codec: (Inr codec)
  show thesis
  proof (cases "buildLimitOptions (pfMaxEntry (tfPut fl)) (pfMaxChunk (tfPut fl))")
    case (Inl e)
    then show thesis using run codec flags by (auto simp: runReplaceText_def split: if_splits)
  next
    case (Inr copts)
    obtain c where c: "Open (cvLib ce) (cvProcs ce) copts d = (Inr c, d)" "caches c h bu es"
      "cOpts c = effectiveOptions (cvProcs ce) copts"
      using open_outcome [OF rep] by blast
    have "counts = None \<and> code \<noteq> 0 \<and> d' = d \<or> text_opened ce fl codec c d = Some ((code, counts), d')"
      using run codec Inr c(1) unfolding runReplaceText_def text_opened_def
      by (cases "tfFind fl = []"; cases "tfGlob fl \<noteq> [] \<and> isl (path_match (tfGlob fl) [120])") auto
    then show thesis using opened [OF codec Inr c] flags by blast
  qed
qed

lemma text_opened_live:
  assumes run: "text_opened ce fl codec c d = Some ((code, counts), d')" and live: "\<not> tfDryRun fl"
    and rep: "represents (cvLib ce) (content d) h bu es s" and c: "caches c h bu es"
  obtains (busy) "counts = None" "code \<noteq> 0" "content d' = content d"
  | (begun) tx c1 d1 where "Begin c d = Some (Inr tx, c1, d1)"
      "text_run ce fl codec c1 (Some tx) d1 = Some ((code, counts), d')"
proof -
  obtain br c1 d1 where b: "Begin c d = Some (br, c1, d1)"
    using run live by (auto simp: text_opened_def split: option.splits prod.splits)
  show thesis
  proof (cases br)
    case (Inl e)
    then show thesis using run live b begin_outcome [OF rep c] busy by (auto simp: text_opened_def)
  next
    case (Inr tx)
    then show thesis using run live b begun by (simp add: text_opened_def)
  qed
qed

text \<open>
  C11: the command \<^verbatim>\<open>replace-text\<close> is one transaction. The counts it prints are the number of selected
  entries whose contents hold the text and the number of occurrences in them; the file then represents
  the store in which exactly these entries have their occurrences replaced and keep their metadata,
  although they are read from the file that is being written. A dry run, or one without a hit, leaves
  the file as it is. With a non-zero exit code the file represents the old store or, when the error
  came after the header was written, the new one.
\<close>

theorem replace_text_command:
  assumes rep: "represents (cvLib ce) (content d) h bu es s" and safe: "\<forall>q \<in> dom s. path_safe q"
    and env: "\<And>copts. buildLimitOptions (pfMaxEntry (tfPut fl)) (pfMaxChunk (tfPut fl)) = Inr copts \<Longrightarrow>
      text_env ce fl (effectiveOptions (cvProcs ce) copts)"
    and fits: "text_fits ce fl d"
    and run: "runReplaceText ce fl d = Some ((code, counts), d')" and len: "length (content d') < 2 ^ 63"
  defines "s' \<equiv> (\<lambda>p. if text_hits fl s p \<noteq> 0
    then map_option (\<lambda>(data, m). (replace_text data (tfFind fl) (tfReplace fl), m)) (s p) else s p)"
  shows "case counts of
      Some (changed, hits) \<Rightarrow> code = 0 \<and> changed = card {p. text_hits fl s p \<noteq> 0} \<and>
        hits = (\<Sum>p\<in>dom s. text_hits fl s p) \<and>
        (if tfDryRun fl \<or> changed = 0 then content d' = content d
         else \<exists>h' es'. represents (cvLib ce) (content d') h' (mBuildTime (cvCommit ce)) es' s')
    | None \<Rightarrow> code \<noteq> 0 \<and>
        (represents (cvLib ce) (content d') h bu es s \<or>
         (\<exists>h' es'. represents (cvLib ce) (content d') h' (mBuildTime (cvCommit ce)) es' s' \<or>
            torn (content d') h h' (mBuildTime (cvCommit ce)) es'))"
proof (rule text_stages [OF run rep])
  assume "counts = None" "code \<noteq> 0" "d' = d"
  then show ?thesis using rep by simp
next
  fix codec copts c
  assume fl: "parseCodec (pfCodec (tfPut fl)) = Inr codec"
      "buildLimitOptions (pfMaxEntry (tfPut fl)) (pfMaxChunk (tfPut fl)) = Inr copts"
    and c: "Open (cvLib ce) (cvProcs ce) copts d = (Inr c, d)" "caches c h bu es"
      "cOpts c = effectiveOptions (cvProcs ce) copts" and o: "text_opened ce fl codec c d = Some ((code, counts), d')"
  have te: "text_env ce fl (cOpts c)" using env [OF fl(2)] c(3) by simp
  show ?thesis
  proof (cases "tfDryRun fl")
    case True
    then have "text_run ce fl codec c None d = Some ((code, counts), d')" using o by (simp add: text_opened_def)
    from text_dry [OF rep c(2) safe this] show ?thesis using rep True by (cases counts) auto
  next
    case False
    from o False rep c(2) show ?thesis
    proof (cases rule: text_opened_live)
      case busy
      then show ?thesis using rep by simp
    next
      case (begun tx c1 d1)
      have "run_fits (cvCommit ce) (text_op ce fl codec c1 (listed (fst (container_List c1 (content d1))))) c d"
        using fits fl c(1) begun(1) by (simp add: text_fits_def)
      from text_live [OF rep c(2) safe te begun(1) this begun(2) len] False show ?thesis
        unfolding s'_def text_store [symmetric] by (cases counts) auto
    qed
  qed
qed

end
