(* ===== verification/PackMany.thy ===== *)
theory PackMany
  imports Cli "HOL-Library.Multiset"
begin

text \<open>
  The command \<^verbatim>\<open>pack-many\<close> (\<^verbatim>\<open>runPackMany\<close> of \<^verbatim>\<open>cmd/fbx/main.go\<close>): goroutines take the input paths from a
  channel, inspect and pack each file in place and send what came of it to another channel. The steps
  of the workers interleave in any order; what comes out does not depend on it.
\<close>

section \<open>Workers\<close>

datatype verdict = Skipped | Packed | Failed error

text \<open>One file, by itself: the body of the loop \<^verbatim>\<open>for p := range workCh\<close>.\<close>

definition wants_pack :: "PackOptions \<Rightarrow> bytes \<Rightarrow> files \<Rightarrow> bool result" where
  "wants_pack po p fs =
     (if pack_inspects po then rbind (pack_matches po p fs) (\<lambda>matched. Inr (\<not> matched)) else Inr True)"

definition pack_one :: "pack_os \<Rightarrow> PackOptions \<Rightarrow> bytes \<Rightarrow> files \<Rightarrow> (verdict \<times> files) option" where
  "pack_one os po p fs =
     (case wants_pack po p fs of
        Inl e \<Rightarrow> Some (Failed e, fs)
      | Inr False \<Rightarrow> Some (Skipped, fs)
      | Inr True \<Rightarrow>
          (case Pack os p p (Some po) fs of
             None \<Rightarrow> None
           | Some (Inl e, fs) \<Rightarrow> Some (Failed e, fs)
           | Some (Inr _, fs) \<Rightarrow> Some (Packed, fs)))"

text \<open>
  The same in pieces, as other workers run in between: the inspection, \<^verbatim>\<open>packInto\<close> (which reads the file
  and writes the temporary one), and the rename or removal at the end of \<^verbatim>\<open>Pack\<close>.
\<close>

datatype job = Free | Check bytes | Build bytes | Finish bytes "unit result" | Send bytes verdict

definition check_job :: "PackOptions \<Rightarrow> bytes \<Rightarrow> files \<Rightarrow> job" where
  "check_job po p fs =
     (case wants_pack po p fs of
        Inl e \<Rightarrow> Send p (Failed e)
      | Inr False \<Rightarrow> Send p Skipped
      | Inr True \<Rightarrow> Build p)"

definition build_job :: "pack_os \<Rightarrow> PackOptions \<Rightarrow> bytes \<Rightarrow> files \<Rightarrow> (job \<times> files) option" where
  "build_job os po p fs =
     (if p = [] then Some (Send p (Failed emptyPath), fs) else
      case pkAbs os p of
        Inl e \<Rightarrow> Some (Send p (Failed e), fs)
      | Inr _ \<Rightarrow>
          (case pack_files os (pack_config (Some po)) p (p @ pkSuffix os) fs of
             None \<Rightarrow> None
           | Some (r, fs) \<Rightarrow> Some (Finish p r, fs)))"

definition finish_job :: "pack_os \<Rightarrow> bytes \<Rightarrow> unit result \<Rightarrow> files \<Rightarrow> verdict \<times> files" where
  "finish_job os p r fs =
     (let target = p @ pkSuffix os in
      case r of
        Inl e \<Rightarrow> (Failed e, os_remove os target fs)
      | Inr _ \<Rightarrow>
          (case pkRename os of
             Inl e \<Rightarrow> (Failed e, os_remove os target fs)
           | Inr _ \<Rightarrow> (Packed, fs(p := fs target, target := None))))"

record many =
  mQueue :: "bytes list"
  mJobs :: "nat \<Rightarrow> job"
  mFiles :: files
  mResults :: "(bytes \<times> verdict) list"

text \<open>\<open>pos p\<close> is what the world does to the pack of the path \<open>p\<close>; worker \<open>i\<close> makes a step.\<close>

inductive worker_step :: "(bytes \<Rightarrow> pack_os) \<Rightarrow> PackOptions \<Rightarrow> nat \<Rightarrow> many \<Rightarrow> many \<Rightarrow> bool" for pos po i where
  receive: "mJobs s i = Free \<Longrightarrow> mQueue s = p # ps \<Longrightarrow>
    worker_step pos po i s (s\<lparr>mQueue := ps, mJobs := (mJobs s)(i := Check p)\<rparr>)"
| check: "mJobs s i = Check p \<Longrightarrow>
    worker_step pos po i s (s\<lparr>mJobs := (mJobs s)(i := check_job po p (mFiles s))\<rparr>)"
| build: "mJobs s i = Build p \<Longrightarrow> build_job (pos p) po p (mFiles s) = Some (j, fs) \<Longrightarrow>
    worker_step pos po i s (s\<lparr>mJobs := (mJobs s)(i := j), mFiles := fs\<rparr>)"
| finish: "mJobs s i = Finish p r \<Longrightarrow> finish_job (pos p) p r (mFiles s) = (v, fs) \<Longrightarrow>
    worker_step pos po i s (s\<lparr>mJobs := (mJobs s)(i := Send p v), mFiles := fs\<rparr>)"
| send: "mJobs s i = Send p v \<Longrightarrow>
    worker_step pos po i s (s\<lparr>mJobs := (mJobs s)(i := Free), mResults := mResults s @ [(p, v)]\<rparr>)"

text \<open>The number of workers, the queue they start with, and the exit code when all results are in.\<close>

definition worker_count :: "int \<Rightarrow> int \<Rightarrow> bytes list \<Rightarrow> nat" where
  "worker_count jobs procs inputs =
     (let parallel = (if jobs \<le> 0 then procs else jobs);
          parallel = (if parallel > int (length inputs) then int (length inputs) else parallel)
      in nat (if parallel \<le> 0 then 1 else parallel))"

definition many_start :: "bytes list \<Rightarrow> files \<Rightarrow> many" where
  "many_start inputs fs = \<lparr>mQueue = inputs, mJobs = (\<lambda>i. Free), mFiles = fs, mResults = []\<rparr>"

definition many_code :: "(bytes \<times> verdict) list \<Rightarrow> nat" where
  "many_code results = (if \<exists>(p, v) \<in> set results. v \<noteq> Skipped \<and> v \<noteq> Packed then 1 else 0)"

inductive runs :: "(bytes \<Rightarrow> pack_os) \<Rightarrow> PackOptions \<Rightarrow> nat \<Rightarrow> many \<Rightarrow> many \<Rightarrow> bool" for pos po n s where
  start: "runs pos po n s s"
| more: "runs pos po n s t \<Longrightarrow> i < n \<Longrightarrow> worker_step pos po i t u \<Longrightarrow> runs pos po n s u"

section \<open>What a pack touches\<close>

definition agree :: "pack_os \<Rightarrow> bytes \<Rightarrow> files \<Rightarrow> files \<Rightarrow> bool" where
  "agree os p f g \<longleftrightarrow> f p = g p \<and> f (p @ pkSuffix os) = g (p @ pkSuffix os)"

definition outside :: "pack_os \<Rightarrow> bytes \<Rightarrow> files \<Rightarrow> files \<Rightarrow> bool" where
  "outside os p f g \<longleftrightarrow> (\<forall>x. x \<noteq> p \<longrightarrow> x \<noteq> p @ pkSuffix os \<longrightarrow> f x = g x)"

lemma agree_refl [simp]: "agree os p f f"
  by (simp add: agree_def)

lemma wants_local: "agree os p f g \<Longrightarrow> wants_pack po p f = wants_pack po p g"
  by (simp add: agree_def wants_pack_def pack_matches_def)

lemma build_local:
  assumes "build_job os po p f = Some (j, f')"
  shows "outside os p f f'" "agree os p f g \<Longrightarrow> \<exists>g'. build_job os po p g = Some (j, g') \<and> agree os p f' g'"
proof -
  show "outside os p f f'"
    using assms by (auto simp: build_job_def pack_files_def outside_def split: if_splits sum.splits option.splits prod.splits)
  show "\<exists>g'. build_job os po p g = Some (j, g') \<and> agree os p f' g'" if "agree os p f g"
    using that assms
    by (auto simp: build_job_def pack_files_def agree_def split: if_splits sum.splits option.splits prod.splits)
qed

lemma finish_local:
  assumes "finish_job os p r f = (v, f')"
  shows "outside os p f f'" "agree os p f g \<Longrightarrow> \<exists>g'. finish_job os p r g = (v, g') \<and> agree os p f' g'"
  using assms
  by (auto simp: finish_job_def os_remove_def Let_def agree_def outside_def split: sum.splits if_splits)

text \<open>The pieces make up the whole.\<close>

lemma pack_pieces:
  "pack_one os po p fs =
    (case check_job po p fs of
       Send q v \<Rightarrow> Some (v, fs)
     | _ \<Rightarrow> (case build_job os po p fs of
         None \<Rightarrow> None
       | Some (Finish q r, fs) \<Rightarrow> Some (finish_job os p r fs)
       | Some (Send q v, fs) \<Rightarrow> Some (v, fs)))"
  by (auto simp: pack_one_def check_job_def build_job_def finish_job_def Pack_def Let_def
      split: sum.split bool.split option.split)

section \<open>Every schedule\<close>

text \<open>The temporary file of one input is neither another input nor its temporary file.\<close>

definition temps_apart :: "(bytes \<Rightarrow> pack_os) \<Rightarrow> bytes list \<Rightarrow> bool" where
  "temps_apart pos inputs \<longleftrightarrow> distinct inputs \<and>
     (\<forall>p \<in> set inputs. \<forall>q \<in> set inputs. p \<noteq> q \<longrightarrow>
        p @ pkSuffix (pos p) \<noteq> q \<and> p @ pkSuffix (pos p) \<noteq> q @ pkSuffix (pos q))"

fun job_paths :: "job \<Rightarrow> bytes multiset" where
  "job_paths Free = {#}"
| "job_paths (Check p) = {#p#}"
| "job_paths (Build p) = {#p#}"
| "job_paths (Finish p r) = {#p#}"
| "job_paths (Send p v) = {#p#}"

definition in_hand :: "nat \<Rightarrow> many \<Rightarrow> bytes multiset" where
  "in_hand n s = mset (mQueue s) + (\<Sum>i<n. job_paths (mJobs s i)) + mset (map fst (mResults s))"

text \<open>Where the work on one path stands, compared with that path packed by itself.\<close>

fun on_track :: "(bytes \<Rightarrow> pack_os) \<Rightarrow> PackOptions \<Rightarrow> files \<Rightarrow> job \<Rightarrow> files \<Rightarrow> bool" where
  "on_track pos po f0 Free f \<longleftrightarrow> True"
| "on_track pos po f0 (Check p) f \<longleftrightarrow> agree (pos p) p f f0"
| "on_track pos po f0 (Build p) f \<longleftrightarrow> agree (pos p) p f f0 \<and> check_job po p f0 = Build p"
| "on_track pos po f0 (Finish p r) f \<longleftrightarrow> check_job po p f0 = Build p \<and>
     (\<exists>g. build_job (pos p) po p f0 = Some (Finish p r, g) \<and> agree (pos p) p f g)"
| "on_track pos po f0 (Send p v) f \<longleftrightarrow>
     (\<exists>g. pack_one (pos p) po p f0 = Some (v, g) \<and> agree (pos p) p f g)"

definition many_inv :: "(bytes \<Rightarrow> pack_os) \<Rightarrow> PackOptions \<Rightarrow> nat \<Rightarrow> bytes list \<Rightarrow> files \<Rightarrow> many \<Rightarrow> bool" where
  "many_inv pos po n inputs f0 s \<longleftrightarrow>
     in_hand n s = mset inputs \<and>
     (\<forall>p \<in> set (mQueue s). agree (pos p) p (mFiles s) f0) \<and>
     (\<forall>i < n. on_track pos po f0 (mJobs s i) (mFiles s)) \<and>
     (\<forall>(p, v) \<in> set (mResults s). on_track pos po f0 (Send p v) (mFiles s))"

lemma agree_outside:
  assumes "temps_apart pos inputs" "p \<in> set inputs" "q \<in> set inputs" "p \<noteq> q" "outside (pos p) p f f'"
  shows "agree (pos q) q f' g \<longleftrightarrow> agree (pos q) q f g"
proof -
  have "q \<noteq> p @ pkSuffix (pos p)" "q @ pkSuffix (pos q) \<noteq> p" "q @ pkSuffix (pos q) \<noteq> p @ pkSuffix (pos p)"
    using assms(1-4) unfolding temps_apart_def by metis+
  then show ?thesis using assms(4,5) by (simp add: outside_def agree_def)
qed

lemma track_outside:
  assumes a: "temps_apart pos inputs" and p: "p \<in> set inputs" and o: "outside (pos p) p f f'"
    and q: "set_mset (job_paths j) \<subseteq> set inputs - {p}" and t: "on_track pos po f0 j f"
  shows "on_track pos po f0 j f'"
proof -
  have "agree (pos q) q f' g \<longleftrightarrow> agree (pos q) q f g" if "job_paths j = {#q#}" for q g
    using agree_outside [OF a p _ _ o, of q] that q by auto
  then show ?thesis using t by (cases j) auto
qed

lemma sum_update:
  fixes g :: "job \<Rightarrow> bytes multiset" and f :: "nat \<Rightarrow> job"
  assumes "i < n"
  shows "(\<Sum>k<n. g ((f(i := x)) k)) = (\<Sum>k \<in> {..<n} - {i}. g (f k)) + g x"
    "(\<Sum>k<n. g (f k)) = (\<Sum>k \<in> {..<n} - {i}. g (f k)) + g (f i)"
proof -
  have "(\<Sum>k \<in> {..<n} - {i}. g ((f(i := x)) k)) = (\<Sum>k \<in> {..<n} - {i}. g (f k))" by (rule sum.cong) auto
  then show "(\<Sum>k<n. g ((f(i := x)) k)) = (\<Sum>k \<in> {..<n} - {i}. g (f k)) + g x"
    "(\<Sum>k<n. g (f k)) = (\<Sum>k \<in> {..<n} - {i}. g (f k)) + g (f i)"
    using assms sum.remove [OF finite_lessThan, of i n "\<lambda>k. g ((f(i := x)) k)"] sum.remove [OF finite_lessThan, of i n "\<lambda>k. g (f k)"]
    by (simp_all add: add.commute)
qed

text \<open>A path that a worker has is nowhere else.\<close>

lemma in_hand_once:
  assumes in_hand: "in_hand n s = mset inputs" and d: "distinct inputs" and i: "i < n" "job_paths (mJobs s i) = {#p#}"
  shows "p \<in> set inputs" "set (mQueue s) \<subseteq> set inputs - {p}" "fst ` set (mResults s) \<subseteq> set inputs - {p}"
    "\<And>k. k < n \<Longrightarrow> k \<noteq> i \<Longrightarrow> set_mset (job_paths (mJobs s k)) \<subseteq> set inputs - {p}"
proof -
  define R where "R = mset (mQueue s) + (\<Sum>k \<in> {..<n} - {i}. job_paths (mJobs s k)) + mset (map fst (mResults s))"
  have eq: "mset inputs = add_mset p R"
    using in_hand sum_update(2) [OF i(1), of job_paths "mJobs s"] i(2) by (simp add: in_hand_def R_def)
  then show p: "p \<in> set inputs" by (metis set_mset_mset union_single_eq_member)
  have "count (mset inputs) p = 1" using d p by (simp add: distinct_count_atmost_1)
  then have "p \<notin># R" using eq by (simp add: not_in_iff)
  moreover have "set_mset R \<subseteq> set inputs" using eq by (metis set_mset_add_mset_insert set_mset_mset subset_insertI)
  ultimately have R: "set_mset R \<subseteq> set inputs - {p}" by blast
  then show "set (mQueue s) \<subseteq> set inputs - {p}" "fst ` set (mResults s) \<subseteq> set inputs - {p}"
    by (auto simp: R_def)
  fix k
  assume "k < n" "k \<noteq> i"
  then have "set_mset (job_paths (mJobs s k)) \<subseteq> set_mset (\<Sum>k \<in> {..<n} - {i}. job_paths (mJobs s k))"
    by (auto simp: set_mset_sum)
  then show "set_mset (job_paths (mJobs s k)) \<subseteq> set inputs - {p}" using R by (auto simp: R_def)
qed

lemma inv_step:
  assumes inv: "many_inv pos po n inputs f0 s" and a: "temps_apart pos inputs" and i: "i < n" "job_paths (mJobs s i) = {#p#}"
    and o: "outside (pos p) p (mFiles s) f'" and j: "job_paths j = {#p#}" "on_track pos po f0 j f'"
  shows "many_inv pos po n inputs f0 (s\<lparr>mJobs := (mJobs s)(i := j), mFiles := f'\<rparr>)"
proof -
  have d: "distinct inputs" and h: "in_hand n s = mset inputs" using a inv by (simp_all add: temps_apart_def many_inv_def)
  note once = in_hand_once [OF h d i]
  have "in_hand n (s\<lparr>mJobs := (mJobs s)(i := j), mFiles := f'\<rparr>) = mset inputs"
    using h sum_update [OF i(1), of job_paths "mJobs s"] i(2) j(1) by (simp add: in_hand_def)
  moreover have "agree (pos q) q f' f0" if "q \<in> set (mQueue s)" for q
    using that inv agree_outside [OF a once(1) _ _ o, of q] once(2) by (auto simp: many_inv_def)
  moreover have "on_track pos po f0 (((mJobs s)(i := j)) k) f'" if "k < n" for k
    using that inv track_outside [OF a once(1) o once(4)] j(2) by (auto simp: many_inv_def)
  moreover have "on_track pos po f0 (Send q v) f'" if "(q, v) \<in> set (mResults s)" for q v
  proof -
    have "q \<in> set inputs - {p}" using that once(3) by force
    moreover have "on_track pos po f0 (Send q v) (mFiles s)" using that inv unfolding many_inv_def by blast
    ultimately show ?thesis using track_outside [OF a once(1) o, of "Send q v"] by simp
  qed
  ultimately show ?thesis unfolding many_inv_def by auto
qed

lemma outside_refl: "outside os p f f"
  by (simp add: outside_def)

lemma check_paths: "job_paths (check_job po p f) = {#p#}"
  by (simp add: check_job_def split: sum.split bool.split)

lemma build_paths: "build_job os po p f = Some (j, f') \<Longrightarrow> job_paths j = {#p#}"
  by (auto simp: build_job_def split: if_splits sum.splits option.splits)

lemma check_kinds:
  assumes "check_job po p f = j"
  shows "j = Build p \<or> (\<exists>v. j = Send p v)"
  using assms by (auto simp: check_job_def split: sum.splits bool.splits)

lemma build_kinds:
  assumes "build_job os po p f = Some (j, f')"
  shows "(\<exists>r. j = Finish p r) \<or> (\<exists>v. j = Send p v)"
  using assms by (auto simp: build_job_def split: if_splits sum.splits option.splits)

lemma work_inv:
  assumes "worker_step pos po i s s'" and inv: "many_inv pos po n inputs f0 s" and a: "temps_apart pos inputs" and i: "i < n"
  shows "many_inv pos po n inputs f0 s'"
  using assms(1)
proof cases
  case (receive p ps)
  have h: "in_hand n s = mset inputs" using inv by (simp add: many_inv_def)
  have "in_hand n s' = mset inputs"
    using h sum_update [OF i, of job_paths "mJobs s"] receive by (simp add: in_hand_def)
  moreover have "on_track pos po f0 (((mJobs s)(i := Check p)) k) (mFiles s)" if "k < n" for k
    using that inv receive by (auto simp: many_inv_def)
  ultimately show ?thesis using inv receive by (auto simp: many_inv_def)
next
  case (check p)
  have f: "agree (pos p) p (mFiles s) f0" using inv i check(2) by (auto simp: many_inv_def dest!: spec [of _ i])
  have eq: "check_job po p (mFiles s) = check_job po p f0" using wants_local [OF f] by (simp add: check_job_def)
  have "on_track pos po f0 (check_job po p (mFiles s)) (mFiles s)"
    using check_kinds [of po p f0 "check_job po p f0"] f by (auto simp: eq pack_pieces)
  from inv_step [OF inv a i _ outside_refl check_paths this] check show ?thesis by simp
next
  case (build p j fs)
  have t: "agree (pos p) p (mFiles s) f0" "check_job po p f0 = Build p"
    using inv i build(2) by (auto simp: many_inv_def dest!: spec [of _ i])
  obtain g where g: "build_job (pos p) po p f0 = Some (j, g)" "agree (pos p) p fs g"
    using build_local(2) [OF build(3) t(1)] by blast
  have "on_track pos po f0 j fs" using build_kinds [OF g(1)] g t(2) by (auto simp: pack_pieces)
  from inv_step [OF inv a i _ build_local(1) [OF build(3)] build_paths [OF build(3)] this] build
  show ?thesis by simp
next
  case (finish p r v fs)
  obtain g where g: "check_job po p f0 = Build p" "build_job (pos p) po p f0 = Some (Finish p r, g)"
    "agree (pos p) p (mFiles s) g"
    using inv i finish(2) by (auto simp: many_inv_def dest!: spec [of _ i])
  obtain g' where "finish_job (pos p) p r g = (v, g')" "agree (pos p) p fs g'"
    using finish_local(2) [OF finish(3) g(3)] by blast
  then have "on_track pos po f0 (Send p v) fs" using g by (simp add: pack_pieces)
  from inv_step [OF inv a i _ finish_local(1) [OF finish(3)] _ this] finish show ?thesis by simp
next
  case (send p v)
  have h: "in_hand n s = mset inputs" using inv by (simp add: many_inv_def)
  have "in_hand n s' = mset inputs"
    using h sum_update [OF i, of job_paths "mJobs s"] send by (simp add: in_hand_def)
  moreover have "on_track pos po f0 (Send p v) (mFiles s)"
    using inv i send(2) by (auto simp: many_inv_def dest!: spec [of _ i])
  ultimately show ?thesis using inv send by (auto simp: many_inv_def simp del: on_track.simps(5))
qed

lemma runs_inv:
  assumes "runs pos po n (many_start inputs f0) s" "temps_apart pos inputs"
  shows "many_inv pos po n inputs f0 s"
  using assms(1)
proof induction
  case start
  show ?case by (simp add: many_inv_def many_start_def in_hand_def)
next
  case (more t i u)
  then show ?case using work_inv assms(2) by blast
qed

text \<open>
  As long as each file by itself can be packed, some worker can go on until all is done, and every
  step brings the end nearer.
\<close>

lemma all_done:
  assumes inv: "many_inv pos po n inputs f0 s" and n: "0 < n" and d: "distinct inputs"
    and total: "\<forall>p \<in> set inputs. pack_one (pos p) po p f0 \<noteq> None"
    and stuck: "\<And>i t. i < n \<Longrightarrow> \<not> worker_step pos po i s t"
  shows "mQueue s = []" "\<forall>i < n. mJobs s i = Free"
proof -
  have h: "in_hand n s = mset inputs" using inv by (simp add: many_inv_def)
  show free: "\<forall>i < n. mJobs s i = Free"
  proof (intro allI impI)
    fix i assume i: "i < n"
    show "mJobs s i = Free"
    proof (cases "mJobs s i")
      case (Check p)
      then show ?thesis using worker_step.check stuck [OF i] by blast
    next
      case (Build p)
      have t: "agree (pos p) p f0 (mFiles s)" "check_job po p f0 = Build p"
        using inv i Build by (auto simp: many_inv_def agree_def dest!: spec [of _ i])
      have "p \<in> set inputs" using in_hand_once(1) [OF h d i, of p] Build by simp
      then have "pack_one (pos p) po p f0 \<noteq> None" using total by blast
      then obtain j g where "build_job (pos p) po p f0 = Some (j, g)"
        using t(2) by (auto simp: pack_pieces split: option.splits)
      then show ?thesis using build_local(2) [OF _ t(1)] worker_step.build [OF Build] stuck [OF i] by blast
    next
      case (Finish p r)
      then show ?thesis using worker_step.finish stuck [OF i] by (metis surj_pair)
    next
      case (Send p v)
      then show ?thesis using worker_step.send stuck [OF i] by blast
    qed
  qed
  show "mQueue s = []"
  proof (cases "mQueue s")
    case (Cons p ps)
    then show ?thesis using worker_step.receive [OF _ Cons] free n stuck by blast
  qed
qed




text \<open>The number of steps of a run bounds the work left; \<open>run_of\<close> counts the steps.\<close>

inductive run_of :: "(bytes \<Rightarrow> pack_os) \<Rightarrow> PackOptions \<Rightarrow> nat \<Rightarrow> many \<Rightarrow> nat \<Rightarrow> many \<Rightarrow> bool" for pos po n s where
  none: "run_of pos po n s 0 s"
| one_more: "run_of pos po n s k t \<Longrightarrow> i < n \<Longrightarrow> worker_step pos po i t u \<Longrightarrow> run_of pos po n s (Suc k) u"


lemma runs_run_of: "runs pos po n s t \<Longrightarrow> \<exists>k. run_of pos po n s k t"
  by (induction rule: runs.induct) (auto intro: run_of.intros)


section \<open>The skip\<close>

text \<open>
  What docs/CLI.md says of the skip: neither chunk size is given, the metadata stays, the header counts
  no dead bytes, and every chunk record of the container has the codec and the level asked for.
\<close>

definition nothing_to_do :: "PackOptions \<Rightarrow> bytes \<Rightarrow> HeaderV1 \<Rightarrow> EntryV1 list \<Rightarrow> bool" where
  "nothing_to_do po f h es \<longleftrightarrow>
     poChunkText po = 0 \<and> poChunkBin po = 0 \<and> \<not> poClearMeta po \<and>
     fst (readCompactionStatsFromHeader h) = 0 \<and>
     (\<forall>e \<in> set es. \<forall>ref \<in> set (Chunks e).
        rec_codec f ref = poCodec po \<and> uint (rec_level f ref) = poLevel po)"

lemma pack_decision:
  assumes "fs p = Some f" "represents L f h bu es s"
  shows "wants_pack po p fs = Inr (\<not> nothing_to_do po f h es)"
    "(if pack_inspects po then pack_matches po p fs else Inr False) = Inr (nothing_to_do po f h es)"
  using assms(1) matches_exactly [OF assms(2), of "poCodec po" "poLevel po"]
  by (auto simp: wants_pack_def pack_inspects_def pack_matches_def nothing_to_do_def)

text \<open>
  C34: the whole decision to skip. On a container, \<^verbatim>\<open>pack-many\<close> skips the file, and leaves it alone, exactly
  if there is nothing to do; otherwise the result is that of \<^verbatim>\<open>Pack\<close> in place. \<^verbatim>\<open>pack\<close> does the same if the
  output is the input, and never skips if it is another file.
\<close>

theorem pack_skip_exact:
  assumes "fs p = Some f" "represents L f h bu es s"
  shows "((\<exists>g. pack_one os po p fs = Some (Skipped, g)) \<longleftrightarrow> nothing_to_do po f h es) \<and>
    pack_one os po p fs =
      (if nothing_to_do po f h es then Some (Skipped, fs)
       else map_option (\<lambda>(r, g). (case r of Inl e \<Rightarrow> Failed e | Inr _ \<Rightarrow> Packed, g)) (Pack os p p (Some po) fs)) \<and>
    (pack_flag_options fl = Inr po \<longrightarrow>
      runPack os fl p out fs =
        (if (out = [] \<or> out = p) \<and> nothing_to_do po f h es then Some (0, fs)
         else map_option (\<lambda>(r, g). (if isl r then 1 else 0, g))
           (Pack os p (if out = [] then p else out) (Some po) fs)))"
proof (intro conjI impI)
  note d = pack_decision [of fs p, OF assms, of po]
  show one: "pack_one os po p fs =
      (if nothing_to_do po f h es then Some (Skipped, fs)
       else map_option (\<lambda>(r, g). (case r of Inl e \<Rightarrow> Failed e | Inr _ \<Rightarrow> Packed, g)) (Pack os p p (Some po) fs))"
    by (auto simp: pack_one_def d(1) split: option.splits sum.splits)
  show "(\<exists>g. pack_one os po p fs = Some (Skipped, g)) \<longleftrightarrow> nothing_to_do po f h es"
    unfolding one by (auto split: sum.splits)
  assume fl: "pack_flag_options fl = Inr po"
  show "runPack os fl p out fs =
        (if (out = [] \<or> out = p) \<and> nothing_to_do po f h es then Some (0, fs)
         else map_option (\<lambda>(r, g). (if isl r then 1 else 0, g))
           (Pack os p (if out = [] then p else out) (Some po) fs))"
    using d(2) by (auto simp: runPack_def fl Let_def split: option.splits sum.splits)
qed

section \<open>From the flags to the results\<close>

lemma inputs_distinct: "distinct (uniqueSortedStrings xs)" "[] \<notin> set (uniqueSortedStrings xs)"
  by (auto simp: uniqueSortedStrings_def)

text \<open>
  From the flags to the start of the workers: the options of every pack, the files and the number of
  workers, or \<open>None\<close> for the exit code 2. \<open>glob\<close> is \<^verbatim>\<open>filepath.Glob\<close>.
\<close>

definition many_setup ::
  "(bytes \<Rightarrow> bytes list result) \<Rightarrow> pack_flags \<Rightarrow> int \<Rightarrow> int \<Rightarrow> bytes \<Rightarrow> bytes list \<Rightarrow> (PackOptions \<times> bytes list \<times> nat) option" where
  "many_setup glob fl jobs procs pattern args =
     (if args = [] \<and> pattern = [] then None else
      case pack_flag_options fl of Inl _ \<Rightarrow> None | Inr po \<Rightarrow>
     (case (if pattern = [] then Inr [] else glob pattern) of Inl _ \<Rightarrow> None | Inr found \<Rightarrow>
      let inputs = uniqueSortedStrings (args @ found) in
      if inputs = [] then None else Some (po, inputs, worker_count jobs procs inputs)))"

text \<open>Every file is given once, and there is work for each of the workers.\<close>

lemma many_setup_inputs:
  assumes "many_setup glob fl jobs procs pattern args = Some (po, inputs, n)"
  shows "distinct inputs" "sorted inputs" "[] \<notin> set inputs" "0 < n" "n \<le> length inputs"
    "set args - {[]} \<subseteq> set inputs"
proof -
  obtain po' found where r: "pack_flag_options fl = Inr po'" "(if pattern = [] then Inr [] else glob pattern) = Inr found"
    using assms unfolding many_setup_def
    by (cases "pack_flag_options fl"; cases "if pattern = [] then Inr [] else glob pattern") (auto split: if_splits)
  then have i: "inputs = uniqueSortedStrings (args @ found)" "inputs \<noteq> []" "n = worker_count jobs procs inputs"
    using assms unfolding many_setup_def r Let_def by (auto split: if_splits)
  show "distinct inputs" "sorted inputs" "[] \<notin> set inputs" "set args - {[]} \<subseteq> set inputs"
    unfolding i(1) by (auto simp: uniqueSortedStrings_def)
  have "Suc 0 \<le> length inputs" using i(2) by (cases inputs) simp_all
  then show "0 < n" "n \<le> length inputs" unfolding i(3) by (auto simp: worker_count_def Let_def)
qed

text \<open>
  C13: whatever way the workers of \<^verbatim>\<open>pack-many\<close> interleave, when none of them can go on every input has
  exactly one result, which is the one a pack of that file by itself gives, and the file is what that
  pack leaves: nothing is packed twice, forgotten, or disturbed by another worker. The exit code is 0
  exactly if no pack failed.
\<close>

theorem pack_many_schedules:
  assumes run: "runs pos po n (many_start inputs fs) s" and a: "temps_apart pos inputs" and n: "0 < n"
    and total: "\<forall>p \<in> set inputs. pack_one (pos p) po p fs \<noteq> None"
    and stuck: "\<And>i t. i < n \<Longrightarrow> \<not> worker_step pos po i s t"
  shows "mset (map fst (mResults s)) = mset inputs \<and>
    (\<forall>(p, v) \<in> set (mResults s). \<exists>g. pack_one (pos p) po p fs = Some (v, g) \<and> mFiles s p = g p) \<and>
    (many_code (mResults s) = 0 \<longleftrightarrow>
      (\<forall>p \<in> set inputs. \<exists>g. pack_one (pos p) po p fs \<in> {Some (Skipped, g), Some (Packed, g)}))"
proof -
  have inv0: "many_inv pos po n inputs fs s" by (rule runs_inv [OF run a])
  have "distinct inputs" using a by (simp add: temps_apart_def)
  note fin = all_done [OF inv0 n this total stuck]
  note inv = inv0 [unfolded many_inv_def]
  have "(\<Sum>i<n. job_paths (mJobs s i)) = {#}" using fin(2) by simp
  then have m: "mset (map fst (mResults s)) = mset inputs" using inv fin(1) by (simp add: in_hand_def)
  have r: "\<forall>(p, v) \<in> set (mResults s). \<exists>g. pack_one (pos p) po p fs = Some (v, g) \<and> mFiles s p = g p"
    using inv by (fastforce simp: agree_def)
  have "fst ` set (mResults s) = set inputs" using m by (metis list.set_map set_mset_mset)
  then have ins: "p \<in> set inputs \<longleftrightarrow> (\<exists>v. (p, v) \<in> set (mResults s))" for p by force
  have one: "\<exists>g. pack_one (pos p) po p fs = Some (v, g)" if "(p, v) \<in> set (mResults s)" for p v
    using r that by blast
  have "many_code (mResults s) = 0 \<longleftrightarrow> (\<forall>p v. (p, v) \<in> set (mResults s) \<longrightarrow> v = Skipped \<or> v = Packed)"
    by (auto simp: many_code_def)
  also have "\<dots> \<longleftrightarrow> (\<forall>p \<in> set inputs. \<exists>g. pack_one (pos p) po p fs \<in> {Some (Skipped, g), Some (Packed, g)})"
    (is "?l \<longleftrightarrow> ?r")
  proof
    assume l: ?l
    show ?r
    proof
      fix p assume "p \<in> set inputs"
      then obtain v where v: "(p, v) \<in> set (mResults s)" using ins by blast
      then show "\<exists>g. pack_one (pos p) po p fs \<in> {Some (Skipped, g), Some (Packed, g)}"
        using l one [OF v] by auto
    qed
  next
    assume rr: ?r
    show ?l
    proof (intro allI impI)
      fix p v assume v: "(p, v) \<in> set (mResults s)"
      then have "p \<in> set inputs" using ins by blast
      then show "v = Skipped \<or> v = Packed" using rr one [OF v] by fastforce
    qed
  qed
  finally show ?thesis using m r by blast
qed


end
