(* ===== verification/SampleTool.thy ===== *)
theory SampleTool
  imports SampleStale SamplePack SampleCli TextSpec PackMany
begin

text \<open>The commands of the tool on the container of the samples.\<close>

definition sample_tool :: cli_env where
  "sample_tool = \<lparr>cvLib = sample_lib, cvProcs = 1, cvCommit = sample_commit, cvEntry = (\<lambda>i. sample_env),
     cvValid = (\<lambda>b. True), cvRawMap = (\<lambda>b. Inr []), cvReadFile = (\<lambda>p. Inr [])\<rparr>"

lemma sample_tool_simps [simp]:
  "cvLib sample_tool = sample_lib" "cvProcs sample_tool = 1" "cvCommit sample_tool = sample_commit"
  "cvEntry sample_tool i = sample_env" "cvValid sample_tool b" "mBuildTime sample_commit = 5"
  "nLib sample_env = sample_lib"
  by (simp_all add: sample_tool_def sample_commit_def sample_env_def)

lemma sample_opened:
  obtains c tx c1 where "Open sample_lib 1 None sample_d1 = (Inr c, sample_d1)" "caches c sample_h1 5 sample_es1"
    "cOpts c = defaultOptions 1" "Begin c sample_d1 = Some (Inr tx, c1, sample_d1)"
    "begun sample_lib c sample_d1 tx c1 sample_d1 sample_store" "caches c1 sample_h1 5 sample_es1"
proof -
  obtain c where c: "Open sample_lib 1 None sample_d1 = (Inr c, sample_d1)" "caches c sample_h1 5 sample_es1"
    "\<not> cTxHeld c" "cOpts c = defaultOptions 1"
    using open_outcome [OF sample_full(1), of 1 None] by (auto simp: effectiveOptions_def)
  obtain tx c1 where "Begin c sample_d1 = Some (Inr tx, c1, sample_d1)"
    "begun sample_lib c sample_d1 tx c1 sample_d1 sample_store" "caches c1 sample_h1 5 sample_es1"
    by (rule begin_quiet [OF sample_full(1) c(2,3) sample_add_run(2)])
  then show thesis using that c by blast
qed

text \<open>A transaction on it is committed.\<close>

lemma sample_finish:
  assumes c: "caches c sample_h1 5 sample_es1" and d: "plan d = []" "length (content d) \<le> 2 ^ 62"
    and inv: "tx_inv sample_lib 256 f tx s" "\<not> tClosed tx"
    and off: "256 \<le> unat (tAppendOffset tx)" "unat (tAppendOffset tx) < 2 ^ 62"
    and es: "commit_entries tx = [] \<or> (\<exists>e. commit_entries tx = [e] \<and> length (enc_entry e) \<le> 2 ^ 20 \<and>
      (\<forall>bu off gen. crc32 (index_blob (built_index bu [e] off gen)) \<noteq> 0))"
  shows "commit_fits c tx 5"
    "\<exists>tx' c' d'. Commit sample_commit c tx d = (Inr (), tx', c', d') \<and> length (content d') < 2 ^ 63"
proof -
  show fit: "commit_fits c tx 5"
    using es
  proof
    assume "commit_entries tx = []"
    then show ?thesis using off by (intro empty_fits)
  next
    assume "\<exists>e. commit_entries tx = [e] \<and> length (enc_entry e) \<le> 2 ^ 20 \<and>
      (\<forall>bu off gen. crc32 (index_blob (built_index bu [e] off gen)) \<noteq> 0)"
    then show ?thesis using off
      by (auto simp: commit_fits_def commit_index_def simp del: length_enc_entry)
  qed
  have hv: "header_valid (cHeader c)"
    using c sample_full(1) stored_length by (auto simp: represents_def holds_def caches_def)
  have t: "table_ok 256 (unat (tAppendOffset tx)) (tEntries tx)" using inv(1) by (simp add: tx_inv_def)
  have fit': "commit_fits c tx (mBuildTime sample_commit)" using fit by simp
  have b: "unat (tAppendOffset tx) + 2 ^ 32 < 2 ^ 63" using off(2) by simp
  obtain tx' c' d' where "Commit sample_commit c tx d = (Inr (), tx', c', d')"
    "length (content d') \<le> max (length (content d)) (unat (tAppendOffset tx) + 2 ^ 32)"
    using commit_quiet [OF d(1) hv fit' t b inv(2)] by blast
  then show "\<exists>tx' c' d'. Commit sample_commit c tx d = (Inr (), tx', c', d') \<and> length (content d') < 2 ^ 63"
    using d(2) b by fastforce
qed

theorem replace_text_pieces_witness:
  "\<exists>ps. [7, 1, 1, 1, 8] = join_with [1, 1] ps \<and> join_with [9] ps = [7, 9, 1, 8] \<and> length ps = 2 \<and> pieces [1, 1] ps"
proof -
  have "replace_text [7, 1, 1, 1, 8] [1, 1] [9] = [7, 9, 1, 8]" "count_text [7, 1, 1, 1, 8] [1, 1] = 1"
    by (simp_all add: replace_text.simps count_text.simps has_prefix_def)
  then show ?thesis using replace_text_pieces [of "[1, 1]" "[7, 1, 1, 1, 8]" "[9]"] by auto
qed

theorem find_command_witness:
  "runFind sample_tool \<lparr>ffPrefix = [], ffGlob = [42], ffContains = [97]\<rparr> sample_d1 = ((0, [[97]]), sample_d1)"
proof -
  have m: "path_match [42] [97] = Inr True" "\<not> isl (check_rest [42])"
    by (simp_all add: path_match.simps check_rest.simps scan_chunk_def)
  obtain ps where ps: "runFind sample_tool \<lparr>ffPrefix = [], ffGlob = [42], ffContains = [97]\<rparr> sample_d1 = ((0, ps), sample_d1)"
    "sorted ps" "distinct ps" "set ps = {p \<in> dom sample_store. (\<exists>t u. p = t @ [97] @ u) \<and> path_match [42] p = Inr True}"
    using find_command [of sample_tool sample_d1, unfolded sample_tool_simps, OF sample_full(1), of "\<lparr>ffPrefix = [], ffGlob = [42], ffContains = [97]\<rparr>"] m(2)
    by auto
  have "set ps = {[97]}" using m(1) by (auto simp: ps(4) sample_store_def intro: exI [of _ "[]"])
  then have "ps = [[97]]" using ps(3) by (cases ps; cases "tl ps") auto
  then show ?thesis using ps(1) by simp
qed


text \<open>All entries removed by a pattern and a size.\<close>

definition sample_rm :: rm_flags where
  "sample_rm = \<lparr>rfPrefix = [], rfGlob = [42], rfContains = [], rfMinSize = 3, rfMaxSize = 0\<rparr>"

lemma sample_rm_gone: "dom sample_store \<inter> rm_gone sample_rm [] sample_store = {[97]}"
  "sample_store |` (- rm_gone sample_rm [] sample_store) = Map.empty"
proof -
  have "path_match [42] [97] = Inr True" by (simp add: path_match.simps scan_chunk_def)
  then have "[97] \<in> rm_gone sample_rm [] sample_store"
    by (simp add: rm_gone_def sample_rm_def glob_pattern_def to_slash_def)
  then show "dom sample_store \<inter> rm_gone sample_rm [] sample_store = {[97]}"
    "sample_store |` (- rm_gone sample_rm [] sample_store) = Map.empty"
    by (auto simp: sample_store_def restrict_map_def)
qed

lemma sample_steps:
  assumes inv: "tx_inv sample_lib 256 f tx sample_store" and nc: "\<not> tClosed tx"
  shows "\<exists>tx'. rm_steps sample_rm [] tx = ((1, None), tx') \<and> tEntries tx' = []"
proof -
  obtain n e tx1 where 1: "Tx_RemoveGlob [42] tx = ((n, e), tx1)" by (metis surj_pair)
  have g: "glob_pattern [42] = [42]" "\<not> isl (check_rest [42])"
    by (simp_all add: glob_pattern_def to_slash_def check_rest.simps scan_chunk_def)
  have m: "path_match [42] [97] = Inr True" by (simp add: path_match.simps scan_chunk_def)
  have "{p \<in> dom sample_store. path_match [42] p = Inr True} = {[97]}"
    "sample_store |` (- {p. path_match [42] p = Inr True}) = Map.empty"
    using m by (auto simp: sample_store_def restrict_map_def)
  then have o: "n = 1" "e = None" "tx_inv sample_lib 256 f tx1 Map.empty"
    using removeGlob_outcome [OF inv 1 nc] g by simp_all
  have "tEntries tx1 = []" using o(3) no_entries by (auto simp: tx_inv_def)
  moreover have "\<not> tClosed tx1" using removals_only(2) [OF 1] nc by simp
  ultimately show ?thesis using 1 o by (simp add: rm_steps_def sample_rm_def rm_step_def Tx_RemoveWhere_def)
qed

lemma sample_rm_run:
  "\<exists>d. runRm sample_tool sample_rm [] sample_d1 = Some ((0, Some 1), d) \<and> length (content d) < 2 ^ 63"
  "Open sample_lib 1 None sample_d1 = (Inr c, sample_d1) \<Longrightarrow>
    run_fits sample_commit (rm_op sample_rm []) c sample_d1"
proof -
  obtain c tx c1 where c: "Open sample_lib 1 None sample_d1 = (Inr c, sample_d1)"
    "Begin c sample_d1 = Some (Inr tx, c1, sample_d1)"
    "begun sample_lib c sample_d1 tx c1 sample_d1 sample_store" "caches c1 sample_h1 5 sample_es1"
    by (rule sample_opened)
  have inv: "tx_inv sample_lib 256 (content sample_d1) tx sample_store" "\<not> tClosed tx"
    "unat (tAppendOffset tx) = length (content sample_d1)" using c(3) by (simp_all add: begun_def)
  obtain tx1 where t: "rm_steps sample_rm [] tx = ((1, None), tx1)" "tEntries tx1 = []"
    using sample_steps [OF inv(1,2)] by blast
  note r = removesD [OF removes_all [of sample_lib sample_store] t(1)]
  have inv1: "tx_inv sample_lib 256 (content sample_d1) tx1 Map.empty" "\<not> tClosed tx1"
    using r(2) r(3) [OF inv(1) map_le_refl refl] inv(2) sample_rm_gone(2) by simp_all
  have off: "256 \<le> unat (tAppendOffset tx1)" "unat (tAppendOffset tx1) < 2 ^ 62"
    using r(1) inv(3) sample_valid(2) sample_add_run(3) by simp_all
  have es: "commit_entries tx1 = []" using t(2) by (simp add: commit_entries_def)
  have len: "length (content sample_d1) \<le> 2 ^ 62" using sample_add_run(3) by simp
  note fin = sample_finish [OF c(4) sample_add_run(2) len inv1 off disjI1 [OF es]]
  show "run_fits sample_commit (rm_op sample_rm []) c' sample_d1"
    if "Open sample_lib 1 None sample_d1 = (Inr c', sample_d1)" for c'
    using that c(1,2) t(1) fin(1) by (simp add: run_fits_def rm_op_def)
  obtain tx' c' d' where cm: "Commit sample_commit c1 tx1 sample_d1 = (Inr (), tx', c', d')" "length (content d') < 2 ^ 63"
    using fin(2) by blast
  have "runRm sample_tool sample_rm [] sample_d1 = Some ((0, Some 1), d')"
    using c(1,2) t(1) cm(1) by (simp add: runRm_def) (simp add: sample_rm_def)
  then show "\<exists>d. runRm sample_tool sample_rm [] sample_d1 = Some ((0, Some 1), d) \<and> length (content d) < 2 ^ 63"
    using cm(2) by blast
qed

theorem rm_command_witness:
  "\<exists>d h es. runRm sample_tool sample_rm [] sample_d1 = Some ((0, Some 1), d) \<and>
     represents sample_lib (content d) h 5 es Map.empty"
proof -
  obtain d where d: "runRm sample_tool sample_rm [] sample_d1 = Some ((0, Some 1), d)" "length (content d) < 2 ^ 63"
    using sample_rm_run(1) by blast
  show ?thesis
    using rm_command [of sample_tool sample_d1, unfolded sample_tool_simps, OF sample_full(1) sample_rm_run(2) d] d(1)
    by (auto simp: sample_rm_gone)
qed

text \<open>A text that is all of the contents replaced by nothing.\<close>

definition sample_put :: put_flags where
  "sample_put = \<lparr>pfAs = [], pfMetaJSON = [49], pfMetaFile = [], pfKeepMeta = False, pfCodec = ascii ''store'',
     pfLevel = 0, pfChunkSize = 0, pfMaxEntry = 0, pfMaxChunk = 0\<rparr>"

definition sample_text :: text_flags where
  "sample_text = \<lparr>tfFind = [1, 2, 3], tfReplace = [], tfPrefix = [], tfGlob = [], tfDryRun = False,
     tfPut = sample_put\<rparr>"

lemma sample_put_flags:
  "parseCodec (pfCodec sample_put) = Inr CodecStore"
  "buildLimitOptions (pfMaxEntry sample_put) (pfMaxChunk sample_put) = Inr None"
  "loadMeta sample_tool (pfMetaJSON sample_put) (pfMetaFile sample_put) = Inr [49]"
  by (simp_all add: sample_put_def parseCodec_def buildLimitOptions_def loadMeta_def)

lemma sample_put_ok: "env_ok sample_env (defaultOptions 1) (Some (put_write_options sample_put codec m x y))"
  unfolding env_ok_def using sample_laws sample_scheduler
  by (auto simp: defaultOptions_def sample_env_def put_write_options_def sample_put_def
      intro!: exI [of _ 4194304] sample_records)

lemma sample_safe: "path_safe [97]" "\<forall>q \<in> dom sample_store. path_safe q"
  by (simp_all add: path_safe_def bad_part_def utf8_valid.simps sample_store_def)

lemma write_empty_put:
  assumes "wChunkSize w = 0"
  shows "\<exists>e. writeEntry sample_env (defaultOptions 1) path (Some ([], IoEOF)) meta (Some w) tx d = Some (Inr e, tx, d) \<and>
     length (enc_entry (norm_entry e)) = 44 + length meta + length path \<and> Path (norm_entry e) = path"
proof -
  obtain p where p: "write_entry_params sample_env (defaultOptions 1) path [] (Some w) = Inr p" "0 < nat (wpChunkSize p)"
    using params_total by fastforce
  have "wpWorkers p \<le> 1"
    using p(1) by (auto simp: write_entry_params_def Let_def inr_simps defaultOptions_def split: prod.splits)
  with p(2) have "writeChunks ord L codec level (nat (wpChunkSize p)) (wpWorkers p) m d off ([], IoEOF) =
      Some (Inr ([], 0), d, off)" for ord L codec level m d off
    by (simp add: writeChunks_def writeChunksSequential_def write_nothing)
  then show ?thesis by (simp add: writeEntry_def p(1) norm_entry_def)
qed

lemma small_index_crc:
  assumes "length (enc_entry e) = 46" "Path e = [97]"
  shows "crc32 (index_blob (built_index bu [e] off gen)) \<noteq> 0"
proof (rule index_crc_rest)
  have hash: "FNV1a64 [97] = 0xAF63DC4C8601EC8C" by (simp add: FNV1a64_def fnv64Offset_def fnv64Prime_def)
  have rows: "rows_of 20 [e] = [\<lparr>xDirEntryOffset = 20, xDirEntrySize = 46,
      xPathHash64 = 0xAF63DC4C8601EC8C, xPathOffset = 65, xPathSize = 1\<rparr>]"
    by (simp only: rows_of.simps assms) (simp add: hash)
  show "foldl crc_byte 0xDEBB20E3 (concat (map enc_index_row (iEntries (built_index bu [e] off gen))) @
      concat (map enc_hash_range (iHashRanges (built_index bu [e] off gen)))) \<noteq> 0xFFFFFFFF"
    unfolding one_row [OF rows]
    by (simp add: enc_index_row_def enc_hash_range_def put_u64_def put_u32_def le_put_numeral crc_eval)
qed

lemma sample_listed:
  assumes "Begin c sample_d1 = Some (Inr tx, c1, sample_d1)" "caches c1 sample_h1 5 sample_es1"
  obtains e where "container_List c1 (content sample_d1) = (newSliceIterator [e] None, c1)"
    "iPath e = [97]" "iMeta e = [5]"
proof -
  obtain vs c2 where l: "container_List c1 (content sample_d1) = (newSliceIterator vs None, c2)" "caches c2 sample_h1 5 sample_es1"
    "sorted (map iPath vs)" "distinct (map iPath vs)" "iPath ` set vs = dom sample_store"
    "\<forall>e \<in> set vs. \<exists>data. sample_store (iPath e) = Some (data, iMeta e) \<and> unat (iSize e) = length data"
    by (rule listed_store [OF sample_full(1) assms(2)])
  have "iPath ` set vs = {[97]}" using l(5) by (simp add: sample_store_def)
  then obtain e where "vs = [e]" "iPath e = [97]" using l(4) by (cases vs; cases "tl vs") auto
  then show thesis using that l(1,6) begin_loads [OF assms(1), of "content sample_d1"] by (auto simp: sample_store_def)
qed

lemma sample_one_entry:
  assumes "tx_inv sample_lib lo f tx sample_store"
  obtains old where "tEntries tx = [([97], old)]"
proof -
  have "fst ` set (tEntries tx) = {[97]}" "distinct (map fst (tEntries tx))"
    using dom_table [OF assms] assms by (auto simp: sample_store_def tx_inv_def dest: table_ok_distinct)
  then show thesis using that by (cases "tEntries tx"; cases "tl (tEntries tx)") auto
qed

lemma sample_text_selects: "text_selects sample_text p"
  by (simp add: text_selects_def sample_text_def)

lemma sample_text_hits:
  "count_text [1, 2, 3] (tfFind sample_text) = 1" "replace_text [1, 2, 3] (tfFind sample_text) (tfReplace sample_text) = []"
  by (simp_all add: sample_text_def count_text.simps replace_text.simps has_prefix_def)

lemma sample_loop:
  assumes b: "Begin c sample_d1 = Some (Inr tx, c1, sample_d1)" and c1: "caches c1 sample_h1 5 sample_es1"
    and bg: "begun sample_lib c sample_d1 tx c1 sample_d1 sample_store" and opts: "cOpts c = defaultOptions 1"
  obtains e en tx1 where "container_List c1 (content sample_d1) = (newSliceIterator [e] None, c1)"
    "text_loop sample_tool sample_text CodecStore c1 0 [e] (0, 0) (Some tx) sample_d1 = Some (Inr (1, 1), Some tx1, sample_d1)"
    "commit_entries tx1 = [norm_entry en]" "length (enc_entry (norm_entry en)) = 46" "Path (norm_entry en) = [97]"
    "tAppendOffset tx1 = tAppendOffset tx" "\<not> tClosed tx1"
proof -
  obtain e where l: "container_List c1 (content sample_d1) = (newSliceIterator [e] None, c1)" "iPath e = [97]" "iMeta e = [5]"
    by (rule sample_listed [OF b c1])
  have o1: "cOpts c1 = defaultOptions 1" using bg opts by (simp add: begun_def)
  have lim: "oMaxEntrySize (defaultOptions 1) = 0" "oMaxChunkSize (defaultOptions 1) = 0" by (simp_all add: defaultOptions_def)
  have "sample_store [97] = Some ([1, 2, 3], [5])" by (simp add: sample_store_def)
  then have x: "Extract sample_lib c1 (content sample_d1) [97] = Some ([1, 2, 3], Inr ())"
    using extract_outcome [OF sample_full(1) c1 sample_path] lim o1 by auto
  have inv: "tx_inv sample_lib 256 (content sample_d1) tx sample_store" "\<not> tClosed tx" using bg by (simp_all add: begun_def)
  obtain old where old: "tEntries tx = [([97], old)]" by (rule sample_one_entry [OF inv(1)])
  let ?w = "put_write_options (tfPut sample_text) CodecStore (iMTimeUnix e) (iMode e) (iEntryFlags e)"
  have w: "wChunkSize ?w = 0" by (simp add: put_write_options_def sample_text_def sample_put_def)
  let ?tx = "markObsolete old tx"
  have t: "tEntries ?tx = tEntries tx" "tClosed ?tx = tClosed tx" "tAppendOffset ?tx = tAppendOffset tx"
    by (simp_all add: markObsolete_def)
  obtain en where en: "writeEntry sample_env (defaultOptions 1) [97] (Some ([], IoEOF)) [5] (Some ?w) ?tx sample_d1 =
      Some (Inr en, ?tx, sample_d1)" "length (enc_entry (norm_entry en)) = 46" "Path (norm_entry en) = [97]"
    using write_empty_put [OF w, of "[97]" "[5]" ?tx sample_d1] by auto
  have up: "Tx_Upsert sample_env (defaultOptions 1) [97] (Some ([], IoEOF)) [5] (Some ?w) tx sample_d1 =
      Some (Inr (), ?tx\<lparr>tEntries := [([97], en)]\<rparr>, sample_d1)"
    using inv(2) old en(1) t by (simp add: Tx_Upsert_def sample_path write_and_put_def)
  show thesis
  proof (rule that [OF l(1)])
    show "text_loop sample_tool sample_text CodecStore c1 0 [e] (0, 0) (Some tx) sample_d1 =
        Some (Inr (1, 1), Some (?tx\<lparr>tEntries := [([97], en)]\<rparr>), sample_d1)"
      by (simp add: sample_text_selects l(2,3) x sample_text_hits o1 up)
    show "commit_entries (?tx\<lparr>tEntries := [([97], en)]\<rparr>) = [norm_entry en]" by (simp add: commit_entries_def)
  qed (use en(2,3) t inv(2) in simp_all)
qed

lemma sample_text_run:
  "\<exists>d. runReplaceText sample_tool sample_text sample_d1 = Some ((0, Some (1, 1)), d) \<and> length (content d) < 2 ^ 63"
  "text_fits sample_tool sample_text sample_d1"
proof -
  obtain c tx c1 where c: "Open sample_lib 1 None sample_d1 = (Inr c, sample_d1)" "cOpts c = defaultOptions 1"
    "Begin c sample_d1 = Some (Inr tx, c1, sample_d1)"
    "begun sample_lib c sample_d1 tx c1 sample_d1 sample_store" "caches c1 sample_h1 5 sample_es1"
    "caches c sample_h1 5 sample_es1"
    by (rule sample_opened)
  obtain e en tx1 where t: "container_List c1 (content sample_d1) = (newSliceIterator [e] None, c1)"
    "text_loop sample_tool sample_text CodecStore c1 0 [e] (0, 0) (Some tx) sample_d1 = Some (Inr (1, 1), Some tx1, sample_d1)"
    "commit_entries tx1 = [norm_entry en]" "length (enc_entry (norm_entry en)) = 46" "Path (norm_entry en) = [97]"
    "tAppendOffset tx1 = tAppendOffset tx" "\<not> tClosed tx1"
    by (rule sample_loop [OF c(3,5,4,2)])
  have inv: "tx_inv sample_lib 256 (content sample_d1) tx sample_store"
    "unat (tAppendOffset tx) = length (content sample_d1)" using c(4) by (simp_all add: begun_def)
  have o1: "cOpts c1 = defaultOptions 1" using c(2,4) by (simp add: begun_def)
  then have te: "text_env sample_tool sample_text (cOpts c1)"
    using sample_put_ok by (simp add: text_env_def) (simp add: sample_text_def)
  obtain vs c2 where vs: "container_List c1 (content sample_d1) = (newSliceIterator vs None, c2)"
    "iPath ` set vs = dom sample_store"
    "\<forall>e \<in> set vs. \<exists>data. sample_store (iPath e) = Some (data, iMeta e) \<and> unat (iSize e) = length data"
    by (rule listed_store [OF sample_full(1) c(5)])
  moreover have "vs = [e]" using vs(1) t(1) by (simp add: newSliceIterator_def)
  ultimately have infos: "\<forall>e \<in> set [e]. path_safe (iPath e) \<and> (\<exists>data. sample_store (iPath e) = Some (data, iMeta e))"
    using sample_safe(2) by blast
  have d: "length (content sample_d1) < 2 ^ 63" "length (content sample_d1) \<le> 2 ^ 62" using sample_add_run(3) by simp_all
  have inv1: "\<exists>s. tx_inv sample_lib 256 (content sample_d1) tx1 s"
    using text_loop_outcome [of sample_tool "content sample_d1" sample_h1 5 sample_es1 sample_store, unfolded sample_tool_simps,
        OF sample_full(1) c(5) te infos inv(1) begin_begun(1) [OF sample_full(1) c(6,3)] t(2) d(1)] by auto
  then obtain s1 where inv1: "tx_inv sample_lib 256 (content sample_d1) tx1 s1" by blast
  have off: "256 \<le> unat (tAppendOffset tx1)" "unat (tAppendOffset tx1) < 2 ^ 62"
    using t(6) inv(2) sample_valid(2) sample_add_run(3) by simp_all
  have es: "\<exists>e. commit_entries tx1 = [e] \<and> length (enc_entry e) \<le> 2 ^ 20 \<and>
      (\<forall>bu off gen. crc32 (index_blob (built_index bu [e] off gen)) \<noteq> 0)"
    using t(3-5) small_index_crc [OF t(4,5)] by (simp del: length_enc_entry)
  note fin = sample_finish [OF c(5) sample_add_run(2) d(2) inv1 t(7) off disjI2 [OF es]]
  have ls: "listed (fst (container_List c1 (content sample_d1))) = [e]" using t(1) by simp
  have flags: "tfPut sample_text = sample_put" "tfDryRun sample_text = False" "tfGlob sample_text = []" "tfFind sample_text \<noteq> []"
    by (simp_all add: sample_text_def)
  show "text_fits sample_tool sample_text sample_d1"
    using c(1,3) t(2) fin(1) ls by (simp add: text_fits_def flags sample_put_flags run_fits_def text_op_def)
  obtain tx' c' d' where cm: "Commit sample_commit c1 tx1 sample_d1 = (Inr (), tx', c', d')" "length (content d') < 2 ^ 63"
    using fin(2) by blast
  have "runReplaceText sample_tool sample_text sample_d1 = Some ((0, Some (1, 1)), d')"
    using c(1,3) t(1,2) cm(1) by (simp add: runReplaceText_def flags sample_put_flags text_run_def)
  then show "\<exists>d. runReplaceText sample_tool sample_text sample_d1 = Some ((0, Some (1, 1)), d) \<and> length (content d) < 2 ^ 63"
    using cm(2) by blast
qed

theorem replace_text_command_witness:
  "\<exists>d h es. runReplaceText sample_tool sample_text sample_d1 = Some ((0, Some (1, 1)), d) \<and>
     represents sample_lib (content d) h 5 es [[97] \<mapsto> ([], [5])]"
proof -
  obtain d where d: "runReplaceText sample_tool sample_text sample_d1 = Some ((0, Some (1, 1)), d)" "length (content d) < 2 ^ 63"
    using sample_text_run(1) by blast
  have env: "text_env sample_tool sample_text (effectiveOptions 1 copts)"
    if "buildLimitOptions (pfMaxEntry (tfPut sample_text)) (pfMaxChunk (tfPut sample_text)) = Inr copts" for copts
  proof -
    have "copts = None" using that sample_put_flags by (simp add: sample_text_def)
    then show ?thesis using sample_put_ok by (simp add: text_env_def effectiveOptions_def) (simp add: sample_text_def)
  qed
  have "text_hits sample_text sample_store p = (if p = [97] then 1 else 0)" for p
    by (simp add: text_hits_def sample_store_def sample_text_selects sample_text_hits)
  then have "(\<lambda>p. if text_hits sample_text sample_store p \<noteq> 0
      then map_option (\<lambda>(data, m). (replace_text data (tfFind sample_text) (tfReplace sample_text), m)) (sample_store p)
      else sample_store p) = [[97] \<mapsto> ([], [5])]"
    by (auto simp: sample_store_def sample_text_hits fun_eq_iff)
  then show ?thesis
    using replace_text_command [of sample_tool sample_d1, unfolded sample_tool_simps, OF sample_full(1) sample_safe(2) env sample_text_run(2) d] d(1)
    by (auto simp: sample_text_def)
qed

text \<open>The metadata of the entry set, which writes its three bytes again as one chunk.\<close>

lemma write_once:
  assumes "plan d = []" "unat off < 2 ^ 62" "3 < cs"
  shows "\<exists>c off' d'. write_seq L CodecStore 0 cs 0 d off sample_data 0 [] = (Inr ([c], 3), d', off') \<and>
    unat off' = unat off + 19 \<and> plan d' = [] \<and> length (content d') \<le> max (length (content d)) (unat off + 19)"
proof -
  have len: "length sample_record = 19" by (simp add: sample_record_def MagicChunk_def)
  then have ne: "sample_record \<noteq> []" by auto
  have small: "unat off + length sample_record < 2 ^ 63" using assms(2) len by simp
  obtain off' d' where a: "appendAt d off sample_record = (Inr off', d')" "plan d' = []" "unat off' = unat off + 19"
    "length (content d') \<le> max (length (content d)) (unat off + 19)"
    using appendAt_quiet [OF assms(1) small ne] len by auto
  have "addUint64 0 3 = Some 3" by (simp add: addUint64_def)
  then show ?thesis
    using a assms(3)
    by (subst write_seq.simps) (auto simp: sample_data_def readFull_def sample_encode)
qed

lemma sample_put_params:
  assumes "w = put_write_options sample_put CodecStore m x y"
  shows "\<exists>p. write_entry_params sample_env (defaultOptions 1) [97] probe (Some w) = Inr p \<and> wpCodec p = CodecStore \<and>
    wpLevel p = 0 \<and> 3 < nat (wpChunkSize p) \<and> wpWorkers p \<le> 1"
  using assms
  by (cases "classify (defaultOptions 1) [97] probe y")
    (simp add: write_entry_params_def pick_chunk_size_def put_write_options_def sample_put_def defaultOptions_def Let_def)

lemma sample_put_writes:
  assumes w: "w = put_write_options sample_put CodecStore m x y"
    and tx: "\<not> tClosed tx" "tEntries tx = [([97], old)]" "unat (tAppendOffset tx) < 2 ^ 62" and d: "plan d = []"
  obtains e tx1 d' where "Tx_Upsert sample_env (defaultOptions 1) [97] (Some sample_data) [49] (Some w) tx d = Some (Inr (), tx1, d')"
    "commit_entries tx1 = [norm_entry e]" "length (enc_entry (norm_entry e)) = 78" "Path (norm_entry e) = [97]"
    "unat (tAppendOffset tx1) = unat (tAppendOffset tx) + 19" "\<not> tClosed tx1" "plan d' = []"
    "length (content d') \<le> max (length (content d)) (unat (tAppendOffset tx) + 19)"
proof -
  obtain p where p: "write_entry_params sample_env (defaultOptions 1) [97] (take 4096 (fst sample_data)) (Some w) = Inr p"
    "wpCodec p = CodecStore" "wpLevel p = 0" "3 < nat (wpChunkSize p)" "wpWorkers p \<le> 1"
    using sample_put_params [OF w] by blast
  obtain c off' d' where s: "write_seq sample_lib CodecStore 0 (nat (wpChunkSize p)) 0 d (tAppendOffset tx) sample_data 0 [] =
      (Inr ([c], 3), d', off')" "unat off' = unat (tAppendOffset tx) + 19" "plan d' = []"
    "length (content d') \<le> max (length (content d)) (unat (tAppendOffset tx) + 19)"
    using write_once [OF d tx(3) p(4)] by blast
  have lim: "oMaxEntrySize (defaultOptions 1) = 0" by (simp add: defaultOptions_def)
  let ?tx = "markObsolete old tx"
  have t: "tEntries ?tx = tEntries tx" "tClosed ?tx = tClosed tx" "tAppendOffset ?tx = tAppendOffset tx"
    by (simp_all add: markObsolete_def)
  let ?e = "\<lparr>PathHash64 = 0, MTimeUnix = wpMTime p, Mode = wpMode p, EntryFlags = wpFlags p, FileSize = 3,
    ChunkCount = 0, MetaSize = 0, PathSize = 0, Chunks = [c], Meta = [49], Path = [97]\<rparr>"
  have we: "writeEntry sample_env (defaultOptions 1) [97] (Some sample_data) [49] (Some w) ?tx d =
      Some (Inr ?e, ?tx\<lparr>tAppendOffset := off'\<rparr>, d')"
    using p s(1) t(3) lim by (simp add: writeEntry_def writeChunks_def writeChunksSequential_def)
  show thesis
  proof (rule that)
    show "Tx_Upsert sample_env (defaultOptions 1) [97] (Some sample_data) [49] (Some w) tx d =
        Some (Inr (), ?tx\<lparr>tAppendOffset := off', tEntries := [([97], ?e)]\<rparr>, d')"
      using tx(1,2) t by (simp add: Tx_Upsert_def sample_path write_and_put_def we)
    show "commit_entries (?tx\<lparr>tAppendOffset := off', tEntries := [([97], ?e)]\<rparr>) = [norm_entry ?e]"
      by (simp add: commit_entries_def)
  qed (use s tx(1) t(2) in \<open>simp_all add: norm_entry_def\<close>)
qed

lemma sample_meta_call:
  assumes "caches c sample_h1 5 sample_es1" "cOpts c = defaultOptions 1" "Open sample_lib 1 None sample_d1 = (Inr c, sample_d1)"
  obtains m x y where "set_meta_call sample_tool sample_put [97] sample_d1 = Some (c,
    \<lparr>aEnv = sample_env, aOpts = defaultOptions 1, aPath = [97], aSource = Some sample_data, aMeta = [49],
     aWrite = Some (put_write_options sample_put CodecStore m x y)\<rparr>)"
proof -
  have lim: "oMaxEntrySize (defaultOptions 1) = 0" "oMaxChunkSize (defaultOptions 1) = 0" by (simp_all add: defaultOptions_def)
  have st: "sample_store [97] = Some ([1, 2, 3], [5])" by (simp add: sample_store_def)
  then have x: "Extract sample_lib c (content sample_d1) [97] = Some ([1, 2, 3], Inr ())"
    using extract_outcome [OF sample_full(1) assms(1) sample_path] lim assms(2) by auto
  then obtain r where r: "OpenReader c [97] = Inr r" by (auto simp: Extract_def split: sum.splits)
  obtain b e where s: "stream sample_lib (content sample_d1) r = (b, e)" by fastforce
  have "stream sample_lib (content sample_d1) r = sample_data"
    using copy_all_stream [OF s, of 32768 "[]"] x r s
    by (simp add: Extract_def sample_data_def del: copy_all.simps split: if_splits)
  moreover obtain i where "Stat c [97] = Inr i"
    using stat_outcome [OF sample_full(1) assms(1) sample_path] st by auto
  ultimately show thesis
    using that [of "iMTimeUnix i" "iMode i" "iEntryFlags i"] assms(2,3) r
    by (simp add: set_meta_call_def sample_put_flags)
qed

lemma sample_meta_run:
  "\<exists>d. runSetMeta sample_tool sample_put [97] sample_d1 = Some (0, d) \<and> length (content d) < 2 ^ 63"
  "set_meta_call sample_tool sample_put [97] sample_d1 = Some (c, p) \<Longrightarrow>
    env_ok sample_env (cOpts c) (aWrite p) \<and> run_fits sample_commit (upsert_op p) c sample_d1"
proof -
  obtain c tx c1 where c: "Open sample_lib 1 None sample_d1 = (Inr c, sample_d1)" "cOpts c = defaultOptions 1"
    "Begin c sample_d1 = Some (Inr tx, c1, sample_d1)"
    "begun sample_lib c sample_d1 tx c1 sample_d1 sample_store" "caches c1 sample_h1 5 sample_es1"
    "caches c sample_h1 5 sample_es1"
    by (rule sample_opened)
  have inv: "tx_inv sample_lib 256 (content sample_d1) tx sample_store" "\<not> tClosed tx"
    "unat (tAppendOffset tx) = length (content sample_d1)" using c(4) by (simp_all add: begun_def)
  obtain m x y where call: "set_meta_call sample_tool sample_put [97] sample_d1 = Some (c,
    \<lparr>aEnv = sample_env, aOpts = defaultOptions 1, aPath = [97], aSource = Some sample_data, aMeta = [49],
     aWrite = Some (put_write_options sample_put CodecStore m x y)\<rparr>)"
    by (rule sample_meta_call [OF c(6,2,1)])
  let ?w = "put_write_options sample_put CodecStore m x y"
  let ?p = "\<lparr>aEnv = sample_env, aOpts = defaultOptions 1, aPath = [97], aSource = Some sample_data, aMeta = [49],
     aWrite = Some ?w\<rparr>"
  obtain old where old: "tEntries tx = [([97], old)]" by (rule sample_one_entry [OF inv(1)])
  have o62: "unat (tAppendOffset tx) < 2 ^ 62" using inv(3) sample_add_run(3) by simp
  obtain e tx1 d1 where up: "Tx_Upsert sample_env (defaultOptions 1) [97] (Some sample_data) [49] (Some ?w) tx sample_d1 =
      Some (Inr (), tx1, d1)"
    "commit_entries tx1 = [norm_entry e]" "length (enc_entry (norm_entry e)) = 78" "Path (norm_entry e) = [97]"
    "unat (tAppendOffset tx1) = unat (tAppendOffset tx) + 19" "\<not> tClosed tx1" "plan d1 = []"
    "length (content d1) \<le> max (length (content sample_d1)) (unat (tAppendOffset tx) + 19)"
    by (rule sample_put_writes [OF refl inv(2) old o62 sample_add_run(2)])
  have op: "upsert_op ?p tx sample_d1 = Some (Inr (), tx1, d1)" using up(1) by (simp add: upsert_op_def)
  have len: "length (content d1) < 2 ^ 63" "length (content d1) \<le> 2 ^ 62" using up(8) inv(3) sample_add_run(3) by simp_all
  have pre: "put_pre ?p" using sample_put_ok by (simp add: put_pre_def)
  obtain s1 where inv1: "tx_inv sample_lib 256 (content d1) tx1 s1"
    using upsert.success [OF pre _ op len(1)] inv(1) by auto
  have off: "256 \<le> unat (tAppendOffset tx1)" "unat (tAppendOffset tx1) < 2 ^ 62"
    using up(5) inv(3) sample_valid(2) sample_add_run(3) by simp_all
  have es: "\<exists>e. commit_entries tx1 = [e] \<and> length (enc_entry e) \<le> 2 ^ 20 \<and>
      (\<forall>bu off gen. crc32 (index_blob (built_index bu [e] off gen)) \<noteq> 0)"
    using up(2-4) sample_index_crc [OF up(3,4)] by (simp del: length_enc_entry)
  note fin = sample_finish [OF c(5) up(7) len(2) inv1 up(6) off disjI2 [OF es]]
  show "env_ok sample_env (cOpts c') (aWrite p) \<and> run_fits sample_commit (upsert_op p) c' sample_d1"
    if "set_meta_call sample_tool sample_put [97] sample_d1 = Some (c', p)" for c' p
    using that call c(2,3) op fin(1) sample_put_ok by (auto simp: run_fits_def)
  obtain tx' c' d' where cm: "Commit sample_commit c1 tx1 d1 = (Inr (), tx', c', d')" "length (content d') < 2 ^ 63"
    using fin(2) by blast
  have "run_tx sample_commit (upsert_op ?p) c sample_d1 = Some (Inr (), c', d')"
    using c(3) op cm(1) by (simp add: run_tx_def)
  then have "runSetMeta sample_tool sample_put [97] sample_d1 = Some (0, d')"
    using set_meta_calls [of sample_tool sample_d1, unfolded sample_tool_simps, OF sample_full(1), of sample_put "[97]"] call
    by (simp add: exit_code_def)
  then show "\<exists>d. runSetMeta sample_tool sample_put [97] sample_d1 = Some (0, d) \<and> length (content d) < 2 ^ 63"
    using cm(2) by blast
qed

theorem set_meta_command_witness:
  "\<exists>d h es. runSetMeta sample_tool sample_put [97] sample_d1 = Some (0, d) \<and>
     represents sample_lib (content d) h 5 es [[97] \<mapsto> ([1, 2, 3], [49])]"
proof -
  obtain d where d: "runSetMeta sample_tool sample_put [97] sample_d1 = Some (0, d)" "length (content d) < 2 ^ 63"
    using sample_meta_run(1) by blast
  show ?thesis
    using set_meta_command [of sample_tool sample_d1, unfolded sample_tool_simps, OF sample_full(1) refl sample_meta_run(2) d] d(1)
    by (auto simp: sample_put_flags sample_path sample_store_def)
qed


section \<open>Nothing to pack\<close>

text \<open>The record of the sample's chunk is in the file of the container, and its header counts no dead bytes.\<close>

definition many_options :: PackOptions where
  "many_options = defaultPackOptions\<lparr>poCodec := CodecZstd, poLevel := 3\<rparr>"

lemma sample_written_bytes:
  assumes "add_op sample_args sample_tx sample_d0 = Some (r, tx, d)"
  shows "at (content d) 652 sample_record"
proof -
  have len: "length sample_record = 19" by (simp add: sample_record_def MagicChunk_def)
  then have ne: "sample_record \<noteq> []" by auto
  define d1 where "d1 = sample_d0\<lparr>content := overwrite (content sample_d0) 652 sample_record\<rparr>"
  have "appendAt sample_d0 652 sample_record = (Inr 671, d1)"
    using len ne by (simp add: appendAt_def writeAt_quiet [OF sample_created(2)] maxInt_def d1_def)
  then have w: "write_seq sample_lib CodecStore 0 4194304 0 sample_d0 652 sample_data 0 [] =
      (Inr ([sample_chunk], 3), d1, 671)"
    by (subst write_seq.simps)
      (auto simp: sample_data_def readFull_def addUint64_def sample_encode len chunk_ref_def sample_chunk_def)
  have p: "oMaxEntrySize (defaultOptions 1) = 0" "nLib sample_env = sample_lib" "tAppendOffset sample_tx = 652"
    "take 4096 (fst sample_data) = [1, 2, 3]"
    by (simp_all add: defaultOptions_def sample_env_def sample_tx_def sample_data_def)
  have "d = d1"
    using assms w p
    by (simp add: add_op_def sample_args_def Tx_Add_def write_and_put_def sample_path writeEntry_def sample_params
        writeChunks_def writeChunksSequential_def sample_tx_def)
  then show ?thesis using at_overwritten [of 652 "content sample_d0" sample_record] sample_d0_length by (simp add: d1_def)
qed

lemma sample_chunk_head:
  "rec_codec (content sample_d1) sample_chunk = CodecStore" "rec_level (content sample_d1) sample_chunk = 0"
proof -
  obtain d tx' where c: "add_op sample_args sample_tx sample_d0 = Some (Inr (), sample_tx1, d)"
    "Commit sample_commit (sample_c0\<lparr>cTxHeld := True\<rparr>) sample_tx1 d = (Inr (), tx', sample_c1, sample_d1)"
    "tx_inv sample_lib 256 (content d) sample_tx1 sample_store" by (rule sample_committed)
  obtain h where cf: "commit_file sample_commit (sample_c0\<lparr>cTxHeld := True\<rparr>) sample_tx1 d = (Inr h, sample_d1)"
    using c(2) sample_tx1_facts by (auto simp: Commit_def Let_def split: if_splits sum.splits prod.splits)
  have bt: "mBuildTime sample_commit = 5" by (simp add: sample_commit_def)
  have off: "unat (tAppendOffset sample_tx1) = 671" by (simp add: sample_tx1_def sample_tx_def)
  have hv: "header_valid (cHeader (sample_c0\<lparr>cTxHeld := True\<rparr>))"
    using sample_empty(1) sample_tx1_facts(3) by (simp add: represents_def holds_def)
  have "same 256 671 (content d) (content sample_d1)"
    using commit_file_frame [OF hv sample_commit_fits [folded bt] _ _ cf] c(3) sample_add_run(3) off
    by (auto simp: tx_inv_def)
  moreover have "at (content d) 652 sample_record" by (rule sample_written_bytes [OF c(1)])
  moreover have "length sample_record = 19" by (simp add: sample_record_def MagicChunk_def)
  ultimately have "at (content sample_d1) 652 sample_record" using same_at by fastforce
  then have r: "sub_bytes (content sample_d1) 652 671 = sample_record" "671 \<le> length (content sample_d1)"
    by (simp_all add: at_def sample_record_def MagicChunk_def)
  have "content sample_d1 ! (652 + k) = sample_record ! k" if "k < 19" for k
    using that r(2) by (simp add: r(1) [symmetric] sub_bytes_def)
  from this [of 2] this [of 3]
  show "rec_codec (content sample_d1) sample_chunk = CodecStore" "rec_level (content sample_d1) sample_chunk = 0"
    by (simp_all add: rec_codec_def rec_level_def sample_chunk_def sample_record_def MagicChunk_def)
qed

lemma sample_h1_stats: "fst (readCompactionStatsFromHeader sample_h1) = 0"
proof -
  have hv: "header_valid (cHeader (sample_c0\<lparr>cTxHeld := True\<rparr>))"
    using sample_empty(1) sample_tx1_facts(3) by (simp add: represents_def holds_def)
  note g = commit_dir_header_reads [OF hv refl]
  have "fst (readCompactionStatsFromHeader sample_h1) =
      saturatingAddUint64 (fst (readCompactionStatsFromHeader sample_h0)) (tDeadBytes sample_tx1)"
    using g(6) commit_header_reads(7) [OF g(1) refl] sample_tx1_facts(3) by (simp add: sample_h1_def new_header_def)
  then show ?thesis
    by (simp add: sample_h0_stats sample_tx1_def sample_tx_def saturatingAddUint64_def)
qed

text \<open>A container with a stored chunk: as it is wanted, with other metadata, and with another codec.\<close>

lemma sample_nothing_to_do:
  assumes "poChunkText po = 0" "poChunkBin po = 0"
  shows "nothing_to_do po (content sample_d1) sample_h1 sample_es1 \<longleftrightarrow>
    \<not> poClearMeta po \<and> poCodec po = CodecStore \<and> poLevel po = 0"
  using assms sample_chunk_head
  by (auto simp: nothing_to_do_def sample_h1_stats sample_es1_def sample_file_def norm_entry_def rec_codec_def
      rec_level_def)

theorem pack_skip_exact_witness:
  "pack_one sample_os defaultPackOptions [97] [[97] \<mapsto> content sample_d1] =
     Some (Skipped, [[97] \<mapsto> content sample_d1]) \<and>
   runPack sample_os \<lparr>kfCodec = ascii ''store'', kfMaxChunk = 0, kfOptions = defaultPackOptions\<rparr> [97] []
     [[97] \<mapsto> content sample_d1] = Some (0, [[97] \<mapsto> content sample_d1]) \<and>
   (\<nexists>g. pack_one sample_os (defaultPackOptions\<lparr>poClearMeta := True\<rparr>) [97] [[97] \<mapsto> content sample_d1] =
     Some (Skipped, g)) \<and>
   (\<nexists>g. pack_one sample_os many_options [97] [[97] \<mapsto> content sample_d1] = Some (Skipped, g))"
proof -
  let ?fs = "[[97] \<mapsto> content sample_d1] :: files"
  note p = pack_skip_exact [of ?fs "[97]", OF _ sample_full(1), of sample_os, simplified fun_upd_same, OF refl]
  have po: "nothing_to_do defaultPackOptions (content sample_d1) sample_h1 sample_es1"
    "\<not> nothing_to_do (defaultPackOptions\<lparr>poClearMeta := True\<rparr>) (content sample_d1) sample_h1 sample_es1"
    "\<not> nothing_to_do many_options (content sample_d1) sample_h1 sample_es1"
    by (simp_all add: sample_nothing_to_do many_options_def defaultPackOptions_def)
  have fl: "pack_flag_options \<lparr>kfCodec = ascii ''store'', kfMaxChunk = 0, kfOptions = defaultPackOptions\<rparr> =
      Inr defaultPackOptions"
    by (simp add: pack_flag_options_def parseCodec_def defaultPackOptions_def)
  show ?thesis
  proof (intro conjI)
    show "pack_one sample_os defaultPackOptions [97] ?fs = Some (Skipped, ?fs)"
      "runPack sample_os \<lparr>kfCodec = ascii ''store'', kfMaxChunk = 0, kfOptions = defaultPackOptions\<rparr> [97] [] ?fs =
        Some (0, ?fs)"
      using p [of defaultPackOptions] po(1) fl by simp_all
  qed (use p [THEN conjunct1] po(2,3) in blast)+
qed

section \<open>Two files at once\<close>

text \<open>Two workers, of which one finds nothing to do and the other no file.\<close>

definition many_files :: files where "many_files = [[105] \<mapsto> content sample_d0]"

lemma many_single:
  "check_job many_options [105] many_files = Send [105] Skipped"
  "check_job many_options [98] many_files = Send [98] (Failed osNotExist)"
proof -
  have m: "containerMatchesPackParams (content sample_d0) CodecZstd 3 = Inr True"
    using matches_exactly [OF sample_empty(1), of CodecZstd 3] by (simp add: sample_h0_stats)
  show "check_job many_options [105] many_files = Send [105] Skipped"
    "check_job many_options [98] many_files = Send [98] (Failed osNotExist)"
    using m
    by (simp_all add: check_job_def wants_pack_def pack_inspects_def pack_matches_def many_options_def
        defaultPackOptions_def many_files_def)
qed

lemma many_run:
  "\<exists>s. runs (\<lambda>p. sample_os) many_options 2 (many_start [[98], [105]] many_files) s \<and> mQueue s = [] \<and>
     (\<forall>i. mJobs s i = Free)"
proof -
  let ?pos = "\<lambda>p :: bytes. sample_os" and ?po = many_options
  let ?s0 = "many_start [[98], [105]] many_files"
  let ?s1 = "?s0\<lparr>mQueue := [[105]], mJobs := (mJobs ?s0)(0 := Check [98])\<rparr>"
  let ?s2 = "?s1\<lparr>mQueue := [], mJobs := (mJobs ?s1)(1 := Check [105])\<rparr>"
  let ?s3 = "?s2\<lparr>mJobs := (mJobs ?s2)(1 := check_job ?po [105] (mFiles ?s2))\<rparr>"
  let ?s4 = "?s3\<lparr>mJobs := (mJobs ?s3)(0 := check_job ?po [98] (mFiles ?s3))\<rparr>"
  let ?s5 = "?s4\<lparr>mJobs := (mJobs ?s4)(1 := Free), mResults := mResults ?s4 @ [([105], Skipped)]\<rparr>"
  let ?s6 = "?s5\<lparr>mJobs := (mJobs ?s5)(0 := Free), mResults := mResults ?s5 @ [([98], Failed osNotExist)]\<rparr>"
  note d = many_start_def many_single
  have w1: "worker_step ?pos ?po 0 ?s0 ?s1" by (rule worker_step.receive) (simp_all add: d)
  have w2: "worker_step ?pos ?po 1 ?s1 ?s2" by (rule worker_step.receive) (simp_all add: d)
  have w3: "worker_step ?pos ?po 1 ?s2 ?s3" by (rule worker_step.check) (simp_all add: d)
  have w4: "worker_step ?pos ?po 0 ?s3 ?s4" by (rule worker_step.check) (simp_all add: d)
  have w5: "worker_step ?pos ?po 1 ?s4 ?s5" by (rule worker_step.send) (simp_all add: d)
  have w6: "worker_step ?pos ?po 0 ?s5 ?s6" by (rule worker_step.send) (simp_all add: d)
  have n: "(0 :: nat) < 2" "(1 :: nat) < 2" by simp_all
  note r2 = runs.more [OF runs.more [OF runs.start n(1) w1] n(2) w2]
  note r4 = runs.more [OF runs.more [OF r2 n(2) w3] n(1) w4]
  note runs.more [OF runs.more [OF r4 n(2) w5] n(1) w6]
  moreover have "mQueue ?s6 = []" "\<forall>i. mJobs ?s6 i = Free" by (simp_all add: d)
  ultimately show ?thesis by blast
qed

lemma many_apart: "temps_apart (\<lambda>p. sample_os) [[98], [105]]"
  by (auto simp: temps_apart_def sample_os_def)

lemma many_alone:
  "pack_one sample_os many_options [98] many_files = Some (Failed osNotExist, many_files)"
  "pack_one sample_os many_options [105] many_files = Some (Skipped, many_files)"
  by (simp_all add: pack_pieces many_single)

theorem pack_many_schedules_witness:
  "\<exists>s. runs (\<lambda>p. sample_os) many_options 2 (many_start [[98], [105]] many_files) s \<and>
     mset (map fst (mResults s)) = mset [[98], [105]] \<and> many_code (mResults s) \<noteq> 0"
proof -
  obtain s where s: "runs (\<lambda>p. sample_os) many_options 2 (many_start [[98], [105]] many_files) s" "mQueue s = []"
    "\<And>i. mJobs s i = Free" using many_run by blast
  have stuck: "\<not> worker_step (\<lambda>p. sample_os) many_options i s t" if "i < 2" for i t
    using s(2,3) by (auto elim: worker_step.cases)
  show ?thesis
    using pack_many_schedules [OF s(1) many_apart _ _ stuck] s(1) many_alone by auto
qed


end
