(* ===== verification/Spec2Isabelle.thy ===== *)
theory Spec2Isabelle
  imports Formats Goroutines SampleZip SampleTool
begin

text \<open>
  A verification development for \<^verbatim>\<open>go-fbx\<close>, a library and a command line tool for the FBX container
  format: one file that holds many named entries, each with its bytes (split into chunks, every one
  compressed by itself) and a metadata string, changed by transactions that append to the file and
  end with a new directory and a new header.

  \<^bold>\<open>The program\<close>

  \<^item> \<^verbatim>\<open>src/internal/format\<close> is the binary format: a header of 128 bytes, the directory of all entries
    (\<^verbatim>\<open>DIR1\<close>), its index (\<^verbatim>\<open>IDX1\<close>) and the chunk records (\<^verbatim>\<open>CHK1\<close>). \<^verbatim>\<open>src/internal/pathutil\<close> normalizes
    the names of entries.
  \<^item> \<^verbatim>\<open>src/fbx\<close> is the container. \<^verbatim>\<open>Open\<close> reads the header, the directory and the index; when they are
    damaged it tries the backup slot and the journal record at the end of the file and then scans
    the file for directories. \<^verbatim>\<open>Begin\<close> copies the table of entries into a transaction, its operations
    append chunks and change the copy, and \<^verbatim>\<open>Commit\<close> appends directory, index and journal record,
    syncs, and overwrites the backup slot and the header. \<^verbatim>\<open>Pack\<close> rebuilds a container without its
    dead bytes and \<^verbatim>\<open>ConvertZIPToFBX\<close> fills one from an archive.
  \<^item> \<^verbatim>\<open>src/cmd/fbx\<close> is the tool: its commands call the library, some of them many operations in one
    transaction, and \<^verbatim>\<open>pack-many\<close> packs files with several goroutines.

  \<^bold>\<open>The theories of the format\<close>

  \<^item> \<open>Prelude\<close>: bytes as lists of \<^verbatim>\<open>8 word\<close>, the errors of \<^verbatim>\<open>fbx/errors.go\<close>, results \<open>error + 'a\<close>, checked
    arithmetic, and the locales \<open>byte_codec\<close> (writer and reader of a stream of bytes are inverse) and
    \<open>slot_codec\<close> (rows of fixed size), interpreted for the integers of \<^verbatim>\<open>encoding/binary\<close>, chunk
    references, index rows and hash ranges.
  \<^item> \<open>Checksum\<close> (\<^verbatim>\<open>hash.go\<close>, CRC-32), \<open>Header\<close> (\<^verbatim>\<open>header.go\<close>), \<open>HeaderExt\<close> (\<^verbatim>\<open>header_ext.go\<close>,
    \<^verbatim>\<open>compaction_stats.go\<close>), where the locales \<open>reserved_field\<close> and \<open>reserved_pair\<close> say that the fields
    hidden in the reserved bytes of the header read back and do not disturb each other.
  \<^item> \<open>Directory\<close>, \<open>DirectoryEntry\<close> (\<^verbatim>\<open>types.go\<close>, \<^verbatim>\<open>directory.go\<close>, \<^verbatim>\<open>directory_entry.go\<close>): both decoders
    accept exactly the encodings of well-formed entries.
  \<^item> \<open>DirIndex\<close>, \<open>IndexBuild\<close> (\<^verbatim>\<open>internal/format/dir_index.go\<close>, \<^verbatim>\<open>fbx/dir_index.go\<close>): the index that is
    built passes its own validation, and a lookup through it is a lookup in the directory.
  \<^item> \<open>Chunk\<close> (\<^verbatim>\<open>codec*.go\<close>, \<^verbatim>\<open>chunk.go\<close>), \<open>PathNorm\<close> (\<^verbatim>\<open>path.go\<close>), \<open>Sniff\<close> (\<^verbatim>\<open>detectText\<close>,
    \<^verbatim>\<open>looksCompressed\<close>).
  \<^item> \<open>Formats\<close> states the properties of these.

  \<^bold>\<open>The theories of the container\<close>

  \<^item> \<open>FileIO\<close>: a file is its bytes and a plan that says of every write and sync to come whether it
    succeeds or fails after a prefix. A crash is a plan that fails from some point on, so what is
    shown for every plan is shown for a crash at every write, and in the middle of every write.
  \<^item> \<open>Snapshot\<close>, \<open>Journal\<close>, \<open>RecoveryScan\<close>: the three ways to find a catalogue in a file;
    \<open>LostDirectories\<close> says, without the code's scores, what the last one finds: of all valid directories
    the one with the most readable entries, and the newest among these.
    \<open>EntryReader\<close>, \<open>ChunkWriter\<close>, \<open>WriteRead\<close>: reading and writing the bytes of an entry, sequentially
    or with parallel workers.
  \<^item> \<open>Container\<close>, \<open>ContainerOps\<close> (\<^verbatim>\<open>container.go\<close>, \<^verbatim>\<open>options.go\<close>, \<^verbatim>\<open>iter.go\<close>), \<open>Tx\<close> and \<open>Commit\<close>
    (\<^verbatim>\<open>tx.go\<close>): the objects \<^verbatim>\<open>Container\<close> and \<^verbatim>\<open>Tx\<close> are records, passed along with the file. An
    operation returns its result with the new records, \<open>None\<close> standing for a call that does not
    return (a source that never ends).
  \<^item> \<open>TxSpec\<close>, \<open>ContainerSpec\<close>, \<open>CommitSpec\<close>, \<open>CommitOpen\<close>, \<open>CreateSpec\<close>, \<open>ContainerRead\<close>, with \<open>Frame\<close> for
    what is not written: the refinement. The abstract container is a \<open>store\<close>, a map from paths to
    bytes and metadata. \<open>represents L f h bu es s\<close> says that the file \<open>f\<close> holds the header \<open>h\<close> and the
    entries \<open>es\<close> and that decoding their chunks gives the store \<open>s\<close>; \<open>caches\<close> says that a container
    object agrees with them; \<open>torn\<close> describes a file whose header was written in part.
  \<^item> \<open>TxOps\<close>, \<open>TxContract\<close>, \<open>MetaMany\<close>, \<open>Glob\<close>, \<open>Script\<close>: what each operation does to the store; a source
    that ends with \<^verbatim>\<open>io.ErrUnexpectedEOF\<close> is taken for one that ends (\<open>truncated_source\<close>). The
    locale \<open>tx_operation\<close> is the contract of an operation with the transaction around it, and inside it
    is the theorem that the whole is atomic; \<^verbatim>\<open>Add\<close>, \<^verbatim>\<open>Upsert\<close>, \<^verbatim>\<open>Replace\<close>, \<^verbatim>\<open>Remove\<close>, \<^verbatim>\<open>SetMeta\<close>,
    \<^verbatim>\<open>SetMetaMany\<close> and scripts of steps are its interpretations.
  \<^item> \<open>Live\<close>: without faults the operations succeed. \<open>Stale\<close>: a handle that has fallen behind undoes
    what others have committed. \<open>Locks\<close> (\<^verbatim>\<open>write_lock.go\<close>, \<^verbatim>\<open>file_lock_*.go\<close>): every lock and unlock of
    every call as a step of an interleaving of threads; two transactions never overlap. \<open>Goroutines\<close>:
    the calls one goroutine makes, on as many handles as it likes, also inside a transaction. Goroutines
    that, while they have a transaction open, call nothing but the reading operations of the same handle
    (as the tool does) never get stuck; others can, and two examples do.
  \<^item> \<open>Pack\<close> (\<^verbatim>\<open>pack.go\<close>), \<open>ImportZip\<close> (\<^verbatim>\<open>import_zip.go\<close>).

  \<^bold>\<open>The theories of the tool\<close>

  \<open>Inspect\<close>, \<open>Cli\<close> (the commands of \<^verbatim>\<open>main.go\<close>), \<open>CliSpec\<close> and \<open>TextSpec\<close> (what \<^verbatim>\<open>rm\<close>, \<^verbatim>\<open>find\<close>,
  \<^verbatim>\<open>set-meta\<close> and \<^verbatim>\<open>replace-text\<close> do to the store), \<open>PackMany\<close> (the interleaved workers,
  and when \<^verbatim>\<open>pack\<close> and \<^verbatim>\<open>pack-many\<close> skip a file).

  The theories \<open>Samples\<close>, \<open>SamplePack\<close>, \<open>SampleStale\<close>, \<open>SampleZip\<close>, \<open>SampleCli\<close> and \<open>SampleTool\<close> hold a
  concrete container on which the theorems are applied. This theory has the properties of the
  container as a whole.

  \<^bold>\<open>Assumptions, bounds and fuel\<close>

  \<^item> \<open>codec_laws\<close> and \<open>records_fit\<close> (in \<open>env_ok\<close>): the compression libraries decode what they encode,
    within the size they promise, and an encoded chunk fits its 32-bit length. \<open>scheduler\<close>: the order
    in which parallel workers deliver is a permutation. Chunk sizes stay below 4 GiB (the code does
    not check this).
  \<^item> \<open>commit_fits\<close>, \<open>run_fits\<close>: the directory is at most 1 GiB, the limit of \<^verbatim>\<open>Open\<close> that \<^verbatim>\<open>Commit\<close> does
    not check, the transaction appends behind the two header slots, and the CRC of the index is not 0,
    a value the reader takes for a missing index. \<open>create_fits\<close>: a UUID has 16 bytes. Files are
    shorter than \<open>2 ^ 63\<close> bytes, as offsets are an \<^verbatim>\<open>int64\<close>.
  \<^item> The theorems on an operation of a container are about its run once it has its locks: \<open>Begin\<close> waits
    only for a transaction of the same handle, the waits for other handles and processes are in \<open>Locks\<close>
    and \<open>Goroutines\<close>. For an archive, \<open>intact\<close> says that no member is cut off.
  \<^item> \<open>pack_fits\<close>, \<open>zip_fits\<close>, \<open>text_fits\<close> collect these for the files a call goes through;
    \<open>temps_apart\<close>: temporary files of different inputs have different names.
  \<^item> Loops are structural or have a termination proof. The only fuel is that of \<open>iterate\<close>, which takes the
    values of an iterator: one step more than there are values is enough (\<open>iterate_all\<close>). The mapping
    of Go's maps to lists of pairs leaves their order open where the code goes through them in any order.

  \<^bold>\<open>Not modelled\<close>

  \<^item> The compression libraries, \<^verbatim>\<open>archive/zip\<close>, \<^verbatim>\<open>encoding/json\<close>, \<^verbatim>\<open>mime\<close>, \<^verbatim>\<open>filepath.Glob\<close> and the
    operating system are parameters. The clock and the random UUID are arguments.
  \<^item> Of the tool: flag parsing, the dispatch in \<^verbatim>\<open>main\<close>, the text it prints (results are values) and
    the progress line; commands on a container that does not exist, which end with code 1; white space
    other than ASCII in \<^verbatim>\<open>--format\<close>. In \<^verbatim>\<open>pack-many\<close> building one file is one step, as no other worker
    sees the temporary file.
  \<^item> Progress callbacks, which have no effect on a result, and the caches of encoders and decoders.
  \<^item> \<^verbatim>\<open>src/tests/scripts/gen_vectors.go\<close>, which writes test files through the library.
\<close>

section \<open>Writing and reading back\<close>

text \<open>
  C1: what is written is read back. After a successful \<^verbatim>\<open>Container.Upsert\<close> the file, opened anew,
  gives exactly the bytes of the source and the metadata for that path, and for every other path
  what it gave before.
\<close>

theorem upsert_reads_back:
  assumes "env_ok env (cOpts c) wopts" and rep: "represents (nLib env) (content d) h bu es s"
    and c: "caches c h bu es"
    and "run_fits cenv (Tx_Upsert env (cOpts c) path (Some src) meta wopts) c d"
    and "Container_Upsert cenv env path (Some src) meta wopts c d = Some (Inr (), c', d')"
    and "length (content d') < 2 ^ 63" "normalize path = Inr q"
    and lim: "oMaxEntrySize (effectiveOptions procs opts) = 0" "oMaxChunkSize (effectiveOptions procs opts) = 0"
  shows "\<exists>c2. Open (nLib env) procs opts d' = (Inr c2, d') \<and>
    Extract (nLib env) c2 (content d') path = Some (fst src, Inr ()) \<and>
    (\<exists>i. Stat c2 path = Inr i \<and> iMeta i = meta \<and> unat (iSize i) = length (fst src)) \<and>
    (\<forall>p r. normalize p = Inr r \<longrightarrow> r \<noteq> q \<longrightarrow>
      (case s r of
         None \<Rightarrow> Extract (nLib env) c2 (content d') p = Some ([], Inl ErrNotFound)
       | Some (data, m) \<Rightarrow> Extract (nLib env) c2 (content d') p = Some (data, Inr ())))"
proof -
  let ?L = "nLib env"
  let ?a = "\<lparr>aEnv = env, aOpts = cOpts c, aPath = path, aSource = Some src, aMeta = meta, aWrite = wopts\<rparr>"
  have "ran ?L (put_effect (\<lambda>x. True) ?a) h bu es s (mBuildTime cenv) (Inr ()) c' (content d')"
    using upsert.run_outcome [of ?a d h bu es s c cenv] assms
    by (simp add: put_pre_def container_ops upsert_op_def)
  then obtain h' es' where r: "represents ?L (content d') h' (mBuildTime cenv) es' (s(q \<mapsto> (fst src, meta)))"
    using assms(7) by (auto simp: ran_def put_effect_def)
  obtain c2 where c2: "Open ?L procs opts d' = (Inr c2, d')" "caches c2 h' (mBuildTime cenv) es'"
    "cOpts c2 = effectiveOptions procs opts"
    using open_outcome [OF r] by blast
  note x = extract_outcome [OF r c2(2), unfolded c2(3)] and st = stat_outcome [OF r c2(2) assms(7)]
  show ?thesis
  proof (intro exI [of _ c2] conjI allI impI)
    fix p r assume "normalize p = Inr r" "r \<noteq> q"
    then show "case s r of
         None \<Rightarrow> Extract ?L c2 (content d') p = Some ([], Inl ErrNotFound)
       | Some (data, m) \<Rightarrow> Extract ?L c2 (content d') p = Some (data, Inr ())"
      using x [of p r] lim by (auto split: option.splits)
  qed (use x [OF assms(7)] st lim c2(1) in auto)
qed

theorem upsert_reads_back_witness:
  "\<exists>c. Open sample_lib 1 None sample_d1 = (Inr c, sample_d1) \<and>
     Extract sample_lib c (content sample_d1) [97] = Some ([1, 2, 3], Inr ())"
proof -
  have lib: "nLib sample_env = sample_lib" by (simp add: sample_env_def)
  have fits: "run_fits sample_commit (Tx_Upsert sample_env (cOpts sample_c0) [97] (Some sample_data) [5] None)
      sample_c0 sample_d0"
    using sample_upsert_run(2) by (simp add: upsert_op_def sample_args_def)
  have n: "length (content sample_d1) < 2 ^ 63" using sample_add_run(3) by simp
  have e: "env_ok sample_env (cOpts sample_c0) None" using sample_env_ok by simp
  have lim: "oMaxEntrySize (effectiveOptions 1 None) = 0" "oMaxChunkSize (effectiveOptions 1 None) = 0"
    by (simp_all add: effectiveOptions_def defaultOptions_def)
  from upsert_reads_back [OF e _ sample_empty(2) fits sample_upsert_run(1) n sample_path lim, unfolded lib,
      OF sample_empty(1)]
  show ?thesis by (auto simp: sample_data_def)
qed

section \<open>Opening, creating, beginning\<close>

text \<open>
  C27: \<^verbatim>\<open>Create\<close> leaves a file that represents the empty container, with its header, both header
  slots, directory, index, journal and backup records in place, and a container value that has
  it cached and holds no transaction.
\<close>

theorem create_empty:
  assumes "create_fits env" and "Create procs env opts d = (Inr c, d')"
  shows "content d' = created_file env \<and>
    represents L (content d') (cHeader c) (ceBuildTime env) [] Map.empty \<and>
    caches c (cHeader c) (ceBuildTime env) [] \<and> \<not> cTxHeld c \<and> cOpts c = effectiveOptions procs opts"
  using create_outcome [OF assms] create_content(1) [OF assms] by blast

theorem create_empty_witness:
  "represents sample_lib (content sample_d0) (cHeader sample_c0) 2 [] Map.empty"
proof -
  have "ceBuildTime sample_create = 2" by (simp add: sample_create_def)
  from create_empty [OF sample_fits sample_created(1), of sample_lib, unfolded this] show ?thesis by blast
qed

text \<open>
  \<^verbatim>\<open>Open\<close> of a file that represents a container succeeds without touching the file, for every
  choice of options, and has the catalogue at hand.
\<close>

theorem open_represented:
  assumes "represents L (content d) h bu es s"
  shows "\<exists>c. Open L procs opts d = (Inr c, d) \<and> caches c h bu es \<and> \<not> cTxHeld c \<and>
    cOpts c = effectiveOptions procs opts"
  using assms by (rule open_outcome)

theorem open_represented_witness:
  "\<exists>c. Open sample_lib 4 None sample_d1 = (Inr c, sample_d1)"
  using open_represented [OF sample_full(1)] by blast

text \<open>
  \<^verbatim>\<open>Begin\<close> waits while another transaction of the container is open; otherwise it fails without
  changing anything or hands out a transaction that stands for the container as it is: its table
  refines the contents, it will append behind the end of the file and its counters are zero.
\<close>

theorem begin_transaction:
  assumes "represents L (content d) h bu es s" "caches c h bu es"
  shows "case Begin c d of
      None \<Rightarrow> cTxHeld c
    | Some (Inl e, c', d') \<Rightarrow> c' = c \<and> content d' = content d
    | Some (Inr tx, c', d') \<Rightarrow> begun L c d tx c' d' s \<and> caches c' h bu es"
  using assms by (rule begin_outcome)

theorem begin_transaction_witness:
  "begun sample_lib sample_c1 sample_d1 sample_tx2 (sample_c1\<lparr>cTxHeld := True\<rparr>) sample_d1 sample_store"
  using begin_transaction [OF sample_full(1,2)] by (simp add: sample_begin1)

section \<open>Transactions of one operation\<close>

text \<open>
  The five operations below are atomic in the sense of \<open>ran\<close>: a success leaves a file that
  represents the changed container, with the container value up to date. After a failure the
  value still caches the old state, and the file represents the old container, or the new one
  (the failure came after the last write that counts), or it is \<open>torn\<close>: the first 128 bytes mix the
  old and the new header, and the fixed backup slot has the new one.
\<close>

text \<open>
  C5: \<^verbatim>\<open>Container.Add\<close> is atomic and adds a path that was absent, with the bytes of a source that was
  read to its end and the metadata given; every other path keeps its contents.
\<close>

theorem add_atomic:
  assumes "env_ok env (cOpts c) wopts" "represents (nLib env) (content d) h bu es s" "caches c h bu es"
    and "run_fits cenv (Tx_Add env (cOpts c) path r meta wopts) c d"
    and "Container_Add cenv env path r meta wopts c d = Some (res, c', d')" "length (content d') < 2 ^ 63"
  shows "ran (nLib env)
      (\<lambda>s s'. \<exists>q src. normalize path = Inr q \<and> r = Some src \<and> read_to_end src \<and> s q = None \<and>
         s' = s(q \<mapsto> (fst src, meta)))
      h bu es s (mBuildTime cenv) res c' (content d')"
  using add.run_outcome [of "\<lparr>aEnv = env, aOpts = cOpts c, aPath = path, aSource = r, aMeta = meta,
      aWrite = wopts\<rparr>" d h bu es s c cenv res c' d'] assms
  by (simp add: put_pre_def put_effect_def [abs_def] container_ops add_op_def)

theorem add_atomic_witness:
  "ran sample_lib
      (\<lambda>s s'. \<exists>q src. normalize [97] = Inr q \<and> Some sample_data = Some src \<and> read_to_end src \<and> s q = None \<and>
         s' = s(q \<mapsto> (fst src, [5])))
      sample_h0 2 [] Map.empty 5 (Inr ()) sample_c1 (content sample_d1)"
proof -
  have lib: "nLib sample_env = sample_lib" "mBuildTime sample_commit = 5"
    by (simp_all add: sample_env_def sample_commit_def)
  have pre: "env_ok sample_env (cOpts sample_c0) None" "length (content sample_d1) < 2 ^ 63"
    "run_fits sample_commit (Tx_Add sample_env (cOpts sample_c0) [97] (Some sample_data) [5] None) sample_c0 sample_d0"
    using sample_env_ok sample_add_run(3) sample_run_fits by (simp_all add: add_op_def sample_args_def)
  from add_atomic [OF pre(1) _ sample_empty(2) pre(3) sample_add_run(1) pre(2), unfolded lib, OF sample_empty(1)]
  show ?thesis .
qed

text \<open>
  C6: \<^verbatim>\<open>Container.Upsert\<close> is atomic and gives a path, absent or not, the bytes of its source and the
  metadata given.
\<close>

theorem upsert_atomic:
  assumes "env_ok env (cOpts c) wopts" "represents (nLib env) (content d) h bu es s" "caches c h bu es"
    and "run_fits cenv (Tx_Upsert env (cOpts c) path r meta wopts) c d"
    and "Container_Upsert cenv env path r meta wopts c d = Some (res, c', d')" "length (content d') < 2 ^ 63"
  shows "ran (nLib env)
      (\<lambda>s s'. \<exists>q src. normalize path = Inr q \<and> r = Some src \<and> read_to_end src \<and>
         s' = s(q \<mapsto> (fst src, meta)))
      h bu es s (mBuildTime cenv) res c' (content d')"
  using upsert.run_outcome [of "\<lparr>aEnv = env, aOpts = cOpts c, aPath = path, aSource = r, aMeta = meta,
      aWrite = wopts\<rparr>" d h bu es s c cenv res c' d'] assms
  by (simp add: put_pre_def put_effect_def [abs_def] container_ops upsert_op_def)

theorem upsert_atomic_witness:
  "ran sample_lib
      (\<lambda>s s'. \<exists>q src. normalize [97] = Inr q \<and> Some sample_data = Some src \<and> read_to_end src \<and>
         s' = s(q \<mapsto> (fst src, [5])))
      sample_h0 2 [] Map.empty 5 (Inr ()) sample_c1 (content sample_d1)"
proof -
  have lib: "nLib sample_env = sample_lib" "mBuildTime sample_commit = 5"
    by (simp_all add: sample_env_def sample_commit_def)
  have pre: "env_ok sample_env (cOpts sample_c0) None" "length (content sample_d1) < 2 ^ 63"
    "run_fits sample_commit (Tx_Upsert sample_env (cOpts sample_c0) [97] (Some sample_data) [5] None) sample_c0 sample_d0"
    using sample_env_ok sample_add_run(3) sample_upsert_run(2) by (simp_all add: upsert_op_def sample_args_def)
  from upsert_atomic [OF pre(1) _ sample_empty(2) pre(3) sample_upsert_run(1) pre(2), unfolded lib, OF sample_empty(1)]
  show ?thesis .
qed

text \<open>
  C7: \<^verbatim>\<open>Container.Replace\<close> is atomic and changes a path that was present.
\<close>

theorem replace_atomic:
  assumes "env_ok env (cOpts c) wopts" "represents (nLib env) (content d) h bu es s" "caches c h bu es"
    and "run_fits cenv (Tx_Replace env (cOpts c) path r meta wopts) c d"
    and "Container_Replace cenv env path r meta wopts c d = Some (res, c', d')" "length (content d') < 2 ^ 63"
  shows "ran (nLib env)
      (\<lambda>s s'. \<exists>q src. normalize path = Inr q \<and> r = Some src \<and> read_to_end src \<and> s q \<noteq> None \<and>
         s' = s(q \<mapsto> (fst src, meta)))
      h bu es s (mBuildTime cenv) res c' (content d')"
  using replace.run_outcome [of "\<lparr>aEnv = env, aOpts = cOpts c, aPath = path, aSource = r, aMeta = meta,
      aWrite = wopts\<rparr>" d h bu es s c cenv res c' d'] assms
  by (simp add: put_pre_def put_effect_def [abs_def] container_ops replace_op_def del: not_None_eq)

theorem replace_atomic_witness:
  "\<exists>c d. Container_Replace sample_commit sample_env [97] (Some ([], IoEOF)) (replicate 33 0) None
       sample_c1 sample_d1 = Some (Inr (), c, d) \<and>
     (\<exists>h es. represents sample_lib (content d) h 5 es [[97] \<mapsto> ([], replicate 33 0)])"
proof -
  have lib: "nLib sample_env = sample_lib" "mBuildTime sample_commit = 5"
    by (simp_all add: sample_env_def sample_commit_def)
  obtain c d where run: "Container_Replace sample_commit sample_env [97] (Some ([], IoEOF)) (replicate 33 0) None
       sample_c1 sample_d1 = Some (Inr (), c, d)" "length (content d) < 2 ^ 63"
    using sample_replaced(1) by (auto simp: container_ops replace_args_def sample_full(4))
  have pre: "env_ok sample_env (cOpts sample_c1) None"
    "run_fits sample_commit (Tx_Replace sample_env (cOpts sample_c1) [97] (Some ([], IoEOF)) (replicate 33 0) None)
      sample_c1 sample_d1"
    using sample_env_ok sample_replaced(2) by (simp_all add: replace_op_def replace_args_def sample_full(4))
  from replace_atomic [OF pre(1) _ sample_full(2) pre(2) run, unfolded lib, OF sample_full(1)] run(1)
  show ?thesis by (auto simp: ran_def sample_path sample_store_def)
qed

text \<open>
  C8: \<^verbatim>\<open>Container.Remove\<close> is atomic and removes a path that was present, and only that one.
\<close>

theorem remove_atomic:
  assumes "represents L (content d) h bu es s" "caches c h bu es"
    and "run_fits cenv (remove_op (L, path)) c d"
    and "Container_Remove cenv path c d = Some (res, c', d')" "length (content d') < 2 ^ 63"
  shows "ran L (\<lambda>s s'. \<exists>q. normalize path = Inr q \<and> s q \<noteq> None \<and> s' = s(q := None))
      h bu es s (mBuildTime cenv) res c' (content d')"
  using remove.run_outcome [of "(L, path)" d h bu es s c cenv res c' d'] assms
  by (simp add: remove_effect_def [abs_def] container_ops(4) [where L = L] del: not_None_eq)

theorem remove_atomic_witness:
  "\<exists>c d. Container_Remove sample_commit [97] sample_c1 sample_d1 = Some (Inr (), c, d) \<and>
     (\<exists>h es. represents sample_lib (content d) h 5 es Map.empty)"
proof -
  have bt: "mBuildTime sample_commit = 5" by (simp add: sample_commit_def)
  obtain c d where run: "Container_Remove sample_commit [97] sample_c1 sample_d1 = Some (Inr (), c, d)"
    "length (content d) < 2 ^ 63"
    using sample_removed(1) by (auto simp: container_ops(4) [where L = sample_lib])
  from remove_atomic [OF sample_full(1,2) sample_removed(2) run] run(1)
  show ?thesis by (auto simp: ran_def sample_path sample_store_def bt)
qed

text \<open>
  C9: \<^verbatim>\<open>Container.SetMeta\<close> is atomic and changes the metadata of a path that was present, and not its
  bytes.
\<close>

theorem set_meta_atomic:
  assumes "represents L (content d) h bu es s" "caches c h bu es"
    and "run_fits cenv (meta_op (L, path, meta)) c d"
    and "Container_SetMeta cenv path meta c d = Some (res, c', d')" "length (content d') < 2 ^ 63"
  shows "ran L (\<lambda>s s'. \<exists>q data old. normalize path = Inr q \<and> s q = Some (data, old) \<and>
        s' = s(q \<mapsto> (data, meta)))
      h bu es s (mBuildTime cenv) res c' (content d')"
  using set_meta.run_outcome [of "(L, path, meta)" d h bu es s c cenv res c' d'] assms
  by (simp add: meta_effect_def [abs_def] container_ops(5) [where L = L])

theorem set_meta_atomic_witness:
  "\<exists>c d. Container_SetMeta sample_commit [97] [6] sample_c1 sample_d1 = Some (Inr (), c, d) \<and>
     (\<exists>h es. represents sample_lib (content d) h 5 es [[97] \<mapsto> ([1, 2, 3], [6])])"
proof -
  have bt: "mBuildTime sample_commit = 5" by (simp add: sample_commit_def)
  obtain c d where run: "Container_SetMeta sample_commit [97] [6] sample_c1 sample_d1 = Some (Inr (), c, d)"
    "length (content d) < 2 ^ 63"
    using sample_changed(1) by (auto simp: container_ops(5) [where L = sample_lib])
  from set_meta_atomic [OF sample_full(1,2) sample_changed(2) run] run(1)
  show ?thesis by (auto simp: ran_def sample_path sample_store_def bt)
qed

text \<open>
  C35: an \<^verbatim>\<open>Add\<close> with the codec \<^verbatim>\<open>store\<close> cannot fail for a reason of its own. If no write, sync or lock fails,
  the handle holds no transaction, the path is absent, the source ends without an error, and neither an
  entry limit nor a limit of the format is exceeded, then it returns with success, the file represents
  the container with that entry added, the handle has it cached and holds no transaction, and the file
  has grown by at most 17 bytes for every byte of the source and 4 GiB for the catalogue. Compression,
  which can fail, is left out.
\<close>

theorem add_live:
  assumes "represents (nLib env) (content d) h bu es s" "caches c h bu es"
    and "\<not> cTxHeld c" "plan d = []" "env_ok env (cOpts c) wopts" "stores (cOpts c) wopts"
    and "snd src = IoEOF" "normalize path = Inr q" "s q = None"
    and "length (content d) + 17 * length (fst src) + 2 ^ 32 < 2 ^ 63"
      "oMaxEntrySize (cOpts c) = 0 \<or> length (fst src) \<le> unat (oMaxEntrySize (cOpts c))"
    and "run_fits cenv (\<lambda>tx d. Tx_Add env (cOpts c) path (Some src) meta wopts tx d) c d"
  shows "\<exists>c' d' h' es'. Container_Add cenv env path (Some src) meta wopts c d = Some (Inr (), c', d') \<and>
    represents (nLib env) (content d') h' (mBuildTime cenv) es' (s(q \<mapsto> (fst src, meta))) \<and>
    caches c' h' (mBuildTime cenv) es' \<and> \<not> cTxHeld c' \<and> plan d' = [] \<and>
    length (content d') \<le> length (content d) + 17 * length (fst src) + 2 ^ 32"
proof -
  obtain c' d' where r: "Container_Add cenv env path (Some src) meta wopts c d = Some (Inr (), c', d')" "plan d' = []"
    "length (content d') \<le> length (content d) + 17 * length (fst src) + 2 ^ 32"
    using add_succeeds [OF assms] by blast
  have "ran (nLib env)
      (put_effect (\<lambda>x. x = None) \<lparr>aEnv = env, aOpts = cOpts c, aPath = path, aSource = Some src, aMeta = meta,
         aWrite = wopts\<rparr>) h bu es s (mBuildTime cenv) (Inr ()) c' (content d')"
    using add.run_outcome [of "\<lparr>aEnv = env, aOpts = cOpts c, aPath = path, aSource = Some src, aMeta = meta,
        aWrite = wopts\<rparr>" d h bu es s c cenv "Inr ()" c' d'] assms r
    by (simp add: put_pre_def container_ops add_op_def)
  then show ?thesis using r assms(8) by (auto simp: ran_def put_effect_def)
qed

theorem add_live_witness:
  "\<exists>c d h es. Container_Add sample_commit sample_env [97] (Some sample_data) [5] None sample_c0 sample_d0 =
     Some (Inr (), c, d) \<and>
   represents (nLib sample_env) (content d) h (mBuildTime sample_commit) es (Map.empty([97] \<mapsto> (fst sample_data, [5]))) \<and>
   caches c h (mBuildTime sample_commit) es \<and> \<not> cTxHeld c \<and> plan d = [] \<and>
   length (content d) \<le> length (content sample_d0) + 17 * length (fst sample_data) + 2 ^ 32"
proof (rule add_live)
  show "represents (nLib sample_env) (content sample_d0) sample_h0 2 [] Map.empty"
    using sample_empty(1) by (simp add: sample_env_def)
  show "run_fits sample_commit
     (Tx_Add sample_env (cOpts sample_c0) [97] (Some sample_data) [5] None) sample_c0 sample_d0"
    using sample_run_fits by (simp add: add_op_def sample_args_def)
qed (use sample_empty(2) sample_created(2) sample_env_ok sample_stores sample_path in
     \<open>simp_all add: sample_d0_length sample_data_def defaultOptions_def\<close>)

section \<open>Commit and recovery\<close>

text \<open>
  C2: \<^verbatim>\<open>Commit\<close> closes the transaction and lets go of the container in every case. A success makes
  the file represent what the transaction stands for, with the new header and the container's cache
  in step. A failure at any write or sync, with any part of it done, leaves the old container, the
  new one, or a torn header with the new one in the backup slot; nothing else can be there.
\<close>

theorem commit_atomic:
  assumes "represents L f0 old bu0 es0 s0" "cHeader c = old" "cFormatVersion c = VersionV1" "cFile c"
    and "tx_inv L 256 (content d) tx s" "length f0 \<le> unat (tAppendOffset tx)"
      "same 0 (length f0) f0 (content d)" "\<not> tClosed tx"
    and "commit_fits c tx (mBuildTime env)"
    and "Commit env c tx d = (r, tx', c', d')" "length (content d') < 2 ^ 63"
  shows "tClosed tx' \<and> \<not> cTxHeld c' \<and> cOpts c' = cOpts c \<and>
    (let h = new_header c tx (mBuildTime env); es = commit_entries tx in
     case r of
       Inr _ \<Rightarrow> represents L (content d') h (mBuildTime env) es s \<and> caches c' h (mBuildTime env) es
     | Inl _ \<Rightarrow>
         represents L (content d') old bu0 es0 s0 \<or> represents L (content d') h (mBuildTime env) es s \<or>
         torn (content d') old h (mBuildTime env) es)"
  using commit_outcome [OF assms] by (cases r) (simp_all add: Let_def)

theorem commit_atomic_witness:
  "\<exists>d tx'. Commit sample_commit (sample_c0\<lparr>cTxHeld := True\<rparr>) sample_tx1 d =
       (Inr (), tx', sample_c1, sample_d1) \<and> tClosed tx' \<and> caches sample_c1 sample_h1 5 sample_es1"
proof -
  have bt: "mBuildTime sample_commit = 5" by (simp add: sample_commit_def)
  have len: "length (content sample_d1) < 2 ^ 63" using sample_add_run(3) by simp
  obtain d tx' where c: "Commit sample_commit (sample_c0\<lparr>cTxHeld := True\<rparr>) sample_tx1 d =
      (Inr (), tx', sample_c1, sample_d1)"
    "tx_inv sample_lib 256 (content d) sample_tx1 sample_store"
    "same 0 (length (content sample_d0)) (content sample_d0) (content d)"
    by (rule sample_committed)
  from commit_atomic [OF sample_empty(1) sample_tx1_facts(3-5) c(2) sample_tx1_facts(1) c(3)
      sample_tx1_facts(2) sample_commit_fits [folded bt] c(1) len, unfolded bt sample_entries] c(1)
  show ?thesis by (auto simp: Let_def sample_h1_def sample_es1_def)
qed

text \<open>
  C3: a file with a torn header that cannot be loaded as it is opens with the catalogue of the new
  header, taken from the backup slot, and the header at the start of the file is repaired.
\<close>

theorem torn_header_recovered:
  assumes "torn (content d) old h bu es" "loads_badly (content d)"
  shows "Open L procs opts d = (Inr (opened (effectiveOptions procs opts) h bu es),
      persistRecoveredHeader d h) \<and>
    (plan d = [] \<longrightarrow> holds (content (persistRecoveredHeader d h)) h bu es)"
  using open_torn [OF assms] by blast

theorem torn_header_recovered_witness:
  "\<exists>c d. Open sample_lib 1 None \<lparr>content = torn_file, plan = []\<rparr> = (Inr c, d) \<and>
     holds (content d) sample_h0 2 []"
  using torn_header_recovered [of "\<lparr>content = torn_file, plan = []\<rparr>"] sample_torn by auto

section \<open>Reading\<close>

text \<open>
  C29: \<^verbatim>\<open>Stat\<close> of a path gives the size and the metadata of what is stored under it, and
  \<^verbatim>\<open>ErrNotFound\<close> exactly for the absent ones.
\<close>

theorem stat_correct:
  assumes "represents L f h bu es s" "caches c h bu es" "normalize path = Inr q"
  shows "case s q of
      None \<Rightarrow> Stat c path = Inl ErrNotFound
    | Some (data, meta) \<Rightarrow>
        \<exists>i. Stat c path = Inr i \<and> iPath i = q \<and> unat (iSize i) = length data \<and> iMeta i = meta"
  using assms by (rule stat_outcome)

theorem stat_correct_witness:
  "\<exists>i. Stat sample_c1 [97] = Inr i \<and> iPath i = [97] \<and> unat (iSize i) = 3 \<and> iMeta i = [5]"
  using stat_correct [OF sample_full(1,2) sample_path] by (simp add: sample_store_def numeral_3_eq_3)

text \<open>
  C28: \<^verbatim>\<open>Extract\<close> writes the stored bytes, all of them, or stops with \<^verbatim>\<open>ErrLimitExceeded\<close> after a part
  of them, and that only if one of the two limits is set.
\<close>

theorem extract_correct:
  assumes "represents L f h bu es s" "caches c h bu es" "normalize path = Inr q"
  shows "case s q of
      None \<Rightarrow> Extract L c f path = Some ([], Inl ErrNotFound)
    | Some (data, meta) \<Rightarrow>
        \<exists>out rest. data = out @ rest \<and>
          (Extract L c f path = Some (out, Inr ()) \<and> rest = [] \<or>
           Extract L c f path = Some (out, Inl ErrLimitExceeded) \<and>
             (oMaxEntrySize (cOpts c) > 0 \<or> oMaxChunkSize (cOpts c) > 0))"
  using assms by (rule extract_outcome)

theorem extract_correct_witness:
  "Extract sample_lib sample_c1 (content sample_d1) [97] = Some ([1, 2, 3], Inr ())"
  using extract_correct [OF sample_full(1,2) sample_path] sample_full(4)
  by (auto simp: sample_store_def defaultOptions_def)

text \<open>
  \<^verbatim>\<open>List\<close> delivers one record for each stored path, sorted by path, with its size and metadata,
  and leaves the container's cache valid.
\<close>

theorem list_correct:
  assumes "represents L f h bu es s" "caches c h bu es"
  shows "\<exists>vs c'. container_List c f = (newSliceIterator vs None, c') \<and> caches c' h bu es \<and>
    sorted (map iPath vs) \<and> distinct (map iPath vs) \<and>
    (\<forall>q. info_view vs q = map_option (\<lambda>(data, meta). (length data, meta)) (s q))"
  by (rule list_outcome [OF assms]) blast

theorem list_correct_witness:
  "\<exists>vs c'. container_List sample_c1 (content sample_d1) = (newSliceIterator vs None, c') \<and>
     info_view vs [97] = Some (3, [5])"
  using list_correct [OF sample_full(1,2)] by (fastforce simp: sample_store_def)

text \<open>
  C30: what an answer of \<^verbatim>\<open>Verify\<close> says, for each of its modes, on an open container. It fails exactly if the
  catalogue cannot be loaded, the directory the header points to is not valid, or a chunk the mode looks
  at is bad (\<open>checked_refs\<close>: none, the first of each entry, all), and then it reports an error. So only
  after the mode for all chunks without an error every entry, whatever its size, can be read to its end
  with the checksums checked. A file that represents a container passes every mode if no limit on chunks
  is set.
\<close>

theorem verify_correct:
  assumes "cFile c" "cFormatVersion c = VersionV1" and "Verify L c f vopts = ((report, failed), c')"
  shows "(failed \<longleftrightarrow> vErrors report \<noteq> []) \<and>
    (\<not> failed \<longleftrightarrow>
      (\<exists>m. ensureEntriesLoaded c f = (Inr (), c') \<and> cEntries c' = Some m \<and>
         validateHeaderDirectory f (cHeader c') = Inr () \<and>
         (\<forall>(k, e) \<in> set m. \<forall>ref \<in> set (checked_refs vopts e). ref_good L f (oMaxChunkSize (cOpts c')) ref))) \<and>
    (\<not> failed \<longrightarrow> vopts = Some VerifyAllChunks \<longrightarrow>
      (\<forall>(k, e) \<in> set (the (cEntries c')).
         \<exists>data. stream_from L f True 0 (oMaxChunkSize (cOpts c')) 0 (Chunks e) = (data, IoEOF))) \<and>
    (represents L f h bu es s \<longrightarrow> caches c h bu es \<longrightarrow> oMaxChunkSize (cOpts c) = 0 \<longrightarrow>
      \<not> failed \<and> caches c' h bu es)"
proof (intro conjI impI)
  note v = verify_verdict [OF assms]
  show "failed \<longleftrightarrow> vErrors report \<noteq> []" by (rule v(2))
  show "\<not> failed \<longleftrightarrow>
      (\<exists>m. ensureEntriesLoaded c f = (Inr (), c') \<and> cEntries c' = Some m \<and>
         validateHeaderDirectory f (cHeader c') = Inr () \<and>
         (\<forall>(k, e) \<in> set m. \<forall>ref \<in> set (checked_refs vopts e). ref_good L f (oMaxChunkSize (cOpts c')) ref))"
    by (rule v(1))
  assume "\<not> failed" "vopts = Some VerifyAllChunks"
  then show "\<forall>(k, e) \<in> set (the (cEntries c')).
         \<exists>data. stream_from L f True 0 (oMaxChunkSize (cOpts c')) 0 (Chunks e) = (data, IoEOF)"
    using verify_all_readable [OF assms(1,2)] assms(3) by auto
next
  assume "represents L f h bu es s" "caches c h bu es" "oMaxChunkSize (cOpts c) = 0"
  from verify_represented_any [OF this, of vopts] show "\<not> failed" "caches c' h bu es"
    using assms(3) by auto
qed

theorem verify_correct_witness:
  "\<exists>report c'. Verify sample_lib sample_c1 (content sample_d1) (Some VerifyAllChunks) = ((report, False), c') \<and>
     vErrors report = [] \<and> caches c' sample_h1 5 sample_es1 \<and>
     (\<forall>ref \<in> set (Chunks sample_file). ref_good sample_lib (content sample_d1) 0 ref)"
proof -
  have c: "cFile sample_c1" "cFormatVersion sample_c1 = VersionV1" "oMaxChunkSize (cOpts sample_c1) = 0"
    using sample_full(2) by (simp_all add: caches_def sample_full(4) defaultOptions_def)
  obtain report failed c' where v: "Verify sample_lib sample_c1 (content sample_d1) (Some VerifyAllChunks) =
      ((report, failed), c')" by (metis surj_pair)
  note vc = verify_correct [OF c(1,2) v, of sample_h1 5 sample_es1 sample_store]
  then have ok: "\<not> failed" "caches c' sample_h1 5 sample_es1" "vErrors report = []"
    using sample_full(1,2) c(3) by blast+
  then obtain m where m: "ensureEntriesLoaded sample_c1 (content sample_d1) = (Inr (), c')" "cEntries c' = Some m"
    "\<forall>(k, e) \<in> set m. \<forall>ref \<in> set (checked_refs (Some VerifyAllChunks) e).
      ref_good sample_lib (content sample_d1) (oMaxChunkSize (cOpts c')) ref"
    using vc by blast
  have "c' = sample_c1" using m(1) sample_full(5) by (simp add: ensureEntriesLoaded_def)
  then have "\<forall>ref \<in> set (Chunks sample_file). ref_good sample_lib (content sample_d1) 0 ref"
    using m(2,3) sample_full(5) c(3) by (auto simp: checked_refs_def)
  then show ?thesis using v ok by auto
qed

section \<open>Operations on many entries\<close>

text \<open>
  \<^verbatim>\<open>RemovePrefix\<close> removes exactly the path itself and the paths below it, never a path that only
  shares the letters, reports their number, and leaves a table that stands for the rest.
\<close>

theorem remove_prefix_correct:
  assumes "tx_inv L lo f tx s" "Tx_RemovePrefix prefix tx = ((removed, err), tx')"
    and "\<not> tClosed tx" "normalizePrefix prefix = Inr q"
  shows "tx_inv L lo f tx' (s |` (- {p. under q p})) \<and> removed = card {p \<in> dom s. under q p} \<and> err = None"
proof -
  have "dom s \<inter> Collect (under q) = {p \<in> dom s. under q p}" by blast
  then show ?thesis using removePrefix_outcome [OF assms] by simp
qed

theorem remove_prefix_correct_witness:
  "\<exists>tx. Tx_RemovePrefix [97] sample_tx2 = ((1, None), tx) \<and>
     tx_inv sample_lib 256 (content sample_d1) tx Map.empty"
proof -
  obtain removed err tx where r: "Tx_RemovePrefix [97] sample_tx2 = ((removed, err), tx)" by (metis surj_pair)
  have n: "normalizePrefix [97] = Inr [97]"
    by (simp add: normalizePrefix_def to_slash_def path_clean_def Let_def utf8_valid.simps bad_part_def)
  have u: "{p \<in> dom sample_store. under [97] p} = {[97]}" "sample_store |` (- {p. under [97] p}) = Map.empty"
    by (auto simp: sample_store_def under_def restrict_map_def)
  from remove_prefix_correct [OF sample_inv1 r sample_table(2) n, unfolded u] r
  show ?thesis by simp
qed

text \<open>
  The order in which Go's random map iteration visits the entries does not matter to a removal
  by predicate: same number, same table, same counters of dead bytes and changes.
\<close>

theorem removal_order_irrelevant:
  assumes "remove_selected (\<lambda>x. Inr (sel x)) (tEntries tx) 0 tx = ((n1, err1), tx1)"
    and "remove_selected (\<lambda>x. Inr (sel x)) es 0 (tx\<lparr>tEntries := es\<rparr>) = ((n2, err2), tx2)"
    and "mset es = mset (tEntries tx)" and "distinct (map fst (tEntries tx))"
  shows "n1 = n2 \<and> map_of (tEntries tx1) = map_of (tEntries tx2) \<and>
    tDeadBytes tx1 = tDeadBytes tx2 \<and> tChurnOps tx1 = tChurnOps tx2"
  using assms by (rule remove_selected_order)

definition sample_pair :: entry_map where
  "sample_pair = [([97], sample_file), ([98], sample_file\<lparr>Path := [98]\<rparr>)]"

theorem removal_order_irrelevant_witness:
  "\<exists>n1 e1 tx1 n2 e2 tx2.
     remove_selected (\<lambda>x. Inr (fst x = [97])) sample_pair 0 (sample_tx2\<lparr>tEntries := sample_pair\<rparr>) = ((n1, e1), tx1) \<and>
     remove_selected (\<lambda>x. Inr (fst x = [97])) (rev sample_pair) 0 (sample_tx2\<lparr>tEntries := rev sample_pair\<rparr>) =
       ((n2, e2), tx2) \<and>
     n1 = n2 \<and> tDeadBytes tx1 = tDeadBytes tx2"
proof -
  obtain n1 e1 tx1 n2 e2 tx2 where r:
    "remove_selected (\<lambda>x. Inr (fst x = [97])) sample_pair 0 (sample_tx2\<lparr>tEntries := sample_pair\<rparr>) = ((n1, e1), tx1)"
    "remove_selected (\<lambda>x. Inr (fst x = [97])) (rev sample_pair) 0 (sample_tx2\<lparr>tEntries := rev sample_pair\<rparr>) =
       ((n2, e2), tx2)" by (metis surj_pair)
  have "distinct (map fst sample_pair)" by (simp add: sample_pair_def)
  then show ?thesis
    using removal_order_irrelevant [of "\<lambda>x. fst x = [97]" "sample_tx2\<lparr>tEntries := sample_pair\<rparr>" n1 e1 tx1
        "rev sample_pair" n2 e2 tx2] r by auto
qed

section \<open>Packing\<close>

text \<open>
  C4: \<^verbatim>\<open>Pack\<close> in place either succeeds, and the file under the name then represents the same paths
  with the same bytes (and metadata, unless it is to be cleared), or fails, at any of its steps, and
  the file is byte for byte what it was.
\<close>

theorem pack_in_place_safe:
  assumes "fs inPath = Some f" "represents (peLib (pkEnv os)) f h bu es s" "\<forall>q \<in> dom s. path_safe q"
    and "pack_inputs os (pack_config opts) f" "pkSuffix os \<noteq> []"
    and "Pack os inPath inPath opts fs = Some (r, fs')" "\<And>p g. fs' p = Some g \<Longrightarrow> length g < 2 ^ 63"
  shows "case r of
      Inl e \<Rightarrow> fs' inPath = Some f
    | Inr _ \<Rightarrow> \<exists>g h' es'. fs' inPath = Some g \<and>
        represents (peLib (pkEnv os)) g h' (mBuildTime (peCommit (pkEnv os))) es'
          (repacked (pack_config opts) s)"
  using assms by (rule pack_in_place)

theorem pack_in_place_safe_witness:
  "\<exists>fs. Pack sample_os [105] [105] None [[105] \<mapsto> created_file sample_create] = Some (Inr (), fs) \<and>
     (\<exists>g h es. fs [105] = Some g \<and> represents sample_lib g h 5 es Map.empty)"
proof -
  obtain g where run: "Pack sample_os [105] [105] None [[105] \<mapsto> created_file sample_create] =
      Some (Inr (), [[105] \<mapsto> g])" "length g < 2 ^ 63" using sample_pack(1) by blast
  have env: "peLib (pkEnv sample_os) = sample_lib" "mBuildTime (peCommit (pkEnv sample_os)) = 5"
    "pkSuffix sample_os \<noteq> []"
    by (simp_all add: sample_os_def pack_sample_env_def sample_commit_def)
  have rep: "represents (peLib (pkEnv sample_os)) (created_file sample_create) sample_h0 2 [] Map.empty"
    using sample_empty(1) by (simp add: sample_d0_eq env)
  have len: "\<And>p x. [[105] \<mapsto> g] p = Some x \<Longrightarrow> length x < 2 ^ 63" using run(2) by (simp split: if_splits)
  from pack_in_place_safe [OF _ rep _ sample_pack(2) env(3) run(1) len] run(1)
  show ?thesis by (auto simp: env repacked_def)
qed

text \<open>
  C37: a \<^verbatim>\<open>Pack\<close> whose input is missing deletes the file it was to write, even one that was there
  before and that it has not touched.
\<close>

theorem pack_missing_input:
  assumes "fs inPath = None" "inPath \<noteq> []" "outPath \<noteq> []" "pkAbs os inPath = Inr a"
    "pkAbs os outPath = Inr b" "a \<noteq> b" "pkRemoves os"
  shows "Pack os inPath outPath opts fs = Some (Inl osNotExist, fs(outPath := None))"
  using assms by (rule pack_failure_removes_output)

theorem pack_missing_input_witness:
  "Pack sample_os [105] [111] None [[111] \<mapsto> [1]] = Some (Inl osNotExist, Map.empty)"
proof -
  have "([[111] \<mapsto> [1]] :: files)([111] := None) = Map.empty" by auto
  then show ?thesis
    using pack_missing_input [of "[[111] \<mapsto> [1]]" "[105]" "[111]" sample_os "[105]" "[111]" None]
    by (simp add: sample_os_def)
qed

end
